(* ===== verification/Kernel_Prelude.thy ===== *)
theory Kernel_Prelude
  imports Main "HOL-Library.Word" "HOL-Library.Sublist"
begin

text \<open>
  The shared vocabulary of the development: the machine integer types of the
  C sources, the two search loops that recur in every static table of the
  kernel (the first matching slot of an array), the index arithmetic of its
  ring buffers, and the interfaces that several components implement: a
  bounded FIFO and a pool of resources that are handed out and returned.
\<close>

unbundle bit_operations_syntax

section \<open>Machine types\<close>

type_synonym u8 = "8 word"
type_synonym u16 = "16 word"
type_synonym u32 = "32 word"
type_synonym u64 = "64 word"

text \<open>
  A fixed-size C array is a function on its indices; the components prove
  that they only ever use indices below the array's size.
\<close>

type_synonym 'a array = "nat \<Rightarrow> 'a"

named_theorems kdefs \<open>unfolding rules of the operations of a component\<close>
named_theorems kinv \<open>invariant preservation rules\<close>

lemma unat_less_exp: "unat w < 2 ^ LENGTH('a)" for w :: "'a::len word"
  by (rule unsigned_less)

section \<open>First matching slot\<close>

text \<open>
  \<open>for (int i = 0; i < n; i++) if (P(i)) return i;\<close> started at index \<open>i\<close>
  with \<open>n\<close> slots left to visit.
\<close>

primrec scan_from :: "(nat \<Rightarrow> bool) \<Rightarrow> nat \<Rightarrow> nat \<Rightarrow> nat option" where
  "scan_from P i 0 = None"
| "scan_from P i (Suc n) = (if P i then Some i else scan_from P (Suc i) n)"

definition first_slot :: "(nat \<Rightarrow> bool) \<Rightarrow> nat \<Rightarrow> nat option" where
  "first_slot P n = scan_from P 0 n"

lemma scan_from_SomeD:
  "scan_from P i n = Some k \<Longrightarrow>
     i \<le> k \<and> k < i + n \<and> P k \<and> (\<forall>j. i \<le> j \<and> j < k \<longrightarrow> \<not> P j)"
proof (induction n arbitrary: i)
  case (Suc n)
  show ?case
  proof (cases "P i")
    case True
    with Suc.prems show ?thesis by auto
  next
    case False
    with Suc.prems have "scan_from P (Suc i) n = Some k" by simp
    from Suc.IH [OF this] False show ?thesis
      by (metis Suc_leD Suc_leI add_Suc_right add_Suc_shift le_neq_implies_less)
  qed
qed simp

lemma scan_from_None_iff:
  "scan_from P i n = None \<longleftrightarrow> (\<forall>j. i \<le> j \<and> j < i + n \<longrightarrow> \<not> P j)"
proof (induction n arbitrary: i)
  case (Suc n)
  have "(\<forall>j. i \<le> j \<and> j < i + Suc n \<longrightarrow> \<not> P j) \<longleftrightarrow>
        \<not> P i \<and> (\<forall>j. Suc i \<le> j \<and> j < Suc i + n \<longrightarrow> \<not> P j)"
    by (metis Suc_leD Suc_le_eq add_Suc add_Suc_right le_add1 le_neq_implies_less
        less_add_Suc1 order_refl)
  then show ?case by (simp add: Suc.IH)
qed auto

lemma first_slot_SomeD:
  "first_slot P n = Some k \<Longrightarrow> k < n \<and> P k \<and> (\<forall>j<k. \<not> P j)"
  using scan_from_SomeD [of P 0 n k] by (simp add: first_slot_def)

lemma first_slot_None_iff: "first_slot P n = None \<longleftrightarrow> (\<forall>j<n. \<not> P j)"
  by (simp add: first_slot_def scan_from_None_iff)

lemma first_slot_Some_ex:
  assumes "k < n" "P k"
  obtains j where "first_slot P n = Some j" "j \<le> k"
proof -
  from assms obtain j where j: "first_slot P n = Some j"
    by (metis first_slot_None_iff not_None_eq)
  with assms have "j \<le> k" using first_slot_SomeD [OF j] by (meson not_less)
  with j show thesis by (rule that)
qed

lemma first_slot_eq_Some:
  "first_slot P n = Some k \<longleftrightarrow> k < n \<and> P k \<and> (\<forall>j<k. \<not> P j)"
proof
  assume "k < n \<and> P k \<and> (\<forall>j<k. \<not> P j)"
  then obtain j where "first_slot P n = Some j" "j \<le> k"
    using first_slot_Some_ex [of k n P] by blast
  with first_slot_SomeD [of P n j] \<open>k < n \<and> P k \<and> (\<forall>j<k. \<not> P j)\<close>
  show "first_slot P n = Some k" by (metis le_neq_implies_less)
qed (rule first_slot_SomeD)

lemma first_slot_cong:
  "(\<And>i. i < n \<Longrightarrow> P i = Q i) \<Longrightarrow> first_slot P n = first_slot Q n"
proof -
  assume eq: "\<And>i. i < n \<Longrightarrow> P i = Q i"
  show ?thesis
  proof (cases "first_slot Q n")
    case None
    then have "first_slot P n = None" using eq by (simp add: first_slot_None_iff)
    with None show ?thesis by simp
  next
    case (Some k)
    then have "k < n" "Q k" "\<forall>j<k. \<not> Q j" by (auto dest: first_slot_SomeD)
    then have "first_slot P n = Some k" using eq by (simp add: first_slot_eq_Some)
    with Some show ?thesis by simp
  qed
qed

section \<open>Counting loops with an early return\<close>

text \<open>
  \<open>for (i = i0; i < i0 + k; i++) { ... if (...) return; }\<close>: the body says
  whether the loop goes on, and the result whether it ran to its end.
\<close>

primrec for_each :: "(nat \<Rightarrow> 's \<Rightarrow> bool \<times> 's) \<Rightarrow> nat \<Rightarrow> nat \<Rightarrow> 's \<Rightarrow> bool \<times> 's" where
  "for_each body i 0 s = (True, s)"
| "for_each body i (Suc k) s =
     (let (go, s1) = body i s in if go then for_each body (Suc i) k s1 else (False, s1))"

lemma for_each_invariant:
  assumes "I s" "\<And>j s. i \<le> j \<Longrightarrow> j < i + k \<Longrightarrow> I s \<Longrightarrow> I (snd (body j s))"
  shows "I (snd (for_each body i k s))"
  using assms
proof (induction k arbitrary: i s)
  case (Suc k)
  obtain go s1 where b: "body i s = (go, s1)" by (cases "body i s")
  have "I s1" using Suc.prems(2) [of i s] Suc.prems(1) b by simp
  moreover have "I (snd (for_each body (Suc i) k s1))"
    by (rule Suc.IH [OF \<open>I s1\<close>]) (use Suc.prems(2) in auto)
  ultimately show ?case by (simp add: b)
qed simp

section \<open>Linked lists\<close>

text \<open>
  The kernel's intrusive lists link elements by index or by address.  \<open>path f p xs\<close>:
  following \<open>f\<close> from the pointer \<open>p\<close> visits exactly \<open>xs\<close>.  \<open>chase\<close> is the
  loop that follows the links until an element satisfies \<open>P\<close>; its fuel bounds
  the number of elements visited.
\<close>

primrec path :: "('a \<Rightarrow> 'a option) \<Rightarrow> 'a option \<Rightarrow> 'a list \<Rightarrow> bool" where
  "path nxt p [] \<longleftrightarrow> p = None"
| "path nxt p (a # as) \<longleftrightarrow> p = Some a \<and> path nxt (nxt a) as"

lemma path_cong: "(\<And>a. a \<in> set xs \<Longrightarrow> f a = g a) \<Longrightarrow> path f p xs = path g p xs"
  by (induction xs arbitrary: p) auto

lemma path_unique: "path f p xs \<Longrightarrow> path f p ys \<Longrightarrow> xs = ys"
proof (induction xs arbitrary: p ys)
  case (Cons a xs)
  then show ?case by (cases ys) auto
qed (auto, metis option.distinct(1) path.simps(2) list.exhaust)

lemma path_outside: "b \<notin> set xs \<Longrightarrow> path (f(b := v)) p xs = path f p xs"
  by (rule path_cong) auto

primrec chase :: "nat \<Rightarrow> (nat \<Rightarrow> bool) \<Rightarrow> (nat \<Rightarrow> nat option) \<Rightarrow> nat option \<Rightarrow> nat option" where
  "chase 0 P f p = None"
| "chase (Suc n) P f p =
     (case p of None \<Rightarrow> None | Some i \<Rightarrow> if P i then Some i else chase n P f (f i))"

lemma chase_None [simp]: "chase n P f None = None"
  by (cases n) simp_all

lemma chase_hit: "P i \<Longrightarrow> 0 < n \<Longrightarrow> chase n P f (Some i) = Some i"
  by (cases n) simp_all

lemma chase_path: "path f p xs \<Longrightarrow> length xs \<le> n \<Longrightarrow> chase n P f p = find P xs"
proof (induction n arbitrary: p xs)
  case (Suc n)
  then show ?case by (cases xs) auto
qed simp

text \<open>The first \<open>n\<close> elements of a linked list.\<close>

primrec walk :: "nat \<Rightarrow> (nat \<Rightarrow> nat option) \<Rightarrow> nat option \<Rightarrow> nat list" where
  "walk 0 f p = []"
| "walk (Suc n) f p = (case p of None \<Rightarrow> [] | Some i \<Rightarrow> i # walk n f (f i))"

lemma walk_path: "path f p xs \<Longrightarrow> length xs \<le> n \<Longrightarrow> walk n f p = xs"
proof (induction n arbitrary: p xs)
  case (Suc n)
  then show ?case by (cases xs) auto
qed simp

lemma find_SomeD: "find P xs = Some x \<Longrightarrow> x \<in> set xs \<and> P x"
  by (induction xs) (auto split: if_splits)

lemma path_append_mid:
  "path f p (ys @ b # zs) \<Longrightarrow> (ys = [] \<longrightarrow> p = Some b) \<and> (ys \<noteq> [] \<longrightarrow> p = Some (hd ys)) \<and> path f (f b) zs"
  by (induction ys arbitrary: p) (auto split: if_splits)

lemma path_start: "path f p xs \<Longrightarrow> p = (case xs of [] \<Rightarrow> None | x # _ \<Rightarrow> Some x)"
  by (cases xs) auto

text \<open>Unlinking an element: its predecessor (or the list's head) takes its link.\<close>

lemma path_remove:
  "path f p (ys @ b # zs) \<Longrightarrow> distinct (ys @ b # zs) \<Longrightarrow>
   path (if ys = [] then f else f(last ys := f b)) (if ys = [] then f b else p) (ys @ zs)"
proof (induction ys arbitrary: p)
  case (Cons y ys)
  then have p: "p = Some y" "path f (f y) (ys @ b # zs)" and d: "distinct (ys @ b # zs)" "y \<notin> set ys" "y \<notin> set zs"
    by auto
  show ?case
  proof (cases "ys = []")
    case True
    then show ?thesis using p d path_outside [of y zs f "f b" "f b"] by (simp add: fun_upd_def)
  next
    case False
    then have "path (f(last ys := f b)) (f y) (ys @ zs)" using Cons.IH [OF p(2) d(1)] by (simp only: if_False)
    moreover have "y \<noteq> last ys" using d False by auto
    ultimately show ?thesis using p False by (simp add: fun_upd_def)
  qed
qed simp

lemma path_snoc_link: "path f p (ys @ a # b # zs) \<Longrightarrow> f a = Some b"
  by (induction ys arbitrary: p) auto

section \<open>Ring buffers\<close>

text \<open>The \<open>n\<close> elements of a ring of size \<open>N\<close> from index \<open>rd\<close> on, oldest first.\<close>

definition ring_contents :: "'a array \<Rightarrow> nat \<Rightarrow> nat \<Rightarrow> nat \<Rightarrow> 'a list" where
  "ring_contents buf rd n N = map (\<lambda>i. buf ((rd + i) mod N)) [0..<n]"

lemma length_ring_contents [simp]: "length (ring_contents buf rd n N) = n"
  by (simp add: ring_contents_def)

lemma ring_contents_0 [simp]: "ring_contents buf rd 0 N = []"
  by (simp add: ring_contents_def)

lemma ring_slot_neq:
  fixes rd i n N :: nat
  assumes "i < n" "n < N"
  shows "(rd + i) mod N \<noteq> (rd + n) mod N"
proof
  assume "(rd + i) mod N = (rd + n) mod N"
  then have "N dvd (rd + n) - (rd + i)" by (metis mod_eq_dvd_iff_nat nat_add_left_cancel_le assms(1) less_imp_le)
  then have "N dvd n - i" by simp
  with assms show False by (meson dvd_imp_le less_imp_diff_less not_less zero_less_diff)
qed

lemma ring_push:
  assumes "n < N"
  shows "ring_contents (buf((rd + n) mod N := x)) rd (Suc n) N = ring_contents buf rd n N @ [x]"
  using assms by (simp add: ring_contents_def ring_slot_neq)

lemma ring_pop:
  assumes "0 < n"
  shows "ring_contents buf rd n N = buf (rd mod N) # ring_contents buf (Suc rd mod N) (n - 1) N"
proof -
  obtain m where m: "n = Suc m" using assms by (cases n) auto
  have "[0..<n] = 0 # map Suc [0..<m]"
    by (simp only: m upt_conv_Cons map_Suc_upt zero_less_Suc)
  then show ?thesis
    by (simp add: ring_contents_def m mod_simps)
qed

lemma ring_contents_upd_outside:
  assumes "\<And>i. i < n \<Longrightarrow> k \<noteq> (rd + i) mod N"
  shows "ring_contents (buf(k := x)) rd n N = ring_contents buf rd n N"
  using assms by (fastforce simp: ring_contents_def)

text \<open>
  Two ways the kernel tells a full ring from an empty one: an explicit count
  of the occupied slots, or a slot that is never filled, in which case the
  occupancy is the distance from the read to the write index.
\<close>

definition ring_gap :: "nat \<Rightarrow> nat \<Rightarrow> nat \<Rightarrow> nat" where
  "ring_gap rd wr N = (wr + N - rd) mod N"

lemma ring_gap_less [simp]: "0 < N \<Longrightarrow> ring_gap rd wr N < N"
  by (simp add: ring_gap_def)

lemma ring_gap_le:
  "\<lbrakk>rd < N; wr < N; rd \<le> wr\<rbrakk> \<Longrightarrow> ring_gap rd wr N = wr - rd"
  by (simp add: ring_gap_def mod_if)

lemma ring_gap_gt:
  "\<lbrakk>rd < N; wr < N; wr < rd\<rbrakk> \<Longrightarrow> ring_gap rd wr N = wr + N - rd"
  by (simp add: ring_gap_def)

lemma ring_gap_eq_0:
  assumes "rd < N" "wr < N"
  shows "ring_gap rd wr N = 0 \<longleftrightarrow> rd = wr"
  using assms by (cases "rd \<le> wr") (auto simp: ring_gap_le ring_gap_gt)

lemma ring_gap_wr:
  assumes "rd < N" "wr < N"
  shows "(rd + ring_gap rd wr N) mod N = wr"
  using assms by (cases "rd \<le> wr") (auto simp: ring_gap_le ring_gap_gt)

lemma Suc_mod_cases:
  "i < N \<Longrightarrow> Suc i mod N = (if Suc i = N then 0 else Suc i)" for i N :: nat
  by simp

lemma ring_gap_push:
  assumes "rd < N" "wr < N" "Suc wr mod N \<noteq> rd"
  shows "ring_gap rd (Suc wr mod N) N = Suc (ring_gap rd wr N)"
  using assms by (cases "rd \<le> wr"; cases "Suc wr = N") (auto simp: ring_gap_le ring_gap_gt)

lemma ring_gap_full:
  assumes "rd < N" "wr < N"
  shows "Suc wr mod N = rd \<longleftrightarrow> Suc (ring_gap rd wr N) = N"
  using assms by (cases "rd \<le> wr"; cases "Suc wr = N") (auto simp: ring_gap_le ring_gap_gt)

lemma ring_gap_pop:
  assumes "rd < N" "wr < N" "rd \<noteq> wr"
  shows "ring_gap (Suc rd mod N) wr N = ring_gap rd wr N - 1"
  using assms by (cases "rd \<le> wr"; cases "Suc rd = N") (auto simp: ring_gap_le ring_gap_gt)

section \<open>Interface: a bounded FIFO\<close>

text \<open>
  The producer appends at the end while there is room and drops the element
  otherwise; the consumer takes the oldest element.  A sequence of such
  calls is a list of operations; \<open>fifo_run\<close> performs it on an
  implementation and returns the final state with the elements taken, and
  \<open>fifo_spec\<close> performs it on the list of queued elements.
\<close>

datatype 'a fifo_op = Put 'a | Get

fun fifo_run ::
  "('a \<Rightarrow> 'q \<Rightarrow> 'q) \<Rightarrow> ('q \<Rightarrow> ('a \<times> 'q) option) \<Rightarrow> 'a fifo_op list \<Rightarrow> 'q \<Rightarrow> 'a list \<times> 'q"
where
  "fifo_run put get [] q = ([], q)"
| "fifo_run put get (Put x # ops) q = fifo_run put get ops (put x q)"
| "fifo_run put get (Get # ops) q =
     (case get q of
        None \<Rightarrow> fifo_run put get ops q
      | Some (x, q') \<Rightarrow> (let (out, q'') = fifo_run put get ops q' in (x # out, q'')))"

fun fifo_spec :: "nat \<Rightarrow> 'a fifo_op list \<Rightarrow> 'a list \<Rightarrow> 'a list \<times> 'a list" where
  "fifo_spec cap [] xs = ([], xs)"
| "fifo_spec cap (Put x # ops) xs =
     fifo_spec cap ops (if length xs < cap then xs @ [x] else xs)"
| "fifo_spec cap (Get # ops) [] = fifo_spec cap ops []"
| "fifo_spec cap (Get # ops) (x # xs) =
     (let (out, ys) = fifo_spec cap ops xs in (x # out, ys))"

locale bounded_fifo =
  fixes put :: "'a \<Rightarrow> 'q \<Rightarrow> 'q"
    and get :: "'q \<Rightarrow> ('a \<times> 'q) option"
    and contents :: "'q \<Rightarrow> 'a list"
    and inv :: "'q \<Rightarrow> bool"
    and cap :: nat
  assumes put_contents: "inv q \<Longrightarrow>
      contents (put x q) = (if length (contents q) < cap then contents q @ [x] else contents q)"
    and put_inv: "inv q \<Longrightarrow> inv (put x q)"
    and get_empty: "\<lbrakk>inv q; contents q = []\<rbrakk> \<Longrightarrow> get q = None"
    and get_cons: "\<lbrakk>inv q; contents q = x # xs\<rbrakk> \<Longrightarrow>
      \<exists>q'. get q = Some (x, q') \<and> contents q' = xs \<and> inv q'"
    and contents_bound: "inv q \<Longrightarrow> length (contents q) \<le> cap"
begin

lemma get_SomeE:
  assumes "inv q" "get q = Some (x, q')"
  shows "contents q = x # contents q' \<and> inv q'"
proof (cases "contents q")
  case Nil
  with assms get_empty show ?thesis by fastforce
next
  case (Cons y ys)
  with assms get_cons [of q y ys] show ?thesis by auto
qed

lemma get_None_iff: "inv q \<Longrightarrow> get q = None \<longleftrightarrow> contents q = []"
  by (metis get_cons get_empty neq_Nil_conv option.distinct(1))

lemma run_refines:
  "inv q \<Longrightarrow> (case fifo_run put get ops q of (out, q') \<Rightarrow>
     fifo_spec cap ops (contents q) = (out, contents q') \<and> inv q')"
proof (induction ops arbitrary: q)
  case (Cons op ops)
  show ?case
  proof (cases op)
    case (Put x)
    with Cons.IH [of "put x q"] Cons.prems show ?thesis
      by (simp add: put_contents put_inv)
  next
    case Get
    show ?thesis
    proof (cases "contents q")
      case Nil
      with Get Cons.prems Cons.IH [of q] get_empty [of q] show ?thesis by simp
    next
      case (Cons x xs)
      then obtain q' where "get q = Some (x, q')" "contents q' = xs" "inv q'"
        using get_cons \<open>inv q\<close> by blast
      with Cons.IH [of q'] Get Cons show ?thesis by (auto split: prod.splits)
    qed
  qed
qed simp

lemma run_puts:
  assumes "inv q" "length (contents q) + length xs \<le> cap"
  shows "contents (fold put xs q) = contents q @ xs \<and> inv (fold put xs q)"
  using assms
proof (induction xs arbitrary: q)
  case (Cons x xs)
  then show ?case using Cons.IH [of "put x q"] by (simp add: put_contents put_inv)
qed simp

end

text \<open>Nothing is lost or reordered: what has been taken, followed by what is
  still queued, is what was queued at first followed by a subsequence of what
  was put.\<close>

fun puts_of :: "'a fifo_op list \<Rightarrow> 'a list" where
  "puts_of [] = []"
| "puts_of (Put x # ops) = x # puts_of ops"
| "puts_of (Get # ops) = puts_of ops"

lemma fifo_spec_subseq:
  assumes "fifo_spec cap ops xs = (out, ys)"
  shows "\<exists>zs. out @ ys = xs @ zs \<and> subseq zs (puts_of ops)"
  using assms
proof (induction cap ops xs arbitrary: out ys rule: fifo_spec.induct)
  case (2 cap x ops xs)
  show ?case
  proof (cases "length xs < cap")
    case True
    with 2 obtain zs where "out @ ys = (xs @ [x]) @ zs" "subseq zs (puts_of ops)"
      by auto
    then show ?thesis by (intro exI [of _ "x # zs"]) simp
  next
    case False
    with 2 obtain zs where "out @ ys = xs @ zs" "subseq zs (puts_of ops)"
      by auto
    then show ?thesis by (intro exI [of _ zs]) auto
  qed
next
  case (4 cap ops x xs)
  then show ?case by (auto split: prod.splits)
qed auto

section \<open>Interface: a pool of resources\<close>

text \<open>
  A pool hands out a resource that is available and takes back one that was
  handed out before.  \<open>pool_reach\<close> is the set of states a sequence of such
  calls reaches, with the resources its clients hold.
\<close>

inductive pool_reach ::
  "('s \<Rightarrow> ('r \<times> 's) option) \<Rightarrow> ('r \<Rightarrow> 's \<Rightarrow> 's) \<Rightarrow> 's \<Rightarrow> 's \<Rightarrow> 'r list \<Rightarrow> bool"
  for alloc free s0
where
  pool_start: "pool_reach alloc free s0 s0 []"
| pool_alloc: "\<lbrakk>pool_reach alloc free s0 s own; alloc s = Some (r, s')\<rbrakk> \<Longrightarrow>
    pool_reach alloc free s0 s' (r # own)"
| pool_free: "\<lbrakk>pool_reach alloc free s0 s own; r \<in> set own\<rbrakk> \<Longrightarrow>
    pool_reach alloc free s0 (free r s) (remove1 r own)"

locale resource_pool =
  fixes alloc :: "'s \<Rightarrow> ('r \<times> 's) option"
    and free :: "'r \<Rightarrow> 's \<Rightarrow> 's"
    and avail :: "'s \<Rightarrow> 'r set"
    and univ :: "'s \<Rightarrow> 'r set"
    and inv :: "'s \<Rightarrow> bool"
  assumes alloc_some: "\<lbrakk>inv s; alloc s = Some (r, s')\<rbrakk> \<Longrightarrow>
      r \<in> avail s \<and> avail s' = avail s - {r} \<and> univ s' = univ s \<and> inv s'"
    and alloc_none: "\<lbrakk>inv s; alloc s = None\<rbrakk> \<Longrightarrow> avail s = {}"
    and free_avail: "\<lbrakk>inv s; r \<in> univ s; r \<notin> avail s\<rbrakk> \<Longrightarrow>
      avail (free r s) = insert r (avail s) \<and> univ (free r s) = univ s \<and> inv (free r s)"
    and avail_univ: "inv s \<Longrightarrow> avail s \<subseteq> univ s"
begin

lemma reach_ownership:
  assumes "pool_reach alloc free s0 s own" "inv s0"
  shows "inv s \<and> univ s = univ s0 \<and> distinct own \<and> set own \<inter> avail s = {} \<and>
         set own \<union> avail s = avail s0"
  using assms
proof (induction rule: pool_reach.induct)
  case (pool_alloc s own r s')
  then show ?case using alloc_some [of s r s'] by auto
next
  case (pool_free s own r)
  then have "r \<in> univ s" "r \<notin> avail s" using avail_univ [of s0] by auto
  with pool_free free_avail [of s r] show ?case by (auto simp: set_remove1_eq)
qed simp

lemma alloc_fresh:
  assumes "pool_reach alloc free s0 s own" "inv s0" "alloc s = Some (r, s')"
  shows "r \<notin> set own"
  using reach_ownership [OF assms(1,2)] alloc_some [of s r s'] assms(3) by auto

end

end
