(* ===== verification/Kernel_String.thy ===== *)
theory Kernel_String
  imports Kernel_Prelude
begin

text \<open>
  The freestanding string library (\<open>string.c\<close>).  A C string is the bytes
  found from a pointer on, so it is a function on offsets; the loops that
  look for the terminating NUL are partial functions whose value is \<open>None\<close>
  when the loop runs past every byte.  \<open>memcpy\<close> and \<open>memset\<close> act on a byte
  store, so that overlapping source and destination blocks are visible.
\<close>

type_synonym cstr = "u8 array"
type_synonym byte_store = "nat \<Rightarrow> u8"

section \<open>Definitions\<close>

partial_function (option) strlen_loop :: "cstr \<Rightarrow> nat \<Rightarrow> nat option" where
  "strlen_loop str len = (if str len \<noteq> 0 then strlen_loop str (len + 1) else Some len)"

definition strlen :: "cstr \<Rightarrow> nat option" where
  "strlen str = strlen_loop str 0"

primrec memcpy_loop :: "nat \<Rightarrow> nat \<Rightarrow> nat \<Rightarrow> nat \<Rightarrow> byte_store \<Rightarrow> byte_store" where
  "memcpy_loop dst src i 0 m = m"
| "memcpy_loop dst src i (Suc k) m =
     memcpy_loop dst src (Suc i) k (m(dst + i := m (src + i)))"

definition memcpy :: "nat \<Rightarrow> nat \<Rightarrow> nat \<Rightarrow> byte_store \<Rightarrow> byte_store" where
  "memcpy dst src n m = memcpy_loop dst src 0 n m"

primrec memset_loop :: "nat \<Rightarrow> int \<Rightarrow> nat \<Rightarrow> nat \<Rightarrow> byte_store \<Rightarrow> byte_store" where
  "memset_loop dst c i 0 m = m"
| "memset_loop dst c i (Suc k) m = memset_loop dst c (Suc i) k (m(dst + i := word_of_int c))"

definition memset :: "nat \<Rightarrow> int \<Rightarrow> nat \<Rightarrow> byte_store \<Rightarrow> byte_store" where
  "memset dst c n m = memset_loop dst c 0 n m"

partial_function (option) strcmp_loop :: "cstr \<Rightarrow> cstr \<Rightarrow> nat \<Rightarrow> int option" where
  "strcmp_loop s1 s2 i =
     (if s1 i \<noteq> 0 \<and> s1 i = s2 i then strcmp_loop s1 s2 (i + 1)
      else Some (uint (s1 i) - uint (s2 i)))"

definition strcmp :: "cstr \<Rightarrow> cstr \<Rightarrow> int option" where
  "strcmp s1 s2 = strcmp_loop s1 s2 0"

primrec strncmp_loop :: "cstr \<Rightarrow> cstr \<Rightarrow> nat \<Rightarrow> nat \<Rightarrow> int" where
  "strncmp_loop s1 s2 i 0 = 0"
| "strncmp_loop s1 s2 i (Suc k) =
     (let c1 = s1 i; c2 = s2 i in
      if c1 \<noteq> c2 then uint c1 - uint c2
      else if c1 = 0 then 0
      else strncmp_loop s1 s2 (Suc i) k)"

definition strncmp :: "cstr \<Rightarrow> cstr \<Rightarrow> nat \<Rightarrow> int" where
  "strncmp s1 s2 n = strncmp_loop s1 s2 0 n"

text \<open>The two loops of \<open>strncpy\<close> share their counter: once a NUL is met the
  copying loop has ended and the padding loop runs for the rest.\<close>

primrec strncpy_pad :: "cstr \<Rightarrow> nat \<Rightarrow> nat \<Rightarrow> cstr" where
  "strncpy_pad dst i 0 = dst"
| "strncpy_pad dst i (Suc k) = strncpy_pad (dst(i := 0)) (Suc i) k"

primrec strncpy_loop :: "cstr \<Rightarrow> cstr \<Rightarrow> nat \<Rightarrow> nat \<Rightarrow> cstr" where
  "strncpy_loop dst src i 0 = dst"
| "strncpy_loop dst src i (Suc k) =
     (if src i \<noteq> 0 then strncpy_loop (dst(i := src i)) src (Suc i) k
      else strncpy_pad dst i (Suc k))"

definition strncpy :: "cstr \<Rightarrow> cstr \<Rightarrow> nat \<Rightarrow> cstr" where
  "strncpy dst src n = strncpy_loop dst src 0 n"

text \<open>
  \<open>int_to_str\<close>: the digits are produced in reverse into the buffer (the list
  of bytes written so far), then reversed in place by two cursors.  The base
  is converted to unsigned; base 0 is a division fault, and base 1 never
  shortens a non-zero value.  Negating the least \<open>int\<close> is a signed overflow,
  which C leaves undefined: \<open>int_to_str\<close> has no result there either.
\<close>

definition digit_char :: "nat \<Rightarrow> u8" where
  "digit_char digit = (if digit < 10 then 48 + word_of_nat digit else 97 + word_of_nat digit - 10)"

partial_function (option) digits_loop :: "nat \<Rightarrow> nat \<Rightarrow> u8 list \<Rightarrow> u8 list option" where
  "digits_loop base uvalue buf =
     (if base = 0 then None
      else let buf' = buf @ [digit_char (uvalue mod base)]; uvalue' = uvalue div base
           in if uvalue' > 0 then digits_loop base uvalue' buf' else Some buf')"

function reverse_loop :: "u8 list \<Rightarrow> nat \<Rightarrow> nat \<Rightarrow> u8 list" where
  "reverse_loop buf p1 p2 =
     (if p1 < p2 then reverse_loop (buf[p1 := buf ! p2, p2 := buf ! p1]) (p1 + 1) (p2 - 1)
      else buf)"
  by pat_completeness auto
termination by (relation "measure (\<lambda>(buf, p1, p2). p2 - p1)") auto

definition int_to_str :: "int \<Rightarrow> int \<Rightarrow> u8 list option" where
  "int_to_str value base =
     (let negative = (value < 0 \<and> base = 10);
          uvalue = (if negative then nat ((- value) mod 2 ^ 32) else nat (value mod 2 ^ 32));
          ubase = nat (base mod 2 ^ 32)
      in if negative \<and> value = - (2 ^ 31) then None
      else case digits_loop ubase uvalue [] of
           None \<Rightarrow> None
         | Some digits \<Rightarrow>
             let buf = (if negative then digits @ [45] else digits)
             in Some (reverse_loop buf 0 (length buf - 1)))"

text \<open>The contents of a terminated string, and the number a decimal string denotes.\<close>

definition cstr_of :: "u8 list \<Rightarrow> cstr" where
  "cstr_of xs i = (if i < length xs then xs ! i else 0)"

definition is_string :: "cstr \<Rightarrow> u8 list \<Rightarrow> bool" where
  "is_string s xs \<longleftrightarrow> (\<forall>i<length xs. s i = xs ! i) \<and> s (length xs) = 0 \<and> 0 \<notin> set xs"

definition dec_value :: "u8 list \<Rightarrow> int" where
  "dec_value xs =
     (let ds = (if xs \<noteq> [] \<and> hd xs = 45 then tl xs else xs);
          v = foldl (\<lambda>acc c. acc * 10 + (uint c - 48)) 0 ds
      in if xs \<noteq> [] \<and> hd xs = 45 then - v else v)"

section \<open>Lengths and comparison\<close>

lemma strlen_loop_eq:
  assumes "\<And>j. i \<le> j \<Longrightarrow> j < n \<Longrightarrow> str j \<noteq> 0" "str n = 0" "i \<le> n"
  shows "strlen_loop str i = Some n"
  using assms
proof (induction "n - i" arbitrary: i)
  case 0
  then show ?case by (simp add: strlen_loop.simps [of str i])
next
  case (Suc k)
  then have "i < n" "str i \<noteq> 0" by auto
  moreover from Suc this have "strlen_loop str (i + 1) = Some n" by simp
  ultimately show ?case by (subst strlen_loop.simps) simp
qed

lemma strlen_is_string: "is_string s xs \<Longrightarrow> strlen s = Some (length xs)"
  unfolding strlen_def is_string_def
  by (rule strlen_loop_eq) (auto simp: in_set_conv_nth)

lemma is_string_cstr_of: "0 \<notin> set xs \<Longrightarrow> is_string (cstr_of xs) xs"
  by (simp add: is_string_def cstr_of_def)

lemma is_string_unique: "\<lbrakk>is_string s xs; is_string s ys\<rbrakk> \<Longrightarrow> xs = ys"
  using strlen_is_string [of s xs] strlen_is_string [of s ys]
  by (auto simp: is_string_def intro: nth_equalityI)

lemma is_string_length_le: "\<lbrakk>is_string s xs; s j = 0\<rbrakk> \<Longrightarrow> length xs \<le> j"
  unfolding is_string_def by (metis not_less nth_mem)

lemma is_string_nonzero: "\<lbrakk>is_string s xs; j < length xs\<rbrakk> \<Longrightarrow> s j \<noteq> 0"
  using is_string_length_le by fastforce

text \<open>Two terminated strings differ at a first position, or are equal.\<close>

lemma is_string_diff:
  assumes "is_string s1 xs" "is_string s2 ys" "xs \<noteq> ys"
  obtains k where "s1 k \<noteq> s2 k" "\<forall>j<k. s1 j = s2 j \<and> s1 j \<noteq> 0"
proof -
  have "s1 \<noteq> s2" using assms is_string_unique [of s1 xs ys] by blast
  then have ex: "\<exists>k. s1 k \<noteq> s2 k" by blast
  define k where "k = (LEAST k. s1 k \<noteq> s2 k)"
  have neq: "s1 k \<noteq> s2 k" unfolding k_def using ex by (rule LeastI_ex)
  have eq: "s1 j = s2 j" if "j < k" for j
    using that not_less_Least [of j "\<lambda>k. s1 k \<noteq> s2 k"] unfolding k_def by auto
  have nz: "s1 j \<noteq> 0" if "j < k" for j
  proof
    assume z: "s1 j = 0"
    have "length xs \<le> j" by (rule is_string_length_le [OF assms(1) z])
    with that have "\<forall>i \<le> length xs. s2 i = s1 i" using eq by simp
    with assms(1) have "is_string s2 xs" by (simp add: is_string_def)
    with assms(2,3) show False using is_string_unique by blast
  qed
  from neq eq nz show thesis by (intro that [of k]) auto
qed

lemma strcmp_loop_diff:
  assumes "s1 k \<noteq> s2 k" "\<forall>j<k. s1 j = s2 j \<and> s1 j \<noteq> 0" "i \<le> k"
  shows "strcmp_loop s1 s2 i = Some (uint (s1 k) - uint (s2 k))"
  using assms
proof (induction "k - i" arbitrary: i)
  case 0
  then show ?case by (simp add: strcmp_loop.simps [of s1 s2 i])
next
  case (Suc n)
  then have "i < k" by simp
  moreover have "strcmp_loop s1 s2 (i + 1) = Some (uint (s1 k) - uint (s2 k))"
    using Suc.hyps(2) Suc.prems by (intro Suc.hyps(1)) auto
  moreover have "s1 i \<noteq> 0" "s1 i = s2 i" using Suc.prems(2) \<open>i < k\<close> by blast+
  ultimately show ?case by (subst strcmp_loop.simps) simp
qed

lemma strcmp_loop_same:
  assumes "is_string s1 xs" "is_string s2 xs" "i \<le> length xs"
  shows "strcmp_loop s1 s2 i = Some 0"
  using assms
proof (induction "length xs - i" arbitrary: i)
  case 0
  then show ?case by (simp add: strcmp_loop.simps [of s1 s2 i] is_string_def)
next
  case (Suc n)
  then have i: "i < length xs" by simp
  with Suc have "strcmp_loop s1 s2 (i + 1) = Some 0" by simp
  moreover from i Suc.prems have "s1 i = s2 i" "s1 i \<noteq> 0"
    using is_string_nonzero by (auto simp: is_string_def)
  ultimately show ?case by (subst strcmp_loop.simps) simp
qed

lemma strcmp_returns:
  assumes "is_string s1 xs" "is_string s2 ys"
  shows "\<exists>r. strcmp s1 s2 = Some r \<and> (r = 0 \<longleftrightarrow> xs = ys)"
proof (cases "xs = ys")
  case True
  with strcmp_loop_same [of s1 xs s2 0] assms show ?thesis by (simp add: strcmp_def)
next
  case False
  obtain k where k: "s1 k \<noteq> s2 k" "\<forall>j<k. s1 j = s2 j \<and> s1 j \<noteq> 0"
    by (rule is_string_diff [OF assms False])
  with strcmp_loop_diff [OF k, of 0] False show ?thesis
    by (simp add: strcmp_def word_uint_eq_iff)
qed

lemma strncmp_loop_0_iff:
  "strncmp_loop s1 s2 i n = 0 \<longleftrightarrow>
     (\<forall>j<n. s1 (i + j) = s2 (i + j) \<or> (\<exists>l<j. s1 (i + l) = 0 \<and> s2 (i + l) = 0))"
proof (induction n arbitrary: i)
  case (Suc n)
  have all: "(\<forall>j<Suc n. Q j) \<longleftrightarrow> Q 0 \<and> (\<forall>j<n. Q (Suc j))" for Q
    by (auto simp: less_Suc_eq_0_disj)
  have ex: "(\<exists>l<Suc j. Q l) \<longleftrightarrow> Q 0 \<or> (\<exists>l<j. Q (Suc l))" for Q j
    by (auto simp: less_Suc_eq_0_disj)
  show ?case
    by (cases "s1 i = s2 i"; cases "s2 i = 0")
      (simp_all add: Let_def Suc.IH all ex word_uint_eq_iff)
qed simp

section \<open>Memory blocks\<close>

text \<open>\<open>memcpy\<close> copies forward, so it is exact for disjoint blocks and for a
  destination below its source.\<close>

lemma memcpy_loop_nth:
  assumes "dst \<le> src \<or> src + (i + k) \<le> dst"
  shows "memcpy_loop dst src i k m a =
           (if dst + i \<le> a \<and> a < dst + i + k then m (src + (a - dst)) else m a)"
  using assms
proof (induction k arbitrary: i m)
  case (Suc k)
  show ?case
  proof (cases "dst = src")
    case True
    then have "m(dst + i := m (src + i)) = m" by simp
    with True Suc.IH [of "Suc i" m] show ?thesis by simp
  next
    case False
    have IH: "memcpy_loop dst src (Suc i) k (m(dst + i := m (src + i))) a =
        (if dst + Suc i \<le> a \<and> a < dst + Suc i + k
         then (m(dst + i := m (src + i))) (src + (a - dst)) else (m(dst + i := m (src + i))) a)"
      using Suc.prems by (intro Suc.IH) auto
    show ?thesis using False Suc.prems by (simp only: memcpy_loop.simps IH) auto
  qed
qed auto

lemma memset_loop_nth:
  "memset_loop dst c i k m a =
     (if dst + i \<le> a \<and> a < dst + i + k then word_of_int c else m a)"
  by (induction k arbitrary: i m) auto

lemma strncpy_pad_nth:
  "strncpy_pad dst i k a = (if i \<le> a \<and> a < i + k then 0 else dst a)"
  by (induction k arbitrary: i dst) auto

lemma strncpy_loop_string:
  assumes "is_string src xs" "i \<le> length xs"
  shows "strncpy_loop dst src i k a =
     (if i \<le> a \<and> a < i + k then (if a < length xs then src a else 0) else dst a)"
  using assms
proof (induction k arbitrary: i dst)
  case (Suc k)
  show ?case
  proof (cases "src i = 0")
    case True
    then have "length xs = i" using is_string_length_le [OF Suc.prems(1)] Suc.prems(2) by force
    with True show ?thesis by (auto simp: strncpy_pad_nth)
  next
    case False
    then have "Suc i \<le> length xs" using Suc.prems
      by (metis Suc_leI is_string_def le_neq_implies_less)
    then have IH: "strncpy_loop (dst(i := src i)) src (Suc i) k a =
        (if Suc i \<le> a \<and> a < Suc i + k then (if a < length xs then src a else 0)
         else (dst(i := src i)) a)"
      using Suc by blast
    show ?thesis using False \<open>Suc i \<le> length xs\<close>
      by (simp only: strncpy_loop.simps IH if_True not_False_eq_True) auto
  qed
qed auto

section \<open>Number formatting\<close>

declare reverse_loop.simps [simp del]

lemma length_reverse_loop [simp]: "length (reverse_loop buf p1 p2) = length buf"
  by (induction buf p1 p2 rule: reverse_loop.induct) (subst reverse_loop.simps, simp)

lemma reverse_loop_nth:
  assumes "p2 < length buf" "i < length buf"
  shows "reverse_loop buf p1 p2 ! i =
           (if p1 \<le> i \<and> i \<le> p2 then buf ! (p1 + p2 - i) else buf ! i)"
  using assms
proof (induction buf p1 p2 rule: reverse_loop.induct)
  case (1 buf p1 p2)
  show ?case
  proof (cases "p1 < p2")
    case True
    let ?b = "buf[p1 := buf ! p2, p2 := buf ! p1]"
    have IH: "reverse_loop ?b (p1 + 1) (p2 - 1) ! i =
        (if p1 + 1 \<le> i \<and> i \<le> p2 - 1 then ?b ! (p1 + 1 + (p2 - 1) - i) else ?b ! i)"
      using "1.prems" by (intro "1.IH" [OF True]) auto
    have sum: "p1 + 1 + (p2 - 1) = p1 + p2" using True by simp
    have "reverse_loop buf p1 p2 ! i = reverse_loop ?b (p1 + 1) (p2 - 1) ! i"
      using True by (subst reverse_loop.simps) simp
    also have "\<dots> = (if p1 \<le> i \<and> i \<le> p2 then buf ! (p1 + p2 - i) else buf ! i)"
    proof -
      consider "i < p1" | "i = p1" | "p1 < i \<and> i < p2" | "i = p2" | "p2 < i" by linarith
      then show ?thesis unfolding IH sum using "1.prems" True
        by cases (auto simp: nth_list_update)
    qed
    finally show ?thesis .
  next
    case False
    have "p1 + p2 - i = i" if "p1 \<le> i" "i \<le> p2"
      using that False by linarith
    with False show ?thesis by (subst reverse_loop.simps) auto
  qed
qed

lemma reverse_loop_rev:
  assumes "buf \<noteq> []"
  shows "reverse_loop buf 0 (length buf - 1) = rev buf"
proof (rule nth_equalityI)
  fix i assume "i < length (reverse_loop buf 0 (length buf - 1))"
  with assms show "reverse_loop buf 0 (length buf - 1) ! i = rev buf ! i"
    using reverse_loop_nth [of "length buf - 1" buf i 0] by (auto simp: rev_nth)
qed simp

text \<open>The digits of \<open>u\<close> in base \<open>b\<close>, least significant first.\<close>

function digits_of :: "nat \<Rightarrow> nat \<Rightarrow> nat list" where
  "digits_of b u = (if b < 2 \<or> u < b then [u] else u mod b # digits_of b (u div b))"
  by pat_completeness auto
termination
  by (relation "measure snd") (auto intro!: Nat.gr0I div_less_dividend)

declare digits_of.simps [simp del]

lemma digits_of_small: "u < b \<Longrightarrow> digits_of b u = [u]"
  by (simp add: digits_of.simps)

lemma digits_of_large: "\<lbrakk>2 \<le> b; b \<le> u\<rbrakk> \<Longrightarrow> digits_of b u = u mod b # digits_of b (u div b)"
  by (simp add: digits_of.simps [of b u])

lemma digits_loop_small:
  "u < b \<Longrightarrow> digits_loop b u buf = Some (buf @ [digit_char u])"
  by (simp add: digits_loop.simps [of b u])

lemma digits_loop_large:
  "\<lbrakk>2 \<le> b; b \<le> u\<rbrakk> \<Longrightarrow> digits_loop b u buf = digits_loop b (u div b) (buf @ [digit_char (u mod b)])"
  by (simp add: digits_loop.simps [of b u] div_greater_zero_iff)

lemma digits_induct [consumes 1, case_names small large]:
  assumes "2 \<le> (b::nat)"
    and "\<And>u. u < b \<Longrightarrow> P u"
    and "\<And>u. b \<le> u \<Longrightarrow> P (u div b) \<Longrightarrow> P u"
  shows "P u"
proof (induction u rule: less_induct)
  case (less u)
  have "u div b < u" if "b \<le> u" using assms(1) that by (intro div_less_dividend) auto
  with less assms(2,3) show ?case by (cases "u < b") auto
qed

lemma digits_loop_eq:
  assumes "2 \<le> b"
  shows "digits_loop b u buf = Some (buf @ map digit_char (digits_of b u))"
  using assms
proof (induction u arbitrary: buf rule: digits_induct)
  case (small u)
  then show ?case by (simp add: digits_of_small digits_loop_small)
next
  case (large u)
  with assms show ?case by (simp add: digits_of_large digits_loop_large)
qed

lemma digits_of_bound:
  assumes "2 \<le> b"
  shows "list_all (\<lambda>d. d < b) (digits_of b u)"
  using assms
proof (induction u rule: digits_induct)
  case (small u)
  then show ?case by (simp add: digits_of_small)
next
  case (large u)
  with assms show ?case by (simp add: digits_of_large)
qed

lemma digits_of_value:
  assumes "2 \<le> b"
  shows "foldr (\<lambda>d acc. d + b * acc) (digits_of b u) 0 = u"
  using assms
proof (induction u rule: digits_induct)
  case (small u)
  then show ?case by (simp add: digits_of_small)
next
  case (large u)
  with assms show ?case by (simp add: digits_of_large)
qed

lemma digits_of_nonempty [simp]: "digits_of b u \<noteq> []"
  by (subst digits_of.simps) simp

lemma digit_char_value: "d < 10 \<Longrightarrow> uint (digit_char d) = 48 + int d"
  by (simp add: digit_char_def uint_word_ariths take_bit_eq_mod unsigned_of_nat)

lemma dec_fold:
  assumes "list_all (\<lambda>d. d < 10) ds"
  shows "foldl (\<lambda>acc c. acc * 10 + (uint c - 48)) 0 (rev (map digit_char ds)) =
         int (foldr (\<lambda>d acc. d + 10 * acc) ds 0)"
  using assms by (induction ds) (simp_all add: digit_char_value)

lemma digit_char_no_minus: "d < 10 \<Longrightarrow> digit_char d \<noteq> 45"
  using digit_char_value [of d] by (auto simp: word_uint_eq_iff)

lemma digit_chars_no_minus:
  "list_all (\<lambda>d. d < 10) ds \<Longrightarrow> 45 \<notin> set (map digit_char ds)"
  by (induction ds) (auto dest: digit_char_no_minus [of _, THEN not_sym])

lemma dec_value_digits:
  assumes "list_all (\<lambda>d. d < 10) ds" "ds \<noteq> []"
  shows "dec_value (rev (map digit_char ds)) = int (foldr (\<lambda>d acc. d + 10 * acc) ds 0)"
    and "dec_value (45 # rev (map digit_char ds)) = - int (foldr (\<lambda>d acc. d + 10 * acc) ds 0)"
proof -
  have "hd (rev (map digit_char ds)) \<in> set (map digit_char ds)"
    using assms(2) by (metis list.map_disc_iff list.set_sel(1) rev_is_Nil_conv set_rev)
  then have "hd (rev (map digit_char ds)) \<noteq> 45"
    using digit_chars_no_minus [OF assms(1)] by metis
  then show "dec_value (rev (map digit_char ds)) = int (foldr (\<lambda>d acc. d + 10 * acc) ds 0)"
    by (simp only: dec_value_def Let_def dec_fold [OF assms(1)] simp_thms if_False)
  show "dec_value (45 # rev (map digit_char ds)) = - int (foldr (\<lambda>d acc. d + 10 * acc) ds 0)"
    by (simp only: dec_value_def Let_def dec_fold [OF assms(1)] list.sel list.distinct
        simp_thms if_True)
qed

section \<open>Properties of the string library\<close>

text \<open>C26: for every 32-bit integer but the least one, whose negation overflows,
  \<open>int_to_str\<close> in base 10 returns, and the string it leaves in the buffer denotes
  that integer, the sign included.\<close>

theorem int_to_str_decimal:
  assumes "- (2 ^ 31) < v" "v < 2 ^ 31"
  shows "\<exists>s. int_to_str v 10 = Some s \<and> dec_value s = v"
proof -
  define u where "u = nat \<bar>v\<bar>"
  define ds where "ds = digits_of 10 u"
  have ds: "list_all (\<lambda>d. d < 10) ds" "ds \<noteq> []" "int (foldr (\<lambda>d acc. d + 10 * acc) ds 0) = \<bar>v\<bar>"
    unfolding ds_def using digits_of_bound [of 10 u] digits_of_value [of 10 u]
    by (simp_all add: u_def)
  have loop: "digits_loop 10 u [] = Some (map digit_char ds)"
    using digits_loop_eq [of 10 u "[]"] by (simp add: ds_def)
  show ?thesis
  proof (cases "v < 0")
    case True
    with assms have "nat ((- v) mod 2 ^ 32) = u" by (simp add: u_def)
    with True loop assms(1) have "int_to_str v 10 = Some (45 # rev (map digit_char ds))"
      by (simp add: int_to_str_def reverse_loop_rev [of "map digit_char ds @ [45]", simplified])
    with True ds dec_value_digits(2) [OF ds(1,2)] show ?thesis by simp
  next
    case False
    with assms have "nat (v mod 2 ^ 32) = u" by (simp add: u_def)
    with False loop ds(2) have "int_to_str v 10 = Some (rev (map digit_char ds))"
      using reverse_loop_rev [of "map digit_char ds"] by (simp add: int_to_str_def)
    with False ds dec_value_digits(1) [OF ds(1,2)] show ?thesis by simp
  qed
qed

lemma int_to_str_least_int: "int_to_str (- (2 ^ 31)) 10 = None"
  by (simp add: int_to_str_def)

theorem int_to_str_decimal_witness:
  "\<exists>s. int_to_str (- 2147483647) 10 = Some s \<and> dec_value s = - 2147483647"
  by (rule int_to_str_decimal) simp_all

end
