(* ===== verification/Frame_Alloc.thy ===== *)
theory Frame_Alloc
  imports Kernel_Prelude
begin

text \<open>
  The physical frame allocator (\<open>frame_alloc.c\<close>): a bitmap with one bit per
  4 KiB frame, a set bit meaning that the frame is free.  The state is the
  bitmap with the accounting counters; the boot memory map is a function
  from byte offsets to descriptors, as the code reads it.  The allocator is
  shown to be a \<open>resource_pool\<close> of frame addresses.
\<close>

section \<open>State and operations\<close>

abbreviation PAGE_SIZE :: nat where "PAGE_SIZE \<equiv> 4096"
text \<open>256 pages of 4096 bytes, and the number of bits in them.\<close>

abbreviation BITMAP_SIZE :: nat where "BITMAP_SIZE \<equiv> 1048576"
abbreviation BITMAP_BITS :: nat where "BITMAP_BITS \<equiv> 8388608"

record mmap_desc =
  md_type :: u32
  physical_start :: u64
  virtual_start :: u64
  md_count :: u64
  md_attributes :: u64

record boot_info =
  memory_map :: "(u64 \<Rightarrow> mmap_desc) option"
  memory_map_size :: u64
  memory_map_descriptor_size :: u64

record pfa =
  g_bitmap :: "u8 array"
  g_bitmap_bits :: nat
  g_max_phys :: u64
  g_total_pages :: nat
  g_free_pages :: nat
  g_reserved_pages :: nat

definition frame_bit :: "pfa \<Rightarrow> nat \<Rightarrow> bool" where
  "frame_bit s i \<longleftrightarrow> g_bitmap s (i div 8) AND push_bit (i mod 8) 1 \<noteq> 0"

definition set_frame_bit :: "nat \<Rightarrow> pfa \<Rightarrow> pfa" where
  "set_frame_bit i s =
     s\<lparr>g_bitmap := (g_bitmap s)(i div 8 := g_bitmap s (i div 8) OR push_bit (i mod 8) 1)\<rparr>"

definition clear_frame_bit :: "nat \<Rightarrow> pfa \<Rightarrow> pfa" where
  "clear_frame_bit i s =
     s\<lparr>g_bitmap := (g_bitmap s)(i div 8 := g_bitmap s (i div 8) AND NOT (push_bit (i mod 8) 1))\<rparr>"

text \<open>The inner loop of the initialisation: \<open>k\<close> frames from \<open>j\<close> on.\<close>

primrec pfa_mark :: "nat \<Rightarrow> nat \<Rightarrow> pfa \<Rightarrow> pfa" where
  "pfa_mark j 0 s = s"
| "pfa_mark j (Suc k) s =
     pfa_mark (Suc j) k
       (if j < 0x100000 div PAGE_SIZE then s\<lparr>g_reserved_pages := g_reserved_pages s + 1\<rparr>
        else (set_frame_bit j s)\<lparr>g_free_pages := g_free_pages s + 1\<rparr>)"

definition pfa_add_desc :: "mmap_desc \<Rightarrow> pfa \<Rightarrow> pfa" where
  "pfa_add_desc desc s =
     (if md_type desc = 7 \<or> md_type desc = 6 \<or> md_type desc = 5 then
        let start_frame = physical_start desc div 4096;
            end_frame = start_frame + md_count desc;
            s1 = (if end_frame * 4096 > g_max_phys s
                  then s\<lparr>g_max_phys := end_frame * 4096\<rparr> else s)
        in pfa_mark (unat start_frame)
             (min (unat end_frame) (g_bitmap_bits s1) - unat start_frame) s1
      else s)"

partial_function (option) pfa_scan ::
  "(u64 \<Rightarrow> mmap_desc) \<Rightarrow> u64 \<Rightarrow> u64 \<Rightarrow> u64 \<Rightarrow> pfa \<Rightarrow> pfa option"
where
  "pfa_scan mm msize dsize i s =
     (if i < msize then pfa_scan mm msize dsize (i + dsize) (pfa_add_desc (mm i) s) else Some s)"

definition frame_alloc_init :: "boot_info option \<Rightarrow> pfa \<Rightarrow> pfa option" where
  "frame_alloc_init bi s =
     (case bi of
        None \<Rightarrow> Some s
      | Some b \<Rightarrow>
          (case memory_map b of
             None \<Rightarrow> Some s
           | Some mm \<Rightarrow>
               pfa_scan mm (memory_map_size b) (memory_map_descriptor_size b) 0
                 (s\<lparr>g_bitmap := (\<lambda>_. 0), g_bitmap_bits := BITMAP_BITS,
                    g_total_pages := BITMAP_BITS, g_free_pages := 0,
                    g_reserved_pages := 0\<rparr>)))"

definition pfa_alloc_frame :: "pfa \<Rightarrow> u64 \<times> pfa" where
  "pfa_alloc_frame s =
     (case first_slot (\<lambda>i. i div 8 \<ge> BITMAP_SIZE \<or> frame_bit s i) (g_bitmap_bits s) of
        None \<Rightarrow> (0, s)
      | Some i \<Rightarrow>
          if i div 8 \<ge> BITMAP_SIZE then (0, s)
          else (let s1 = clear_frame_bit i s;
                    s2 = (if g_free_pages s1 > 0
                          then s1\<lparr>g_free_pages := g_free_pages s1 - 1\<rparr> else s1)
                in (word_of_nat (i * PAGE_SIZE), s2)))"

definition pfa_free_frame :: "u64 \<Rightarrow> pfa \<Rightarrow> pfa" where
  "pfa_free_frame paddr s =
     (if paddr = 0 then s
      else let frame_idx = unat (paddr div 4096) in
        if frame_idx \<ge> g_bitmap_bits s then s
        else if \<not> frame_bit s frame_idx
        then (set_frame_bit frame_idx s)\<lparr>g_free_pages := g_free_pages s + 1\<rparr>
        else s)"

text \<open>
  Specification level: the set of free frames, the address of a frame, and
  the well-formedness of the allocator.
\<close>

definition free_frames :: "pfa \<Rightarrow> nat set" where
  "free_frames s = {i. i < g_bitmap_bits s \<and> frame_bit s i}"

definition frame_addr :: "nat \<Rightarrow> u64" where
  "frame_addr i = word_of_nat (i * PAGE_SIZE)"

definition pfa_inv :: "pfa \<Rightarrow> bool" where
  "pfa_inv s \<longleftrightarrow> g_bitmap_bits s \<le> BITMAP_BITS \<and> \<not> frame_bit s 0 \<and>
     g_free_pages s = card (free_frames s)"

text \<open>The view of a caller that treats the address 0 as failure.\<close>

definition pfa_take :: "pfa \<Rightarrow> (u64 \<times> pfa) option" where
  "pfa_take s = (let (p, s') = pfa_alloc_frame s in if p = 0 then None else Some (p, s'))"

section \<open>Bit-level lemmas\<close>

lemma and_push_bit_1_neq_0: "w AND push_bit n 1 \<noteq> 0 \<longleftrightarrow> bit w n" if "n < LENGTH('a)" for w :: "'a::len word"
  using that by (metis and_exp_eq_0_iff_not_bit push_bit_of_1)

lemma frame_bit_iff: "frame_bit s i \<longleftrightarrow> bit (g_bitmap s (i div 8)) (i mod 8)"
  unfolding frame_bit_def by (rule and_push_bit_1_neq_0) simp

lemma div_mod_8_eq: "i div 8 = j div 8 \<Longrightarrow> i mod 8 = j mod 8 \<Longrightarrow> i = (j::nat)"
  by (metis div_mult_mod_eq)

lemma frame_bit_set [simp]: "frame_bit (set_frame_bit j s) i \<longleftrightarrow> i = j \<or> frame_bit s i"
  by (auto simp: frame_bit_iff set_frame_bit_def bit_simps dest: div_mod_8_eq)

lemma frame_bit_clear [simp]: "frame_bit (clear_frame_bit j s) i \<longleftrightarrow> i \<noteq> j \<and> frame_bit s i"
  by (auto simp: frame_bit_iff clear_frame_bit_def bit_simps dest: div_mod_8_eq)

lemma set_frame_bit_fields [simp]:
  "g_bitmap_bits (set_frame_bit j s) = g_bitmap_bits s"
  "g_free_pages (set_frame_bit j s) = g_free_pages s"
  "g_bitmap_bits (clear_frame_bit j s) = g_bitmap_bits s"
  "g_free_pages (clear_frame_bit j s) = g_free_pages s"
  by (simp_all add: set_frame_bit_def clear_frame_bit_def)

lemma frame_bit_counters [simp]:
  "frame_bit (s\<lparr>g_free_pages := n\<rparr>) = frame_bit s"
  "frame_bit (s\<lparr>g_reserved_pages := n\<rparr>) = frame_bit s"
  "frame_bit (s\<lparr>g_max_phys := p\<rparr>) = frame_bit s"
  by (auto simp: frame_bit_def fun_eq_iff)

lemma in_free_frames: "i \<in> free_frames s \<longleftrightarrow> i < g_bitmap_bits s \<and> frame_bit s i"
  by (simp add: free_frames_def)

lemma finite_free_frames [simp]: "finite (free_frames s)"
  by (simp add: free_frames_def)

lemma frame_addr_unat: "i < BITMAP_BITS \<Longrightarrow> unat (frame_addr i) = i * PAGE_SIZE"
  unfolding frame_addr_def by (subst unat_of_nat) simp

lemma frame_addr_inj:
  assumes "i < BITMAP_BITS" "j < BITMAP_BITS" "frame_addr i = frame_addr j"
  shows "i = j"
proof -
  have "i * PAGE_SIZE = j * PAGE_SIZE"
    using frame_addr_unat [OF assms(1)] frame_addr_unat [OF assms(2)] assms(3) by metis
  then show ?thesis by simp
qed

lemma frame_addr_index: "i < BITMAP_BITS \<Longrightarrow> unat (frame_addr i div 4096) = i"
  using frame_addr_unat [of i] by (simp add: unat_div)

lemma frame_addr_eq_0: "i < BITMAP_BITS \<Longrightarrow> frame_addr i = 0 \<longleftrightarrow> i = 0"
  using frame_addr_unat [of i] by (auto simp: unat_eq_0 [symmetric])

section \<open>Allocation and release on the set of free frames\<close>

lemma free_frames_below: "\<lbrakk>pfa_inv s; i \<in> free_frames s\<rbrakk> \<Longrightarrow> i < BITMAP_BITS \<and> i \<noteq> 0"
  by (auto simp: pfa_inv_def free_frames_def intro: ccontr)

lemma pfa_search_eq:
  assumes "pfa_inv s"
  shows "first_slot (\<lambda>i. i div 8 \<ge> BITMAP_SIZE \<or> frame_bit s i) (g_bitmap_bits s) =
         first_slot (frame_bit s) (g_bitmap_bits s)"
  using assms by (intro first_slot_cong) (auto simp: pfa_inv_def)

lemma pfa_alloc_frame_none:
  assumes "pfa_inv s" "free_frames s = {}"
  shows "pfa_alloc_frame s = (0, s)"
proof -
  have "first_slot (frame_bit s) (g_bitmap_bits s) = None"
    using assms(2) by (auto simp: first_slot_None_iff free_frames_def)
  then show ?thesis by (simp add: pfa_alloc_frame_def pfa_search_eq [OF assms(1)])
qed

lemma first_free_frame:
  assumes "free_frames s \<noteq> {}"
  shows "first_slot (frame_bit s) (g_bitmap_bits s) = Some (Min (free_frames s))"
proof -
  define m where "m = Min (free_frames s)"
  have m: "m < g_bitmap_bits s" "frame_bit s m"
    using Min_in [OF finite_free_frames assms] by (simp_all add: m_def in_free_frames)
  have "\<not> frame_bit s j" if "j < m" for j
  proof
    assume "frame_bit s j"
    with that m have "j \<in> free_frames s" by (simp add: free_frames_def)
    then have "m \<le> j" unfolding m_def by (rule Min_le [OF finite_free_frames])
    with that show False by simp
  qed
  with m show ?thesis by (simp add: first_slot_eq_Some m_def [symmetric])
qed

lemma pfa_alloc_frame_some:
  assumes "pfa_inv s" "free_frames s \<noteq> {}"
  obtains s' where
    "pfa_alloc_frame s = (frame_addr (Min (free_frames s)), s')"
    "free_frames s' = free_frames s - {Min (free_frames s)}"
    "g_bitmap_bits s' = g_bitmap_bits s" "pfa_inv s'"
proof -
  let ?i = "Min (free_frames s)"
  have mem: "?i \<in> free_frames s" using assms(2) by simp
  have lt: "?i div 8 < BITMAP_SIZE" using free_frames_below [OF assms(1) mem] by linarith
  have pos: "g_free_pages s > 0"
    using assms by (simp add: pfa_inv_def card_gt_0_iff)
  define s' where "s' = (clear_frame_bit ?i s)\<lparr>g_free_pages := g_free_pages s - 1\<rparr>"
  have ff: "free_frames s' = free_frames s - {?i}"
    by (auto simp: free_frames_def s'_def)
  have "pfa_alloc_frame s = (frame_addr ?i, s')"
    using lt pos
    by (simp add: pfa_alloc_frame_def pfa_search_eq [OF assms(1)] first_free_frame [OF assms(2)]
        frame_addr_def s'_def Let_def)
  moreover have "pfa_inv s'"
    using assms mem by (simp add: pfa_inv_def ff card_Diff_singleton) (simp add: s'_def)
  ultimately show thesis using ff by (intro that) (simp_all add: s'_def)
qed

lemma pfa_free_frame_released:
  assumes "pfa_inv s" "i < g_bitmap_bits s" "i \<noteq> 0" "i \<notin> free_frames s"
  shows "free_frames (pfa_free_frame (frame_addr i) s) = insert i (free_frames s) \<and>
         g_bitmap_bits (pfa_free_frame (frame_addr i) s) = g_bitmap_bits s \<and>
         pfa_inv (pfa_free_frame (frame_addr i) s)"
proof -
  have i: "i < BITMAP_BITS" using assms by (simp add: pfa_inv_def)
  let ?s = "(set_frame_bit i s)\<lparr>g_free_pages := g_free_pages s + 1\<rparr>"
  have s: "pfa_free_frame (frame_addr i) s = ?s"
    using assms i frame_addr_eq_0 [OF i] frame_addr_index [OF i]
    by (simp add: pfa_free_frame_def free_frames_def)
  have ff: "free_frames ?s = insert i (free_frames s)"
    using assms by (auto simp: free_frames_def)
  with assms show ?thesis by (simp add: s pfa_inv_def)
qed

lemma pfa_free_frame_idle:
  assumes "paddr = 0 \<or> unat (paddr div 4096) \<ge> g_bitmap_bits s \<or> unat (paddr div 4096) \<in> free_frames s"
  shows "pfa_free_frame paddr s = s"
  using assms by (auto simp: pfa_free_frame_def free_frames_def Let_def)

section \<open>The allocator is a pool of frame addresses\<close>

definition pfa_avail :: "pfa \<Rightarrow> u64 set" where
  "pfa_avail s = frame_addr ` free_frames s"

definition pfa_univ :: "pfa \<Rightarrow> u64 set" where
  "pfa_univ s = frame_addr ` {i. 0 < i \<and> i < g_bitmap_bits s}"

lemma pfa_take_SomeE:
  assumes "pfa_inv s" "pfa_take s = Some (p, s')"
  shows "free_frames s \<noteq> {} \<and> p = frame_addr (Min (free_frames s)) \<and>
         free_frames s' = free_frames s - {Min (free_frames s)} \<and>
         g_bitmap_bits s' = g_bitmap_bits s \<and> pfa_inv s'"
proof (cases "free_frames s = {}")
  case True
  with assms show ?thesis by (simp add: pfa_take_def pfa_alloc_frame_none)
next
  case False
  then obtain t where t: "pfa_alloc_frame s = (frame_addr (Min (free_frames s)), t)"
    "free_frames t = free_frames s - {Min (free_frames s)}"
    "g_bitmap_bits t = g_bitmap_bits s" "pfa_inv t"
    by (rule pfa_alloc_frame_some [OF assms(1)])
  with assms(2) False show ?thesis by (auto simp: pfa_take_def split: if_splits)
qed

lemma pfa_take_None:
  assumes "pfa_inv s" "pfa_take s = None"
  shows "free_frames s = {}"
proof (rule ccontr)
  assume ne: "free_frames s \<noteq> {}"
  then have "Min (free_frames s) \<in> free_frames s" by simp
  then have "frame_addr (Min (free_frames s)) \<noteq> 0"
    using free_frames_below [OF assms(1)] frame_addr_eq_0 by blast
  moreover obtain s' where "pfa_alloc_frame s = (frame_addr (Min (free_frames s)), s')"
    by (rule pfa_alloc_frame_some [OF assms(1) ne])
  ultimately show False using assms(2) by (simp add: pfa_take_def)
qed

lemma frame_addr_image_remove:
  assumes "pfa_inv s" "i \<in> free_frames s"
  shows "frame_addr ` (free_frames s - {i}) = frame_addr ` free_frames s - {frame_addr i}"
  using assms free_frames_below [OF assms(1)] frame_addr_inj by (fastforce simp: image_iff)

interpretation pfa_pool: resource_pool pfa_take pfa_free_frame pfa_avail pfa_univ pfa_inv
proof
  fix s p s' assume "pfa_inv s" "pfa_take s = Some (p, s')"
  from pfa_take_SomeE [OF this] \<open>pfa_inv s\<close>
  show "p \<in> pfa_avail s \<and> pfa_avail s' = pfa_avail s - {p} \<and> pfa_univ s' = pfa_univ s \<and> pfa_inv s'"
    by (auto simp: pfa_avail_def pfa_univ_def frame_addr_image_remove)
next
  fix s assume "pfa_inv s" "pfa_take s = None"
  then show "pfa_avail s = {}" by (simp add: pfa_avail_def pfa_take_None)
next
  fix s p assume a: "pfa_inv s" "p \<in> pfa_univ s" "p \<notin> pfa_avail s"
  then obtain i where "p = frame_addr i" "0 < i" "i < g_bitmap_bits s" "i \<notin> free_frames s"
    by (auto simp: pfa_univ_def pfa_avail_def)
  with pfa_free_frame_released [OF a(1), of i]
  show "pfa_avail (pfa_free_frame p s) = insert p (pfa_avail s) \<and>
        pfa_univ (pfa_free_frame p s) = pfa_univ s \<and> pfa_inv (pfa_free_frame p s)"
    by (auto simp: pfa_avail_def pfa_univ_def)
next
  fix s assume "pfa_inv s"
  then show "pfa_avail s \<subseteq> pfa_univ s"
    using free_frames_below [of s] by (fastforce simp: pfa_avail_def pfa_univ_def free_frames_def)
qed

section \<open>Initialisation\<close>

lemma pfa_mark_bits [simp]: "g_bitmap_bits (pfa_mark j k s) = g_bitmap_bits s"
  by (induction k arbitrary: j s) simp_all

lemma frame_bit_pfa_mark:
  "frame_bit (pfa_mark j k s) i \<longleftrightarrow> frame_bit s i \<or> (256 \<le> i \<and> j \<le> i \<and> i < j + k)"
  by (induction k arbitrary: j s) auto

lemma pfa_add_desc_bits [simp]: "g_bitmap_bits (pfa_add_desc d s) = g_bitmap_bits s"
  by (simp add: pfa_add_desc_def Let_def)

text \<open>A usable descriptor covers these frames.\<close>

definition desc_usable :: "mmap_desc \<Rightarrow> bool" where
  "desc_usable d \<longleftrightarrow> md_type d \<in> {5, 6, 7}"

definition desc_frames :: "mmap_desc \<Rightarrow> nat set" where
  "desc_frames d =
     {unat (physical_start d div 4096) ..< unat (physical_start d div 4096 + md_count d)}"

lemma frame_bit_pfa_add_desc:
  "i < g_bitmap_bits s \<Longrightarrow> frame_bit (pfa_add_desc d s) i \<longleftrightarrow>
     frame_bit s i \<or> (desc_usable d \<and> 256 \<le> i \<and> i \<in> desc_frames d)"
  by (auto simp: pfa_add_desc_def Let_def desc_usable_def desc_frames_def frame_bit_pfa_mark)

lemma frame_bit_pfa_add_desc_low: "i < 256 \<Longrightarrow> frame_bit (pfa_add_desc d s) i = frame_bit s i"
  by (auto simp: pfa_add_desc_def Let_def frame_bit_pfa_mark)

lemma free_frames_add_desc:
  "free_frames (pfa_add_desc d s) = free_frames s \<union>
     {i \<in> desc_frames d. desc_usable d \<and> 256 \<le> i \<and> i < g_bitmap_bits s}"
  by (auto simp: in_free_frames frame_bit_pfa_add_desc)

text \<open>The free counter counts every newly marked frame once.\<close>

lemma pfa_mark_count:
  assumes "\<forall>i. j \<le> i \<and> i < j + k \<longrightarrow> \<not> frame_bit s i" "j + k \<le> g_bitmap_bits s"
    "g_free_pages s = card (free_frames s)"
  shows "g_free_pages (pfa_mark j k s) = card (free_frames (pfa_mark j k s))"
  using assms
proof (induction k arbitrary: j s)
  case (Suc k)
  let ?s = "if j < 0x100000 div PAGE_SIZE then s\<lparr>g_reserved_pages := g_reserved_pages s + 1\<rparr>
            else (set_frame_bit j s)\<lparr>g_free_pages := g_free_pages s + 1\<rparr>"
  have "free_frames ?s = (if j < 256 then free_frames s else insert j (free_frames s))"
    using Suc.prems(2) by (auto simp: in_free_frames)
  moreover have "j \<notin> free_frames s" using Suc.prems(1) by (simp add: in_free_frames)
  ultimately have "g_free_pages ?s = card (free_frames ?s)" using Suc.prems(3) by simp
  moreover have "\<forall>i. Suc j \<le> i \<and> i < Suc j + k \<longrightarrow> \<not> frame_bit ?s i"
    using Suc.prems(1) by auto
  ultimately show ?case using Suc.IH [of "Suc j" ?s] Suc.prems(2) by simp
qed simp

lemma pfa_add_desc_count:
  assumes "desc_usable d \<Longrightarrow> desc_frames d \<inter> free_frames s = {}"
    "g_free_pages s = card (free_frames s)"
  shows "g_free_pages (pfa_add_desc d s) = card (free_frames (pfa_add_desc d s))"
proof (cases "desc_usable d")
  case True
  let ?a = "unat (physical_start d div 4096)"
  let ?k = "min (unat (physical_start d div 4096 + md_count d)) (g_bitmap_bits s) - ?a"
  define s1 where "s1 = (if (physical_start d div 4096 + md_count d) * 4096 > g_max_phys s
      then s\<lparr>g_max_phys := (physical_start d div 4096 + md_count d) * 4096\<rparr> else s)"
  have s1: "frame_bit s1 = frame_bit s" "g_bitmap_bits s1 = g_bitmap_bits s"
    "g_free_pages s1 = g_free_pages s" by (simp_all add: s1_def)
  then have ff: "free_frames s1 = free_frames s" by (simp add: free_frames_def)
  have eq: "pfa_add_desc d s = pfa_mark ?a ?k s1"
    using True s1(2) by (auto simp: pfa_add_desc_def desc_usable_def Let_def s1_def)
  have "\<forall>i. ?a \<le> i \<and> i < ?a + ?k \<longrightarrow> \<not> frame_bit s1 i"
    using assms(1) [OF True] by (auto simp: s1 desc_frames_def in_free_frames disjoint_iff)
  moreover have "?a + ?k \<le> g_bitmap_bits s1 \<or> ?k = 0" by (auto simp: s1)
  ultimately show ?thesis
    using pfa_mark_count [of ?a ?k s1] assms(2) by (auto simp: eq s1 ff)
next
  case False
  with assms(2) show ?thesis by (auto simp: pfa_add_desc_def desc_usable_def)
qed

text \<open>The scan visits the offsets \<open>i\<close>, \<open>i + dsize\<close>, \<open>i + 2 * dsize\<close>, ... below the map's size.\<close>

definition scan_offsets :: "u64 \<Rightarrow> u64 \<Rightarrow> u64 \<Rightarrow> u64 set" where
  "scan_offsets msize dsize i = {p. p < msize \<and> (\<exists>k. unat p = unat i + k * unat dsize)}"

lemma scan_step_measure:
  fixes i msize dsize :: u64
  assumes "0 < dsize" "unat msize + unat dsize \<le> 2 ^ 64" "i < msize"
  shows "unat (i + dsize) = unat i + unat dsize" "unat msize - unat (i + dsize) < unat msize - unat i"
proof -
  have "unat i + unat dsize < 2 ^ 64" using assms by (simp add: word_less_nat_alt)
  then show eq: "unat (i + dsize) = unat i + unat dsize"
    by (simp add: unat_word_ariths)
  with assms show "unat msize - unat (i + dsize) < unat msize - unat i"
    by (simp add: word_less_nat_alt)
qed

lemma scan_offsets_step:
  assumes "0 < dsize" "unat msize + unat dsize \<le> 2 ^ 64" "i < msize"
  shows "scan_offsets msize dsize i = insert i (scan_offsets msize dsize (i + dsize))"
    and "i \<notin> scan_offsets msize dsize (i + dsize)"
proof -
  have step: "(\<exists>k. n = unat i + k * unat dsize) \<longleftrightarrow>
      n = unat i \<or> (\<exists>k. n = unat i + unat dsize + k * unat dsize)" for n
  proof
    assume "\<exists>k. n = unat i + k * unat dsize"
    then obtain k where "n = unat i + k * unat dsize" by blast
    then show "n = unat i \<or> (\<exists>k. n = unat i + unat dsize + k * unat dsize)"
      by (cases k) auto
  next
    assume "n = unat i \<or> (\<exists>k. n = unat i + unat dsize + k * unat dsize)"
    then show "\<exists>k. n = unat i + k * unat dsize"
      by (metis add.assoc add.right_neutral mult_Suc mult_zero_left)
  qed
  show "scan_offsets msize dsize i = insert i (scan_offsets msize dsize (i + dsize))"
    using assms(3) by (auto simp: scan_offsets_def scan_step_measure(1) [OF assms] step
        dest: word_unat_eq_iff [THEN iffD2])
  show "i \<notin> scan_offsets msize dsize (i + dsize)"
    using assms(1) by (auto simp: scan_offsets_def scan_step_measure(1) [OF assms] unat_gt_0)
qed

lemma scan_offsets_end: "\<not> i < msize \<Longrightarrow> scan_offsets msize dsize i = {}"
  by (auto simp: scan_offsets_def word_less_nat_alt)

text \<open>The usable descriptors of a map describe different frames.\<close>

definition map_disjoint :: "(u64 \<Rightarrow> mmap_desc) \<Rightarrow> u64 set \<Rightarrow> bool" where
  "map_disjoint mm P \<longleftrightarrow> (\<forall>p \<in> P. \<forall>q \<in> P. p \<noteq> q \<and> desc_usable (mm p) \<and> desc_usable (mm q) \<longrightarrow>
     desc_frames (mm p) \<inter> desc_frames (mm q) = {})"

definition map_frames :: "(u64 \<Rightarrow> mmap_desc) \<Rightarrow> u64 set \<Rightarrow> nat set" where
  "map_frames mm P = {f. \<exists>p \<in> P. desc_usable (mm p) \<and> f \<in> desc_frames (mm p)}"

lemma pfa_scan_returns:
  assumes "0 < dsize" "unat msize + unat dsize \<le> 2 ^ 64"
  shows "\<exists>s'. pfa_scan mm msize dsize i s = Some s' \<and> g_bitmap_bits s' = g_bitmap_bits s \<and>
     (\<forall>f < 256. frame_bit s' f = frame_bit s f) \<and>
     free_frames s' = free_frames s \<union>
       {f \<in> map_frames mm (scan_offsets msize dsize i). 256 \<le> f \<and> f < g_bitmap_bits s} \<and>
     (g_free_pages s = card (free_frames s) \<longrightarrow> map_disjoint mm (scan_offsets msize dsize i) \<longrightarrow>
      free_frames s \<inter> map_frames mm (scan_offsets msize dsize i) = {} \<longrightarrow>
      g_free_pages s' = card (free_frames s'))"
proof (induction "unat msize - unat i" arbitrary: i s rule: less_induct)
  case less
  show ?case
  proof (cases "i < msize")
    case True
    let ?s = "pfa_add_desc (mm i) s"
    let ?P = "scan_offsets msize dsize i" and ?Q = "scan_offsets msize dsize (i + dsize)"
    note off = scan_offsets_step [OF assms True]
    obtain s' where s': "pfa_scan mm msize dsize (i + dsize) ?s = Some s'"
      "g_bitmap_bits s' = g_bitmap_bits ?s" "\<forall>f < 256. frame_bit s' f = frame_bit ?s f"
      "free_frames s' = free_frames ?s \<union> {f \<in> map_frames mm ?Q. 256 \<le> f \<and> f < g_bitmap_bits ?s}"
      "g_free_pages ?s = card (free_frames ?s) \<Longrightarrow> map_disjoint mm ?Q \<Longrightarrow>
       free_frames ?s \<inter> map_frames mm ?Q = {} \<Longrightarrow> g_free_pages s' = card (free_frames s')"
      using less [OF scan_step_measure(2) [OF assms True], of ?s] by blast
    have "pfa_scan mm msize dsize i s = Some s'"
      using True s'(1) by (subst pfa_scan.simps) simp
    moreover have "free_frames s' = free_frames s \<union> {f \<in> map_frames mm ?P. 256 \<le> f \<and> f < g_bitmap_bits s}"
      unfolding s'(4) off(1) by (auto simp: free_frames_add_desc map_frames_def)
    moreover have "g_free_pages s' = card (free_frames s')"
      if h: "g_free_pages s = card (free_frames s)" "map_disjoint mm ?P"
        "free_frames s \<inter> map_frames mm ?P = {}"
    proof (rule s'(5))
      show "g_free_pages ?s = card (free_frames ?s)"
        using h(1,3) off(1) by (intro pfa_add_desc_count) (auto simp: map_frames_def)
      show "map_disjoint mm ?Q" using h(2) off(1) by (simp add: map_disjoint_def)
      show "free_frames ?s \<inter> map_frames mm ?Q = {}"
        using h(2,3) off
        by (fastforce simp: free_frames_add_desc map_frames_def map_disjoint_def)
    qed
    ultimately show ?thesis using s'(2,3)
      by (intro exI [of _ s']) (simp add: frame_bit_pfa_add_desc_low)
  next
    case False
    then show ?thesis
      by (subst pfa_scan.simps) (simp add: scan_offsets_end map_frames_def)
  qed
qed

section \<open>Properties of the frame allocator\<close>

text \<open>A boot memory map of one usable region of two frames at 1 MiB, and a small
  allocator state in which frames 1 and 2 are free, as sample inputs.\<close>

definition sample_boot :: boot_info where
  "sample_boot = \<lparr>memory_map = Some (\<lambda>_. \<lparr>md_type = 7, physical_start = 0x100000,
     virtual_start = 0, md_count = 2, md_attributes = 0\<rparr>),
     memory_map_size = 40, memory_map_descriptor_size = 40\<rparr>"

definition sample_pfa :: pfa where
  "sample_pfa = \<lparr>g_bitmap = (\<lambda>_. 0)(0 := 6), g_bitmap_bits = 16, g_max_phys = 0,
     g_total_pages = 16, g_free_pages = 2, g_reserved_pages = 0\<rparr>"

lemma free_frames_sample_pfa: "free_frames sample_pfa = {1, 2}"
proof -
  have "bit (6 :: u8) n \<longleftrightarrow> n = 1 \<or> n = 2" if "n < 8" for n
  proof -
    from that have "n \<in> {0, 1, 2, 3, 4, 5, 6, 7}" by auto
    then show ?thesis by (auto simp: bit_numeral_rec)
  qed
  moreover have "frame_bit sample_pfa i \<longleftrightarrow> i < 8 \<and> bit (6 :: u8) i" for i
    by (auto simp: sample_pfa_def frame_bit_iff)
  ultimately have fb: "frame_bit sample_pfa i \<longleftrightarrow> i = 1 \<or> i = 2" for i by auto
  have "free_frames sample_pfa = {i. i < 16 \<and> (i = 1 \<or> i = 2)}"
    by (simp only: free_frames_def fb) (simp add: sample_pfa_def)
  also have "\<dots> = {1, 2}" by auto
  finally show ?thesis .
qed

lemma pfa_inv_sample_pfa: "pfa_inv sample_pfa"
proof -
  have "\<not> frame_bit sample_pfa 0"
    using free_frames_sample_pfa in_free_frames [of 0 sample_pfa] by (auto simp: sample_pfa_def)
  then show ?thesis
    by (simp add: pfa_inv_def free_frames_sample_pfa) (simp add: sample_pfa_def)
qed

text \<open>On a boot memory map whose descriptor size is not zero the
  initialisation returns; the free frames are exactly the frames of the
  usable regions that the bitmap covers and that lie at or above 1 MiB; and
  when no two usable regions overlap the allocator is well formed, its free
  counter being the number of free frames.\<close>

theorem frame_alloc_init_spec:
  assumes "memory_map b = Some mm" "0 < memory_map_descriptor_size b"
    "unat (memory_map_size b) + unat (memory_map_descriptor_size b) \<le> 2 ^ 64"
  defines "P \<equiv> scan_offsets (memory_map_size b) (memory_map_descriptor_size b) 0"
  shows "\<exists>s'. frame_alloc_init (Some b) s = Some s' \<and>
     free_frames s' = {f \<in> map_frames mm P. 256 \<le> f \<and> f < BITMAP_BITS} \<and>
     (map_disjoint mm P \<longrightarrow> pfa_inv s')"
proof -
  let ?s = "s\<lparr>g_bitmap := (\<lambda>_. 0), g_bitmap_bits := BITMAP_BITS, g_total_pages := BITMAP_BITS,
              g_free_pages := 0, g_reserved_pages := 0\<rparr>"
  have nb: "\<not> frame_bit ?s f" for f by (simp add: frame_bit_def)
  then have "free_frames ?s = {}" by (simp add: free_frames_def)
  with pfa_scan_returns [OF assms(2,3), of mm 0 ?s] assms(1) nb show ?thesis
    by (auto simp: frame_alloc_init_def P_def pfa_inv_def)
qed

theorem frame_alloc_init_spec_witness:
  "\<exists>s'. frame_alloc_init (Some sample_boot) sample_pfa = Some s' \<and> free_frames s' = {256, 257} \<and> pfa_inv s'"
proof -
  let ?mm = "\<lambda>_::u64. \<lparr>md_type = 7, physical_start = 0x100000, virtual_start = 0, md_count = 2,
     md_attributes = 0\<rparr> :: mmap_desc"
  let ?P = "scan_offsets 40 40 0"
  have P: "?P = {0}"
  proof -
    have "p < 40 \<and> (\<exists>k. unat p = k * 40) \<longleftrightarrow> p = 0" for p :: u64
      by (auto simp: word_less_nat_alt unat_eq_0)
    then show ?thesis by (auto simp: scan_offsets_def)
  qed
  have fr: "map_frames ?mm ?P = {256 ..< 258}"
    by (simp add: P map_frames_def desc_usable_def desc_frames_def) (auto simp: atLeastLessThan_def)
  have dj: "map_disjoint ?mm ?P" by (simp add: P map_disjoint_def)
  have "\<exists>s'. frame_alloc_init (Some sample_boot) sample_pfa = Some s' \<and>
     free_frames s' = {f \<in> map_frames ?mm ?P. 256 \<le> f \<and> f < BITMAP_BITS} \<and>
     (map_disjoint ?mm ?P \<longrightarrow> pfa_inv s')"
    using frame_alloc_init_spec [of sample_boot ?mm sample_pfa] by (simp add: sample_boot_def)
  moreover have "{f \<in> {256 ..< 258}. 256 \<le> f \<and> f < BITMAP_BITS} = {256, 257}" by auto
  ultimately show ?thesis using fr dj by simp
qed

text \<open>C9: whatever sequence of allocations and releases its clients perform, the
  allocator never hands out a frame that a client still holds: the frames
  held are pairwise different, none of them is free, and together with the
  free frames they are the frames that were free at the start.\<close>

theorem frames_exclusive:
  assumes "pool_reach pfa_take pfa_free_frame s0 s own" "pfa_inv s0"
  shows "distinct own \<and> set own \<inter> pfa_avail s = {} \<and> set own \<union> pfa_avail s = pfa_avail s0 \<and>
         pfa_inv s"
  using pfa_pool.reach_ownership [OF assms] by blast

theorem frames_exclusive_witness:
  "\<exists>s. pool_reach pfa_take pfa_free_frame sample_pfa s [frame_addr 2, frame_addr 1] \<and>
       {frame_addr 2, frame_addr 1} \<inter> pfa_avail s = {} \<and> pfa_inv s"
proof -
  obtain p1 s1 where 1: "pfa_take sample_pfa = Some (p1, s1)"
    using pfa_take_None [OF pfa_inv_sample_pfa] free_frames_sample_pfa by fastforce
  from pfa_take_SomeE [OF pfa_inv_sample_pfa 1]
  have s1: "p1 = frame_addr 1" "free_frames s1 = {2}" "pfa_inv s1"
    by (simp_all add: free_frames_sample_pfa)
  obtain p2 s2 where 2: "pfa_take s1 = Some (p2, s2)"
    using pfa_take_None [OF s1(3)] s1(2) by fastforce
  from pfa_take_SomeE [OF s1(3) 2] s1(2) have p2: "p2 = frame_addr 2" by simp
  have "pool_reach pfa_take pfa_free_frame sample_pfa s2 [p2, p1]"
    using 1 2 by (meson pool_reach.intros)
  with frames_exclusive [OF this pfa_inv_sample_pfa] s1(1) p2 show ?thesis by auto
qed

text \<open>An allocation returns the address of the lowest free frame and takes
  exactly that frame out of the free set, or returns 0 and changes nothing
  when no frame is free; releasing the frame makes it free again.\<close>

theorem pfa_alloc_free_spec:
  assumes "pfa_inv s"
  shows "(case pfa_alloc_frame s of (p, s') \<Rightarrow>
     if free_frames s = {} then p = 0 \<and> s' = s
     else p = frame_addr (Min (free_frames s)) \<and> p \<noteq> 0 \<and>
          free_frames s' = free_frames s - {Min (free_frames s)} \<and>
          free_frames (pfa_free_frame p s') = free_frames s \<and> pfa_inv (pfa_free_frame p s'))"
proof (cases "free_frames s = {}")
  case True
  with assms show ?thesis by (simp add: pfa_alloc_frame_none)
next
  case False
  let ?i = "Min (free_frames s)"
  have mem: "?i \<in> free_frames s" using False by simp
  obtain s' where s': "pfa_alloc_frame s = (frame_addr ?i, s')"
    "free_frames s' = free_frames s - {?i}" "g_bitmap_bits s' = g_bitmap_bits s" "pfa_inv s'"
    by (rule pfa_alloc_frame_some [OF assms False])
  moreover have "frame_addr ?i \<noteq> 0"
    using free_frames_below [OF assms mem] frame_addr_eq_0 [of ?i] by simp
  moreover have "free_frames (pfa_free_frame (frame_addr ?i) s') = insert ?i (free_frames s') \<and>
      pfa_inv (pfa_free_frame (frame_addr ?i) s')"
    using pfa_free_frame_released [OF s'(4), of ?i] free_frames_below [OF assms mem] mem s'(2,3)
    by (simp add: in_free_frames)
  ultimately show ?thesis using mem False by (simp add: insert_absorb)
qed

theorem pfa_alloc_free_spec_witness:
  "fst (pfa_alloc_frame sample_pfa) = frame_addr 1"
  using pfa_alloc_free_spec [OF pfa_inv_sample_pfa]
  by (simp add: free_frames_sample_pfa split: prod.splits)

end
