(* ===== verification/Refcount.thy ===== *)
theory Refcount
  imports Kernel_Prelude
begin

text \<open>
  Reference counts of physical frames (\<open>refcount.c\<close>): one 32-bit counter
  per frame below a limit fixed at initialisation.  Every operation takes a
  physical address and works on the frame that contains it.
\<close>

section \<open>State and operations\<close>

abbreviation MAX_REFCOUNT_ENTRIES :: nat where "MAX_REFCOUNT_ENTRIES \<equiv> 131072"

record refcounts =
  g_max_frames :: nat
  g_refcounts :: "u32 array"

definition refcount_init :: "nat \<Rightarrow> refcounts \<Rightarrow> refcounts" where
  "refcount_init max_frames s =
     (let m = (if max_frames > MAX_REFCOUNT_ENTRIES then MAX_REFCOUNT_ENTRIES else max_frames)
      in s\<lparr>g_max_frames := m,
           g_refcounts := (\<lambda>i. if i < m then 0 else g_refcounts s i)\<rparr>)"

definition paddr_to_frame :: "u64 \<Rightarrow> nat" where
  "paddr_to_frame paddr = unat ((paddr AND NOT 0xFFF) div 4096)"

definition refcount_inc :: "u64 \<Rightarrow> refcounts \<Rightarrow> u32 \<times> refcounts" where
  "refcount_inc paddr s =
     (let frame = paddr_to_frame paddr in
      if frame \<ge> g_max_frames s then (0, s)
      else if g_refcounts s frame = 0xFFFFFFFF then (0xFFFFFFFF, s)
      else let c = g_refcounts s frame + 1
           in (c, s\<lparr>g_refcounts := (g_refcounts s)(frame := c)\<rparr>))"

definition refcount_dec :: "u64 \<Rightarrow> refcounts \<Rightarrow> u32 \<times> refcounts" where
  "refcount_dec paddr s =
     (let frame = paddr_to_frame paddr in
      if frame \<ge> g_max_frames s then (0, s)
      else if g_refcounts s frame = 0 then (0, s)
      else let c = g_refcounts s frame - 1
           in (c, s\<lparr>g_refcounts := (g_refcounts s)(frame := c)\<rparr>))"

definition refcount_get :: "u64 \<Rightarrow> refcounts \<Rightarrow> u32" where
  "refcount_get paddr s =
     (let frame = paddr_to_frame paddr in
      if frame \<ge> g_max_frames s then 0 else g_refcounts s frame)"

definition refcount_set :: "u64 \<Rightarrow> u32 \<Rightarrow> refcounts \<Rightarrow> refcounts" where
  "refcount_set paddr count s =
     (let frame = paddr_to_frame paddr in
      if frame \<ge> g_max_frames s then s
      else s\<lparr>g_refcounts := (g_refcounts s)(frame := count)\<rparr>)"

definition refcount_is_shared :: "u64 \<Rightarrow> refcounts \<Rightarrow> bool" where
  "refcount_is_shared paddr s =
     (let frame = paddr_to_frame paddr in
      if frame \<ge> g_max_frames s then False else g_refcounts s frame > 1)"

text \<open>The count of a frame, zero for a frame that is not tracked.\<close>

definition frame_count :: "refcounts \<Rightarrow> nat \<Rightarrow> nat" where
  "frame_count s f = (if f < g_max_frames s then unat (g_refcounts s f) else 0)"

section \<open>Laws\<close>

lemma paddr_to_frame_div: "paddr_to_frame paddr = unat paddr div 4096"
proof -
  have m: "(0xFFF :: u64) = mask 12" by (simp add: mask_eq_exp_minus_1)
  have "(paddr AND NOT 0xFFF) div 4096 = drop_bit 12 (paddr AND NOT (mask 12))"
    by (simp add: m drop_bit_eq_div)
  also have "\<dots> = drop_bit 12 paddr"
    by (rule bit_word_eqI) (auto simp: bit_simps dest: bit_imp_le_length)
  finally show ?thesis
    by (simp add: paddr_to_frame_def drop_bit_eq_div unat_div)
qed

lemma refcount_get_count: "unat (refcount_get paddr s) = frame_count s (paddr_to_frame paddr)"
  by (simp add: refcount_get_def frame_count_def Let_def)

lemma refcount_max_frames [simp]:
  "g_max_frames (snd (refcount_inc p s)) = g_max_frames s"
  "g_max_frames (snd (refcount_dec p s)) = g_max_frames s"
  "g_max_frames (refcount_set p c s) = g_max_frames s"
  by (simp_all add: refcount_inc_def refcount_dec_def refcount_set_def Let_def)

lemma unat_inc:
  fixes c :: u32
  assumes "c \<noteq> 0xFFFFFFFF"
  shows "unat (c + 1) = unat c + 1"
proof -
  have "unat c \<noteq> 4294967295" using assms by (auto simp: word_unat_eq_iff)
  with unat_less_exp [of c] have "unat c + 1 < 2 ^ 32" by simp
  then show ?thesis by (simp add: unat_word_ariths)
qed

lemma unat_dec: "c \<noteq> 0 \<Longrightarrow> unat (c - 1) = unat c - 1" for c :: u32
  by (rule unat_minus_one)

text \<open>Effect of the operations on the counts of all frames.\<close>

lemma frame_count_inc:
  "frame_count (snd (refcount_inc p s)) f =
     (if f = paddr_to_frame p \<and> f < g_max_frames s \<and> frame_count s f < 2 ^ 32 - 1
      then frame_count s f + 1 else frame_count s f)"
proof -
  have "unat (g_refcounts s f) < 2 ^ 32 - 1 \<longleftrightarrow> g_refcounts s f \<noteq> 0xFFFFFFFF"
    using unat_less_exp [of "g_refcounts s f"] by (auto simp: word_unat_eq_iff)
  then show ?thesis
    by (auto simp: frame_count_def refcount_inc_def Let_def unat_inc)
qed

lemma frame_count_dec:
  "frame_count (snd (refcount_dec p s)) f =
     (if f = paddr_to_frame p then frame_count s f - 1 else frame_count s f)"
  by (auto simp: frame_count_def refcount_dec_def Let_def unat_dec)

lemma frame_count_set:
  "frame_count (refcount_set p c s) f =
     (if f = paddr_to_frame p \<and> f < g_max_frames s then unat c else frame_count s f)"
  by (auto simp: frame_count_def refcount_set_def Let_def)

lemma frame_count_init [simp]: "frame_count (refcount_init m s) f = 0"
  by (simp add: frame_count_def refcount_init_def Let_def)

lemma refcount_is_shared_iff: "refcount_is_shared p s \<longleftrightarrow> frame_count s (paddr_to_frame p) > 1"
  by (simp add: refcount_is_shared_def frame_count_def Let_def word_less_nat_alt)

section \<open>Properties of the reference counts\<close>

text \<open>A sequence of increments and decrements, the addresses paired with the
  direction of the change.\<close>

fun refcount_run :: "(bool \<times> u64) list \<Rightarrow> refcounts \<Rightarrow> refcounts" where
  "refcount_run [] s = s"
| "refcount_run ((up, p) # ops) s =
     refcount_run ops (snd (if up then refcount_inc p s else refcount_dec p s))"

fun count_run :: "nat \<Rightarrow> (bool \<times> u64) list \<Rightarrow> nat \<Rightarrow> nat" where
  "count_run f [] c = c"
| "count_run f ((up, p) # ops) c =
     count_run f ops (if paddr_to_frame p = f
                      then (if up then min (c + 1) (2 ^ 32 - 1) else c - 1) else c)"

lemma frame_count_bound: "frame_count s f \<le> 2 ^ 32 - 1"
  using unat_less_exp [of "g_refcounts s f"] by (simp add: frame_count_def)

text \<open>Over any sequence of increments and decrements the count of a tracked
  frame is what a counter that saturates at \<open>2 ^ 32 - 1\<close> and stops at zero
  shows: it never wraps around, and operations on other frames leave it
  alone.\<close>

theorem refcount_run_counts:
  assumes "f < g_max_frames s"
  shows "frame_count (refcount_run ops s) f = count_run f ops (frame_count s f)"
  using assms
proof (induction ops arbitrary: s)
  case (Cons op ops)
  obtain up p where op: "op = (up, p)" by (cases op)
  let ?s = "snd (if up then refcount_inc p s else refcount_dec p s)"
  have "frame_count ?s f = (if paddr_to_frame p = f
      then (if up then min (frame_count s f + 1) (2 ^ 32 - 1) else frame_count s f - 1)
      else frame_count s f)"
    using Cons.prems frame_count_bound [of s f]
    by (auto simp: frame_count_inc frame_count_dec)
  moreover have "f < g_max_frames ?s" using Cons.prems by simp
  ultimately show ?case using Cons.IH [of ?s] by (simp add: op)
qed simp

theorem refcount_run_counts_witness:
  "frame_count (refcount_run [(True, 0x1000), (True, 0x1FFF), (False, 0x1000), (True, 0x2000)]
     (refcount_init 8 \<lparr>g_max_frames = 0, g_refcounts = (\<lambda>_. 0)\<rparr>)) 1 = 1"
  by (subst refcount_run_counts)
    (simp_all add: paddr_to_frame_div, simp add: refcount_init_def)

end
