(* ===== verification/Paging.thy ===== *)
theory Paging
  imports Frame_Alloc Refcount
begin

text \<open>
  Four-level page tables (\<open>paging.c\<close>, \<open>paging.h\<close>).  The state holds the
  frame allocator, the reference counts and physical memory as 64-bit words,
  indexed by the page's physical base address and the word's index in the
  page; a table and a data page are the same kind of page.  Physical memory
  is reached through the direct map, whose offset \<open>phys_map_offset\<close> only
  changes the pointer used, and TLB flushes have no counterpart.
\<close>

section \<open>State and operations\<close>

abbreviation PTE_PRESENT :: u64 where "PTE_PRESENT \<equiv> 1"
abbreviation PTE_RW :: u64 where "PTE_RW \<equiv> 0x2"
abbreviation PTE_USER :: u64 where "PTE_USER \<equiv> 0x4"
abbreviation PTE_PS :: u64 where "PTE_PS \<equiv> 0x80"
abbreviation PTE_GLOBAL :: u64 where "PTE_GLOBAL \<equiv> 0x100"
abbreviation PTE_COW :: u64 where "PTE_COW \<equiv> 0x200"
abbreviation PTE_ADDR_MASK :: u64 where "PTE_ADDR_MASK \<equiv> 0x000FFFFFFFFFF000"

definition pml4_index :: "u64 \<Rightarrow> nat" where "pml4_index va = unat (drop_bit 39 va AND 0x1FF)"
definition pdpt_index :: "u64 \<Rightarrow> nat" where "pdpt_index va = unat (drop_bit 30 va AND 0x1FF)"
definition pd_index :: "u64 \<Rightarrow> nat" where "pd_index va = unat (drop_bit 21 va AND 0x1FF)"
definition pt_index :: "u64 \<Rightarrow> nat" where "pt_index va = unat (drop_bit 12 va AND 0x1FF)"

record mmu =
  frames :: pfa
  rcs :: refcounts
  pmem :: "u64 \<Rightarrow> nat \<Rightarrow> u64"

definition alloc_zeroed_page :: "mmu \<Rightarrow> u64 \<times> mmu" where
  "alloc_zeroed_page s =
     (let (p, f) = pfa_alloc_frame (frames s); s1 = s\<lparr>frames := f\<rparr> in
      if p = 0 then (0, s1) else (p, s1\<lparr>pmem := (pmem s1)(p := (\<lambda>_. 0))\<rparr>))"

definition read_entry :: "u64 \<Rightarrow> nat \<Rightarrow> mmu \<Rightarrow> u64" where
  "read_entry table i s = pmem s table i"

definition write_entry :: "u64 \<Rightarrow> nat \<Rightarrow> u64 \<Rightarrow> mmu \<Rightarrow> mmu" where
  "write_entry table i val s = s\<lparr>pmem := (pmem s)(table := (pmem s table)(i := val))\<rparr>"

definition paging_create_pml4 :: "mmu \<Rightarrow> u64 \<times> mmu" where
  "paging_create_pml4 s = alloc_zeroed_page s"

definition ensure_table_with_flags :: "u64 \<Rightarrow> nat \<Rightarrow> u64 \<Rightarrow> mmu \<Rightarrow> u64 \<times> mmu" where
  "ensure_table_with_flags parent index flags s =
     (let ent = read_entry parent index s in
      if ent AND PTE_PRESENT \<noteq> 0 then
        if flags AND PTE_USER \<noteq> 0 then
          let ent' = ent OR PTE_USER
          in (ent' AND PTE_ADDR_MASK, write_entry parent index ent' s)
        else (ent AND PTE_ADDR_MASK, s)
      else
        let (child, s1) = alloc_zeroed_page s in
        if child = 0 then (0, s1)
        else
          let newent = (child AND PTE_ADDR_MASK) OR PTE_PRESENT OR PTE_RW;
              newent' = (if flags AND PTE_USER \<noteq> 0 then newent OR PTE_USER else newent)
          in (child, write_entry parent index newent' s1))"

definition paging_map_page :: "u64 \<Rightarrow> u64 \<Rightarrow> u64 \<Rightarrow> u64 \<Rightarrow> mmu \<Rightarrow> int \<times> mmu" where
  "paging_map_page pml4 vaddr paddr flags s =
     (if pml4 = 0 then (-1, s)
      else
        let (pdpt, s1) = ensure_table_with_flags pml4 (pml4_index vaddr) flags s in
        if pdpt = 0 then (-1, s1)
        else
          let (pd, s2) = ensure_table_with_flags pdpt (pdpt_index vaddr) flags s1 in
          if pd = 0 then (-1, s2)
          else
            let (pt, s3) = ensure_table_with_flags pd (pd_index vaddr) flags s2 in
            if pt = 0 then (-1, s3)
            else
              let entry = ((paddr AND PTE_ADDR_MASK) OR (flags AND NOT PTE_ADDR_MASK)) OR PTE_PRESENT
              in (0, write_entry pt (pt_index vaddr) entry s3))"

primrec paging_map_range_loop ::
  "u64 \<Rightarrow> u64 \<Rightarrow> u64 \<Rightarrow> u64 \<Rightarrow> nat \<Rightarrow> nat \<Rightarrow> mmu \<Rightarrow> int \<times> mmu"
where
  "paging_map_range_loop pml4 vaddr paddr flags i 0 s = (0, s)"
| "paging_map_range_loop pml4 vaddr paddr flags i (Suc k) s =
     (let (r, s1) = paging_map_page pml4 (vaddr + push_bit 12 (word_of_nat i))
                      (paddr + push_bit 12 (word_of_nat i)) flags s in
      if r \<noteq> 0 then (r, s1) else paging_map_range_loop pml4 vaddr paddr flags (Suc i) k s1)"

definition paging_map_range ::
  "u64 \<Rightarrow> u64 \<Rightarrow> u64 \<Rightarrow> nat \<Rightarrow> u64 \<Rightarrow> mmu \<Rightarrow> int \<times> mmu"
where
  "paging_map_range pml4 vaddr paddr n_pages flags s =
     paging_map_range_loop pml4 vaddr paddr flags 0 n_pages s"

definition paging_unmap_page :: "u64 \<Rightarrow> u64 \<Rightarrow> mmu \<Rightarrow> int \<times> mmu" where
  "paging_unmap_page pml4 vaddr s =
     (if pml4 = 0 then (-1, s)
      else
        let ent4 = read_entry pml4 (pml4_index vaddr) s in
        if ent4 AND PTE_PRESENT = 0 then (-2, s)
        else
          let pdpt = ent4 AND PTE_ADDR_MASK; ent3 = read_entry pdpt (pdpt_index vaddr) s in
          if ent3 AND PTE_PRESENT = 0 then (-3, s)
          else
            let pd = ent3 AND PTE_ADDR_MASK; ent2 = read_entry pd (pd_index vaddr) s in
            if ent2 AND PTE_PRESENT = 0 then (-4, s)
            else
              let pt = ent2 AND PTE_ADDR_MASK
              in (0, write_entry pt (pt_index vaddr) 0 s))"

primrec paging_unmap_range_loop :: "u64 \<Rightarrow> u64 \<Rightarrow> nat \<Rightarrow> nat \<Rightarrow> mmu \<Rightarrow> int \<times> mmu" where
  "paging_unmap_range_loop pml4 vaddr i 0 s = (0, s)"
| "paging_unmap_range_loop pml4 vaddr i (Suc k) s =
     (let (r, s1) = paging_unmap_page pml4 (vaddr + push_bit 12 (word_of_nat i)) s in
      if r \<noteq> 0 \<and> r \<noteq> -2 \<and> r \<noteq> -3 \<and> r \<noteq> -4 then (r, s1)
      else paging_unmap_range_loop pml4 vaddr (Suc i) k s1)"

definition paging_unmap_range :: "u64 \<Rightarrow> u64 \<Rightarrow> nat \<Rightarrow> mmu \<Rightarrow> int \<times> mmu" where
  "paging_unmap_range pml4 vaddr n_pages s = paging_unmap_range_loop pml4 vaddr 0 n_pages s"

definition paging_get_phys :: "u64 \<Rightarrow> u64 \<Rightarrow> mmu \<Rightarrow> u64" where
  "paging_get_phys pml4 vaddr s =
     (if pml4 = 0 then 0
      else
        let ent4 = read_entry pml4 (pml4_index vaddr) s in
        if ent4 AND PTE_PRESENT = 0 then 0
        else
          let pdpt = ent4 AND PTE_ADDR_MASK; ent3 = read_entry pdpt (pdpt_index vaddr) s in
          if ent3 AND PTE_PRESENT = 0 then 0
          else if ent3 AND PTE_PS \<noteq> 0 then (ent3 AND PTE_ADDR_MASK) + (vaddr AND 0x3FFFFFFF)
          else
            let pd = ent3 AND PTE_ADDR_MASK; ent2 = read_entry pd (pd_index vaddr) s in
            if ent2 AND PTE_PRESENT = 0 then 0
            else if ent2 AND PTE_PS \<noteq> 0 then (ent2 AND PTE_ADDR_MASK) + (vaddr AND 0x1FFFFF)
            else
              let pt = ent2 AND PTE_ADDR_MASK; ent1 = read_entry pt (pt_index vaddr) s in
              if ent1 AND PTE_PRESENT = 0 then 0
              else (ent1 AND PTE_ADDR_MASK) + (vaddr AND 0xFFF))"

text \<open>
  The kernel's own address space.  The linker symbols \<open>kernel_start\<close> and
  \<open>kernel_end\<close> are parameters.
\<close>

abbreviation KERNEL_VIRT_BASE :: u64 where "KERNEL_VIRT_BASE \<equiv> 0xFFFFFFFF80000000"

definition page_align_down :: "u64 \<Rightarrow> u64" where
  "page_align_down a = a AND NOT 0xFFF"

definition paging_setup_kernel_pml4 :: "u64 \<Rightarrow> u64 \<Rightarrow> u64 \<Rightarrow> u64 \<Rightarrow> mmu \<Rightarrow> u64 \<times> mmu" where
  "paging_setup_kernel_pml4 kernel_start kernel_end fb_paddr fb_size s =
     (let (pml4, s0) = paging_create_pml4 s in
      if pml4 = 0 then (0, s0)
      else
        let kstart_aligned = page_align_down kernel_start;
            kend_aligned = page_align_down (kernel_end + 4095);
            n_kernel_pages = unat ((kend_aligned - kstart_aligned) div 4096);
            k_flags = PTE_PRESENT OR PTE_RW OR PTE_GLOBAL;
            (r1, s1) = paging_map_range pml4 kstart_aligned kstart_aligned n_kernel_pages k_flags s0
        in if r1 \<noteq> 0 then (0, s1)
        else
          let (r2, s2) = paging_map_range pml4 (KERNEL_VIRT_BASE + kstart_aligned) kstart_aligned
                           n_kernel_pages k_flags s1
          in if r2 \<noteq> 0 then (0, s2)
          else
            let (r3, s3) = paging_map_range pml4 0 0 (512 * 1024 * 1024 div 4096) k_flags s2
            in if r3 \<noteq> 0 then (0, s3)
            else if fb_paddr \<noteq> 0 \<and> fb_size \<noteq> 0 then
              let n_fb_pages = unat ((fb_size + 4095) div 4096);
                  (r4, s4) = paging_map_range pml4 fb_paddr fb_paddr n_fb_pages k_flags s3
              in if r4 \<noteq> 0 then (0, s4) else (pml4, s4)
            else (pml4, s3))"

definition paging_remove_kernel_identity_map :: "u64 \<Rightarrow> u64 \<Rightarrow> u64 \<Rightarrow> mmu \<Rightarrow> mmu" where
  "paging_remove_kernel_identity_map kernel_start kernel_end pml4 s =
     (let kstart_aligned = page_align_down kernel_start;
          kend_aligned = page_align_down (kernel_end + 4095);
          n_kernel_pages = unat ((kend_aligned - kstart_aligned) div 4096)
      in snd (paging_unmap_range pml4 kstart_aligned n_kernel_pages s))"

text \<open>\<open>paging_set_user_bit\<close> strips only the low 12 bits of an entry; \<open>cr3\<close> is
  the current root.\<close>

definition paging_set_user_bit :: "u64 \<Rightarrow> u64 \<Rightarrow> mmu \<Rightarrow> mmu" where
  "paging_set_user_bit cr3 va s =
     (let pml4 = cr3 AND NOT 0xFFF; e4 = read_entry pml4 (pml4_index va) s in
      if e4 AND 1 = 0 then s
      else
        let s1 = write_entry pml4 (pml4_index va) (e4 OR PTE_USER) s;
            pdpt = read_entry pml4 (pml4_index va) s1 AND NOT 0xFFF;
            e3 = read_entry pdpt (pdpt_index va) s1
        in if e3 AND 1 = 0 then s1
        else
          let s2 = write_entry pdpt (pdpt_index va) (e3 OR PTE_USER) s1;
              pd = read_entry pdpt (pdpt_index va) s2 AND NOT 0xFFF;
              e2 = read_entry pd (pd_index va) s2
          in if e2 AND 1 = 0 then s2
          else
            let s3 = write_entry pd (pd_index va) (e2 OR PTE_USER) s2;
                e2' = read_entry pd (pd_index va) s3
            in if e2' AND PTE_PS \<noteq> 0 then s3
            else
              let pt = e2' AND NOT 0xFFF; e1 = read_entry pt (pt_index va) s3
              in if e1 AND 1 = 0 then s3
              else write_entry pt (pt_index va) (e1 OR PTE_USER) s3)"

text \<open>A pointer to a page-table entry is the table with the index in it.\<close>

definition paging_get_pte :: "u64 \<Rightarrow> u64 \<Rightarrow> mmu \<Rightarrow> (u64 \<times> nat) option" where
  "paging_get_pte pml4 vaddr s =
     (if pml4 = 0 then None
      else
        let ent4 = read_entry pml4 (pml4_index vaddr) s in
        if ent4 AND PTE_PRESENT = 0 then None
        else
          let pdpt = ent4 AND PTE_ADDR_MASK; ent3 = read_entry pdpt (pdpt_index vaddr) s in
          if ent3 AND PTE_PRESENT = 0 then None
          else if ent3 AND PTE_PS \<noteq> 0 then None
          else
            let pd = ent3 AND PTE_ADDR_MASK; ent2 = read_entry pd (pd_index vaddr) s in
            if ent2 AND PTE_PRESENT = 0 then None
            else if ent2 AND PTE_PS \<noteq> 0 then None
            else Some (ent2 AND PTE_ADDR_MASK, pt_index vaddr))"

definition paging_get_flags :: "u64 \<Rightarrow> u64 \<Rightarrow> mmu \<Rightarrow> u64" where
  "paging_get_flags pml4 vaddr s =
     (case paging_get_pte pml4 vaddr s of
        None \<Rightarrow> 0
      | Some (pt, i) \<Rightarrow> read_entry pt i s AND NOT PTE_ADDR_MASK)"

definition paging_set_flags :: "u64 \<Rightarrow> u64 \<Rightarrow> u64 \<Rightarrow> mmu \<Rightarrow> int \<times> mmu" where
  "paging_set_flags pml4 vaddr flags s =
     (case paging_get_pte pml4 vaddr s of
        None \<Rightarrow> (-1, s)
      | Some (pt, i) \<Rightarrow>
          (0, write_entry pt i (read_entry pt i s OR (flags AND NOT PTE_ADDR_MASK)) s))"

definition paging_clear_flags :: "u64 \<Rightarrow> u64 \<Rightarrow> u64 \<Rightarrow> mmu \<Rightarrow> int \<times> mmu" where
  "paging_clear_flags pml4 vaddr flags s =
     (case paging_get_pte pml4 vaddr s of
        None \<Rightarrow> (-1, s)
      | Some (pt, i) \<Rightarrow>
          (0, write_entry pt i (read_entry pt i s AND NOT (flags AND NOT PTE_ADDR_MASK)) s))"

primrec paging_mark_cow_loop :: "u64 \<Rightarrow> u64 \<Rightarrow> nat \<Rightarrow> nat \<Rightarrow> mmu \<Rightarrow> mmu" where
  "paging_mark_cow_loop pml4 vaddr i 0 s = s"
| "paging_mark_cow_loop pml4 vaddr i (Suc k) s =
     paging_mark_cow_loop pml4 vaddr (Suc i) k
       (case paging_get_pte pml4 (vaddr + push_bit 12 (word_of_nat i)) s of
          None \<Rightarrow> s
        | Some (pt, j) \<Rightarrow>
            if read_entry pt j s AND PTE_PRESENT = 0 then s
            else write_entry pt j ((read_entry pt j s AND NOT PTE_RW) OR PTE_COW) s)"

definition paging_mark_cow :: "u64 \<Rightarrow> u64 \<Rightarrow> nat \<Rightarrow> mmu \<Rightarrow> int \<times> mmu" where
  "paging_mark_cow pml4 vaddr n_pages s = (0, paging_mark_cow_loop pml4 vaddr 0 n_pages s)"

definition paging_handle_cow_fault :: "u64 \<Rightarrow> u64 \<Rightarrow> mmu \<Rightarrow> int \<times> mmu" where
  "paging_handle_cow_fault pml4 vaddr s =
     (case paging_get_pte pml4 (page_align_down vaddr) s of
        None \<Rightarrow> (-1, s)
      | Some (pt, i) \<Rightarrow>
          if read_entry pt i s AND PTE_PRESENT = 0 then (-1, s)
          else if read_entry pt i s AND PTE_COW = 0 then (-2, s)
          else
            let old_phys = read_entry pt i s AND PTE_ADDR_MASK in
            if refcount_is_shared old_phys (rcs s) then
              let (new_phys, f) = pfa_alloc_frame (frames s); s1 = s\<lparr>frames := f\<rparr> in
              if new_phys = 0 then (-3, s1)
              else
                let s2 = s1\<lparr>pmem := (pmem s1)(new_phys := pmem s1 old_phys)\<rparr>;
                    (old_refs, rc) = refcount_dec old_phys (rcs s2);
                    s3 = s2\<lparr>rcs := rc\<rparr>;
                    s4 = (if old_refs = 0
                          then s3\<lparr>frames := pfa_free_frame old_phys (frames s3)\<rparr> else s3);
                    s5 = s4\<lparr>rcs := refcount_set new_phys 1 (rcs s4)\<rparr>;
                    e = (new_phys AND PTE_ADDR_MASK) OR (read_entry pt i s5 AND NOT PTE_ADDR_MASK)
                in (0, write_entry pt i ((e OR PTE_RW) AND NOT PTE_COW) s5)
            else (0, write_entry pt i ((read_entry pt i s OR PTE_RW) AND NOT PTE_COW) s))"

text \<open>
  \<open>paging_clone_cow\<close>: one body per nested loop.  Every loop walks the 512
  entries of a table and the whole clone stops when a page cannot be
  allocated.
\<close>

definition clone_pte :: "u64 \<Rightarrow> u64 \<Rightarrow> u64 \<Rightarrow> nat \<Rightarrow> mmu \<Rightarrow> bool \<times> mmu" where
  "clone_pte kernel_end src_pt dst_pt i1 s =
     (let e = read_entry src_pt i1 s in
      if e AND PTE_PRESENT = 0 then (True, s)
      else
        let phys = e AND PTE_ADDR_MASK;
            is_kernel = (phys \<ge> 0x100000 \<and> phys < kernel_end);
            s1 = write_entry dst_pt i1 e s
        in if read_entry src_pt i1 s1 AND PTE_RW \<noteq> 0 \<and> \<not> is_kernel then
             let s2 = write_entry src_pt i1 (read_entry src_pt i1 s1 AND NOT PTE_RW) s1;
                 s3 = write_entry src_pt i1 (read_entry src_pt i1 s2 OR PTE_COW) s2;
                 s4 = write_entry dst_pt i1 (read_entry dst_pt i1 s3 AND NOT PTE_RW) s3;
                 s5 = write_entry dst_pt i1 (read_entry dst_pt i1 s4 OR PTE_COW) s4;
                 rc1 = snd (refcount_inc phys (rcs s5));
                 rc2 = snd (refcount_inc phys rc1)
             in (True, s5\<lparr>rcs := rc2\<rparr>)
           else if is_kernel then (True, s1\<lparr>rcs := snd (refcount_inc phys (rcs s1))\<rparr>)
           else (True, s1))"

definition clone_pde :: "u64 \<Rightarrow> u64 \<Rightarrow> u64 \<Rightarrow> nat \<Rightarrow> mmu \<Rightarrow> bool \<times> mmu" where
  "clone_pde kernel_end src_pd dst_pd i2 s =
     (let e = read_entry src_pd i2 s in
      if e AND PTE_PRESENT = 0 then (True, s)
      else if e AND PTE_PS \<noteq> 0 then (True, write_entry dst_pd i2 e s)
      else
        let src_pt = e AND PTE_ADDR_MASK; (dst_pt, s1) = alloc_zeroed_page s in
        if dst_pt = 0 then (False, s1)
        else
          let s2 = write_entry dst_pd i2
                     ((dst_pt AND PTE_ADDR_MASK) OR (read_entry src_pd i2 s1 AND NOT PTE_ADDR_MASK)) s1
          in for_each (clone_pte kernel_end src_pt dst_pt) 0 512 s2)"

definition clone_pdpte :: "u64 \<Rightarrow> u64 \<Rightarrow> u64 \<Rightarrow> nat \<Rightarrow> mmu \<Rightarrow> bool \<times> mmu" where
  "clone_pdpte kernel_end src_pdpt dst_pdpt i3 s =
     (let e = read_entry src_pdpt i3 s in
      if e AND PTE_PRESENT = 0 then (True, s)
      else if e AND PTE_PS \<noteq> 0 then (True, write_entry dst_pdpt i3 e s)
      else
        let src_pd = e AND PTE_ADDR_MASK; (dst_pd, s1) = alloc_zeroed_page s in
        if dst_pd = 0 then (False, s1)
        else
          let s2 = write_entry dst_pdpt i3
                     ((dst_pd AND PTE_ADDR_MASK) OR (read_entry src_pdpt i3 s1 AND NOT PTE_ADDR_MASK)) s1
          in for_each (clone_pde kernel_end src_pd dst_pd) 0 512 s2)"

definition clone_pml4e :: "u64 \<Rightarrow> u64 \<Rightarrow> u64 \<Rightarrow> nat \<Rightarrow> mmu \<Rightarrow> bool \<times> mmu" where
  "clone_pml4e kernel_end src_pml4 dst_pml4 i4 s =
     (let e = read_entry src_pml4 i4 s in
      if e AND PTE_PRESENT = 0 then (True, s)
      else if i4 \<ge> 256 then (True, write_entry dst_pml4 i4 e s)
      else
        let src_pdpt = e AND PTE_ADDR_MASK; (dst_pdpt, s1) = alloc_zeroed_page s in
        if dst_pdpt = 0 then (False, s1)
        else
          let s2 = write_entry dst_pml4 i4
                     ((dst_pdpt AND PTE_ADDR_MASK) OR (read_entry src_pml4 i4 s1 AND NOT PTE_ADDR_MASK)) s1
          in for_each (clone_pdpte kernel_end src_pdpt dst_pdpt) 0 512 s2)"

definition paging_clone_cow :: "u64 \<Rightarrow> u64 \<Rightarrow> mmu \<Rightarrow> u64 \<times> mmu" where
  "paging_clone_cow kernel_end src_pml4 s =
     (if src_pml4 = 0 then (0, s)
      else
        let (dst_pml4, s1) = paging_create_pml4 s in
        if dst_pml4 = 0 then (0, s1)
        else
          let (done_all, s2) = for_each (clone_pml4e kernel_end src_pml4 dst_pml4) 0 512 s1
          in if done_all then (dst_pml4, s2) else (0, s2))"

end
