(* ===== verification/Address_Space.thy ===== *)
theory Address_Space
  imports Paging
begin

text \<open>
  The abstract view of a page-table tree: an address space is a partial map
  from quadruples of table indices to leaf entries.  The tree is well formed
  when no table is reached by two different paths, no table lies in a free
  frame and the inner entries are not large pages.  On well-formed trees the
  operations of \<open>paging.c\<close> are updates of that map.
\<close>

section \<open>Tables by path\<close>

text \<open>The page an entry refers to.\<close>

definition link :: "u64 \<Rightarrow> u64 option" where
  "link e = (if e AND PTE_PRESENT \<noteq> 0 then Some (e AND PTE_ADDR_MASK) else None)"

fun tab_at :: "mmu \<Rightarrow> u64 \<Rightarrow> nat list \<Rightarrow> u64 option" where
  "tab_at s t [] = Some t"
| "tab_at s t (i # is) =
     (case link (pmem s t i) of None \<Rightarrow> None | Some t' \<Rightarrow> tab_at s t' is)"

definition idx_path :: "nat list \<Rightarrow> bool" where
  "idx_path p \<longleftrightarrow> length p \<le> 3 \<and> list_all (\<lambda>i. i < 512) p"

definition leaf_at :: "mmu \<Rightarrow> u64 \<Rightarrow> nat list \<Rightarrow> nat \<Rightarrow> u64 option" where
  "leaf_at s root p i =
     (case tab_at s root p of
        None \<Rightarrow> None
      | Some pt \<Rightarrow> if link (pmem s pt i) = None then None else Some (pmem s pt i))"

definition pt_inv :: "mmu \<Rightarrow> u64 \<Rightarrow> bool" where
  "pt_inv s root \<longleftrightarrow> pfa_inv (frames s) \<and>
     (\<forall>p q t. idx_path p \<and> idx_path q \<and> tab_at s root p = Some t \<and> tab_at s root q = Some t \<longrightarrow> p = q) \<and>
     (\<forall>p t. idx_path p \<and> tab_at s root p = Some t \<longrightarrow>
        t \<noteq> 0 \<and> t \<notin> pfa_avail (frames s) \<and>
        (length p < 3 \<longrightarrow> (\<forall>i<512. link (pmem s t i) \<noteq> None \<longrightarrow> pmem s t i AND PTE_PS = 0)))"

text \<open>The pages that hold the tables of a tree.\<close>

definition tables :: "mmu \<Rightarrow> u64 \<Rightarrow> u64 set" where
  "tables s root = {t. \<exists>p. idx_path p \<and> tab_at s root p = Some t}"

definition table_path :: "u64 \<Rightarrow> nat list" where
  "table_path va = [pml4_index va, pdpt_index va, pd_index va]"

definition page_path :: "u64 \<Rightarrow> nat list" where
  "page_path va = table_path va @ [pt_index va]"

text \<open>The abstract address space of a root: the leaf entry of every mapped virtual address.\<close>

definition aspace :: "mmu \<Rightarrow> u64 \<Rightarrow> u64 \<Rightarrow> u64 option" where
  "aspace s root va = leaf_at s root (table_path va) (pt_index va)"

lemma tab_at_append:
  "tab_at s t (p @ q) = (case tab_at s t p of None \<Rightarrow> None | Some t' \<Rightarrow> tab_at s t' q)"
  by (induction p arbitrary: t) (simp_all split: option.split)

lemma tab_at_link:
  "tab_at s t (p @ [i]) = (case tab_at s t p of None \<Rightarrow> None | Some t' \<Rightarrow> link (pmem s t' i))"
  by (simp add: tab_at_append split: option.split)

lemma idx_path_snocD: "idx_path (p @ [i]) \<Longrightarrow> idx_path p \<and> i < 512 \<and> length p < 3"
  by (auto simp: idx_path_def)

lemma idx_path_Nil [simp]: "idx_path []"
  by (simp add: idx_path_def)

lemma index_bounds [simp]:
  "pml4_index va < 512" "pdpt_index va < 512" "pd_index va < 512" "pt_index va < 512"
proof -
  have "unat (w AND 0x1FF) < 512" for w :: u64
  proof -
    have "w AND 0x1FF = take_bit 9 w"
      by (simp add: take_bit_eq_mask mask_eq_exp_minus_1)
    then have "unat (w AND 0x1FF) = take_bit 9 (unat w)" by (simp add: unsigned_take_bit_eq)
    then show ?thesis by (simp add: take_bit_eq_mod)
  qed
  then show "pml4_index va < 512" "pdpt_index va < 512" "pd_index va < 512" "pt_index va < 512"
    by (simp_all add: pml4_index_def pdpt_index_def pd_index_def pt_index_def)
qed

section \<open>Bits of an entry\<close>

declare bit_numeral_word_iff [simp del] bit_neg_numeral_word_iff [simp del]

lemma exp_bit: "bit ((2 :: u64) ^ k) n \<longleftrightarrow> n = k" if "k < 64"
  using that by (auto simp: bit_exp_iff)

lemma flag_bits:
  "bit PTE_PRESENT n \<longleftrightarrow> n = 0" "bit PTE_RW n \<longleftrightarrow> n = 1" "bit PTE_USER n \<longleftrightarrow> n = 2"
  "bit PTE_PS n \<longleftrightarrow> n = 7" "bit PTE_COW n \<longleftrightarrow> n = 9"
  using exp_bit [of 0 n] exp_bit [of 1 n] exp_bit [of 2 n] exp_bit [of 7 n] exp_bit [of 9 n]
  by simp_all

lemma flag_bits_3: "bit (3 :: u64) n \<longleftrightarrow> n = 0 \<or> n = 1"
  using bit_or_iff [of PTE_PRESENT PTE_RW n] by (simp add: flag_bits)

lemma addr_mask_bit: "bit PTE_ADDR_MASK n \<longleftrightarrow> 12 \<le> n \<and> n < 52"
proof -
  have "bit (push_bit 12 (mask 40) :: u64) n \<longleftrightarrow> 12 \<le> n \<and> n < 52"
    by (auto simp: bit_simps)
  moreover have "push_bit 12 (mask 40) = PTE_ADDR_MASK"
    by (simp add: mask_eq_exp_minus_1 push_bit_eq_mult)
  ultimately show ?thesis by simp
qed

text \<open>The complements of the masks, as the simplifier normalises them.\<close>

lemma not_mask_bits:
  "bit (- 513 :: u64) n \<longleftrightarrow> n < 64 \<and> n \<noteq> 9" "bit (- 3 :: u64) n \<longleftrightarrow> n < 64 \<and> n \<noteq> 1"
  "bit (- 4503599627366401 :: u64) n \<longleftrightarrow> n < 64 \<and> \<not> (12 \<le> n \<and> n < 52)"
  using bit_not_iff [of PTE_COW n] bit_not_iff [of PTE_RW n] bit_not_iff [of PTE_ADDR_MASK n]
  by (simp_all add: flag_bits addr_mask_bit)

lemma and_exp_eq_0: "e AND 2 ^ k = 0 \<longleftrightarrow> \<not> bit e k" for e :: u64
  by (simp add: and_exp_eq_0_iff_not_bit)

lemma flag_tests:
  fixes e :: u64
  shows "e AND PTE_PRESENT = 0 \<longleftrightarrow> \<not> bit e 0" "e AND PTE_RW = 0 \<longleftrightarrow> \<not> bit e 1"
    "e AND PTE_USER = 0 \<longleftrightarrow> \<not> bit e 2" "e AND PTE_PS = 0 \<longleftrightarrow> \<not> bit e 7"
    "e AND PTE_COW = 0 \<longleftrightarrow> \<not> bit e 9"
  using and_exp_eq_0 [of e 0] and_exp_eq_0 [of e 1] and_exp_eq_0 [of e 2]
    and_exp_eq_0 [of e 7] and_exp_eq_0 [of e 9] by simp_all

lemmas pte_bits = flag_bits flag_bits_3 not_mask_bits addr_mask_bit flag_tests bit_and_iff bit_or_iff bit_not_iff

lemma link_cong: "\<lbrakk>bit e 0 = bit e' 0; e AND PTE_ADDR_MASK = e' AND PTE_ADDR_MASK\<rbrakk> \<Longrightarrow> link e = link e'"
  by (simp add: link_def flag_tests)

lemma addr_mask_user [simp]: "(e OR PTE_USER) AND PTE_ADDR_MASK = e AND PTE_ADDR_MASK"
  by (rule bit_word_eqI) (auto simp: pte_bits)

lemma link_user [simp]: "link (e OR PTE_USER) = link e"
  by (rule link_cong) (auto simp: pte_bits)

lemma frame_addr_push: "frame_addr i = push_bit 12 (word_of_nat i)"
  by (simp add: frame_addr_def push_bit_eq_mult)

lemma frame_addr_mask:
  assumes "i < BITMAP_BITS"
  shows "frame_addr i AND PTE_ADDR_MASK = frame_addr i"
proof -
  have "i < 2 ^ 23" using assms by simp
  then have "take_bit 23 i = i" by (simp add: take_bit_nat_eq_self_iff)
  then have "\<not> bit i n" if "23 \<le> n" for n
    using that by (metis bit_take_bit_iff not_less)
  then show ?thesis
    by (intro bit_word_eqI) (auto simp: frame_addr_push pte_bits bit_simps intro: ccontr)
qed

lemma link_new_entry:
  assumes "c AND PTE_ADDR_MASK = c"
  shows "link ((c AND PTE_ADDR_MASK) OR PTE_PRESENT OR PTE_RW) = Some c"
    and "((c AND PTE_ADDR_MASK) OR PTE_PRESENT OR PTE_RW) AND PTE_PS = 0"
    and "(((c AND PTE_ADDR_MASK) OR PTE_PRESENT OR PTE_RW) OR PTE_USER) AND PTE_PS = 0"
proof -
  have c: "bit c n \<Longrightarrow> 12 \<le> n \<and> n < 52" for n
    using assms by (metis addr_mask_bit bit_and_iff)
  have "((c AND PTE_ADDR_MASK) OR PTE_PRESENT OR PTE_RW) AND PTE_ADDR_MASK = c"
    by (rule bit_word_eqI) (use c in \<open>auto simp: pte_bits\<close>)
  then show "link ((c AND PTE_ADDR_MASK) OR PTE_PRESENT OR PTE_RW) = Some c"
    by (simp add: link_def flag_tests pte_bits)
  show "((c AND PTE_ADDR_MASK) OR PTE_PRESENT OR PTE_RW) AND PTE_PS = 0"
    "(((c AND PTE_ADDR_MASK) OR PTE_PRESENT OR PTE_RW) OR PTE_USER) AND PTE_PS = 0"
    by (simp_all add: pte_bits)
qed

section \<open>Changing one entry\<close>

lemma tab_at_same:
  assumes "\<And>q t i. \<lbrakk>idx_path (q @ [i]); tab_at s root q = Some t\<rbrakk> \<Longrightarrow> link (pmem s' t i) = link (pmem s t i)"
  shows "idx_path p \<Longrightarrow> tab_at s' root p = tab_at s root p"
proof (induction p rule: rev_induct)
  case (snoc i p)
  then have "tab_at s' root p = tab_at s root p" using idx_path_snocD by blast
  with assms [OF snoc.prems] show ?case
    by (cases "tab_at s root p") (simp_all add: tab_at_link)
qed simp

lemma tab_at_other:
  assumes inj: "\<And>p q t. \<lbrakk>idx_path p; idx_path q; tab_at s root p = Some t; tab_at s root q = Some t\<rbrakk> \<Longrightarrow> p = q"
    and pp: "idx_path pp" "tab_at s root pp = Some t0"
    and eq: "\<And>q t i. \<lbrakk>idx_path q; tab_at s root q = Some t; i < 512; t \<noteq> t0 \<or> i \<noteq> j\<rbrakk> \<Longrightarrow>
      pmem s' t i = pmem s t i"
  shows "\<lbrakk>idx_path q; \<not> prefix (pp @ [j]) q\<rbrakk> \<Longrightarrow> tab_at s' root q = tab_at s root q"
proof (induction q rule: rev_induct)
  case (snoc i q)
  have q: "idx_path q" "i < 512" using idx_path_snocD [OF snoc.prems(1)] by auto
  have "\<not> prefix (pp @ [j]) q" using snoc.prems(2) by (auto simp: prefix_snoc)
  then have IH: "tab_at s' root q = tab_at s root q" using snoc.IH q by blast
  show ?case
  proof (cases "tab_at s root q")
    case (Some t)
    have "t \<noteq> t0 \<or> i \<noteq> j" using inj [OF q(1) pp(1) Some] pp(2) snoc.prems(2) by auto
    with eq [OF q(1) Some q(2)] IH Some show ?thesis by (simp add: tab_at_link)
  qed (simp add: IH tab_at_link)
qed simp

lemma pt_invD:
  assumes "pt_inv s root"
  shows "pfa_inv (frames s)"
    and "\<And>p q t. \<lbrakk>idx_path p; idx_path q; tab_at s root p = Some t; tab_at s root q = Some t\<rbrakk> \<Longrightarrow> p = q"
    and "\<And>p t. \<lbrakk>idx_path p; tab_at s root p = Some t\<rbrakk> \<Longrightarrow> t \<noteq> 0 \<and> t \<notin> pfa_avail (frames s)"
    and "\<And>p t i. \<lbrakk>idx_path p; tab_at s root p = Some t; length p < 3; i < 512; link (pmem s t i) \<noteq> None\<rbrakk> \<Longrightarrow>
      pmem s t i AND PTE_PS = 0"
  using assms unfolding pt_inv_def by blast+

lemma pt_invI:
  assumes "pfa_inv (frames s)"
    and "\<And>p q t. \<lbrakk>idx_path p; idx_path q; tab_at s root p = Some t; tab_at s root q = Some t\<rbrakk> \<Longrightarrow> p = q"
    and "\<And>p t. \<lbrakk>idx_path p; tab_at s root p = Some t\<rbrakk> \<Longrightarrow> t \<noteq> 0 \<and> t \<notin> pfa_avail (frames s)"
    and "\<And>p t i. \<lbrakk>idx_path p; tab_at s root p = Some t; length p < 3; i < 512; link (pmem s t i) \<noteq> None\<rbrakk> \<Longrightarrow>
      pmem s t i AND PTE_PS = 0"
  shows "pt_inv s root"
  unfolding pt_inv_def using assms by blast

lemma avail_nonzero: "\<lbrakk>pfa_inv f; c \<in> pfa_avail f\<rbrakk> \<Longrightarrow> c \<noteq> 0 \<and> c AND PTE_ADDR_MASK = c"
  using free_frames_below [of f] frame_addr_eq_0 frame_addr_mask
  by (auto simp: pfa_avail_def)

lemma alloc_zeroed_page_cases:
  assumes "pfa_inv (frames s)" "alloc_zeroed_page s = (c, s')"
  obtains "c = 0" "s' = s" "pfa_avail (frames s) = {}"
  | "c \<in> pfa_avail (frames s)" "c \<noteq> 0" "c AND PTE_ADDR_MASK = c"
    "pfa_avail (frames s') = pfa_avail (frames s) - {c}" "pfa_inv (frames s')"
    "pmem s' = (pmem s)(c := (\<lambda>_. 0))" "rcs s' = rcs s"
proof (cases "free_frames (frames s) = {}")
  case True
  with assms have "c = 0 \<and> s' = s \<and> pfa_avail (frames s) = {}"
    by (simp add: alloc_zeroed_page_def pfa_alloc_frame_none pfa_avail_def)
  then show thesis using that(1) by blast
next
  case False
  obtain p f where pf: "pfa_alloc_frame (frames s) = (p, f)" by fastforce
  then have "p \<noteq> 0" using pfa_take_None [OF assms(1)] False by (auto simp: pfa_take_def)
  with pf have take: "pfa_take (frames s) = Some (p, f)" by (simp add: pfa_take_def)
  from pfa_pool.alloc_some [OF assms(1) take]
  have *: "p \<in> pfa_avail (frames s)" "pfa_avail f = pfa_avail (frames s) - {p}" "pfa_inv f" by auto
  from assms(2) pf \<open>p \<noteq> 0\<close> have "c = p" "s' = s\<lparr>frames := f, pmem := (pmem s)(p := (\<lambda>_. 0))\<rparr>"
    by (auto simp: alloc_zeroed_page_def)
  with * avail_nonzero [OF assms(1)] show thesis by (intro that(2)) auto
qed

section \<open>Creating a table\<close>

lemma new_child:
  assumes inv: "pt_inv s root"
    and pp: "idx_path pp" "length pp < 3" "j < 512" "tab_at s root pp = Some t"
    and absent: "link (pmem s t j) = None"
    and fresh: "c \<in> pfa_avail (frames s)" "c \<noteq> 0"
    and frames': "pfa_avail (frames s') = pfa_avail (frames s) - {c}" "pfa_inv (frames s')"
    and mem': "\<And>x i. pmem s' x i = (if x = t \<and> i = j then e else if x = c then 0 else pmem s x i)"
    and entry: "link e = Some c" "e AND PTE_PS = 0"
  shows tab_at': "\<And>q. idx_path q \<Longrightarrow>
      tab_at s' root q = (if q = pp @ [j] then Some c else tab_at s root q)"
    and inv': "pt_inv s' root"
    and leaf': "\<And>q i. \<lbrakk>idx_path q; length q = 3\<rbrakk> \<Longrightarrow> leaf_at s' root q i = leaf_at s root q i"
proof -
  have table_neq: "x \<noteq> c" if "idx_path q" "tab_at s root q = Some x" for q x
    using pt_invD(3) [OF inv that] fresh by blast
  have t_neq_c: "t \<noteq> c" using table_neq pp by blast
  have zero: "link (pmem s' c i) = None" for i using t_neq_c by (simp add: mem' link_def)
  have tab_none: "tab_at s root q = None" if "prefix (pp @ [j]) q" for q
  proof -
    from that obtain r where q: "q = (pp @ [j]) @ r" by (auto simp: prefix_def)
    have "tab_at s root (pp @ [j]) = None" using absent pp(4) by (simp add: tab_at_link)
    then show ?thesis unfolding q tab_at_append [of s root "pp @ [j]" r] by simp
  qed
  have below: "tab_at s' root q = tab_at s root q" if "\<not> prefix (pp @ [j]) q" "idx_path q" for q
    by (rule tab_at_other [OF pt_invD(2) [OF inv] pp(1,4) _ that(2,1)])
      (auto simp: mem' dest: table_neq)
  have new: "tab_at s' root (pp @ [j]) = Some c"
    using below [of pp] pp entry by (simp add: tab_at_link mem')
  show tab: "tab_at s' root q = (if q = pp @ [j] then Some c else tab_at s root q)"
    if "idx_path q" for q
  proof (cases "prefix (pp @ [j]) q")
    case True
    then obtain r where q: "q = (pp @ [j]) @ r" by (auto simp: prefix_def)
    have "tab_at s' root q = tab_at s' c r"
      unfolding q tab_at_append [of s' root "pp @ [j]" r] new by simp
    then show ?thesis
      using tab_none [OF True] zero by (cases r) (simp_all add: q new)
  next
    case False
    then show ?thesis using below [OF _ that] by auto
  qed
  show "pt_inv s' root"
  proof (rule pt_invI)
    show "pfa_inv (frames s')" by (rule frames'(2))
    fix p q x assume pq: "idx_path p" "idx_path q" "tab_at s' root p = Some x" "tab_at s' root q = Some x"
    then show "p = q"
      using pt_invD(2) [OF inv pq(1,2), of x] table_neq [OF pq(1), of x] table_neq [OF pq(2), of x]
      by (auto simp: tab split: if_splits)
  next
    fix p x assume "idx_path p" "tab_at s' root p = Some x"
    then show "x \<noteq> 0 \<and> x \<notin> pfa_avail (frames s')"
      using pt_invD(3) [OF inv, of p x] fresh(2) frames'(1) by (auto simp: tab split: if_splits)
  next
    fix p x i assume a: "idx_path p" "tab_at s' root p = Some x" "length p < 3" "i < 512"
      "link (pmem s' x i) \<noteq> None"
    then have "x \<noteq> c" using zero by auto
    with a have x: "tab_at s root p = Some x" by (auto simp: tab split: if_splits)
    show "pmem s' x i AND PTE_PS = 0"
      using pt_invD(4) [OF inv a(1) x a(3,4)] a(5) \<open>x \<noteq> c\<close> entry(2) by (auto simp: mem')
  qed
  show "leaf_at s' root q i = leaf_at s root q i" if q: "idx_path q" "length q = 3" for q i
  proof (cases "tab_at s root q")
    case None
    then show ?thesis using zero q by (simp add: leaf_at_def tab)
  next
    case (Some x)
    then have "q \<noteq> pp @ [j]" using tab_none [of q] by auto
    moreover have "x \<noteq> t" using pt_invD(2) [OF inv q(1) pp(1) Some] pp(2,4) q(2) by auto
    ultimately show ?thesis
      using q Some table_neq [OF q(1) Some] by (simp add: leaf_at_def tab mem')
  qed
qed

lemma write_entry_fields [simp]:
  "frames (write_entry t i v s) = frames s" "rcs (write_entry t i v s) = rcs s"
  by (simp_all add: write_entry_def)

lemma pmem_write_entry: "pmem (write_entry t j v s) x i = (if x = t \<and> i = j then v else pmem s x i)"
  by (simp add: write_entry_def)

text \<open>Rewriting an inner entry so that it still refers to the same table.\<close>

lemma relink:
  assumes inv: "pt_inv s root"
    and pp: "idx_path pp" "length pp < 3" "j < 512" "tab_at s root pp = Some t"
    and e: "link e = link (pmem s t j)" "e AND PTE_PS = pmem s t j AND PTE_PS"
  defines "s' \<equiv> write_entry t j e s"
  shows "\<And>q. idx_path q \<Longrightarrow> tab_at s' root q = tab_at s root q"
    and "pt_inv s' root"
    and "\<And>q i. \<lbrakk>idx_path q; length q = 3\<rbrakk> \<Longrightarrow> leaf_at s' root q i = leaf_at s root q i"
proof -
  have link: "link (pmem s' x i) = link (pmem s x i)" for x i
    using e by (simp add: s'_def pmem_write_entry)
  have ps: "pmem s' x i AND PTE_PS = pmem s x i AND PTE_PS" for x i
    using e by (simp add: s'_def pmem_write_entry)
  show tab: "tab_at s' root q = tab_at s root q" if "idx_path q" for q
    by (rule tab_at_same [OF _ that]) (rule link)
  show "pt_inv s' root"
    using pt_invD [OF inv]
    by (intro pt_invI) (simp_all add: tab link ps, simp_all add: s'_def)
  show "leaf_at s' root q i = leaf_at s root q i" if q: "idx_path q" "length q = 3" for q i
  proof (cases "tab_at s root q")
    case (Some x)
    have "x \<noteq> t" using pt_invD(2) [OF inv q(1) pp(1) Some] pp(2,4) q(2) by auto
    with q Some show ?thesis by (simp add: leaf_at_def tab) (simp add: s'_def pmem_write_entry)
  qed (use q in \<open>simp add: leaf_at_def tab\<close>)
qed

lemma ensure_table_spec:
  assumes inv: "pt_inv s root"
    and pp: "idx_path pp" "length pp < 3" "j < 512" "tab_at s root pp = Some t"
    and e: "ensure_table_with_flags t j flags s = (c, s')"
  shows "pt_inv s' root \<and> rcs s' = rcs s \<and>
     (\<forall>q i. idx_path q \<and> length q = 3 \<longrightarrow> leaf_at s' root q i = leaf_at s root q i) \<and>
     tables s' root \<subseteq> tables s root \<union> pfa_avail (frames s) \<and>
     pfa_avail (frames s') \<subseteq> pfa_avail (frames s) \<and>
     (if c = 0 then pfa_avail (frames s) = {} else tab_at s' root (pp @ [j]) = Some c)"
proof (cases "link (pmem s t j)")
  case (Some c')
  let ?e = "pmem s t j"
  have c': "c' = ?e AND PTE_ADDR_MASK" "?e AND PTE_PRESENT \<noteq> 0"
    using Some by (simp_all add: link_def split: if_splits)
  have tab: "tab_at s root (pp @ [j]) = Some c'" using pp(4) Some by (simp add: tab_at_link)
  have ext: "idx_path (pp @ [j])" using pp by (simp add: idx_path_def)
  have nz: "c' \<noteq> 0" using pt_invD(3) [OF inv ext tab] by simp
  show ?thesis
  proof (cases "flags AND PTE_USER = 0")
    case True
    with e c' have "c = c'" "s' = s" by (auto simp: ensure_table_with_flags_def read_entry_def)
    with inv tab nz show ?thesis by simp
  next
    case False
    with e c' have s': "c = c'" "s' = write_entry t j (?e OR PTE_USER) s"
      by (auto simp: ensure_table_with_flags_def read_entry_def Let_def)
    have "(?e OR PTE_USER) AND PTE_PS = ?e AND PTE_PS"
      by (rule bit_word_eqI) (auto simp: pte_bits)
    note r = relink [OF inv pp link_user this]
    have "tables (write_entry t j (?e OR PTE_USER) s) root = tables s root"
      using r(1) by (auto simp: tables_def)
    then show ?thesis unfolding s' using r(2,3) r(1) [OF ext] tab nz by simp
  qed
next
  case None
  obtain c0 s1 where a: "alloc_zeroed_page s = (c0, s1)" by fastforce
  have absent: "read_entry t j s AND PTE_PRESENT = 0"
    using None by (simp add: read_entry_def link_def split: if_splits)
  from pt_invD(1) [OF inv] a show ?thesis
  proof (cases rule: alloc_zeroed_page_cases)
    case 1
    with e a absent inv show ?thesis by (auto simp: ensure_table_with_flags_def)
  next
    case 2
    let ?n = "(c0 AND PTE_ADDR_MASK) OR PTE_PRESENT OR PTE_RW"
    define e' where "e' = (if flags AND PTE_USER \<noteq> 0 then ?n OR PTE_USER else ?n)"
    have s': "c = c0" "s' = write_entry t j e' s1"
      using e a absent 2(2) by (auto simp: ensure_table_with_flags_def e'_def Let_def)
    have entry: "link e' = Some c0" "e' AND PTE_PS = 0"
      using link_new_entry [OF 2(3)] by (auto simp: e'_def)
    have mem: "pmem s' x i = (if x = t \<and> i = j then e' else if x = c0 then 0 else pmem s x i)" for x i
      by (simp add: s' pmem_write_entry 2(6))
    have fr: "pfa_avail (frames s') = pfa_avail (frames s) - {c0}" "pfa_inv (frames s')"
      using 2(4,5) by (simp_all add: s')
    note n = new_child [OF inv pp None 2(1,2) fr mem entry]
    have "idx_path (pp @ [j])" using pp by (simp add: idx_path_def)
    moreover have "tables s' root \<subseteq> tables s root \<union> pfa_avail (frames s)"
      using n(1) 2(1) by (auto simp: tables_def split: if_splits)
    ultimately show ?thesis using n 2(2,7) fr(1) by (simp add: s')
  qed
qed

section \<open>The operations on the abstract address space\<close>

lemma idx_path_table_path [simp]: "idx_path (table_path va)" "length (table_path va) = 3"
  by (simp_all add: idx_path_def table_path_def)

lemma page_path_eq_iff:
  "page_path v = page_path w \<longleftrightarrow> table_path v = table_path w \<and> pt_index v = pt_index w"
  by (simp add: page_path_def table_path_def)

lemma write_leaf:
  assumes inv: "pt_inv s root" and pt: "idx_path q" "length q = 3" "tab_at s root q = Some pt"
  defines "s' e j \<equiv> write_entry pt j e s"
  shows "\<And>p. idx_path p \<Longrightarrow> tab_at (s' e j) root p = tab_at s root p"
    and "pt_inv (s' e j) root"
    and "\<And>p i. \<lbrakk>idx_path p; length p = 3\<rbrakk> \<Longrightarrow> leaf_at (s' e j) root p i =
      (if p = q \<and> i = j then (if link e = None then None else Some e) else leaf_at s root p i)"
proof -
  have other: "pmem (s' e j) x i = pmem s x i" if "idx_path p" "tab_at s root p = Some x" "p \<noteq> q" for p x i
    using pt_invD(2) [OF inv that(1) pt(1) that(2)] pt(3) that(3)
    by (auto simp: s'_def pmem_write_entry)
  show tab: "tab_at (s' e j) root p = tab_at s root p" if "idx_path p" for p
  proof (rule tab_at_same [OF _ that])
    fix p x i assume a: "idx_path (p @ [i])" "tab_at s root p = Some x"
    then have "p \<noteq> q" using pt(2) idx_path_snocD [OF a(1)] by auto
    then show "link (pmem (s' e j) x i) = link (pmem s x i)"
      using other [of p x] a idx_path_snocD [OF a(1)] by simp
  qed
  show "pt_inv (s' e j) root"
  proof (rule pt_invI)
    fix p x i assume a: "idx_path p" "tab_at (s' e j) root p = Some x" "length p < 3" "i < 512"
      "link (pmem (s' e j) x i) \<noteq> None"
    then have "p \<noteq> q" using pt(2) by auto
    then have "pmem (s' e j) x i = pmem s x i" using other [of p x] a(1,2) tab by simp
    with a pt_invD(4) [OF inv, of p x i] tab show "pmem (s' e j) x i AND PTE_PS = 0" by simp
  qed (use pt_invD [OF inv] tab in \<open>auto simp: s'_def\<close>)
  show "leaf_at (s' e j) root p i =
      (if p = q \<and> i = j then (if link e = None then None else Some e) else leaf_at s root p i)"
    if p: "idx_path p" "length p = 3" for p i
  proof (cases "p = q")
    case True
    then have "tab_at (s' e j) root p = Some pt" using p pt(3) by (simp add: tab)
    with True pt(3) show ?thesis by (auto simp: leaf_at_def s'_def pmem_write_entry)
  next
    case False
    then show ?thesis using p other [OF p(1)]
      by (cases "tab_at s root p") (simp_all add: leaf_at_def tab)
  qed
qed

lemma aspace_write_leaf:
  assumes "pt_inv s root" "tab_at s root (table_path va) = Some pt"
  shows "pt_inv (write_entry pt (pt_index va) e s) root"
    and "aspace (write_entry pt (pt_index va) e s) root = (\<lambda>v.
      if page_path v = page_path va then (if link e = None then None else Some e) else aspace s root v)"
  using write_leaf [OF assms(1) idx_path_table_path assms(2)]
  by (auto simp: aspace_def page_path_eq_iff fun_eq_iff)

definition leaf_entry :: "u64 \<Rightarrow> u64 \<Rightarrow> u64" where
  "leaf_entry paddr flags = ((paddr AND PTE_ADDR_MASK) OR (flags AND NOT PTE_ADDR_MASK)) OR PTE_PRESENT"

lemma leaf_entry_addr: "leaf_entry pa flags AND PTE_ADDR_MASK = pa AND PTE_ADDR_MASK"
  by (rule bit_word_eqI) (auto simp: leaf_entry_def pte_bits)

lemma leaf_entry_link: "link (leaf_entry pa flags) = Some (pa AND PTE_ADDR_MASK)"
  by (simp add: link_def leaf_entry_addr) (simp add: leaf_entry_def pte_bits)

lemma paging_map_page_spec:
  assumes inv: "pt_inv s root" and m: "paging_map_page root va pa flags s = (r, s')"
  shows "pt_inv s' root \<and> rcs s' = rcs s \<and>
     tables s' root \<subseteq> tables s root \<union> pfa_avail (frames s) \<and>
     pfa_avail (frames s') \<subseteq> pfa_avail (frames s) \<and>
     (if r = 0 then aspace s' root = (\<lambda>v. if page_path v = page_path va then Some (leaf_entry pa flags)
                                          else aspace s root v)
      else r = -1 \<and> aspace s' root = aspace s root)"
proof -
  have root: "root \<noteq> 0" using pt_invD(3) [OF inv, of "[]" root] by simp
  have leaf: "aspace x root = aspace y root"
    if "\<forall>q i. idx_path q \<and> length q = 3 \<longrightarrow> leaf_at x root q i = leaf_at y root q i" for x y
    using that by (auto simp: aspace_def)
  obtain pdpt s1 where e1: "ensure_table_with_flags root (pml4_index va) flags s = (pdpt, s1)" by fastforce
  note 1 = ensure_table_spec [OF inv _ _ _ _ e1, of "[]", simplified]
  show ?thesis
  proof (cases "pdpt = 0")
    case True
    with m e1 root have "r = -1" "s' = s1" by (auto simp: paging_map_page_def)
    with 1 leaf show ?thesis by simp
  next
    case pdpt: False
    obtain pd s2 where e2: "ensure_table_with_flags pdpt (pdpt_index va) flags s1 = (pd, s2)" by fastforce
    from 1 pdpt have t1: "pt_inv s1 root" "tab_at s1 root [pml4_index va] = Some pdpt" by simp_all
    note 2 = ensure_table_spec [OF t1(1) _ _ _ t1(2) e2, simplified idx_path_def, simplified]
    show ?thesis
    proof (cases "pd = 0")
      case True
      with m e1 e2 root pdpt have "r = -1" "s' = s2" by (auto simp: paging_map_page_def)
      with 1 2 leaf show ?thesis by (simp add: idx_path_def) blast
    next
      case pd: False
      obtain pt s3 where e3: "ensure_table_with_flags pd (pd_index va) flags s2 = (pt, s3)" by fastforce
      from 2 pd have t2: "pt_inv s2 root" "tab_at s2 root [pml4_index va, pdpt_index va] = Some pd" by simp_all
      note 3 = ensure_table_spec [OF t2(1) _ _ _ t2(2) e3, simplified idx_path_def, simplified]
      have same: "aspace s3 root = aspace s root"
        using 1 2 3 by (intro leaf) (simp add: idx_path_def)
      show ?thesis
      proof (cases "pt = 0")
        case True
        with m e1 e2 e3 root pdpt pd have "r = -1" "s' = s3" by (auto simp: paging_map_page_def)
        with 1 2 3 same show ?thesis by simp blast
      next
        case pt: False
        then have r: "r = 0" "s' = write_entry pt (pt_index va) (leaf_entry pa flags) s3"
          using m e1 e2 e3 root pdpt pd by (auto simp: paging_map_page_def leaf_entry_def)
        from 3 pt have t3: "pt_inv s3 root" "tab_at s3 root (table_path va) = Some pt"
          by (simp_all add: table_path_def)
        have "tables s' root = tables s3 root"
          using write_leaf(1) [OF t3(1) idx_path_table_path t3(2)] by (auto simp: tables_def r)
        moreover have "tables s3 root \<subseteq> tables s root \<union> pfa_avail (frames s)"
          "pfa_avail (frames s3) \<subseteq> pfa_avail (frames s)" using 1 2 3 by blast+
        ultimately show ?thesis
          using aspace_write_leaf [OF t3, of "leaf_entry pa flags"] 1 2 3
          by (simp add: r same leaf_entry_link cong: if_cong)
      qed
    qed
  qed
qed

text \<open>Walking the three inner levels for a virtual address.\<close>

lemma walk_cases:
  fixes va :: u64
  assumes inv: "pt_inv s root"
  defines "e4 \<equiv> pmem s root (pml4_index va)"
  defines "e3 \<equiv> pmem s (e4 AND PTE_ADDR_MASK) (pdpt_index va)"
  defines "e2 \<equiv> pmem s (e3 AND PTE_ADDR_MASK) (pd_index va)"
  obtains (missing4) "e4 AND PTE_PRESENT = 0" "tab_at s root (table_path va) = None"
  | (missing3) "e4 AND PTE_PRESENT \<noteq> 0" "e3 AND PTE_PRESENT = 0" "tab_at s root (table_path va) = None"
  | (missing2) "e4 AND PTE_PRESENT \<noteq> 0" "e3 AND PTE_PRESENT \<noteq> 0" "e3 AND PTE_PS = 0"
      "e2 AND PTE_PRESENT = 0" "tab_at s root (table_path va) = None"
  | (table) "e4 AND PTE_PRESENT \<noteq> 0" "e3 AND PTE_PRESENT \<noteq> 0" "e3 AND PTE_PS = 0"
      "e2 AND PTE_PRESENT \<noteq> 0" "e2 AND PTE_PS = 0"
      "tab_at s root (table_path va) = Some (e2 AND PTE_ADDR_MASK)"
proof -
  let ?i4 = "pml4_index va" and ?i3 = "pdpt_index va"
  have 3: "e3 AND PTE_PS = 0" if "e4 AND PTE_PRESENT \<noteq> 0" "e3 AND PTE_PRESENT \<noteq> 0"
    using pt_invD(4) [OF inv, of "[?i4]" "e4 AND PTE_ADDR_MASK" ?i3] that
    by (simp add: e4_def e3_def link_def idx_path_def)
  have 2: "e2 AND PTE_PS = 0" if "e4 AND PTE_PRESENT \<noteq> 0" "e3 AND PTE_PRESENT \<noteq> 0" "e2 AND PTE_PRESENT \<noteq> 0"
    using pt_invD(4) [OF inv, of "[?i4, ?i3]" "e3 AND PTE_ADDR_MASK" "pd_index va"] that
    by (simp add: e4_def e3_def e2_def link_def idx_path_def)
  have tab: "tab_at s root (table_path va) =
      (if e4 AND PTE_PRESENT \<noteq> 0 \<and> e3 AND PTE_PRESENT \<noteq> 0 \<and> e2 AND PTE_PRESENT \<noteq> 0
       then Some (e2 AND PTE_ADDR_MASK) else None)"
    by (simp add: table_path_def link_def e4_def e3_def e2_def)
  show thesis
  proof (cases "e4 AND PTE_PRESENT = 0")
    case True
    with tab show thesis by (intro missing4) auto
  next
    case p4: False
    show thesis
    proof (cases "e3 AND PTE_PRESENT = 0")
      case True
      with p4 tab show thesis by (intro missing3) auto
    next
      case p3: False
      show thesis
      proof (cases "e2 AND PTE_PRESENT = 0")
        case True
        with p4 p3 3 tab show thesis by (intro missing2) auto
      next
        case False
        with p4 p3 2 3 tab show thesis by (intro table) auto
      qed
    qed
  qed
qed

lemma pt_inv_root: "pt_inv s root \<Longrightarrow> root \<noteq> 0"
  using pt_invD(3) [of s root "[]" root] by simp

lemma paging_get_pte_spec:
  assumes "pt_inv s root"
  shows "paging_get_pte root va s =
     map_option (\<lambda>pt. (pt, pt_index va)) (tab_at s root (table_path va))"
  using pt_inv_root [OF assms]
  by (cases rule: walk_cases [OF assms, of va])
    (simp_all add: paging_get_pte_def read_entry_def Let_def)

lemma aspace_tab:
  "aspace s root va = (case tab_at s root (table_path va) of None \<Rightarrow> None
     | Some pt \<Rightarrow> if link (pmem s pt (pt_index va)) = None then None else Some (pmem s pt (pt_index va)))"
  by (simp add: aspace_def leaf_at_def)

lemma paging_get_phys_spec:
  assumes "pt_inv s root"
  shows "paging_get_phys root va s =
     (case aspace s root va of None \<Rightarrow> 0 | Some e \<Rightarrow> (e AND PTE_ADDR_MASK) + (va AND 0xFFF))"
  using pt_inv_root [OF assms]
  by (cases rule: walk_cases [OF assms, of va])
    (simp_all add: paging_get_phys_def read_entry_def Let_def aspace_tab link_def)

lemma paging_unmap_page_spec:
  assumes inv: "pt_inv s root" and u: "paging_unmap_page root va s = (r, s')"
  shows "pt_inv s' root \<and> frames s' = frames s \<and> rcs s' = rcs s \<and>
     (if r = 0 then aspace s' root = (\<lambda>v. if page_path v = page_path va then None else aspace s root v)
      else r \<in> {-2, -3, -4} \<and> s' = s \<and> aspace s root va = None)"
  using inv
proof (cases rule: walk_cases [of s root va])
  case table
  let ?pt = "pmem s (pmem s (pmem s root (pml4_index va) AND PTE_ADDR_MASK) (pdpt_index va) AND PTE_ADDR_MASK)
               (pd_index va) AND PTE_ADDR_MASK"
  from table u pt_inv_root [OF inv] have r: "r = 0" "s' = write_entry ?pt (pt_index va) 0 s"
    by (auto simp: paging_unmap_page_def read_entry_def Let_def)
  have "link 0 = None" by (simp add: link_def)
  with aspace_write_leaf [OF inv table(6), of 0] show ?thesis by (simp add: r)
qed (use u inv pt_inv_root [OF inv] in
  \<open>auto simp: paging_unmap_page_def read_entry_def Let_def aspace_tab\<close>)

section \<open>Copy on write\<close>

lemma page_align_down_indices:
  "pml4_index (page_align_down va) = pml4_index va" "pdpt_index (page_align_down va) = pdpt_index va"
  "pd_index (page_align_down va) = pd_index va" "pt_index (page_align_down va) = pt_index va"
proof -
  have m: "(0xFFF :: u64) = mask 12" by (simp add: mask_eq_exp_minus_1)
  have "drop_bit n (va AND NOT (mask 12)) = drop_bit n va" if "12 \<le> n" for n
    using that by (intro bit_word_eqI) (auto simp: bit_simps dest: bit_imp_le_length)
  then show "pml4_index (page_align_down va) = pml4_index va" "pdpt_index (page_align_down va) = pdpt_index va"
    "pd_index (page_align_down va) = pd_index va" "pt_index (page_align_down va) = pt_index va"
    by (simp_all add: pml4_index_def pdpt_index_def pd_index_def pt_index_def page_align_down_def m)
qed

lemma table_path_align [simp]: "table_path (page_align_down va) = table_path va"
  by (simp add: table_path_def page_align_down_indices)

text \<open>Changes outside the page tables leave the tree alone.\<close>

lemma pt_inv_data:
  assumes inv: "pt_inv s root"
    and f: "pfa_inv (frames s')" "pfa_avail (frames s') \<subseteq> pfa_avail (frames s)"
    and mem: "\<And>p x. \<lbrakk>idx_path p; tab_at s root p = Some x\<rbrakk> \<Longrightarrow> pmem s' x = pmem s x"
  shows "pt_inv s' root" and "\<And>p. idx_path p \<Longrightarrow> tab_at s' root p = tab_at s root p"
    and "aspace s' root = aspace s root"
proof -
  show tab: "tab_at s' root p = tab_at s root p" if "idx_path p" for p
    by (rule tab_at_same [OF _ that]) (use mem idx_path_snocD in metis)
  show "pt_inv s' root"
    by (rule pt_invI) (use pt_invD [OF inv] f tab mem in \<open>auto simp: tab\<close>)
  show "aspace s' root = aspace s root"
  proof
    fix va
    show "aspace s' root va = aspace s root va"
      using tab [OF idx_path_table_path(1), of va] mem [OF idx_path_table_path(1), of va]
      by (cases "tab_at s root (table_path va)") (simp_all add: aspace_tab)
  qed
qed

definition cow_writable :: "u64 \<Rightarrow> u64" where
  "cow_writable e = (e OR PTE_RW) AND NOT PTE_COW"

lemma cow_writable_link: "link e \<noteq> None \<Longrightarrow> link (cow_writable e) = link e"
  by (rule link_cong)
    (auto simp: cow_writable_def pte_bits intro!: bit_word_eqI)

lemma aspace_SomeE:
  assumes "aspace s root va = Some e"
  obtains pt where "tab_at s root (table_path va) = Some pt" "pmem s pt (pt_index va) = e" "link e \<noteq> None"
  using assms by (auto simp: aspace_tab split: option.splits if_splits)

lemma cow_fault_rejects:
  assumes "pt_inv s root"
  shows "aspace s root va = None \<Longrightarrow> paging_handle_cow_fault root va s = (-1, s)"
    and "\<lbrakk>aspace s root va = Some e; e AND PTE_COW = 0\<rbrakk> \<Longrightarrow> paging_handle_cow_fault root va s = (-2, s)"
proof -
  note pte = paging_get_pte_spec [OF assms, of "page_align_down va"]
  show "paging_handle_cow_fault root va s = (-1, s)" if "aspace s root va = None"
    using that pte
    by (cases "tab_at s root (table_path va)")
      (auto simp: paging_handle_cow_fault_def aspace_tab read_entry_def link_def
        page_align_down_indices split: if_splits)
  show "paging_handle_cow_fault root va s = (-2, s)" if a: "aspace s root va = Some e" "e AND PTE_COW = 0"
  proof -
    obtain pt where "tab_at s root (table_path va) = Some pt" "pmem s pt (pt_index va) = e" "link e \<noteq> None"
      by (rule aspace_SomeE [OF a(1)])
    with a(2) pte show ?thesis
      by (auto simp: paging_handle_cow_fault_def read_entry_def link_def page_align_down_indices
          split: if_splits)
  qed
qed

lemma cow_fault_private:
  assumes inv: "pt_inv s root" and e: "aspace s root va = Some e" "e AND PTE_COW \<noteq> 0"
    and priv: "\<not> refcount_is_shared (e AND PTE_ADDR_MASK) (rcs s)"
    and h: "paging_handle_cow_fault root va s = (r, s')"
  shows "r = 0 \<and> pt_inv s' root \<and> frames s' = frames s \<and> rcs s' = rcs s \<and>
    aspace s' root = (\<lambda>v. if page_path v = page_path va then Some (cow_writable e) else aspace s root v)"
proof -
  obtain pt where pt: "tab_at s root (table_path va) = Some pt" "pmem s pt (pt_index va) = e" "link e \<noteq> None"
    by (rule aspace_SomeE [OF e(1)])
  have "r = 0" "s' = write_entry pt (pt_index va) (cow_writable e) s"
    using h pt e(2) priv paging_get_pte_spec [OF inv, of "page_align_down va"]
    by (auto simp: paging_handle_cow_fault_def read_entry_def link_def page_align_down_indices
        cow_writable_def Let_def split: if_splits)
  with aspace_write_leaf [OF inv pt(1), of "cow_writable e"] cow_writable_link [OF pt(3)] pt(3)
  show ?thesis by (auto simp: fun_eq_iff)
qed

lemma cow_fault_shared:
  assumes inv: "pt_inv s root" and e: "aspace s root va = Some e" "e AND PTE_COW \<noteq> 0"
    and shared: "refcount_is_shared (e AND PTE_ADDR_MASK) (rcs s)"
    and h: "paging_handle_cow_fault root va s = (r, s')"
  defines "old \<equiv> e AND PTE_ADDR_MASK"
  shows "(r = -3 \<and> s' = s \<and> pfa_avail (frames s) = {}) \<or>
    (r = 0 \<and> pt_inv s' root \<and> (\<exists>c \<in> pfa_avail (frames s).
       (\<forall>x. x \<noteq> c \<and> tab_at s root (table_path va) \<noteq> Some x \<longrightarrow> pmem s' x = pmem s x) \<and>
       pfa_avail (frames s') = pfa_avail (frames s) - {c} \<and> pmem s' c = pmem s old \<and>
       rcs s' = refcount_set c 1 (snd (refcount_dec old (rcs s))) \<and>
       aspace s' root = (\<lambda>v. if page_path v = page_path va
          then Some (cow_writable (c OR (e AND NOT PTE_ADDR_MASK))) else aspace s root v)))"
proof -
  obtain pt where pt: "tab_at s root (table_path va) = Some pt" "pmem s pt (pt_index va) = e" "link e \<noteq> None"
    by (rule aspace_SomeE [OF e(1)])
  have fi: "pfa_inv (frames s)" by (rule pt_invD(1) [OF inv])
  have pte: "paging_get_pte root (page_align_down va) s = Some (pt, pt_index va)"
    using paging_get_pte_spec [OF inv, of "page_align_down va"] pt by (simp add: page_align_down_indices)
  have pres: "e AND PTE_PRESENT \<noteq> 0" using pt(3) by (auto simp: link_def)
  obtain c f where cf: "pfa_alloc_frame (frames s) = (c, f)" by fastforce
  show ?thesis
  proof (cases "c = 0")
    case True
    then have "pfa_take (frames s) = None" using cf by (simp add: pfa_take_def)
    then have "free_frames (frames s) = {}" by (rule pfa_take_None [OF fi])
    with cf pfa_alloc_frame_none [OF fi] True have "f = frames s" "pfa_avail (frames s) = {}"
      by (simp_all add: pfa_avail_def)
    with True h cf pte pt pres e(2) shared show ?thesis
      by (auto simp: paging_handle_cow_fault_def read_entry_def Let_def)
  next
    case False
    have take: "pfa_take (frames s) = Some (c, f)" using cf False by (simp add: pfa_take_def)
    note al = pfa_pool.alloc_some [OF fi take]
    have cm: "c AND PTE_ADDR_MASK = c" using avail_nonzero [OF fi] al by blast
    define rc where "rc = snd (refcount_dec old (rcs s))"
    have dec: "fst (refcount_dec old (rcs s)) \<noteq> 0"
      using shared unat_dec [of "g_refcounts (rcs s) (paddr_to_frame old)"]
      by (auto simp: refcount_is_shared_def refcount_dec_def Let_def old_def word_less_nat_alt
          unat_eq_0 [symmetric] split: if_splits)
    define s5 where "s5 = s\<lparr>frames := f, pmem := (pmem s)(c := pmem s old), rcs := refcount_set c 1 rc\<rparr>"
    have tabc: "x \<noteq> c" if "idx_path p" "tab_at s root p = Some x" for p x
      using pt_invD(3) [OF inv that] al by blast
    have ptc: "pt \<noteq> c" using tabc [OF idx_path_table_path(1) pt(1)] .
    have res: "r = 0" "s' = write_entry pt (pt_index va) (cow_writable (c OR (e AND NOT PTE_ADDR_MASK))) s5"
      using h cf False pte pt(2) pres e(2) shared dec ptc cm
      by (auto simp: paging_handle_cow_fault_def read_entry_def Let_def s5_def rc_def old_def
          cow_writable_def split: prod.splits if_splits)
    have d: "pt_inv s5 root" "tab_at s5 root (table_path va) = Some pt" "aspace s5 root = aspace s root"
      using pt_inv_data [OF inv, of s5] al tabc pt(1) by (auto simp: s5_def)
    have "link (c OR (e AND NOT PTE_ADDR_MASK)) \<noteq> None"
      using pres by (auto simp: link_def pte_bits)
    then have lk: "link (cow_writable (c OR (e AND NOT PTE_ADDR_MASK))) \<noteq> None"
      by (simp add: cow_writable_link)
    note w = aspace_write_leaf [OF d(1,2), of "cow_writable (c OR (e AND NOT PTE_ADDR_MASK))"]
    have "pmem s' c = pmem s old" "\<And>x. x \<noteq> c \<Longrightarrow> x \<noteq> pt \<Longrightarrow> pmem s' x = pmem s x"
      using ptc by (auto simp: res(2) s5_def pmem_write_entry fun_eq_iff)
    moreover have "rcs s' = refcount_set c 1 rc" "frames s' = f" by (simp_all add: res(2) s5_def)
    ultimately show ?thesis
      using al w lk d(3) pt(1) by (intro disjI2) (auto simp: res rc_def cong: if_cong)
  qed
qed

end
