(* ===== verification/Cow_Clone.thy ===== *)
theory Cow_Clone
  imports Address_Space
begin

text \<open>
  Cloning a page table copy-on-write (the innermost loops of
  \<open>paging_clone_cow\<close>) and the two properties of \<open>paging.c\<close> that rest on
  it: what a cloned table contains and how reference counts follow the
  mappings.
\<close>

section \<open>Cloning one page table\<close>

definition kernel_frame :: "u64 \<Rightarrow> u64 \<Rightarrow> bool" where
  "kernel_frame kernel_end e \<longleftrightarrow>
     e AND PTE_ADDR_MASK \<ge> 0x100000 \<and> e AND PTE_ADDR_MASK < kernel_end"

text \<open>An entry as both tables hold it after the clone.\<close>

definition cow_entry :: "u64 \<Rightarrow> u64 \<Rightarrow> u64" where
  "cow_entry kernel_end e =
     (if e AND PTE_RW \<noteq> 0 \<and> \<not> kernel_frame kernel_end e then (e AND NOT PTE_RW) OR PTE_COW else e)"

text \<open>The references a clone adds for an entry: two for a page that becomes
  copy-on-write, one for a kernel page, none otherwise.\<close>

definition clone_refs :: "u64 \<Rightarrow> u64 \<Rightarrow> nat" where
  "clone_refs kernel_end e =
     (if e AND PTE_PRESENT = 0 then 0
      else if kernel_frame kernel_end e then 1
      else if e AND PTE_RW \<noteq> 0 then 2 else 0)"

definition add_refs :: "nat \<Rightarrow> u64 \<Rightarrow> refcounts \<Rightarrow> refcounts" where
  "add_refs n phys rc = ((\<lambda>r. snd (refcount_inc phys r)) ^^ n) rc"

lemma clone_pte_eq:
  assumes "src \<noteq> dst"
  shows "clone_pte kernel_end src dst i s =
     (True, if pmem s src i AND PTE_PRESENT = 0 then s
      else s\<lparr>pmem := (pmem s)(src := (pmem s src)(i := cow_entry kernel_end (pmem s src i)),
                              dst := (pmem s dst)(i := cow_entry kernel_end (pmem s src i))),
             rcs := add_refs (clone_refs kernel_end (pmem s src i)) (pmem s src i AND PTE_ADDR_MASK) (rcs s)\<rparr>)"
  using assms
  by (auto simp: clone_pte_def read_entry_def write_entry_def Let_def cow_entry_def clone_refs_def
      kernel_frame_def add_refs_def fun_eq_iff numeral_2_eq_2)

text \<open>The whole table: every present entry is written to both tables.\<close>

lemma clone_pt_mem:
  assumes "src \<noteq> dst"
  shows "for_each (clone_pte kernel_end src dst) i k s = (True, s') \<Longrightarrow>
     frames s' = frames s \<and>
     pmem s' x j = (if i \<le> j \<and> j < i + k \<and> pmem s src j AND PTE_PRESENT \<noteq> 0 \<and> (x = src \<or> x = dst)
                    then cow_entry kernel_end (pmem s src j) else pmem s x j)"
proof (induction k arbitrary: i s)
  case (Suc k)
  define s1 where "s1 = snd (clone_pte kernel_end src dst i s)"
  have c: "clone_pte kernel_end src dst i s = (True, s1)"
    by (simp add: s1_def clone_pte_eq [OF assms])
  have m: "pmem s1 x j = (if j = i \<and> pmem s src i AND PTE_PRESENT \<noteq> 0 \<and> (x = src \<or> x = dst)
      then cow_entry kernel_end (pmem s src i) else pmem s x j)" "frames s1 = frames s" for x j
    using assms by (auto simp: s1_def clone_pte_eq [OF assms])
  from Suc.prems c have "for_each (clone_pte kernel_end src dst) (Suc i) k s1 = (True, s')" by simp
  from Suc.IH [OF this] show ?case by (cases "j = i") (auto simp: m)
qed auto

lemma for_each_clone_pte_runs:
  "src \<noteq> dst \<Longrightarrow> fst (for_each (clone_pte kernel_end src dst) i k s)"
  by (induction k arbitrary: i s) (auto simp: clone_pte_eq split: prod.splits)

lemma cow_entry_link: "link (cow_entry kernel_end e) = link e"
  by (rule link_cong) (auto simp: cow_entry_def pte_bits intro!: bit_word_eqI)

lemma cow_entry_addr: "cow_entry kernel_end e AND PTE_ADDR_MASK = e AND PTE_ADDR_MASK"
  by (rule bit_word_eqI) (auto simp: cow_entry_def pte_bits)

lemma cow_entry_again:
  assumes "\<not> kernel_frame kernel_end e" "e AND PTE_RW \<noteq> 0"
  shows "cow_entry kernel_end (cow_entry kernel_end e) = cow_entry kernel_end e"
    and "clone_refs kernel_end (cow_entry kernel_end e) = 0"
proof -
  have "cow_entry kernel_end e AND PTE_RW = 0"
    using assms by (simp add: cow_entry_def pte_bits)
  moreover have "\<not> kernel_frame kernel_end (cow_entry kernel_end e)"
    using assms(1) by (simp add: kernel_frame_def cow_entry_addr)
  ultimately show "cow_entry kernel_end (cow_entry kernel_end e) = cow_entry kernel_end e"
    "clone_refs kernel_end (cow_entry kernel_end e) = 0"
    by (simp_all add: cow_entry_def [of _ "cow_entry kernel_end e"] clone_refs_def)
qed

lemma frame_count_add_refs:
  assumes "paddr_to_frame p < g_max_frames rc" "frame_count rc (paddr_to_frame p) + n \<le> 2 ^ 32 - 1"
  shows "frame_count (add_refs n p rc) (paddr_to_frame p) = frame_count rc (paddr_to_frame p) + n"
proof -
  have "g_max_frames (add_refs m p rc) = g_max_frames rc" for m
    by (induction m) (simp_all add: add_refs_def)
  with assms show ?thesis
  proof (induction n)
    case (Suc n)
    then show ?case by (simp add: add_refs_def frame_count_inc)
  qed (simp add: add_refs_def)
qed

section \<open>Properties of paging\<close>

text \<open>A state with an empty root table at frame 3 and the frames 1 and 2 free, as a sample input.\<close>

definition sample_mmu :: mmu where
  "sample_mmu = \<lparr>frames = sample_pfa, rcs = \<lparr>g_max_frames = 16, g_refcounts = (\<lambda>_. 0)\<rparr>,
     pmem = (\<lambda>_ _. 0)\<rparr>"

lemma tab_at_zero: "pmem s = (\<lambda>_ _. 0) \<Longrightarrow> tab_at s root p = (if p = [] then Some root else None)"
  by (cases p) (simp_all add: link_def)

lemma frame_addr_3: "frame_addr 3 = 0x3000"
  by (simp add: frame_addr_def)

lemma pt_inv_sample_mmu: "pt_inv sample_mmu 0x3000"
proof (rule pt_invI)
  have avail: "0x3000 \<notin> pfa_avail sample_pfa"
    by (simp add: pfa_avail_def free_frames_sample_pfa frame_addr_def)
  have z: "pmem sample_mmu = (\<lambda>_ _. 0)" by (simp add: sample_mmu_def)
  show "pfa_inv (frames sample_mmu)" using pfa_inv_sample_pfa by (simp add: sample_mmu_def)
  fix p q t assume "tab_at sample_mmu 0x3000 p = Some t" "tab_at sample_mmu 0x3000 q = Some t"
  then show "p = q" by (simp add: tab_at_zero [OF z] split: if_splits)
next
  fix p t assume "tab_at sample_mmu 0x3000 p = Some t"
  then show "t \<noteq> 0 \<and> t \<notin> pfa_avail (frames sample_mmu)"
    using pfa_inv_sample_pfa
    by (auto simp: tab_at_zero sample_mmu_def pfa_avail_def free_frames_sample_pfa frame_addr_def
        split: if_splits)
qed (simp add: sample_mmu_def link_def)

text \<open>C18: on a well-formed page-table tree \<open>paging_map_page\<close> keeps the tree well
  formed; when it reports success the address translates to the mapped frame
  plus the page offset and every address of another page translates as
  before; when it fails no translation has changed.\<close>

theorem map_page_translates:
  assumes "pt_inv s root" "paging_map_page root va pa flags s = (r, s')"
  shows "pt_inv s' root \<and>
     (r = 0 \<longrightarrow> paging_get_phys root va s' = (pa AND PTE_ADDR_MASK) + (va AND 0xFFF)) \<and>
     (\<forall>v. r \<noteq> 0 \<or> page_path v \<noteq> page_path va \<longrightarrow>
        paging_get_phys root v s' = paging_get_phys root v s)"
proof -
  note m = paging_map_page_spec [OF assms]
  have "pt_inv s' root" using m by blast
  with m show ?thesis
    by (cases "r = 0") (auto simp: paging_get_phys_spec assms(1) leaf_entry_addr)
qed

text \<open>\<open>paging_unmap_page\<close> either removes exactly the translations of that page
  or reports a missing table, in which case the page was not mapped and
  nothing has changed; it never touches the allocator.\<close>

theorem unmap_page_removes:
  assumes "pt_inv s root" "paging_unmap_page root va s = (r, s')"
  shows "pt_inv s' root \<and> frames s' = frames s \<and> paging_get_phys root va s' = 0 \<and>
     (\<forall>v. page_path v \<noteq> page_path va \<longrightarrow> paging_get_phys root v s' = paging_get_phys root v s) \<and>
     (r \<noteq> 0 \<longrightarrow> s' = s)"
proof -
  note u = paging_unmap_page_spec [OF assms]
  have "pt_inv s' root" using u by blast
  with u show ?thesis
    by (cases "r = 0") (auto simp: paging_get_phys_spec assms(1))
qed

theorem unmap_page_removes_witness:
  "paging_get_phys 0x3000 0x400123 (snd (paging_unmap_page 0x3000 0x400123 sample_mmu)) = 0"
  using unmap_page_removes [OF pt_inv_sample_mmu surjective_pairing] by blast

lemma paddr_to_frame_inj:
  assumes "a AND PTE_ADDR_MASK = a" "b AND PTE_ADDR_MASK = b" "paddr_to_frame a = paddr_to_frame b"
  shows "a = b"
proof (rule bit_word_eqI)
  fix n assume "n < LENGTH(64)"
  have "unat a div 2 ^ 12 = unat b div 2 ^ 12" using assms(3) by (simp add: paddr_to_frame_div)
  then have "drop_bit 12 a = drop_bit 12 b" by (simp add: drop_bit_eq_div word_unat_eq_iff unat_div)
  then have d: "bit a (12 + m) = bit b (12 + m)" for m by (metis bit_drop_bit_eq comp_apply)
  have z: "bit a n \<Longrightarrow> 12 \<le> n" "bit b n \<Longrightarrow> 12 \<le> n" for n
    using assms(1,2) by (metis bit_and_iff addr_mask_bit)+
  show "bit a n = bit b n" using d [of "n - 12"] z [of n] by (cases "12 \<le> n") auto
qed

lemma cow_writable_flags: "cow_writable x AND PTE_RW \<noteq> 0" "cow_writable x AND PTE_COW = 0"
  by (simp_all add: cow_writable_def pte_bits)

text \<open>C4: resolving a copy-on-write fault on a shared page fails only when no frame
  is free, without any change, and otherwise gives the faulting address space a private
  copy: a frame that was free, with the contents of the old page, mapped
  writable at that page; the old page's contents and the entries of all
  other pages are untouched, the old frame's count is one lower and the new
  frame's count is one, if the count table covers it.\<close>

theorem cow_fault_copies:
  assumes "pt_inv s root" "aspace s root va = Some e" "e AND PTE_COW \<noteq> 0"
    "refcount_is_shared (e AND PTE_ADDR_MASK) (rcs s)" "e AND PTE_ADDR_MASK \<notin> pfa_avail (frames s)"
    "\<forall>p. idx_path p \<longrightarrow> tab_at s root p \<noteq> Some (e AND PTE_ADDR_MASK)"
    "paging_handle_cow_fault root va s = (r, s')"
  shows "(r = -3 \<and> s' = s \<and> pfa_avail (frames s) = {}) \<or>
    (r = 0 \<and> pt_inv s' root \<and> (\<exists>c \<in> pfa_avail (frames s).
       c \<notin> pfa_avail (frames s') \<and> c \<noteq> e AND PTE_ADDR_MASK \<and>
       paging_get_phys root va s' = c + (va AND 0xFFF) \<and>
       pmem s' c = pmem s (e AND PTE_ADDR_MASK) \<and>
       pmem s' (e AND PTE_ADDR_MASK) = pmem s (e AND PTE_ADDR_MASK) \<and>
       (\<forall>v. page_path v \<noteq> page_path va \<longrightarrow> aspace s' root v = aspace s root v) \<and>
       frame_count (rcs s') (paddr_to_frame c) = (if paddr_to_frame c < g_max_frames (rcs s) then 1 else 0) \<and>
       frame_count (rcs s') (paddr_to_frame (e AND PTE_ADDR_MASK)) =
         frame_count (rcs s) (paddr_to_frame (e AND PTE_ADDR_MASK)) - 1 \<and>
       (\<exists>e'. aspace s' root va = Some e' \<and> e' AND PTE_RW \<noteq> 0 \<and> e' AND PTE_COW = 0)))"
proof -
  let ?old = "e AND PTE_ADDR_MASK"
  note h = cow_fault_shared [OF assms(1-4,7)]
  show ?thesis
  proof (cases "r = -3")
    case True
    with h show ?thesis by auto
  next
    case False
    with h obtain c where c: "r = 0" "pt_inv s' root" "c \<in> pfa_avail (frames s)"
      and mem: "\<forall>x. x \<noteq> c \<and> tab_at s root (table_path va) \<noteq> Some x \<longrightarrow> pmem s' x = pmem s x"
      and c': "pfa_avail (frames s') = pfa_avail (frames s) - {c}" "pmem s' c = pmem s ?old"
      "rcs s' = refcount_set c 1 (snd (refcount_dec ?old (rcs s)))"
      "aspace s' root = (\<lambda>v. if page_path v = page_path va
          then Some (cow_writable (c OR (e AND NOT PTE_ADDR_MASK))) else aspace s root v)" by blast
    have cm: "c AND PTE_ADDR_MASK = c" using avail_nonzero [OF pt_invD(1) [OF assms(1)] c(3)] by blast
    have "cow_writable (c OR (e AND NOT PTE_ADDR_MASK)) AND PTE_ADDR_MASK = c AND PTE_ADDR_MASK"
      by (rule bit_word_eqI) (auto simp: cow_writable_def pte_bits)
    then have phys: "paging_get_phys root va s' = c + (va AND 0xFFF)"
      by (simp add: paging_get_phys_spec [OF c(2)] c'(4) cm)
    have "?old \<noteq> c" using assms(5) c(3) by blast
    then have old: "pmem s' ?old = pmem s ?old" using mem assms(6) idx_path_table_path(1) by blast
    have cnt: "frame_count (rcs s') (paddr_to_frame c) =
        (if paddr_to_frame c < g_max_frames (rcs s) then 1 else 0)"
      by (simp add: c'(3) frame_count_set) (simp add: frame_count_def)
    have "paddr_to_frame ?old \<noteq> paddr_to_frame c"
      using paddr_to_frame_inj [of ?old c] cm \<open>?old \<noteq> c\<close> by (auto simp: and.assoc)
    then have cnt': "frame_count (rcs s') (paddr_to_frame ?old) = frame_count (rcs s) (paddr_to_frame ?old) - 1"
      by (simp add: c'(3) frame_count_set frame_count_dec)
    have rw: "\<exists>e'. aspace s' root va = Some e' \<and> e' AND PTE_RW \<noteq> 0 \<and> e' AND PTE_COW = 0"
      by (simp add: c'(4) cow_writable_flags)
    have "c \<notin> pfa_avail (frames s')" by (simp add: c'(1))
    moreover have "\<forall>v. page_path v \<noteq> page_path va \<longrightarrow> aspace s' root v = aspace s root v"
      by (simp add: c'(4))
    ultimately show ?thesis
      using c c'(2) phys old cnt cnt' rw \<open>?old \<noteq> c\<close> by (intro disjI2) blast
  qed
qed

text \<open>A sample tree that maps the first page copy-on-write to frame 7, whose count is two.\<close>

definition sample_cow :: mmu where
  "sample_cow = \<lparr>frames = sample_pfa,
     rcs = \<lparr>g_max_frames = 16, g_refcounts = (\<lambda>_. 0)(7 := 2)\<rparr>,
     pmem = (\<lambda>x i. if i = 0 then (if x = 0x3000 then 0x4003 else if x = 0x4000 then 0x5003
       else if x = 0x5000 then 0x6003 else if x = 0x6000 then 0x7201 else 0) else 0)\<rparr>"

lemma tab_at_sample_cow:
  assumes "length p \<le> 3"
  shows "tab_at sample_cow 0x3000 p =
     (if list_all (\<lambda>i. i = 0) p then Some ([0x3000, 0x4000, 0x5000, 0x6000] ! length p) else None)"
proof -
  have l: "link 0x4003 = Some 0x4000" "link 0x5003 = Some 0x5000" "link 0x6003 = Some 0x6000" "link 0 = None"
    by (simp_all add: link_def)
  consider "p = []" | i where "p = [i]" | i j where "p = [i, j]" | i j k where "p = [i, j, k]"
    using assms by (cases p; cases "tl p"; cases "tl (tl p)"; cases "tl (tl (tl p))") auto
  then show ?thesis by cases (auto simp: sample_cow_def l)
qed

lemma le_3_cases: "n \<le> 3 \<Longrightarrow> n \<in> {0, 1, 2, 3}" for n :: nat
  by auto

lemma pt_inv_sample_cow: "pt_inv sample_cow 0x3000"
proof (rule pt_invI)
  show "pfa_inv (frames sample_cow)" using pfa_inv_sample_pfa by (simp add: sample_cow_def)
  have zeros: "p = replicate (length p) 0" if "list_all (\<lambda>i. i = (0::nat)) p" for p
    using that by (induction p) auto
  have lt: "length p \<in> {0, 1, 2, 3}" if "idx_path p" for p
    using that le_3_cases by (simp only: idx_path_def)
  show "p = q" if pq: "idx_path p" "idx_path q" "tab_at sample_cow 0x3000 p = Some t"
    "tab_at sample_cow 0x3000 q = Some t" for p q t
  proof -
    have "length p = length q"
      using pq lt [OF pq(1)] lt [OF pq(2)] by (auto simp: tab_at_sample_cow idx_path_def split: if_splits)
    with pq zeros [of p] zeros [of q] show ?thesis
      by (simp add: tab_at_sample_cow idx_path_def split: if_splits)
  qed
  fix p t assume a: "idx_path p" "tab_at sample_cow 0x3000 p = Some t"
  then have "t \<in> {0x3000, 0x4000, 0x5000, 0x6000}"
    using lt [OF a(1)] by (auto simp: tab_at_sample_cow idx_path_def split: if_splits)
  then show "t \<noteq> 0 \<and> t \<notin> pfa_avail (frames sample_cow)"
    by (auto simp: sample_cow_def pfa_avail_def free_frames_sample_pfa frame_addr_def)
  fix i assume "length p < 3"
  then have "t \<in> {0x3000, 0x4000, 0x5000}"
    using a lt [OF a(1)] by (auto simp: tab_at_sample_cow idx_path_def split: if_splits)
  then show "pmem sample_cow t i AND PTE_PS = 0" by (auto simp: sample_cow_def)
qed

lemma page_path_0: "table_path 0 = [0, 0, 0]" "pt_index 0 = 0"
  by (simp_all add: table_path_def pml4_index_def pdpt_index_def pd_index_def pt_index_def)

lemma aspace_sample_cow: "aspace sample_cow 0x3000 0 = Some 0x7201"
  by (simp add: aspace_tab tab_at_sample_cow page_path_0) (simp add: sample_cow_def link_def page_path_0)

lemma sample_cow_map: "fst (paging_map_page 0x3000 0x1123 0x9000 7 sample_cow) = 0"
  by (simp add: paging_map_page_def ensure_table_with_flags_def read_entry_def write_entry_def sample_cow_def
      pml4_index_def pdpt_index_def pd_index_def pt_index_def Let_def)

theorem map_page_translates_witness:
  "\<exists>s'. paging_map_page 0x3000 0x1123 0x9000 7 sample_cow = (0, s') \<and> pt_inv s' 0x3000 \<and>
     paging_get_phys 0x3000 0x1123 s' = 0x9123"
proof -
  obtain r s' where m: "paging_map_page 0x3000 0x1123 0x9000 7 sample_cow = (r, s')" by fastforce
  then have "r = 0" using sample_cow_map by simp
  with m map_page_translates [OF pt_inv_sample_cow m] show ?thesis by simp
qed

theorem cow_fault_copies_witness:
  "\<exists>s'. paging_handle_cow_fault 0x3000 0 sample_cow = (0, s') \<and>
     (\<exists>c \<in> pfa_avail (frames sample_cow). paging_get_phys 0x3000 0 s' = c + (0 AND 0xFFF) \<and>
        pmem s' c = pmem sample_cow 0x7000) \<and>
     frame_count (rcs s') (paddr_to_frame 0x7000) = 1"
proof -
  obtain r s' where h: "paging_handle_cow_fault 0x3000 0 sample_cow = (r, s')" by fastforce
  have m: "(0x7201 :: u64) AND PTE_ADDR_MASK = 0x7000" "(0x7201 :: u64) AND PTE_COW \<noteq> 0" by simp_all
  have sh: "refcount_is_shared 0x7000 (rcs sample_cow)"
    by (simp add: refcount_is_shared_def paddr_to_frame_div sample_cow_def)
  have av: "0x7000 \<notin> pfa_avail (frames sample_cow)"
    by (simp add: sample_cow_def pfa_avail_def free_frames_sample_pfa frame_addr_def)
  have nt: "\<forall>p. idx_path p \<longrightarrow> tab_at sample_cow 0x3000 p \<noteq> Some 0x7000"
  proof (intro allI impI)
    fix p assume "idx_path p"
    then have "length p \<le> 3" "length p \<in> {0, 1, 2, 3}"
      using le_3_cases by (simp_all only: idx_path_def)
    then show "tab_at sample_cow 0x3000 p \<noteq> Some 0x7000" by (auto simp: tab_at_sample_cow)
  qed
  have "pfa_avail (frames sample_cow) \<noteq> {}"
    by (simp add: sample_cow_def pfa_avail_def free_frames_sample_pfa)
  moreover have "frame_count (rcs sample_cow) (paddr_to_frame 0x7000) = 2"
    by (simp add: frame_count_def paddr_to_frame_div sample_cow_def)
  ultimately show ?thesis
    using cow_fault_copies [OF pt_inv_sample_cow aspace_sample_cow, unfolded m(1), OF m(2) sh av nt h] h
    by auto
qed

text \<open>C27: cloning a page table never stops early and leaves source and copy with
  the same entry wherever the source had a present one, referring to the same
  frame as before; no user page that was writable stays writable in either
  table, absent entries are left alone in both, and nothing else in memory
  changes.\<close>

theorem clone_pt_shares:
  assumes "src \<noteq> dst" "for_each (clone_pte kernel_end src dst) 0 512 s = (ok, s')"
  shows "ok \<and> frames s' = frames s \<and>
     (\<forall>j<512. pmem s src j AND PTE_PRESENT \<noteq> 0 \<longrightarrow>
        pmem s' dst j = pmem s' src j \<and> link (pmem s' src j) = link (pmem s src j) \<and>
        (\<not> kernel_frame kernel_end (pmem s src j) \<longrightarrow> pmem s' src j AND PTE_RW = 0)) \<and>
     (\<forall>j<512. pmem s src j AND PTE_PRESENT = 0 \<longrightarrow> pmem s' src j = pmem s src j \<and> pmem s' dst j = pmem s dst j) \<and>
     (\<forall>x. x \<noteq> src \<and> x \<noteq> dst \<longrightarrow> pmem s' x = pmem s x)"
proof -
  have ok: "ok" using for_each_clone_pte_runs [OF assms(1), of kernel_end 0 512 s] assms(2) by simp
  then have f: "for_each (clone_pte kernel_end src dst) 0 512 s = (True, s')" using assms(2) by simp
  note m = clone_pt_mem [OF assms(1) f]
  have ro: "cow_entry kernel_end e AND PTE_RW = 0" if "\<not> kernel_frame kernel_end e" for e
    using that by (auto simp: cow_entry_def pte_bits)
  show ?thesis using ok m ro by (auto simp: cow_entry_link fun_eq_iff)
qed

theorem clone_pt_shares_witness:
  "\<exists>ok s'. for_each (clone_pte 0x200000 0x6000 0x8000) 0 512 sample_cow = (ok, s') \<and> ok \<and>
     pmem s' 0x8000 0 = pmem s' 0x6000 0"
proof -
  obtain ok s' where f: "for_each (clone_pte 0x200000 0x6000 0x8000) 0 512 sample_cow = (ok, s')" by fastforce
  have "pmem sample_cow 0x6000 0 AND PTE_PRESENT \<noteq> 0" by (simp add: sample_cow_def)
  with clone_pt_shares [OF _ f] f show ?thesis by auto
qed

text \<open>C28: a user page that is writable when its table is cloned for the first time
  gains two references, and cloning the table again for a second child adds
  none: three tables then map the frame while its count has grown by two
  only.\<close>

theorem second_clone_adds_no_reference:
  fixes s :: mmu and src d1 d2 :: u64 and i :: nat and kernel_end :: u64
  defines "e \<equiv> pmem s src i" and "phys \<equiv> pmem s src i AND PTE_ADDR_MASK"
  assumes "distinct [src, d1, d2]" "e AND PTE_PRESENT \<noteq> 0" "e AND PTE_RW \<noteq> 0"
    "\<not> kernel_frame kernel_end e" "paddr_to_frame phys < g_max_frames (rcs s)"
    "frame_count (rcs s) (paddr_to_frame phys) + 2 \<le> 2 ^ 32 - 1"
  defines "s1 \<equiv> snd (clone_pte kernel_end src d1 i s)"
  defines "s2 \<equiv> snd (clone_pte kernel_end src d2 i s1)"
  shows "(\<forall>t \<in> {src, d1, d2}. link (pmem s2 t i) = Some phys) \<and>
     frame_count (rcs s1) (paddr_to_frame phys) = frame_count (rcs s) (paddr_to_frame phys) + 2 \<and>
     frame_count (rcs s2) (paddr_to_frame phys) = frame_count (rcs s1) (paddr_to_frame phys)"
proof -
  let ?c = "cow_entry kernel_end e"
  have ph: "e AND PTE_ADDR_MASK = phys" by (simp add: e_def phys_def)
  have n: "src \<noteq> d1" "src \<noteq> d2" "d1 \<noteq> d2" using assms(3) by auto
  have p: "?c AND PTE_PRESENT \<noteq> 0"
    using assms(4) cow_entry_link [of kernel_end e] by (auto simp: link_def split: if_splits)
  have m1: "pmem s1 src i = ?c" "pmem s1 d1 i = ?c" "rcs s1 = add_refs 2 phys (rcs s)"
    using assms(4-6) n
    by (simp_all add: s1_def clone_pte_eq [OF n(1)] e_def [symmetric] ph clone_refs_def)
  have "pmem s2 src i = ?c" "pmem s2 d1 i = ?c" "pmem s2 d2 i = ?c" "rcs s2 = rcs s1"
    using n p m1 cow_entry_again [OF assms(6,5)]
    by (simp_all add: s2_def clone_pte_eq [OF n(2)] add_refs_def)
  moreover have "link ?c = Some phys"
    using assms(4) by (simp add: cow_entry_link) (simp add: link_def ph)
  ultimately show ?thesis
    using frame_count_add_refs [OF assms(7,8)] m1(3) by simp
qed

theorem second_clone_adds_no_reference_witness:
  "let s = sample_cow\<lparr>pmem := (pmem sample_cow)(0x6000 := (\<lambda>_. 0)(0 := 0x7003))\<rparr>;
       s1 = snd (clone_pte 0x200000 0x6000 0x8000 0 s);
       s2 = snd (clone_pte 0x200000 0x6000 0x9000 0 s1)
   in link (pmem s2 0x9000 0) = Some 0x7000 \<and> frame_count (rcs s1) 7 = frame_count (rcs s) 7 + 2 \<and>
      frame_count (rcs s2) 7 = frame_count (rcs s1) 7"
proof -
  let ?s = "sample_cow\<lparr>pmem := (pmem sample_cow)(0x6000 := (\<lambda>_. 0)(0 := 0x7003))\<rparr>"
  have e: "pmem ?s 0x6000 0 = 0x7003" by simp
  have a: "(0x7003 :: u64) AND PTE_ADDR_MASK = 0x7000" "(0x7003 :: u64) AND PTE_PRESENT \<noteq> 0"
    "(0x7003 :: u64) AND PTE_RW \<noteq> 0" by simp_all
  have k: "\<not> kernel_frame 0x200000 0x7003" by (simp add: kernel_frame_def)
  have f: "paddr_to_frame 0x7000 = 7" by (simp add: paddr_to_frame_div)
  have c: "7 < g_max_frames (rcs ?s)" "frame_count (rcs ?s) 7 + 2 \<le> 2 ^ 32 - 1"
    by (simp_all add: sample_cow_def frame_count_def)
  have d: "distinct [0x6000 :: u64, 0x8000, 0x9000]" by simp
  show ?thesis
    using second_clone_adds_no_reference [of "0x6000" "0x8000" "0x9000" ?s 0 "0x200000", unfolded e a(1) f, OF d a(2,3) k c]
    by (simp add: Let_def)
qed

end
