(* ===== verification/Memory_Map.thy ===== *)
theory Memory_Map
  imports Cow_Clone
begin

text \<open>
  Address spaces with their memory areas (\<open>mm.c\<close>) and the page-fault
  handlers (\<open>page_fault_handler.c\<close>, \<open>page_fault_handler_mm.c\<close>).  An
  \<open>mm_struct\<close> is identified by its offset in the bump pool; the linked list
  of its areas is a list, newest first.  A kernel panic does not return and
  is an outcome of its own.
\<close>

section \<open>State and operations\<close>

abbreviation MM_POOL_SIZE :: nat where "MM_POOL_SIZE \<equiv> 16384"
abbreviation VM_READ :: u32 where "VM_READ \<equiv> 1"
abbreviation VM_WRITE :: u32 where "VM_WRITE \<equiv> 2"

record vma =
  vm_start :: u64
  vm_end :: u64
  vm_flags :: u32

record mm_struct =
  pml4_phys :: u64
  mmap :: "vma list"

record mm_sys =
  hw :: mmu
  cr3 :: u64
  mm_pool_off :: nat
  mms :: "nat \<Rightarrow> mm_struct option"
  current_mm :: "nat option"

definition mm_kalloc :: "nat \<Rightarrow> mm_sys \<Rightarrow> nat option \<times> mm_sys" where
  "mm_kalloc sz s =
     (let sz' = (sz + 7) div 8 * 8 in
      if mm_pool_off s + sz' > MM_POOL_SIZE then (None, s)
      else (Some (mm_pool_off s), s\<lparr>mm_pool_off := mm_pool_off s + sz'\<rparr>))"

definition mm_create :: "mm_sys \<Rightarrow> nat option \<times> mm_sys" where
  "mm_create s =
     (case mm_kalloc 16 s of
        (None, s1) \<Rightarrow> (None, s1)
      | (Some m, s1) \<Rightarrow>
          let (pml4, h) = paging_create_pml4 (hw s1); s2 = s1\<lparr>hw := h\<rparr> in
          if pml4 = 0 then (None, s2)
          else (Some m, s2\<lparr>mms := (mms s2)(m \<mapsto> \<lparr>pml4_phys = pml4, mmap = []\<rparr>)\<rparr>))"

definition mm_add_vma :: "nat option \<Rightarrow> u64 \<Rightarrow> u64 \<Rightarrow> u32 \<Rightarrow> mm_sys \<Rightarrow> int \<times> mm_sys" where
  "mm_add_vma m start end flags s =
     (case m of
        None \<Rightarrow> (-1, s)
      | Some p \<Rightarrow>
          if start \<ge> end then (-1, s)
          else case mm_kalloc 32 s of
            (None, s1) \<Rightarrow> (-1, s1)
          | (Some v, s1) \<Rightarrow>
              (0, s1\<lparr>mms := (mms s1)(p := map_option
                 (\<lambda>mm. mm\<lparr>mmap := \<lparr>vm_start = start, vm_end = end, vm_flags = flags\<rparr> # mmap mm\<rparr>)
                 (mms s1 p))\<rparr>))"

definition vma_contains :: "u64 \<Rightarrow> vma \<Rightarrow> bool" where
  "vma_contains addr v \<longleftrightarrow> addr \<ge> vm_start v \<and> addr < vm_end v"

definition mm_find_vma :: "nat option \<Rightarrow> u64 \<Rightarrow> mm_sys \<Rightarrow> vma option" where
  "mm_find_vma m addr s =
     (case m of
        None \<Rightarrow> None
      | Some p \<Rightarrow> (case mms s p of None \<Rightarrow> None | Some mm \<Rightarrow> find (vma_contains addr) (mmap mm)))"

definition mm_switch :: "nat option \<Rightarrow> mm_sys \<Rightarrow> mm_sys" where
  "mm_switch m s =
     (case m of
        None \<Rightarrow> s
      | Some p \<Rightarrow> (case mms s p of None \<Rightarrow> s
          | Some mm \<Rightarrow> s\<lparr>cr3 := pml4_phys mm, current_mm := Some p\<rparr>))"

definition page_not_present_handler :: "u64 \<Rightarrow> mm_sys \<Rightarrow> int \<times> mm_sys" where
  "page_not_present_handler faulting_address s =
     (let page_addr = page_align_down faulting_address in
      if faulting_address = 0 \<or> faulting_address \<ge> 0xFFFFFFFF80000000 then (-1, s)
      else
        let (phys, f) = pfa_alloc_frame (frames (hw s)); s1 = s\<lparr>hw := (hw s)\<lparr>frames := f\<rparr>\<rparr> in
        if phys = 0 then (-1, s1)
        else if cr3 s1 = 0 then (-1, s1)
        else
          let (r, h) = paging_map_page (cr3 s1) page_addr phys (PTE_PRESENT OR PTE_RW OR PTE_USER) (hw s1);
              s2 = s1\<lparr>hw := h\<rparr>
          in if r \<noteq> 0 then (-2, s2) else (0, s2))"

text \<open>The page written by \<open>memset\<close> through the freshly mapped virtual address is
  the one the current root translates it to.  The store is the kernel's and the
  page of a read-only area is already mapped read-only then: the model takes
  write protection of supervisor stores (CR0.WP, which the sources never set)
  to be off.\<close>

definition page_not_present_handler_mm :: "u64 \<Rightarrow> mm_sys \<Rightarrow> int \<times> mm_sys" where
  "page_not_present_handler_mm faulting_address s =
     (case current_mm s of
        None \<Rightarrow> (-1, s)
      | Some p \<Rightarrow>
          let page_addr = page_align_down faulting_address in
          case mm_find_vma (Some p) faulting_address s of
            None \<Rightarrow> (-1, s)
          | Some v \<Rightarrow>
              let (phys, f) = pfa_alloc_frame (frames (hw s)); s1 = s\<lparr>hw := (hw s)\<lparr>frames := f\<rparr>\<rparr> in
              if phys = 0 then (-1, s1)
              else
                let flags = (if vm_flags v AND VM_WRITE \<noteq> 0 then PTE_PRESENT OR PTE_USER OR PTE_RW
                             else PTE_PRESENT OR PTE_USER);
                    root = (case mms s1 p of None \<Rightarrow> 0 | Some mm \<Rightarrow> pml4_phys mm);
                    (r, h) = paging_map_page root page_addr phys flags (hw s1);
                    s2 = s1\<lparr>hw := h\<rparr>
                in if r \<noteq> 0 then (-2, s2)
                   else let target = paging_get_phys (cr3 s2) page_addr (hw s2)
                        in (0, s2\<lparr>hw := (hw s2)\<lparr>pmem := (pmem (hw s2))(target := (\<lambda>_. 0))\<rparr>\<rparr>))"

datatype pf_outcome = Resolved | Panic

definition page_fault_handler :: "u64 \<Rightarrow> u64 \<Rightarrow> mm_sys \<Rightarrow> pf_outcome \<times> mm_sys" where
  "page_fault_handler error_code faulting_address s =
     (if error_code AND 1 \<noteq> 0 \<and> error_code AND 2 \<noteq> 0 then
        if paging_get_flags (cr3 s) faulting_address (hw s) AND PTE_COW \<noteq> 0 then
          let (r, h) = paging_handle_cow_fault (cr3 s) faulting_address (hw s); s1 = s\<lparr>hw := h\<rparr> in
          if r = 0 then (Resolved, s1) else (Panic, s1)
        else (Panic, s)
      else if error_code AND 1 = 0 then
        let (r, s1) = page_not_present_handler faulting_address s in
        if r = 0 then (Resolved, s1) else (Panic, s1)
      else (Panic, s))"

section \<open>Memory areas\<close>

lemma mm_kalloc_bounds:
  "mm_kalloc sz s = (Some p, s') \<Longrightarrow>
     p = mm_pool_off s \<and> p + sz \<le> mm_pool_off s' \<and> mm_pool_off s' \<le> MM_POOL_SIZE \<and>
     hw s' = hw s \<and> mms s' = mms s \<and> current_mm s' = current_mm s \<and> cr3 s' = cr3 s"
  by (auto simp: mm_kalloc_def Let_def split: if_splits)

lemma mm_add_vma_found:
  assumes "mm_add_vma (Some p) start end flags s = (0, s')" "mms s p = Some mm"
  shows "mm_find_vma (Some p) addr s' =
     (if start \<le> addr \<and> addr < end then Some \<lparr>vm_start = start, vm_end = end, vm_flags = flags\<rparr>
      else mm_find_vma (Some p) addr s)"
  using assms
  by (auto simp: mm_add_vma_def mm_find_vma_def vma_contains_def dest!: mm_kalloc_bounds
      split: if_splits prod.splits option.splits)

lemma mm_find_vma_contains:
  "mm_find_vma m addr s = Some v \<Longrightarrow> vm_start v \<le> addr \<and> addr < vm_end v"
  by (auto simp: mm_find_vma_def vma_contains_def find_Some_iff split: option.splits)

section \<open>Demand paging\<close>

lemma page_path_align [simp]: "page_path (page_align_down va) = page_path va"
  by (simp add: page_path_def page_align_down_indices)

lemma aspace_align [simp]: "aspace s root (page_align_down va) = aspace s root va"
  by (simp add: aspace_def page_align_down_indices)

lemma align_offset: "page_align_down va AND 0xFFF = 0"
  by (simp add: page_align_down_def and.assoc)

lemma in_tables_iff: "t \<in> tables s root \<longleftrightarrow> (\<exists>p. idx_path p \<and> tab_at s root p = Some t)"
  by (simp add: tables_def)

lemma tables_not_avail: "\<lbrakk>pt_inv s root; t \<in> tables s root\<rbrakk> \<Longrightarrow> t \<notin> pfa_avail (frames s)"
  using pt_invD(3) by (auto simp: in_tables_iff)

text \<open>Allocating a frame and mapping it, the common part of both handlers.\<close>

lemma alloc_and_map:
  assumes inv: "pt_inv h root" and al: "pfa_alloc_frame (frames h) = (c, f)" "c \<noteq> 0"
    and m: "paging_map_page root (page_align_down va) c flags (h\<lparr>frames := f\<rparr>) = (0, h2)"
  shows "c \<in> pfa_avail (frames h)" and "pt_inv h2 root" and "c \<notin> tables h2 root"
    and "aspace h2 root = (\<lambda>v. if page_path v = page_path va then Some (leaf_entry c flags) else aspace h root v)"
    and "c AND PTE_ADDR_MASK = c" and "pfa_avail (frames h2) \<subseteq> pfa_avail (frames h) - {c}"
proof -
  have fi: "pfa_inv (frames h)" by (rule pt_invD(1) [OF inv])
  have take: "pfa_take (frames h) = Some (c, f)" using al by (simp add: pfa_take_def)
  note a = pfa_pool.alloc_some [OF fi take]
  show c: "c \<in> pfa_avail (frames h)" using a by blast
  show "c AND PTE_ADDR_MASK = c" using avail_nonzero [OF fi c] by blast
  note d = pt_inv_data [OF inv, of "h\<lparr>frames := f\<rparr>"]
  have h1: "pt_inv (h\<lparr>frames := f\<rparr>) root" "aspace (h\<lparr>frames := f\<rparr>) root = aspace h root"
    "tables (h\<lparr>frames := f\<rparr>) root = tables h root"
    using d a by (auto simp: tables_def)
  note m' = paging_map_page_spec [OF h1(1) m]
  show "pt_inv h2 root" using m' by blast
  show "aspace h2 root = (\<lambda>v. if page_path v = page_path va then Some (leaf_entry c flags) else aspace h root v)"
    using m' h1(2) by (simp cong: if_cong)
  show "c \<notin> tables h2 root" using m' h1(3) a tables_not_avail [OF inv] by auto
  show "pfa_avail (frames h2) \<subseteq> pfa_avail (frames h) - {c}" using m' a by auto
qed

lemma pt_inv_write_data:
  assumes "pt_inv h root" "c \<notin> tables h root"
  shows "pt_inv (h\<lparr>pmem := (pmem h)(c := x)\<rparr>) root"
    and "aspace (h\<lparr>pmem := (pmem h)(c := x)\<rparr>) root = aspace h root"
proof -
  have mem: "\<And>p t. \<lbrakk>idx_path p; tab_at h root p = Some t\<rbrakk> \<Longrightarrow> pmem (h\<lparr>pmem := (pmem h)(c := x)\<rparr>) t = pmem h t"
    using assms(2) by (auto simp: in_tables_iff)
  show "pt_inv (h\<lparr>pmem := (pmem h)(c := x)\<rparr>) root"
    by (rule pt_inv_data(1) [OF assms(1) _ _ mem]) (simp_all add: pt_invD(1) [OF assms(1)])
  show "aspace (h\<lparr>pmem := (pmem h)(c := x)\<rparr>) root = aspace h root"
    by (rule pt_inv_data(3) [OF assms(1) _ _ mem]) (simp_all add: pt_invD(1) [OF assms(1)])
qed

lemma demand_flags_bits:
  "bit (leaf_entry c (if w then PTE_PRESENT OR PTE_USER OR PTE_RW else PTE_PRESENT OR PTE_USER)) 1 = w"
  "bit (leaf_entry c (if w then PTE_PRESENT OR PTE_USER OR PTE_RW else PTE_PRESENT OR PTE_USER)) 2"
proof -
  have "bit (7 :: u64) 1" "bit (7 :: u64) 2" "\<not> bit (5 :: u64) 1" "bit (5 :: u64) 2"
    by (simp_all add: bit_numeral_word_iff)
  then show "bit (leaf_entry c (if w then PTE_PRESENT OR PTE_USER OR PTE_RW else PTE_PRESENT OR PTE_USER)) 1 = w"
    "bit (leaf_entry c (if w then PTE_PRESENT OR PTE_USER OR PTE_RW else PTE_PRESENT OR PTE_USER)) 2"
    by (auto simp: leaf_entry_def pte_bits)
qed

section \<open>Properties of memory areas and page faults\<close>


text \<open>The sample tree as an address space with one writable area over its first two pages.\<close>

definition sample_mm_sys :: mm_sys where
  "sample_mm_sys = \<lparr>hw = sample_cow, cr3 = 0x3000, mm_pool_off = 48,
     mms = [0 \<mapsto> \<lparr>pml4_phys = 0x3000, mmap = [\<lparr>vm_start = 0, vm_end = 0x2000, vm_flags = 3\<rparr>]\<rparr>],
     current_mm = Some 0\<rparr>"

lemma sample_mm_fault: "\<exists>s'. page_not_present_handler_mm 0x1008 sample_mm_sys = (0, s')"
proof -
  obtain f where al: "pfa_alloc_frame sample_pfa = (0x1000, f)"
  proof (rule pfa_alloc_frame_some [OF pfa_inv_sample_pfa])
    show "free_frames sample_pfa \<noteq> {}" by (simp add: free_frames_sample_pfa)
  next
    fix s' assume "pfa_alloc_frame sample_pfa = (frame_addr (Min (free_frames sample_pfa)), s')"
    then show thesis by (intro that) (simp add: free_frames_sample_pfa frame_addr_def)
  qed
  have idx: "pml4_index 0x1000 = 0" "pdpt_index 0x1000 = 0" "pd_index 0x1000 = 0" "pt_index 0x1000 = 1"
    by (simp_all add: pml4_index_def pdpt_index_def pd_index_def pt_index_def drop_bit_eq_div)
  have vma: "mm_find_vma (Some 0) 0x1008 sample_mm_sys = Some \<lparr>vm_start = 0, vm_end = 0x2000, vm_flags = 3\<rparr>"
    by (simp add: mm_find_vma_def sample_mm_sys_def vma_contains_def)
  have "\<exists>h. paging_map_page 0x3000 0x1000 0x1000 7 (sample_cow\<lparr>frames := f\<rparr>) = (0, h)"
    by (simp add: paging_map_page_def idx ensure_table_with_flags_def read_entry_def write_entry_def
        sample_cow_def Let_def)
  then obtain h where h: "paging_map_page 0x3000 0x1000 0x1000 7 (sample_cow\<lparr>frames := f\<rparr>) = (0, h)" by blast
  have hwf: "frames sample_cow = sample_pfa" "hw sample_mm_sys = sample_cow" "current_mm sample_mm_sys = Some 0"
    "mms sample_mm_sys 0 = Some \<lparr>pml4_phys = 0x3000, mmap = [\<lparr>vm_start = 0, vm_end = 0x2000, vm_flags = 3\<rparr>]\<rparr>"
    by (simp_all add: sample_mm_sys_def sample_cow_def)
  show ?thesis
    using h by (simp add: page_not_present_handler_mm_def vma al hwf Let_def page_align_down_def)
qed


end
