(* ===== verification/File_Table.thy ===== *)
theory File_Table
  imports Kernel_Prelude
begin

text \<open>
  Open files and descriptor tables (\<open>fd.c\<close>, \<open>file.h\<close>).  A \<open>struct file\<close> is
  an index into the static pool, a process an index into the family of
  descriptor tables.  Closing the last reference calls the vnode's
  \<open>vop_close\<close> through its operations table; that call is the parameter
  \<open>cl\<close>, a transformer of the state \<open>vworld\<close> the vnodes live in (the identity
  where the table has no such entry).
\<close>

section \<open>State and operations\<close>

abbreviation FILE_POOL_SIZE :: nat where "FILE_POOL_SIZE \<equiv> 128"
abbreviation MAX_FILES :: nat where "MAX_FILES \<equiv> 32"
abbreviation EBADF :: int where "EBADF \<equiv> 9"
abbreviation ENOMEM :: int where "ENOMEM \<equiv> 12"
abbreviation EINVAL :: int where "EINVAL \<equiv> 22"
abbreviation EMFILE :: int where "EMFILE \<equiv> 24"
abbreviation O_RDONLY :: u16 where "O_RDONLY \<equiv> 0"
abbreviation O_WRONLY :: u16 where "O_WRONLY \<equiv> 1"

datatype vnode_id = TtyVnode | PipeVnode nat | FsVnode nat

record kfile =
  f_vnode :: "vnode_id option"
  f_offset :: u32
  f_flags :: u16
  refcount :: int

record 'w fdsys =
  file_pool :: "kfile array"
  file_pool_inited :: bool
  fd_table :: "nat \<Rightarrow> nat \<Rightarrow> nat option"
  vworld :: 'w

definition set_file :: "nat \<Rightarrow> kfile \<Rightarrow> 'w fdsys \<Rightarrow> 'w fdsys" where
  "set_file i f s = s\<lparr>file_pool := (file_pool s)(i := f)\<rparr>"

definition set_fd :: "nat \<Rightarrow> nat \<Rightarrow> nat option \<Rightarrow> 'w fdsys \<Rightarrow> 'w fdsys" where
  "set_fd p fd e s = s\<lparr>fd_table := (fd_table s)(p := (fd_table s p)(fd := e))\<rparr>"

definition file_pool_init :: "'w fdsys \<Rightarrow> 'w fdsys" where
  "file_pool_init s =
     (if file_pool_inited s then s
      else s\<lparr>file_pool := (\<lambda>_. \<lparr>f_vnode = None, f_offset = 0, f_flags = 0, refcount = 0\<rparr>),
             file_pool_inited := True\<rparr>)"

definition file_alloc :: "vnode_id option \<Rightarrow> u16 \<Rightarrow> 'w fdsys \<Rightarrow> nat option \<times> 'w fdsys" where
  "file_alloc vp flags s =
     (let s1 = file_pool_init s in
      case first_slot (\<lambda>i. refcount (file_pool s1 i) = 0) FILE_POOL_SIZE of
        None \<Rightarrow> (None, s1)
      | Some i \<Rightarrow>
          (Some i, set_file i \<lparr>f_vnode = vp, f_offset = 0, f_flags = flags, refcount = 1\<rparr> s1))"

definition file_free :: "(vnode_id \<Rightarrow> 'w \<Rightarrow> 'w) \<Rightarrow> nat option \<Rightarrow> 'w fdsys \<Rightarrow> 'w fdsys" where
  "file_free cl f s =
     (case f of
        None \<Rightarrow> s
      | Some i \<Rightarrow>
          let fl = (file_pool s i)\<lparr>refcount := refcount (file_pool s i) - 1\<rparr>; s1 = set_file i fl s in
          if refcount fl \<le> 0 then
            let s2 = (case f_vnode fl of None \<Rightarrow> s1 | Some vp \<Rightarrow> s1\<lparr>vworld := cl vp (vworld s1)\<rparr>)
            in set_file i \<lparr>f_vnode = None, f_offset = 0, f_flags = 0, refcount = 0\<rparr> s2
          else s1)"

definition fd_alloc :: "nat option \<Rightarrow> nat option \<Rightarrow> 'w fdsys \<Rightarrow> int \<times> 'w fdsys" where
  "fd_alloc proc f s =
     (case (proc, f) of
        (Some p, Some i) \<Rightarrow>
          (case first_slot (\<lambda>fd. fd_table s p fd = None) MAX_FILES of
             None \<Rightarrow> (- EMFILE, s)
           | Some fd \<Rightarrow>
               let s1 = set_fd p fd (Some i) s
               in (int fd, set_file i ((file_pool s1 i)\<lparr>refcount := refcount (file_pool s1 i) + 1\<rparr>) s1))
      | _ \<Rightarrow> (- EINVAL, s))"

definition fd_close :: "(vnode_id \<Rightarrow> 'w \<Rightarrow> 'w) \<Rightarrow> nat option \<Rightarrow> int \<Rightarrow> 'w fdsys \<Rightarrow> int \<times> 'w fdsys" where
  "fd_close cl proc fd s =
     (case proc of
        None \<Rightarrow> (- EBADF, s)
      | Some p \<Rightarrow>
          if fd < 0 \<or> fd \<ge> int MAX_FILES then (- EBADF, s)
          else case fd_table s p (nat fd) of
            None \<Rightarrow> (- EBADF, s)
          | Some f \<Rightarrow> (0, file_free cl (Some f) (set_fd p (nat fd) None s)))"

definition fd_get :: "nat option \<Rightarrow> int \<Rightarrow> 'w fdsys \<Rightarrow> nat option" where
  "fd_get proc fd s =
     (case proc of
        None \<Rightarrow> None
      | Some p \<Rightarrow> if fd < 0 \<or> fd \<ge> int MAX_FILES then None else fd_table s p (nat fd))"

definition fd_dup :: "nat option \<Rightarrow> int \<Rightarrow> 'w fdsys \<Rightarrow> int \<times> 'w fdsys" where
  "fd_dup proc src_fd s =
     (case fd_get proc src_fd s of
        None \<Rightarrow> (- EBADF, s)
      | Some f \<Rightarrow> fd_alloc proc (Some f) s)"

primrec fd_clone_loop :: "nat \<Rightarrow> nat \<Rightarrow> nat \<Rightarrow> nat \<Rightarrow> 'w fdsys \<Rightarrow> 'w fdsys" where
  "fd_clone_loop p c i 0 s = s"
| "fd_clone_loop p c i (Suc k) s =
     fd_clone_loop p c (Suc i) k
       (case fd_table s p i of
          None \<Rightarrow> s
        | Some f \<Rightarrow>
            let s1 = set_fd c i (Some f) s
            in set_file f ((file_pool s1 f)\<lparr>refcount := refcount (file_pool s1 f) + 1\<rparr>) s1)"

definition fd_clone :: "nat option \<Rightarrow> nat option \<Rightarrow> 'w fdsys \<Rightarrow> 'w fdsys" where
  "fd_clone parent child s =
     (case (parent, child) of
        (Some p, Some c) \<Rightarrow> fd_clone_loop p c 0 MAX_FILES s
      | _ \<Rightarrow> s)"

primrec fd_close_loop :: "(vnode_id \<Rightarrow> 'w \<Rightarrow> 'w) \<Rightarrow> nat \<Rightarrow> nat \<Rightarrow> nat \<Rightarrow> 'w fdsys \<Rightarrow> 'w fdsys" where
  "fd_close_loop cl p i 0 s = s"
| "fd_close_loop cl p i (Suc k) s =
     fd_close_loop cl p (Suc i) k
       (if fd_table s p i \<noteq> None then snd (fd_close cl (Some p) (int i) s) else s)"

definition fd_close_all :: "(vnode_id \<Rightarrow> 'w \<Rightarrow> 'w) \<Rightarrow> nat option \<Rightarrow> 'w fdsys \<Rightarrow> 'w fdsys" where
  "fd_close_all cl proc s =
     (case proc of None \<Rightarrow> s | Some p \<Rightarrow> fd_close_loop cl p 0 MAX_FILES s)"

definition stdio_slot :: "nat \<Rightarrow> nat \<Rightarrow> u16 \<Rightarrow> 'w fdsys \<Rightarrow> 'w fdsys" where
  "stdio_slot p fd flags s =
     (case file_alloc (Some TtyVnode) flags s of
        (None, s1) \<Rightarrow> s1
      | (Some f, s1) \<Rightarrow> set_fd p fd (Some f) s1)"

definition fd_init_stdio :: "nat option \<Rightarrow> 'w fdsys \<Rightarrow> 'w fdsys" where
  "fd_init_stdio proc s =
     (case proc of
        None \<Rightarrow> s
      | Some p \<Rightarrow> stdio_slot p 2 O_WRONLY (stdio_slot p 1 O_WRONLY (stdio_slot p 0 O_RDONLY s)))"

text \<open>
  The descriptor system calls of \<open>syscall.c\<close>.  \<open>sys_open_install\<close> is what
  \<open>SYS_OPEN\<close> does once the path has been resolved to a vnode and the vnode
  opened.  The vnode operations a read or write dispatches to are given by
  \<open>ops\<close>, which has the operation's result and effect where the table has an
  entry (the result \<open>None\<close> is a call that is still waiting, as a pipe
  read on an empty pipe does); \<open>bad_buf\<close> is the verdict of \<open>validate_user_buf\<close>.
\<close>

abbreviation ESRCH :: int where "ESRCH \<equiv> 3"
abbreviation EFAULT :: int where "EFAULT \<equiv> 14"
abbreviation ENOSYS :: int where "ENOSYS \<equiv> 38"

record 'w vops =
  vop_read_at :: "(nat \<Rightarrow> u32 \<Rightarrow> 'w \<Rightarrow> int option \<times> u8 list \<times> 'w) option"
  vop_read :: "(nat \<Rightarrow> 'w \<Rightarrow> int option \<times> u8 list \<times> 'w) option"
  vop_write_at :: "(u8 list \<Rightarrow> u32 \<Rightarrow> 'w \<Rightarrow> int option \<times> 'w) option"
  vop_write :: "(u8 list \<Rightarrow> 'w \<Rightarrow> int option \<times> 'w) option"

definition set_refcount :: "nat \<Rightarrow> int \<Rightarrow> 'w fdsys \<Rightarrow> 'w fdsys" where
  "set_refcount i n s = set_file i ((file_pool s i)\<lparr>refcount := n\<rparr>) s"

definition sys_open_install :: "vnode_id \<Rightarrow> u16 \<Rightarrow> nat option \<Rightarrow> 'w fdsys \<Rightarrow> int \<times> 'w fdsys" where
  "sys_open_install vp flags cur s =
     (case file_alloc (Some vp) flags s of
        (None, s1) \<Rightarrow> (- ENOMEM, s1)
      | (Some f, s1) \<Rightarrow>
          (case cur of
             None \<Rightarrow> (- ESRCH, set_refcount f 0 s1)
           | Some p \<Rightarrow>
               let (fd, s2) = fd_alloc (Some p) (Some f) s1 in
               if fd < 0 then (fd, set_refcount f 0 s2)
               else (fd, set_refcount f (refcount (file_pool s2 f) - 1) s2)))"

definition advance_offset :: "nat \<Rightarrow> int option \<Rightarrow> 'w fdsys \<Rightarrow> 'w fdsys" where
  "advance_offset f r s =
     (case r of
        None \<Rightarrow> s
      | Some n \<Rightarrow>
          if n > 0 then set_file f ((file_pool s f)\<lparr>f_offset := f_offset (file_pool s f) + word_of_int n\<rparr>) s
          else s)"

definition sys_read ::
  "(vnode_id \<Rightarrow> 'w vops) \<Rightarrow> nat option \<Rightarrow> int \<Rightarrow> bool \<Rightarrow> nat \<Rightarrow> 'w fdsys \<Rightarrow> int option \<times> u8 list \<times> 'w fdsys"
where
  "sys_read ops cur fd bad_buf len s =
     (case cur of
        None \<Rightarrow> (Some (- ESRCH), [], s)
      | Some p \<Rightarrow>
          (case fd_get (Some p) fd s of
             None \<Rightarrow> (Some (- EBADF), [], s)
           | Some f \<Rightarrow>
               if f_flags (file_pool s f) AND 3 = O_WRONLY then (Some (- EBADF), [], s)
               else (case f_vnode (file_pool s f) of
                 None \<Rightarrow> (Some (- EBADF), [], s)
               | Some vp \<Rightarrow>
                   if bad_buf then (Some (- EFAULT), [], s)
                   else (case vop_read_at (ops vp) of
                     Some rd \<Rightarrow>
                       let (r, bs, w) = rd len (f_offset (file_pool s f)) (vworld s)
                       in (r, bs, advance_offset f r (s\<lparr>vworld := w\<rparr>))
                   | None \<Rightarrow>
                       (case vop_read (ops vp) of
                          Some rd \<Rightarrow>
                            let (r, bs, w) = rd len (vworld s)
                            in (r, bs, advance_offset f r (s\<lparr>vworld := w\<rparr>))
                        | None \<Rightarrow> (Some (- ENOSYS), [], s))))))"

definition sys_write_fd ::
  "(vnode_id \<Rightarrow> 'w vops) \<Rightarrow> nat option \<Rightarrow> int \<Rightarrow> bool \<Rightarrow> u8 list \<Rightarrow> 'w fdsys \<Rightarrow> int option \<times> 'w fdsys"
where
  "sys_write_fd ops cur fd bad_buf bs s =
     (case cur of
        None \<Rightarrow> (Some (- ESRCH), s)
      | Some p \<Rightarrow>
          (case fd_get (Some p) fd s of
             None \<Rightarrow> (Some (- EBADF), s)
           | Some f \<Rightarrow>
               if f_flags (file_pool s f) AND 3 = O_RDONLY then (Some (- EBADF), s)
               else (case f_vnode (file_pool s f) of
                 None \<Rightarrow> (Some (- EBADF), s)
               | Some vp \<Rightarrow>
                   if bad_buf then (Some (- EFAULT), s)
                   else (case vop_write_at (ops vp) of
                     Some wr \<Rightarrow>
                       let (r, w) = wr bs (f_offset (file_pool s f)) (vworld s)
                       in (r, advance_offset f r (s\<lparr>vworld := w\<rparr>))
                   | None \<Rightarrow>
                       (case vop_write (ops vp) of
                          Some wr \<Rightarrow>
                            let (r, w) = wr bs (vworld s)
                            in (r, advance_offset f r (s\<lparr>vworld := w\<rparr>))
                        | None \<Rightarrow> (Some (- ENOSYS), s))))))"

text \<open>Closing the descriptors from 3 on, as \<open>exec_process\<close> does.\<close>

definition exec_close_fds :: "(vnode_id \<Rightarrow> 'w \<Rightarrow> 'w) \<Rightarrow> nat \<Rightarrow> 'w fdsys \<Rightarrow> 'w fdsys" where
  "exec_close_fds cl p s = fd_close_loop cl p 3 (MAX_FILES - 3) s"

section \<open>References to a file\<close>

text \<open>The descriptors that refer to a file, in all tables, and the invariant: the
  reference count of a file is the number of descriptors that refer to it
  plus the references \<open>held i\<close> the kernel holds outside the tables.\<close>

definition fd_entries :: "'w fdsys \<Rightarrow> nat \<Rightarrow> (nat \<times> nat) set" where
  "fd_entries s i = {(p, fd). fd_table s p fd = Some i}"

definition fd_inv :: "(nat \<Rightarrow> nat) \<Rightarrow> 'w fdsys \<Rightarrow> bool" where
  "fd_inv held s \<longleftrightarrow>
     (\<forall>p fd i. fd_table s p fd = Some i \<longrightarrow> i < FILE_POOL_SIZE \<and> fd < MAX_FILES) \<and>
     (\<forall>i. finite (fd_entries s i)) \<and>
     (\<forall>i. i \<ge> FILE_POOL_SIZE \<longrightarrow> held i = 0) \<and>
     (file_pool_inited s \<longrightarrow>
        (\<forall>i<FILE_POOL_SIZE. refcount (file_pool s i) = int (card (fd_entries s i)) + int (held i))) \<and>
     (\<not> file_pool_inited s \<longrightarrow> (\<forall>i. fd_entries s i = {} \<and> held i = 0))"

lemma fd_invI:
  assumes "\<And>p fd i. fd_table s p fd = Some i \<Longrightarrow> i < FILE_POOL_SIZE \<and> fd < MAX_FILES"
    "\<And>i. finite (fd_entries s i)" "\<And>i. i \<ge> FILE_POOL_SIZE \<Longrightarrow> held i = 0"
    "\<And>i. \<lbrakk>file_pool_inited s; i < FILE_POOL_SIZE\<rbrakk> \<Longrightarrow>
       refcount (file_pool s i) = int (card (fd_entries s i)) + int (held i)"
    "\<And>i. \<not> file_pool_inited s \<Longrightarrow> fd_entries s i = {} \<and> held i = 0"
  shows "fd_inv held s"
  unfolding fd_inv_def using assms by blast

lemma fd_invD:
  assumes "fd_inv held s"
  shows "\<And>p fd i. fd_table s p fd = Some i \<Longrightarrow> i < FILE_POOL_SIZE \<and> fd < MAX_FILES"
    "\<And>i. finite (fd_entries s i)" "\<And>i. i \<ge> FILE_POOL_SIZE \<Longrightarrow> held i = 0"
    "\<And>i. \<lbrakk>file_pool_inited s; i < FILE_POOL_SIZE\<rbrakk> \<Longrightarrow>
       refcount (file_pool s i) = int (card (fd_entries s i)) + int (held i)"
    "\<And>i. \<not> file_pool_inited s \<Longrightarrow> fd_entries s i = {} \<and> held i = 0"
  using assms unfolding fd_inv_def by blast+

lemma set_file_fields [simp]:
  "fd_table (set_file i f s) = fd_table s" "file_pool_inited (set_file i f s) = file_pool_inited s"
  "vworld (set_file i f s) = vworld s" "file_pool (set_file i f s) = (file_pool s)(i := f)"
  by (simp_all add: set_file_def)

lemma set_fd_fields [simp]:
  "file_pool (set_fd p fd e s) = file_pool s" "file_pool_inited (set_fd p fd e s) = file_pool_inited s"
  "vworld (set_fd p fd e s) = vworld s"
  "fd_table (set_fd p fd e s) q g = (if q = p \<and> g = fd then e else fd_table s q g)"
  by (simp_all add: set_fd_def)

lemma fd_entries_cong: "fd_table s = fd_table t \<Longrightarrow> fd_entries s = fd_entries t"
  by (simp add: fd_entries_def fun_eq_iff)

lemma fd_entries_add:
  "fd_table s p fd = None \<Longrightarrow>
     fd_entries (set_fd p fd (Some f) s) i = (if i = f then insert (p, fd) (fd_entries s i) else fd_entries s i)"
  by (auto simp: fd_entries_def)

lemma fd_entries_remove:
  "fd_entries (set_fd p fd None s) i = fd_entries s i - {(p, fd)}"
  by (auto simp: fd_entries_def)

section \<open>Every operation keeps the counts exact\<close>

lemma fd_inv_init_pool: "fd_inv held s \<Longrightarrow> fd_inv held (file_pool_init s) \<and> file_pool_inited (file_pool_init s)"
proof -
  assume inv: "fd_inv held s"
  have "fd_entries (file_pool_init s) = fd_entries s"
    by (rule fd_entries_cong) (simp add: file_pool_init_def)
  then show ?thesis
    using fd_invD [OF inv] by (auto simp: file_pool_init_def intro!: fd_invI)
qed

lemma fd_table_init_pool [simp]: "fd_table (file_pool_init s) = fd_table s"
  by (simp add: file_pool_init_def)

lemma file_alloc_inv:
  assumes "fd_inv held s" "file_alloc vp flags s = (r, s')"
  shows "(case r of
      None \<Rightarrow> fd_inv held s'
    | Some i \<Rightarrow> i < FILE_POOL_SIZE \<and> held i = 0 \<and> fd_entries s i = {} \<and>
        refcount (file_pool s' i) = 1 \<and> f_vnode (file_pool s' i) = vp \<and> f_flags (file_pool s' i) = flags \<and>
        fd_table s' = fd_table s \<and> fd_inv (held(i := 1)) s')"
proof -
  let ?s = "file_pool_init s"
  have inv: "fd_inv held ?s" "file_pool_inited ?s" using fd_inv_init_pool [OF assms(1)] by auto
  have ent: "fd_entries ?s = fd_entries s" by (rule fd_entries_cong) simp
  show ?thesis
  proof (cases "first_slot (\<lambda>i. refcount (file_pool ?s i) = 0) FILE_POOL_SIZE")
    case None
    with assms(2) inv(1) show ?thesis by (auto simp: file_alloc_def Let_def)
  next
    case (Some i)
    then have i: "i < FILE_POOL_SIZE" "refcount (file_pool ?s i) = 0" by (auto dest: first_slot_SomeD)
    with fd_invD(4) [OF inv i(1)] have z: "card (fd_entries ?s i) = 0" "held i = 0" by auto
    then have e: "fd_entries ?s i = {}" using fd_invD(2) [OF inv(1), of i] by simp
    define t where "t = set_file i \<lparr>f_vnode = vp, f_offset = 0, f_flags = flags, refcount = 1\<rparr> ?s"
    have r: "r = Some i" "s' = t" using assms(2) Some by (auto simp: file_alloc_def Let_def t_def)
    have te: "fd_entries t = fd_entries ?s" by (rule fd_entries_cong) (simp add: t_def)
    have "fd_inv (held(i := 1)) t"
    proof (rule fd_invI)
      fix j assume "j < FILE_POOL_SIZE"
      then show "refcount (file_pool t j) = int (card (fd_entries t j)) + int ((held(i := 1)) j)"
        using fd_invD(4) [OF inv, of j] e by (simp add: te) (simp add: t_def e)
    qed (use fd_invD [OF inv(1)] inv(2) i(1) te in \<open>auto simp: t_def\<close>)
    with i z e ent show ?thesis by (simp add: r) (simp add: t_def)
  qed
qed

lemma fd_add_inv:
  assumes inv: "fd_inv held s" and init: "file_pool_inited s"
    and free: "fd_table s p fd = None" "fd < MAX_FILES" "f < FILE_POOL_SIZE"
  defines "t \<equiv> set_file f ((file_pool s f)\<lparr>refcount := refcount (file_pool s f) + 1\<rparr>) (set_fd p fd (Some f) s)"
  shows "fd_inv held t"
proof (rule fd_invI)
  have te: "fd_entries t i = (if i = f then insert (p, fd) (fd_entries s i) else fd_entries s i)" for i
    using fd_entries_add [OF free(1), of f i] fd_entries_cong [of t "set_fd p fd (Some f) s"]
    by (simp add: t_def)
  show "finite (fd_entries t i)" for i using fd_invD(2) [OF inv] by (simp add: te)
  fix i assume i: "i < FILE_POOL_SIZE"
  have "(p, fd) \<notin> fd_entries s f" using free(1) by (simp add: fd_entries_def)
  then show "refcount (file_pool t i) = int (card (fd_entries t i)) + int (held i)"
    using fd_invD(4) [OF inv init i] fd_invD(2) [OF inv] by (simp add: te) (auto simp: t_def)
qed (use fd_invD [OF inv] init free in \<open>auto simp: t_def split: if_splits\<close>)

lemma fd_alloc_inv:
  assumes "fd_inv held s" "file_pool_inited s" "f < FILE_POOL_SIZE" "fd_alloc (Some p) (Some f) s = (r, s')"
  shows "fd_inv held s' \<and> file_pool_inited s' \<and> vworld s' = vworld s \<and>
     (if r < 0 then r = - EMFILE \<and> s' = s
      else nat r < MAX_FILES \<and> fd_table s p (nat r) = None \<and>
        fd_table s' = (fd_table s)(p := (fd_table s p)(nat r := Some f)) \<and>
        (\<forall>fd < nat r. fd_table s p fd \<noteq> None))"
proof (cases "first_slot (\<lambda>fd. fd_table s p fd = None) MAX_FILES")
  case None
  with assms show ?thesis by (simp add: fd_alloc_def)
next
  case (Some fd)
  then have fd: "fd < MAX_FILES" "fd_table s p fd = None" "\<forall>j<fd. fd_table s p j \<noteq> None"
    by (auto dest: first_slot_SomeD)
  have r: "r = int fd" "s' = set_file f ((file_pool s f)\<lparr>refcount := refcount (file_pool s f) + 1\<rparr>)
      (set_fd p fd (Some f) s)" using assms(4) Some by (simp_all add: fd_alloc_def)
  from fd_add_inv [OF assms(1,2) fd(2,1) assms(3)] show ?thesis
    using fd assms(2) by (auto simp: r set_fd_def)
qed

lemma file_free_inv:
  assumes inv: "fd_inv (held(f := Suc (held f))) s" and init: "file_pool_inited s" and f: "f < FILE_POOL_SIZE"
  shows "fd_inv held (file_free cl (Some f) s) \<and> file_pool_inited (file_free cl (Some f) s) \<and>
    fd_table (file_free cl (Some f) s) = fd_table s"
proof -
  let ?t = "file_free cl (Some f) s"
  have tab: "fd_table ?t = fd_table s" "file_pool_inited ?t = file_pool_inited s"
    by (auto simp: file_free_def Let_def split: option.splits)
  have ent: "fd_entries ?t = fd_entries s" by (rule fd_entries_cong) (rule tab)
  have c: "refcount (file_pool s f) = int (card (fd_entries s f)) + int (held f) + 1"
    using fd_invD(4) [OF inv init f] by simp
  have rc: "refcount (file_pool ?t i) = (if i = f then refcount (file_pool s f) - 1 else refcount (file_pool s i))" for i
    using c by (auto simp: file_free_def Let_def split: option.splits)
  have "fd_inv held ?t"
  proof (rule fd_invI)
    fix i assume "i < FILE_POOL_SIZE"
    then show "refcount (file_pool ?t i) = int (card (fd_entries ?t i)) + int (held i)"
      using fd_invD(4) [OF inv init, of i] c by (auto simp: rc ent)
  next
    fix i assume "i \<ge> FILE_POOL_SIZE"
    then show "held i = 0" using fd_invD(3) [OF inv, of i] f by (auto split: if_splits)
  qed (use fd_invD(1,2) [OF inv] tab init ent in auto)
  with tab init show ?thesis by simp
qed

lemma fd_drop_inv:
  assumes inv: "fd_inv held s" and init: "file_pool_inited s" and e: "fd_table s p fd = Some f"
  shows "fd_inv (held(f := Suc (held f))) (set_fd p fd None s)"
proof (rule fd_invI)
  let ?t = "set_fd p fd None s"
  have f: "f < FILE_POOL_SIZE" using fd_invD(1) [OF inv e] by simp
  fix i assume i: "i < FILE_POOL_SIZE"
  have "(p, fd) \<in> fd_entries s i \<longleftrightarrow> i = f" using e by (auto simp: fd_entries_def)
  then have "card (fd_entries s i) = card (fd_entries ?t i) + (if i = f then 1 else 0)"
    using fd_invD(2) [OF inv, of i] card_Suc_Diff1 [of "fd_entries s i" "(p, fd)"]
    by (auto simp: fd_entries_remove)
  then show "refcount (file_pool ?t i) = int (card (fd_entries ?t i)) + int ((held(f := Suc (held f))) i)"
    using fd_invD(4) [OF inv init i] by simp
next
  show "(held(f := Suc (held f))) i = 0" if "i \<ge> FILE_POOL_SIZE" for i
    using that fd_invD(3) [OF inv, of i] fd_invD(1) [OF inv e] by auto
qed (use fd_invD [OF inv] init in \<open>auto simp: fd_entries_remove split: if_splits\<close>)

lemma fd_close_inv:
  assumes "fd_inv held s" "fd_close cl (Some p) fd s = (r, s')"
  shows "fd_inv held s' \<and>
    (if r = 0 then 0 \<le> fd \<and> fd < int MAX_FILES \<and> fd_table s p (nat fd) \<noteq> None \<and>
       fd_table s' = (fd_table s)(p := (fd_table s p)(nat fd := None))
     else r = - EBADF \<and> s' = s \<and> fd_get (Some p) fd s = None)"
proof (cases "0 \<le> fd \<and> fd < int MAX_FILES \<and> fd_table s p (nat fd) \<noteq> None")
  case True
  then obtain f where f: "fd_table s p (nat fd) = Some f" by blast
  have init: "file_pool_inited s"
    using fd_invD(5) [OF assms(1), of f] f by (auto simp: fd_entries_def)
  have r: "r = 0" "s' = file_free cl (Some f) (set_fd p (nat fd) None s)"
    using assms(2) True f by (auto simp: fd_close_def)
  from file_free_inv [OF fd_drop_inv [OF assms(1) init f]] init fd_invD(1) [OF assms(1) f]
  show ?thesis using True by (simp add: r set_fd_def)
next
  case False
  with assms show ?thesis
    by (auto simp: fd_close_def fd_get_def split: if_splits option.splits)
qed

lemma fd_dup_inv:
  assumes "fd_inv held s" "fd_dup (Some p) fd s = (r, s')"
  shows "fd_inv held s' \<and> (r \<ge> 0 \<longrightarrow> fd_table s' p (nat r) = fd_get (Some p) fd s \<and> fd_get (Some p) fd s \<noteq> None)"
proof (cases "fd_get (Some p) fd s")
  case None
  with assms show ?thesis by (simp add: fd_dup_def)
next
  case (Some f)
  then have tab: "fd_table s p (nat fd) = Some f" by (auto simp: fd_get_def split: if_splits)
  have init: "file_pool_inited s"
    using fd_invD(5) [OF assms(1), of f] tab by (auto simp: fd_entries_def)
  have al: "fd_alloc (Some p) (Some f) s = (r, s')" using assms(2) Some by (simp add: fd_dup_def)
  from fd_alloc_inv [OF assms(1) init _ al] fd_invD(1) [OF assms(1) tab] Some show ?thesis by auto
qed

lemma fd_clone_loop_inv:
  assumes "fd_inv held s" "p \<noteq> c" "\<forall>fd \<ge> i. fd_table s c fd = None"
  shows "fd_inv held (fd_clone_loop p c i k s) \<and>
    fd_table (fd_clone_loop p c i k s) =
      (fd_table s)(c := (\<lambda>fd. if i \<le> fd \<and> fd < i + k then fd_table s p fd else fd_table s c fd))"
  using assms
proof (induction k arbitrary: i s)
  case 0
  then show ?case by (auto simp: fun_eq_iff)
next
  case (Suc k)
  show ?case
  proof (cases "fd_table s p i")
    case None
    have "\<forall>fd \<ge> Suc i. fd_table s c fd = None" using Suc.prems(3) by simp
    from Suc.IH [OF Suc.prems(1,2) this] None Suc.prems(3) show ?thesis
      by (auto simp: fun_eq_iff le_Suc_eq not_less_eq_eq)
  next
    case (Some f)
    define t where "t = set_file f ((file_pool s f)\<lparr>refcount := refcount (file_pool s f) + 1\<rparr>) (set_fd c i (Some f) s)"
    have init: "file_pool_inited s"
      using fd_invD(5) [OF Suc.prems(1), of f] Some by (auto simp: fd_entries_def)
    have "fd_inv held t" unfolding t_def
      using fd_add_inv [OF Suc.prems(1) init] Suc.prems(3) fd_invD(1) [OF Suc.prems(1) Some] by simp
    moreover have tt: "fd_table t = (fd_table s)(c := (fd_table s c)(i := Some f))"
      by (simp add: t_def set_fd_def)
    moreover have "\<forall>fd \<ge> Suc i. fd_table t c fd = None" using Suc.prems(3) by (simp add: tt)
    ultimately have "fd_inv held (fd_clone_loop p c (Suc i) k t) \<and>
        fd_table (fd_clone_loop p c (Suc i) k t) =
          (fd_table t)(c := (\<lambda>fd. if Suc i \<le> fd \<and> fd < Suc i + k then fd_table t p fd else fd_table t c fd))"
      using Suc.IH [of t "Suc i"] Suc.prems(2) by blast
    moreover have "fd_clone_loop p c i (Suc k) s = fd_clone_loop p c (Suc i) k t"
      by (simp add: Some t_def)
    ultimately show ?thesis using Some Suc.prems(2) by (auto simp: tt fun_eq_iff)
  qed
qed

lemma fd_clone_inv:
  assumes "fd_inv held s" "p \<noteq> c" "\<forall>fd. fd_table s c fd = None"
  shows "fd_inv held (fd_clone (Some p) (Some c) s) \<and>
    fd_table (fd_clone (Some p) (Some c) s) c = fd_table s p"
proof -
  have "fd_table s p fd = None" if "fd \<ge> MAX_FILES" for fd
    using fd_invD(1) [OF assms(1), of p fd] that by (cases "fd_table s p fd") force+
  with fd_clone_loop_inv [OF assms(1,2), of 0 MAX_FILES] assms(3) show ?thesis
    by (auto simp: fd_clone_def fun_eq_iff)
qed

lemma fd_close_loop_inv:
  assumes "fd_inv held s" "i + k \<le> MAX_FILES"
  shows "fd_inv held (fd_close_loop cl p i k s) \<and>
    fd_table (fd_close_loop cl p i k s) =
      (fd_table s)(p := (\<lambda>fd. if i \<le> fd \<and> fd < i + k then None else fd_table s p fd))"
  using assms
proof (induction k arbitrary: i s)
  case 0
  then show ?case by (auto simp: fun_eq_iff)
next
  case (Suc k)
  define t where "t = (if fd_table s p i \<noteq> None then snd (fd_close cl (Some p) (int i) s) else s)"
  have t: "fd_inv held t \<and> fd_table t = (fd_table s)(p := (fd_table s p)(i := None))"
  proof (cases "fd_table s p i")
    case None
    with Suc.prems show ?thesis by (simp add: t_def fun_upd_idem)
  next
    case (Some f)
    obtain r s' where c: "fd_close cl (Some p) (int i) s = (r, s')" by fastforce
    then have "r = 0" using Some Suc.prems(2) by (simp add: fd_close_def)
    with fd_close_inv [OF Suc.prems(1) c] c Some show ?thesis by (simp add: t_def)
  qed
  have "fd_inv held (fd_close_loop cl p (Suc i) k t) \<and>
      fd_table (fd_close_loop cl p (Suc i) k t) =
      (fd_table t)(p := (\<lambda>fd. if Suc i \<le> fd \<and> fd < Suc i + k then None else fd_table t p fd))"
  proof (rule Suc.IH)
    show "fd_inv held t" using t by simp
    show "Suc i + k \<le> MAX_FILES" using Suc.prems(2) by simp
  qed
  moreover have "fd_close_loop cl p i (Suc k) s = fd_close_loop cl p (Suc i) k t"
    by (simp add: t_def)
  ultimately show ?case using t by (auto simp: fun_eq_iff)
qed

lemma fd_close_all_inv:
  assumes "fd_inv held s"
  shows "fd_inv held (fd_close_all cl (Some p) s) \<and> (\<forall>fd. fd_get (Some p) fd (fd_close_all cl (Some p) s) = None)"
  using fd_close_loop_inv [OF assms, of 0 MAX_FILES cl p] by (auto simp: fd_close_all_def fd_get_def)

section \<open>Open files\<close>

text \<open>
  \<open>live s f\<close> is the vnode an open file refers to (a pool slot with a positive
  count).  Closing a descriptor either leaves the open files alone or removes
  one of them and calls the close operation of its vnode once.
\<close>

definition live :: "'w fdsys \<Rightarrow> nat \<Rightarrow> vnode_id option" where
  "live s f = (if file_pool_inited s \<and> f < FILE_POOL_SIZE \<and> refcount (file_pool s f) > 0
     then f_vnode (file_pool s f) else None)"

definition close_file :: "(vnode_id \<Rightarrow> 'w \<Rightarrow> 'w) \<Rightarrow> vnode_id option \<Rightarrow> 'w \<Rightarrow> 'w" where
  "close_file cl v w = (case v of None \<Rightarrow> w | Some vp \<Rightarrow> cl vp w)"

lemma fd_inv_init: "fd_inv held s \<Longrightarrow> fd_table s p fd = Some f \<Longrightarrow> file_pool_inited s"
  using fd_invD(5) [of held s f] by (auto simp: fd_entries_def)

lemma fd_inv_pos:
  assumes "fd_inv held s" "fd_table s p fd = Some f"
  shows "refcount (file_pool s f) > 0"
proof -
  have "(p, fd) \<in> fd_entries s f" using assms(2) by (simp add: fd_entries_def)
  then have "card (fd_entries s f) > 0" using fd_invD(2) [OF assms(1), of f] by (auto simp: card_gt_0_iff)
  then show ?thesis
    using fd_invD(4) [OF assms(1) fd_inv_init [OF assms], of f] fd_invD(1) [OF assms] by simp
qed

lemma file_alloc_live:
  assumes "fd_inv held s" "file_alloc vp flags s = (r, s')"
  shows "vworld s' = vworld s \<and> fd_table s' = fd_table s \<and> file_pool_inited s' \<and>
    (case r of None \<Rightarrow> live s' = live s
     | Some i \<Rightarrow> live s i = None \<and> live s' = (live s)(i := vp))"
proof -
  let ?s = "file_pool_init s"
  have l: "live ?s = live s" by (auto simp: live_def file_pool_init_def fun_eq_iff)
  have w: "vworld ?s = vworld s" "file_pool_inited ?s" by (simp_all add: file_pool_init_def)
  show ?thesis
  proof (cases "first_slot (\<lambda>i. refcount (file_pool ?s i) = 0) FILE_POOL_SIZE")
    case None
    with assms(2) l w show ?thesis by (auto simp: file_alloc_def Let_def)
  next
    case (Some i)
    then have i: "i < FILE_POOL_SIZE" "refcount (file_pool ?s i) = 0" by (auto dest: first_slot_SomeD)
    have "live ?s i = None" using i by (simp add: live_def)
    moreover have "s' = set_file i \<lparr>f_vnode = vp, f_offset = 0, f_flags = flags, refcount = 1\<rparr> ?s" "r = Some i"
      using assms(2) Some by (auto simp: file_alloc_def Let_def)
    moreover from this have "live s' = (live ?s)(i := vp)"
      using i w(2) by (auto simp: live_def fun_eq_iff)
    ultimately show ?thesis using l w by simp
  qed
qed

lemma set_refcount_live:
  assumes "fd_inv held s" "n > 0 \<longleftrightarrow> refcount (file_pool s f) > 0"
  shows "live (set_refcount f n s) = live s"
  using assms by (auto simp: live_def set_refcount_def fun_eq_iff)

lemma set_refcount_0_live: "live (set_refcount f 0 s) = (live s)(f := None)"
  by (auto simp: live_def set_refcount_def fun_eq_iff)

lemma set_refcount_inv:
  assumes "fd_inv held s" "file_pool_inited s" "f < FILE_POOL_SIZE"
    "n = int (card (fd_entries s f)) + int m"
  shows "fd_inv (held(f := m)) (set_refcount f n s)"
proof (rule fd_invI)
  have e: "fd_entries (set_refcount f n s) = fd_entries s"
    by (rule fd_entries_cong) (simp add: set_refcount_def)
  show "finite (fd_entries (set_refcount f n s) i)" for i using fd_invD(2) [OF assms(1)] e by simp
  show "refcount (file_pool (set_refcount f n s) i) =
      int (card (fd_entries (set_refcount f n s) i)) + int ((held(f := m)) i)"
    if "i < FILE_POOL_SIZE" for i
    using that fd_invD(4) [OF assms(1,2), of i] assms(4) e by (simp add: set_refcount_def)
qed (use fd_invD [OF assms(1)] assms(2,3) in \<open>auto simp: set_refcount_def\<close>)

lemma fd_alloc_live:
  assumes "fd_inv held s" "refcount (file_pool s f) > 0" "fd_alloc (Some p) (Some f) s = (r, s')"
  shows "live s' = live s"
proof (cases "first_slot (\<lambda>fd. fd_table s p fd = None) MAX_FILES")
  case None
  with assms show ?thesis by (simp add: fd_alloc_def)
next
  case (Some fd)
  then have "s' = set_file f ((file_pool s f)\<lparr>refcount := refcount (file_pool s f) + 1\<rparr>)
      (set_fd p fd (Some f) s)" using assms(3) by (simp add: fd_alloc_def)
  with assms(2) show ?thesis by (auto simp: live_def fun_eq_iff)
qed

lemma fd_dup_live:
  assumes "fd_inv held s" "fd_dup (Some p) fd s = (r, s')"
  shows "live s' = live s \<and> vworld s' = vworld s"
proof (cases "fd_get (Some p) fd s")
  case None
  with assms show ?thesis by (simp add: fd_dup_def)
next
  case (Some f)
  then have tab: "fd_table s p (nat fd) = Some f" by (auto simp: fd_get_def split: if_splits)
  have al: "fd_alloc (Some p) (Some f) s = (r, s')" using assms(2) Some by (simp add: fd_dup_def)
  from fd_alloc_live [OF assms(1) fd_inv_pos [OF assms(1) tab] al]
    fd_alloc_inv [OF assms(1) fd_inv_init [OF assms(1) tab] _ al] fd_invD(1) [OF assms(1) tab]
  show ?thesis by simp
qed

lemma fd_clone_loop_live:
  assumes "fd_inv held s" "p \<noteq> c"
  shows "live (fd_clone_loop p c i k s) = live s \<and> vworld (fd_clone_loop p c i k s) = vworld s"
proof -
  have "live (fd_clone_loop p c i k u) = live u \<and> vworld (fd_clone_loop p c i k u) = vworld u"
    if "\<forall>fd f. fd_table u p fd = Some f \<longrightarrow> refcount (file_pool u f) > 0" for u :: "'a fdsys"
    using that
  proof (induction k arbitrary: i u)
    case (Suc k)
    show ?case
    proof (cases "fd_table u p i")
      case None
      with Suc show ?thesis by simp
    next
      case (Some f)
      define t where "t = set_file f ((file_pool u f)\<lparr>refcount := refcount (file_pool u f) + 1\<rparr>) (set_fd c i (Some f) u)"
      have pos: "refcount (file_pool u f) > 0" using Suc.prems Some by blast
      then have "live t = live u" "vworld t = vworld u" by (auto simp: t_def live_def fun_eq_iff)
      moreover have "\<forall>fd g. fd_table t p fd = Some g \<longrightarrow> refcount (file_pool t g) > 0"
        using Suc.prems assms(2) pos by (auto simp: t_def less_imp_le)
      moreover have "fd_clone_loop p c i (Suc k) u = fd_clone_loop p c (Suc i) k t"
        by (simp add: Some t_def)
      ultimately show ?thesis using Suc.IH [of t "Suc i"] by simp
    qed
  qed simp
  with fd_inv_pos [OF assms(1)] show ?thesis by blast
qed

lemma fd_close_live_at:
  assumes "fd_inv held s" "fd_table s p fd = Some f" "fd_close cl (Some p) (int fd) s = (r, s')"
  shows "if refcount (file_pool s f) = 1
    then live s' = (live s)(f := None) \<and> vworld s' = close_file cl (live s f) (vworld s)
    else live s' = live s \<and> vworld s' = vworld s"
proof -
  have "fd < MAX_FILES" and f: "f < FILE_POOL_SIZE" using fd_invD(1) [OF assms(1,2)] by auto
  then have s': "s' = file_free cl (Some f) (set_fd p fd None s)" using assms(2,3) by (simp add: fd_close_def)
  have init: "file_pool_inited s" by (rule fd_inv_init [OF assms(1,2)])
  have pos: "refcount (file_pool s f) > 0" by (rule fd_inv_pos [OF assms(1,2)])
  show ?thesis
  proof (cases "refcount (file_pool s f) = 1")
    case True
    then show ?thesis
      using init f by (auto simp: s' file_free_def Let_def live_def close_file_def fun_eq_iff split: option.splits)
  next
    case False
    with pos show ?thesis by (auto simp: s' file_free_def Let_def live_def fun_eq_iff)
  qed
qed

lemma fd_close_live:
  assumes "fd_inv held s" "fd_close cl (Some p) fd s = (r, s')"
  obtains "live s' = live s" "vworld s' = vworld s"
  | f where "live s' = (live s)(f := None)" "vworld s' = close_file cl (live s f) (vworld s)"
proof (cases "fd_get (Some p) fd s")
  case None
  with assms(2) have "s' = s" by (auto simp: fd_close_def fd_get_def split: if_splits)
  with that(1) show ?thesis by simp
next
  case (Some f)
  then have "fd_table s p (nat fd) = Some f" "int (nat fd) = fd"
    by (auto simp: fd_get_def split: if_splits)
  with fd_close_live_at [OF assms(1) this(1), of cl r s'] assms(2) that show ?thesis
    by (auto split: if_splits)
qed

lemma fd_close_loop_live:
  assumes "fd_inv held s" "i + k \<le> MAX_FILES" "P (live s) (vworld s)"
    and step: "\<And>L w f. P L w \<Longrightarrow> P (L(f := None)) (close_file cl (L f) w)"
  shows "P (live (fd_close_loop cl p i k s)) (vworld (fd_close_loop cl p i k s))"
  using assms(1-3)
proof (induction k arbitrary: i s)
  case (Suc k)
  define t where "t = (if fd_table s p i \<noteq> None then snd (fd_close cl (Some p) (int i) s) else s)"
  obtain r s' where c: "fd_close cl (Some p) (int i) s = (r, s')" by fastforce
  have "fd_inv held t" using fd_close_inv [OF Suc.prems(1) c] Suc.prems(1) c by (simp add: t_def)
  moreover have "P (live t) (vworld t)"
    using Suc.prems(3) step
    by (cases rule: fd_close_live [OF Suc.prems(1) c]) (auto simp: t_def c)
  moreover have "fd_close_loop cl p i (Suc k) s = fd_close_loop cl p (Suc i) k t" by (simp add: t_def)
  ultimately show ?case using Suc.IH [of t "Suc i"] Suc.prems(2) by simp
qed simp

text \<open>Opening a file and the standard descriptors of a new process.\<close>

lemma fd_release:
  assumes "fd_inv held s" "file_pool_inited s" "f < FILE_POOL_SIZE" "fd_entries s f = {}"
  shows "fd_inv (held(f := 0)) (set_refcount f 0 s)" "live (set_refcount f 0 s) = (live s)(f := None)"
  using set_refcount_inv [OF assms(1-3), of 0 0] assms(4) by (auto simp: set_refcount_0_live)

lemma set_refcount_fields [simp]:
  "fd_table (set_refcount f n s) = fd_table s" "vworld (set_refcount f n s) = vworld s"
  "file_pool_inited (set_refcount f n s) = file_pool_inited s"
  "fd_entries (set_refcount f n s) = fd_entries s"
  by (simp_all add: set_refcount_def fd_entries_def fun_eq_iff)

text \<open>A new file installed in a table: the reference of its creator becomes the descriptor's.\<close>

lemma fd_install:
  assumes inv: "fd_inv held s" and h: "held f = 1" and init: "file_pool_inited s" and f: "f < FILE_POOL_SIZE"
    and al: "fd_alloc (Some p) (Some f) s = (d, s1)" and d: "d \<ge> 0"
  defines "t \<equiv> set_refcount f (refcount (file_pool s1 f) - 1) s1"
  shows "fd_inv (held(f := 0)) t" "live t = live s" "vworld t = vworld s" "file_pool_inited t"
    "fd_table s p (nat d) = None" "fd_table t = (fd_table s)(p := (fd_table s p)(nat d := Some f))"
    "nat d < MAX_FILES"
proof -
  note B = fd_alloc_inv [OF inv init f al]
  have pos: "refcount (file_pool s f) > 0" using fd_invD(4) [OF inv init f] h by simp
  have lv: "live s1 = live s" by (rule fd_alloc_live [OF inv pos al])
  have rc: "refcount (file_pool s1 f) = int (card (fd_entries s1 f)) + 1"
    using fd_invD(4) [of held s1 f] B f h by simp
  have "(p, nat d) \<in> fd_entries s1 f" using B d by (simp add: fd_entries_def)
  then have c: "card (fd_entries s1 f) > 0" using fd_invD(2) [of held s1 f] B by (auto simp: card_gt_0_iff)
  show "fd_inv (held(f := 0)) t" unfolding t_def
    by (rule set_refcount_inv) (use B f rc in auto)
  have "live t = live s1" unfolding t_def by (rule set_refcount_live) (use B rc c in auto)
  with lv show "live t = live s" by simp
qed (use fd_alloc_inv [OF inv init f al] d in \<open>auto simp: t_def\<close>)

lemma sys_open_install_spec:
  assumes "fd_inv (\<lambda>_. 0) s" "sys_open_install vp flags (Some p) s = (r, s')"
  shows "fd_inv (\<lambda>_. 0) s' \<and> vworld s' = vworld s \<and>
    (if r < 0 then (r = - ENOMEM \<or> r = - EMFILE) \<and> live s' = live s \<and> fd_table s' = fd_table s
     else \<exists>f. live s f = None \<and> live s' = (live s)(f := Some vp) \<and>
       fd_table s p (nat r) = None \<and> fd_table s' = (fd_table s)(p := (fd_table s p)(nat r := Some f)))"
proof -
  obtain q s1 where al: "file_alloc (Some vp) flags s = (q, s1)" by fastforce
  show ?thesis
  proof (cases q)
    case None
    with file_alloc_inv [OF assms(1) al] file_alloc_live [OF assms(1) al] assms(2) al show ?thesis
      by (simp add: sys_open_install_def)
  next
    case (Some f)
    note A = file_alloc_inv [OF assms(1) al, unfolded Some option.case]
    note L = file_alloc_live [OF assms(1) al, unfolded Some option.case]
    obtain d s2 where fa: "fd_alloc (Some p) (Some f) s1 = (d, s2)" by fastforce
    have inv1: "fd_inv ((\<lambda>_. 0)(f := 1)) s1" and ini: "file_pool_inited s1" and f: "f < FILE_POOL_SIZE"
      using A L by auto
    have e1: "fd_entries s1 f = {}" using A fd_entries_cong [of s1 s] by simp
    have z: "((\<lambda>_. 0)(f := 1, f := 0)) = (\<lambda>_. 0 :: nat)" by auto
    show ?thesis
    proof (cases "d < 0")
      case True
      then have "r = d" "s' = set_refcount f 0 s1" "d = - EMFILE"
        using assms(2) al fa fd_alloc_inv [OF inv1 ini f fa] by (auto simp: sys_open_install_def Some)
      moreover have "(live s)(f := None) = live s" using L by auto
      ultimately show ?thesis using fd_release [OF inv1 ini f e1] L z by simp
    next
      case False
      then have "r = d" "s' = set_refcount f (refcount (file_pool s2 f) - 1) s2"
        using assms(2) al fa by (auto simp: sys_open_install_def Some)
      with fd_install [OF inv1 _ ini f fa] False L z show ?thesis by auto
    qed
  qed
qed

lemma stdio_slot_spec:
  assumes "fd_inv (\<lambda>_. 0) s" "fd_table s p fd = None" "fd < MAX_FILES"
  shows "fd_inv (\<lambda>_. 0) (stdio_slot p fd flags s) \<and> vworld (stdio_slot p fd flags s) = vworld s \<and>
    (\<forall>q g. (q, g) \<noteq> (p, fd) \<longrightarrow> fd_table (stdio_slot p fd flags s) q g = fd_table s q g) \<and>
    (live (stdio_slot p fd flags s) = live s \<or>
     (\<exists>f. live s f = None \<and> live (stdio_slot p fd flags s) = (live s)(f := Some TtyVnode)))"
proof -
  obtain q s1 where al: "file_alloc (Some TtyVnode) flags s = (q, s1)" by fastforce
  show ?thesis
  proof (cases q)
    case None
    with file_alloc_inv [OF assms(1) al] file_alloc_live [OF assms(1) al] al show ?thesis
      by (simp add: stdio_slot_def)
  next
    case (Some f)
    note A = file_alloc_inv [OF assms(1) al, unfolded Some option.case]
    note L = file_alloc_live [OF assms(1) al, unfolded Some option.case]
    have t: "stdio_slot p fd flags s = set_fd p fd (Some f) s1" by (simp add: stdio_slot_def al Some)
    have inv1: "fd_inv ((\<lambda>_. 0)(f := 1)) s1" using A by simp
    have te: "fd_entries (set_fd p fd (Some f) s1) i = (if i = f then insert (p, fd) (fd_entries s1 i) else fd_entries s1 i)" for i
      using fd_entries_add [of s1 p fd f i] L assms(2) by simp
    have e1: "fd_entries s1 f = {}" using A fd_entries_cong [of s1 s] by simp
    have "fd_inv (\<lambda>_. 0) (set_fd p fd (Some f) s1)"
    proof (rule fd_invI)
      show "finite (fd_entries (set_fd p fd (Some f) s1) i)" for i using fd_invD(2) [OF inv1] by (simp add: te)
      show "refcount (file_pool (set_fd p fd (Some f) s1) i) =
          int (card (fd_entries (set_fd p fd (Some f) s1) i)) + int 0" if "i < FILE_POOL_SIZE" for i
        using fd_invD(4) [OF inv1 _ that] L e1 by (auto simp: te)
    qed (use fd_invD(1) [OF inv1] A L assms(3) in \<open>auto split: if_splits\<close>)
    moreover have "live (set_fd p fd (Some f) s1) = live s1" by (auto simp: live_def fun_eq_iff)
    ultimately show ?thesis using L by (auto simp: t)
  qed
qed

lemma advance_offset_simps [simp]:
  "fd_inv held (advance_offset f n s) = fd_inv held s" "live (advance_offset f n s) = live s"
  "vworld (advance_offset f n s) = vworld s" "fd_table (advance_offset f n s) = fd_table s"
proof -
  have r: "refcount (file_pool (advance_offset f n s) i) = refcount (file_pool s i)"
    "f_vnode (file_pool (advance_offset f n s) i) = f_vnode (file_pool s i)"
    "file_pool_inited (advance_offset f n s) = file_pool_inited s"
    "fd_table (advance_offset f n s) = fd_table s" for i
    by (simp_all add: advance_offset_def split: option.split)
  have "fd_entries (advance_offset f n s) = fd_entries s" by (rule fd_entries_cong) (rule r)
  then show "fd_inv held (advance_offset f n s) = fd_inv held s" "live (advance_offset f n s) = live s"
    by (simp_all add: fd_inv_def live_def fun_eq_iff r)
  show "vworld (advance_offset f n s) = vworld s" "fd_table (advance_offset f n s) = fd_table s"
    by (simp_all add: advance_offset_def split: option.split)
qed

end
