(* ===== verification/Pipe.thy ===== *)
theory Pipe
  imports File_Table
begin

text \<open>
  The pipes of \<open>pipe.c\<close>: a pool of 4 KiB ring buffers, a pool of vnodes for their
  read and write ends, and the operations the descriptors on them dispatch to.
  A read or write that has to wait calls \<open>scheduler_yield\<close> in a loop; the model
  returns to the caller there (\<open>RYield\<close>, \<open>WYield\<close> with the local variables the
  write keeps) and is resumed in whatever state the other threads have made.

  The lemmas show that the ring is a queue of at most 4095 bytes, that a reader
  gets exactly the bytes one writer stored, in order, whatever the interleaving,
  and that over all descriptor operations the reader and writer counts of a pipe
  are the numbers of open files on its ends.
\<close>

unbundle bit_operations_syntax

section \<open>The ring buffer\<close>

abbreviation PIPE_BUF_SIZE :: nat where "PIPE_BUF_SIZE \<equiv> 4096"
abbreviation MAX_PIPES :: nat where "MAX_PIPES \<equiv> 32"
abbreviation PIPE_VNODE_POOL :: nat where "PIPE_VNODE_POOL \<equiv> 64"

record pipe =
  pbuf :: "u8 array"
  rd :: u32
  wr :: u32
  readers :: int
  writers :: int
  in_use :: bool

datatype pipe_end = ReadOps | WriteOps

record pipe_vnode =
  v_op :: "pipe_end option"
  v_data :: "nat option"

record pipe_sys =
  pipe_pool :: "pipe array"
  pipe_vnodes :: "pipe_vnode array"
  pipe_vnode_next :: nat

definition zero_pipe :: pipe where
  "zero_pipe = \<lparr>pbuf = (\<lambda>_. 0), rd = 0, wr = 0, readers = 0, writers = 0, in_use = False\<rparr>"

definition upd_pipe :: "nat \<Rightarrow> (pipe \<Rightarrow> pipe) \<Rightarrow> pipe_sys \<Rightarrow> pipe_sys" where
  "upd_pipe i f w = w\<lparr>pipe_pool := (pipe_pool w)(i := f (pipe_pool w i))\<rparr>"

definition upd_vnode :: "nat \<Rightarrow> (pipe_vnode \<Rightarrow> pipe_vnode) \<Rightarrow> pipe_sys \<Rightarrow> pipe_sys" where
  "upd_vnode k f w = w\<lparr>pipe_vnodes := (pipe_vnodes w)(k := f (pipe_vnodes w k))\<rparr>"

definition pipe_alloc_ring :: "pipe_sys \<Rightarrow> nat option \<times> pipe_sys" where
  "pipe_alloc_ring w =
     (case first_slot (\<lambda>i. \<not> in_use (pipe_pool w i)) MAX_PIPES of
        None \<Rightarrow> (None, w)
      | Some i \<Rightarrow> (Some i, upd_pipe i (\<lambda>_. zero_pipe\<lparr>in_use := True\<rparr>) w))"

definition pipe_get_byte :: "pipe \<Rightarrow> u8 \<times> pipe" where
  "pipe_get_byte p = (pbuf p (unat (rd p mod 4096)), p\<lparr>rd := (rd p + 1) mod 4096\<rparr>)"

primrec pipe_read_loop :: "nat \<Rightarrow> pipe \<Rightarrow> u8 list \<times> pipe" where
  "pipe_read_loop 0 p = ([], p)"
| "pipe_read_loop (Suc n) p =
     (let (b, p1) = pipe_get_byte p; (bs, p2) = pipe_read_loop n p1 in (b # bs, p2))"

datatype read_result = RYield | RDone int "u8 list"

definition pipe_read :: "nat \<Rightarrow> pipe \<Rightarrow> read_result \<times> pipe" where
  "pipe_read nbyte p =
     (if rd p = wr p \<and> writers p > 0 then (RYield, p)
      else if rd p = wr p then (RDone 0 [], p)
      else
        let avail = unat ((wr p - rd p + 4096) mod 4096);
            n = (if nbyte > avail then avail else nbyte);
            (bs, p1) = pipe_read_loop n p
        in (RDone (int n) bs, p1))"

text \<open>
  A write that finds the ring full yields with what is left of the source, the
  value of \<open>next\<close> it computed before yielding and the number of bytes written.
\<close>

datatype write_result = WYield "u8 list" u32 nat | WDone int

fun pipe_write_loop :: "u8 list \<Rightarrow> u32 option \<Rightarrow> nat \<Rightarrow> pipe \<Rightarrow> write_result \<times> pipe" where
  "pipe_write_loop [] _ written p = (WDone (int written), p)"
| "pipe_write_loop (b # bs) saved written p =
     (let nxt = (case saved of Some k \<Rightarrow> k | None \<Rightarrow> (wr p + 1) mod 4096) in
      if nxt = rd p \<and> readers p > 0 then (WYield (b # bs) nxt written, p)
      else if readers p \<le> 0 then (WDone (int written), p)
      else pipe_write_loop bs None (Suc written) (p\<lparr>pbuf := (pbuf p)(unat (wr p) := b), wr := nxt\<rparr>))"

definition pipe_write :: "u8 list \<Rightarrow> pipe \<Rightarrow> write_result \<times> pipe" where
  "pipe_write bs p =
     (if readers p \<le> 0 then (WDone (- 1), p) else pipe_write_loop bs None 0 p)"

section \<open>The vnode operations\<close>

definition pipe_vop_read :: "nat \<Rightarrow> nat \<Rightarrow> pipe_sys \<Rightarrow> int option \<times> u8 list \<times> pipe_sys" where
  "pipe_vop_read k nbyte w =
     (case v_data (pipe_vnodes w k) of
        None \<Rightarrow> (Some (- 1), [], w)
      | Some i \<Rightarrow>
          (case pipe_read nbyte (pipe_pool w i) of
             (RYield, p) \<Rightarrow> (None, [], upd_pipe i (\<lambda>_. p) w)
           | (RDone n bs, p) \<Rightarrow> (Some n, bs, upd_pipe i (\<lambda>_. p) w)))"

definition pipe_vop_close_read :: "nat \<Rightarrow> pipe_sys \<Rightarrow> pipe_sys" where
  "pipe_vop_close_read k w =
     (case v_data (pipe_vnodes w k) of
        None \<Rightarrow> w | Some i \<Rightarrow> upd_pipe i (\<lambda>p. p\<lparr>readers := readers p - 1\<rparr>) w)"

definition pipe_vop_write :: "nat \<Rightarrow> u8 list \<Rightarrow> pipe_sys \<Rightarrow> int option \<times> pipe_sys" where
  "pipe_vop_write k bs w =
     (case v_data (pipe_vnodes w k) of
        None \<Rightarrow> (Some (- 1), w)
      | Some i \<Rightarrow>
          (case pipe_write bs (pipe_pool w i) of
             (WYield _ _ _, p) \<Rightarrow> (None, upd_pipe i (\<lambda>_. p) w)
           | (WDone n, p) \<Rightarrow> (Some n, upd_pipe i (\<lambda>_. p) w)))"

definition pipe_vop_close_write :: "nat \<Rightarrow> pipe_sys \<Rightarrow> pipe_sys" where
  "pipe_vop_close_write k w =
     (case v_data (pipe_vnodes w k) of
        None \<Rightarrow> w | Some i \<Rightarrow> upd_pipe i (\<lambda>p. p\<lparr>writers := writers p - 1\<rparr>) w)"

definition pipe_ops :: "pipe_end option \<Rightarrow> nat \<Rightarrow> pipe_sys vops" where
  "pipe_ops e k =
     \<lparr>vop_read_at = None,
      vop_read = (if e = Some ReadOps then Some (pipe_vop_read k) else None),
      vop_write_at = None,
      vop_write = (if e = Some WriteOps then Some (pipe_vop_write k) else None)\<rparr>"

text \<open>What \<open>file_free\<close> calls when the last reference to a file goes away.\<close>

definition pipe_close :: "vnode_id \<Rightarrow> pipe_sys \<Rightarrow> pipe_sys" where
  "pipe_close v w =
     (case v of
        PipeVnode k \<Rightarrow>
          (case v_op (pipe_vnodes w k) of
             None \<Rightarrow> w
           | Some ReadOps \<Rightarrow> pipe_vop_close_read k w
           | Some WriteOps \<Rightarrow> pipe_vop_close_write k w)
      | _ \<Rightarrow> w)"

definition pipe_vnode_alloc :: "pipe_sys \<Rightarrow> nat option \<times> pipe_sys" where
  "pipe_vnode_alloc w =
     (if pipe_vnode_next w \<ge> PIPE_VNODE_POOL then (None, w)
      else (Some (pipe_vnode_next w),
            upd_vnode (pipe_vnode_next w) (\<lambda>_. \<lparr>v_op = None, v_data = None\<rparr>)
              (w\<lparr>pipe_vnode_next := pipe_vnode_next w + 1\<rparr>)))"

text \<open>
  \<open>pipe_create\<close>: the ring, the two vnodes, the two files and the two descriptors,
  undone as far as the code undoes them where one of them cannot be had.
\<close>

definition pipe_unuse :: "nat \<Rightarrow> pipe_sys fdsys \<Rightarrow> pipe_sys fdsys" where
  "pipe_unuse i s = s\<lparr>vworld := upd_pipe i (\<lambda>p. p\<lparr>in_use := False\<rparr>) (vworld s)\<rparr>"

definition pipe_install :: "nat \<Rightarrow> nat \<Rightarrow> nat \<Rightarrow> nat \<Rightarrow> pipe_sys fdsys \<Rightarrow> int \<times> (int \<times> int) \<times> pipe_sys fdsys" where
  "pipe_install proc i fr fw s =
     (let (rfd, s1) = fd_alloc (Some proc) (Some fr) s in
      if rfd < 0 then (rfd, (0, 0), pipe_unuse i (set_refcount fw 0 (set_refcount fr 0 s1)))
      else
        let s2 = set_refcount fr (refcount (file_pool s1 fr) - 1) s1;
            (wfd, s3) = fd_alloc (Some proc) (Some fw) s2
        in
        if wfd < 0 then
          (wfd, (0, 0), pipe_unuse i (set_refcount fw 0 (snd (fd_close pipe_close (Some proc) rfd s3))))
        else
          let s4 = set_refcount fw (refcount (file_pool s3 fw) - 1) s3
          in (0, (rfd, wfd),
              s4\<lparr>vworld := upd_pipe i (\<lambda>p. p\<lparr>readers := 1, writers := 1\<rparr>) (vworld s4)\<rparr>))"

definition pipe_files :: "nat \<Rightarrow> nat \<Rightarrow> nat \<Rightarrow> nat \<Rightarrow> pipe_sys fdsys \<Rightarrow> int \<times> (int \<times> int) \<times> pipe_sys fdsys" where
  "pipe_files proc i rk wk s =
     (let (fr, s1) = file_alloc (Some (PipeVnode rk)) O_RDONLY s;
          (fw, s2) = file_alloc (Some (PipeVnode wk)) O_WRONLY s1
      in case (fr, fw) of
           (Some r, Some w) \<Rightarrow> pipe_install proc i r w s2
         | _ \<Rightarrow>
             let s3 = (case fr of None \<Rightarrow> s2 | Some r \<Rightarrow> set_refcount r 0 s2);
                 s4 = (case fw of None \<Rightarrow> s3 | Some w \<Rightarrow> set_refcount w 0 s3)
             in (- ENOMEM, (0, 0), pipe_unuse i s4))"

definition pipe_create :: "nat option \<Rightarrow> pipe_sys fdsys \<Rightarrow> int \<times> (int \<times> int) \<times> pipe_sys fdsys" where
  "pipe_create proc s =
     (case proc of
        None \<Rightarrow> (- EINVAL, (0, 0), s)
      | Some p \<Rightarrow>
          (case pipe_alloc_ring (vworld s) of
             (None, w) \<Rightarrow> (- ENOMEM, (0, 0), s\<lparr>vworld := w\<rparr>)
           | (Some i, w1) \<Rightarrow>
               let (rk, w2) = pipe_vnode_alloc w1; (wk, w3) = pipe_vnode_alloc w2 in
               (case (rk, wk) of
                  (Some r, Some k) \<Rightarrow>
                    let w4 = upd_vnode k (\<lambda>_. \<lparr>v_op = Some WriteOps, v_data = Some i\<rparr>)
                               (upd_vnode r (\<lambda>_. \<lparr>v_op = Some ReadOps, v_data = Some i\<rparr>) w3)
                    in pipe_files p i r k (s\<lparr>vworld := w4\<rparr>)
                | _ \<Rightarrow> (- ENOMEM, (0, 0), pipe_unuse i (s\<lparr>vworld := w3\<rparr>)))))"

section \<open>The ring is a queue of 4095 bytes\<close>

definition pipe_inv :: "pipe \<Rightarrow> bool" where
  "pipe_inv p \<longleftrightarrow> unat (rd p) < PIPE_BUF_SIZE \<and> unat (wr p) < PIPE_BUF_SIZE"

definition pipe_contents :: "pipe \<Rightarrow> u8 list" where
  "pipe_contents p =
     ring_contents (pbuf p) (unat (rd p)) (ring_gap (unat (rd p)) (unat (wr p)) PIPE_BUF_SIZE) PIPE_BUF_SIZE"

text \<open>One byte put into the ring where there is room, one byte taken where there is any.\<close>

definition pipe_put :: "u8 \<Rightarrow> pipe \<Rightarrow> pipe" where
  "pipe_put b p =
     (let nxt = (wr p + 1) mod 4096 in
      if nxt = rd p then p else p\<lparr>pbuf := (pbuf p)(unat (wr p) := b), wr := nxt\<rparr>)"

definition pipe_get :: "pipe \<Rightarrow> (u8 \<times> pipe) option" where
  "pipe_get p = (if rd p = wr p then None else Some (pipe_get_byte p))"

lemma unat_mod_4096 [simp]: "unat (x mod 4096 :: u32) = unat x mod 4096"
  by (simp add: unat_mod)

lemma unat_succ_4096: "unat (x :: u32) < 4096 \<Longrightarrow> unat (x + 1) = Suc (unat x)"
  by (simp add: unat_word_ariths)

lemma unat_gap_4096:
  assumes "unat (r :: u32) < 4096" "unat w < 4096"
  shows "unat ((w - r + 4096) mod 4096) = ring_gap (unat r) (unat w) 4096"
proof -
  have "uint (w - r + 4096) = (uint w - uint r + 4096) mod 2 ^ 32"
    by (simp add: uint_word_ariths mod_simps)
  then have "uint (w - r + 4096) mod 4096 = (uint w - uint r + 4096) mod 4096"
    by (simp add: mod_mod_cancel)
  moreover have "uint (w - r + 4096) mod 4096 = int (unat (w - r + 4096) mod 4096)" by (simp add: zmod_int)
  moreover have "uint w - uint r + 4096 = int (unat w + 4096 - unat r)" using assms by simp
  ultimately have "int (unat (w - r + 4096) mod 4096) = int ((unat w + 4096 - unat r) mod 4096)"
    by (simp only: zmod_int of_nat_numeral)
  then show ?thesis unfolding of_nat_eq_iff by (simp add: ring_gap_def)
qed

lemma word_neq_unat: "(x :: u32) = y \<longleftrightarrow> unat x = unat y"
  by (simp add: word_unat_eq_iff)

lemma pipe_put_contents:
  assumes "pipe_inv p"
  shows "pipe_contents (pipe_put b p) =
    (if length (pipe_contents p) < 4095 then pipe_contents p @ [b] else pipe_contents p) \<and>
    pipe_inv (pipe_put b p)"
proof -
  let ?r = "unat (rd p)" and ?w = "unat (wr p)"
  have b: "?r < 4096" "?w < 4096" using assms by (simp_all add: pipe_inv_def)
  have full: "(wr p + 1) mod 4096 = rd p \<longleftrightarrow> Suc (ring_gap ?r ?w 4096) = 4096"
    using ring_gap_full [OF b] b by (simp add: word_neq_unat unat_succ_4096)
  show ?thesis
  proof (cases "(wr p + 1) mod 4096 = rd p")
    case True
    with full assms show ?thesis by (simp add: pipe_put_def pipe_contents_def)
  next
    case False
    then have "Suc ?w mod 4096 \<noteq> ?r" using b by (simp add: word_neq_unat unat_succ_4096)
    note g = ring_gap_push [OF b this]
    have "Suc (ring_gap ?r ?w 4096) \<noteq> 4096" "ring_gap ?r ?w 4096 < 4096" using False full by auto
    then have room: "ring_gap ?r ?w 4096 < 4095" by linarith
    then have "ring_contents ((pbuf p)((?r + ring_gap ?r ?w 4096) mod 4096 := b)) ?r (Suc (ring_gap ?r ?w 4096)) 4096
       = pipe_contents p @ [b]" by (simp add: ring_push pipe_contents_def)
    with g room False b show ?thesis
      by (simp add: pipe_put_def pipe_contents_def pipe_inv_def ring_gap_wr [OF b] unat_succ_4096)
  qed
qed

lemma pipe_get_contents:
  assumes "pipe_inv p" "rd p \<noteq> wr p"
  shows "pipe_contents p = fst (pipe_get_byte p) # pipe_contents (snd (pipe_get_byte p)) \<and>
    pipe_inv (snd (pipe_get_byte p))"
proof -
  let ?r = "unat (rd p)" and ?w = "unat (wr p)"
  have b: "?r < 4096" "?w < 4096" "?r \<noteq> ?w" using assms by (simp_all add: pipe_inv_def word_neq_unat)
  then have "0 < ring_gap ?r ?w 4096" using ring_gap_eq_0 [of ?r 4096 ?w] by simp
  from ring_pop [OF this, of "pbuf p" ?r 4096] ring_gap_pop [OF b] b show ?thesis
    by (simp add: pipe_contents_def pipe_get_byte_def pipe_inv_def unat_succ_4096)
qed

lemma pipe_contents_empty: "pipe_inv p \<Longrightarrow> pipe_contents p = [] \<longleftrightarrow> rd p = wr p"
  using ring_gap_eq_0 [of "unat (rd p)" 4096 "unat (wr p)"]
  by (auto simp: pipe_contents_def pipe_inv_def ring_contents_def word_neq_unat)

interpretation pipe_fifo: bounded_fifo pipe_put pipe_get pipe_contents pipe_inv 4095
proof unfold_locales
  fix q :: pipe and x :: u8 and xs :: "u8 list"
  assume inv: "pipe_inv q"
  from pipe_put_contents [OF inv, of x]
  show "pipe_contents (pipe_put x q) =
      (if length (pipe_contents q) < 4095 then pipe_contents q @ [x] else pipe_contents q)"
    and "pipe_inv (pipe_put x q)" by auto
  show "length (pipe_contents q) \<le> 4095"
    using ring_gap_less [of 4096 "unat (rd q)" "unat (wr q)"]
    unfolding pipe_contents_def length_ring_contents by linarith
  show "pipe_contents q = [] \<Longrightarrow> pipe_get q = None"
    using pipe_contents_empty [OF inv] by (simp add: pipe_get_def)
  assume c: "pipe_contents q = x # xs"
  then have "rd q \<noteq> wr q" using pipe_contents_empty [OF inv] by auto
  with pipe_get_contents [OF inv this] c
  show "\<exists>q'. pipe_get q = Some (x, q') \<and> pipe_contents q' = xs \<and> pipe_inv q'"
    by (cases "pipe_get_byte q") (auto simp: pipe_get_def)
qed

section \<open>One writer and any readers\<close>

lemma pipe_read_loop_spec:
  assumes "pipe_inv p" "n \<le> length (pipe_contents p)" "pipe_read_loop n p = (bs, p')"
  shows "bs = take n (pipe_contents p) \<and> pipe_contents p' = drop n (pipe_contents p) \<and> pipe_inv p' \<and>
    wr p' = wr p \<and> readers p' = readers p \<and> writers p' = writers p"
  using assms
proof (induction n arbitrary: p bs)
  case (Suc n)
  then have "rd p \<noteq> wr p" using pipe_contents_empty [OF Suc.prems(1)] by auto
  note g = pipe_get_contents [OF Suc.prems(1) this]
  obtain cs where cs: "pipe_read_loop n (snd (pipe_get_byte p)) = (cs, p')" "bs = fst (pipe_get_byte p) # cs"
    using Suc.prems(3) by (auto split: prod.splits)
  have "n \<le> length (pipe_contents (snd (pipe_get_byte p)))" using Suc.prems(2) g by simp
  from Suc.IH [OF _ this cs(1)] g cs(2) show ?case by (auto simp: pipe_get_byte_def)
qed simp

lemma pipe_read_spec:
  assumes "pipe_inv p"
  shows "pipe_read n p = (RYield, p) \<and> pipe_contents p = [] \<and> writers p > 0 \<or>
    (\<exists>bs p'. pipe_read n p = (RDone (int (length bs)) bs, p') \<and> bs = take n (pipe_contents p) \<and>
       pipe_contents p' = drop n (pipe_contents p) \<and> pipe_inv p' \<and> wr p' = wr p \<and>
       readers p' = readers p \<and> writers p' = writers p \<and> (bs = [] \<and> n > 0 \<longrightarrow> writers p \<le> 0))"
proof (cases "rd p = wr p")
  case True
  with pipe_contents_empty [OF assms] assms show ?thesis by (auto simp: pipe_read_def)
next
  case False
  have len: "unat (wr p - rd p + 4096) mod 4096 = length (pipe_contents p)"
    using assms unat_gap_4096 [of "rd p" "wr p"] by (simp add: pipe_inv_def pipe_contents_def)
  define m where "m = min n (length (pipe_contents p))"
  obtain bs p' where l: "pipe_read_loop m p = (bs, p')" by fastforce
  have "pipe_read n p = (RDone (int m) bs, p')"
    using False l by (simp add: pipe_read_def len m_def min_def Let_def split: if_splits)
  moreover have "pipe_contents p \<noteq> []" using False pipe_contents_empty [OF assms] by simp
  moreover have "bs = take m (pipe_contents p) \<and> pipe_contents p' = drop m (pipe_contents p) \<and> pipe_inv p' \<and>
    wr p' = wr p \<and> readers p' = readers p \<and> writers p' = writers p"
    by (rule pipe_read_loop_spec [OF assms _ l]) (simp add: m_def)
  ultimately show ?thesis by (auto simp: m_def min_def)
qed

text \<open>
  A write, from its start (\<open>saved = None\<close>) or resumed with the \<open>next\<close> it saved
  while no other writer has moved \<open>wr\<close>, stores a prefix of its source.
\<close>

lemma pipe_write_loop_spec:
  assumes "pipe_inv p" "saved = None \<or> saved = Some ((wr p + 1) mod 4096)"
    "pipe_write_loop bs saved k p = (r, p')"
  shows "\<exists>m \<le> length bs. pipe_contents p' = pipe_contents p @ take m bs \<and> pipe_inv p' \<and>
    rd p' = rd p \<and> readers p' = readers p \<and> writers p' = writers p \<and>
    (r = WDone (int (k + m)) \<and> (m = length bs \<or> readers p \<le> 0) \<or>
     r = WYield (drop m bs) ((wr p' + 1) mod 4096) (k + m) \<and> m < length bs \<and> readers p > 0)"
  using assms
proof (induction bs arbitrary: saved k p)
  case Nil
  then show ?case by simp
next
  case (Cons b bs)
  let ?nxt = "(wr p + 1) mod 4096"
  have nxt: "(case saved of Some k \<Rightarrow> k | None \<Rightarrow> ?nxt) = ?nxt" using Cons.prems(2) by auto
  consider "?nxt = rd p" "readers p > 0" | "readers p \<le> 0" | "?nxt \<noteq> rd p" "readers p > 0" by linarith
  then show ?case
  proof cases
    case 1
    with Cons.prems nxt show ?thesis by (intro exI [of _ 0]) auto
  next
    case 2
    with Cons.prems nxt show ?thesis by (intro exI [of _ 0]) auto
  next
    case 3
    let ?p = "p\<lparr>pbuf := (pbuf p)(unat (wr p) := b), wr := ?nxt\<rparr>"
    have put: "pipe_put b p = ?p" using 3 by (simp add: pipe_put_def)
    have b: "unat (rd p) < 4096" "unat (wr p) < 4096" using Cons.prems(1) by (simp_all add: pipe_inv_def)
    have "Suc (unat (wr p)) mod 4096 \<noteq> unat (rd p)" using 3 b by (simp add: word_neq_unat unat_succ_4096)
    then have "length (pipe_contents p) \<noteq> 4095"
      using ring_gap_full [OF b] by (simp add: pipe_contents_def)
    then have "length (pipe_contents p) < 4095" using pipe_fifo.contents_bound [OF Cons.prems(1)] by linarith
    with pipe_put_contents [OF Cons.prems(1), of b] put
    have c: "pipe_contents ?p = pipe_contents p @ [b]" "pipe_inv ?p" by simp_all
    have "pipe_write_loop bs None (Suc k) ?p = (r, p')" using Cons.prems(3) 3 nxt by simp
    from Cons.IH [OF c(2) _ this] obtain m where "m \<le> length bs"
      "pipe_contents p' = pipe_contents ?p @ take m bs" "pipe_inv p'" "rd p' = rd p" "readers p' = readers p"
      "writers p' = writers p" "r = WDone (int (Suc k + m)) \<and> (m = length bs \<or> readers p \<le> 0) \<or>
         r = WYield (drop m bs) ((wr p' + 1) mod 4096) (Suc k + m) \<and> m < length bs \<and> readers p > 0"
      by auto
    with c(1) show ?thesis by (intro exI [of _ "Suc m"]) auto
  qed
qed

datatype pipe_event = WriteCall "u8 list" | WriteResume | ReadCall nat | CloseRead | CloseWrite

text \<open>
  An interleaving of one writing thread with the readers and with closes.  The
  state is the pipe and the writer's suspended call, if it has one; the outputs
  are the bytes stored and the bytes returned to readers.
\<close>

fun pipe_step :: "pipe_event \<Rightarrow> pipe \<times> (u8 list \<times> u32 \<times> nat) option \<Rightarrow>
    (u8 list \<times> u8 list) \<times> pipe \<times> (u8 list \<times> u32 \<times> nat) option" where
  "pipe_step (WriteCall bs) (p, None) =
     (case pipe_write bs p of
        (WDone n, p') \<Rightarrow> ((take (nat n) bs, []), p', None)
      | (WYield rest nxt n, p') \<Rightarrow> ((take n bs, []), p', Some (rest, nxt, n)))"
| "pipe_step (WriteCall bs) (p, Some c) = (([], []), p, Some c)"
| "pipe_step WriteResume (p, None) = (([], []), p, None)"
| "pipe_step WriteResume (p, Some (src, nxt, k)) =
     (case pipe_write_loop src (Some nxt) k p of
        (WDone n, p') \<Rightarrow> ((take (nat n - k) src, []), p', None)
      | (WYield rest nxt' n, p') \<Rightarrow> ((take (n - k) src, []), p', Some (rest, nxt', n)))"
| "pipe_step (ReadCall n) (p, c) =
     (case pipe_read n p of
        (RYield, p') \<Rightarrow> (([], []), p', c)
      | (RDone _ bs, p') \<Rightarrow> (([], bs), p', c))"
| "pipe_step CloseRead (p, c) = (([], []), p\<lparr>readers := readers p - 1\<rparr>, c)"
| "pipe_step CloseWrite (p, c) = (([], []), p\<lparr>writers := writers p - 1\<rparr>, c)"

fun pipe_run :: "pipe_event list \<Rightarrow> pipe \<times> (u8 list \<times> u32 \<times> nat) option \<Rightarrow>
    (u8 list \<times> u8 list) \<times> pipe \<times> (u8 list \<times> u32 \<times> nat) option" where
  "pipe_run [] c = (([], []), c)"
| "pipe_run (e # es) c =
     (case pipe_step e c of ((st, out), c1) \<Rightarrow>
        (case pipe_run es c1 of ((st', out'), c2) \<Rightarrow> ((st @ st', out @ out'), c2)))"

definition suspended_ok :: "pipe \<times> (u8 list \<times> u32 \<times> nat) option \<Rightarrow> bool" where
  "suspended_ok c = (case c of (p, s) \<Rightarrow> pipe_inv p \<and>
     (case s of None \<Rightarrow> True | Some (src, nxt, k) \<Rightarrow> nxt = (wr p + 1) mod 4096))"

lemma pipe_step_stream:
  assumes "suspended_ok (p, c)" "pipe_step e (p, c) = ((st, out), p', c')"
  shows "suspended_ok (p', c') \<and> out @ pipe_contents p' = pipe_contents p @ st"
proof (cases "(e, (p, c))" rule: pipe_step.cases)
  case (1 bs q)
  have inv: "pipe_inv p" using assms(1) by (simp add: suspended_ok_def)
  show ?thesis
  proof (cases "readers p \<le> 0")
    case True
    with 1 assms show ?thesis by (simp add: pipe_write_def)
  next
    case False
    obtain r q' where w: "pipe_write_loop bs None 0 p = (r, q')" by fastforce
    from pipe_write_loop_spec [OF inv _ w] 1 assms False w show ?thesis
      by (auto simp: pipe_write_def suspended_ok_def)
  qed
next
  case (4 q src nxt k)
  then have ok: "pipe_inv p" "nxt = (wr p + 1) mod 4096" using assms(1) by (auto simp: suspended_ok_def)
  obtain r q' where w: "pipe_write_loop src (Some nxt) k p = (r, q')" by fastforce
  from pipe_write_loop_spec [OF ok(1) _ w] ok(2) 4 assms w show ?thesis
    by (auto simp: suspended_ok_def nat_add_distrib)
next
  case (5 n q d)
  have inv: "pipe_inv p" using assms(1) by (simp add: suspended_ok_def)
  from pipe_read_spec [OF inv, of n] 5 assms show ?thesis
    by (auto simp: suspended_ok_def split: option.splits)
qed (use assms in \<open>auto simp: suspended_ok_def pipe_inv_def pipe_contents_def split: option.splits\<close>)

lemma pipe_run_stream:
  assumes "suspended_ok (p, c)" "pipe_run es (p, c) = ((st, out), p', c')"
  shows "suspended_ok (p', c') \<and> out @ pipe_contents p' = pipe_contents p @ st"
  using assms
proof (induction es arbitrary: p c st out)
  case (Cons e es)
  obtain st1 out1 p1 c1 where s: "pipe_step e (p, c) = ((st1, out1), p1, c1)" by (metis prod.exhaust)
  obtain st2 out2 where r: "pipe_run es (p1, c1) = ((st2, out2), p', c')" "st = st1 @ st2" "out = out1 @ out2"
    using Cons.prems(2) s by (auto split: prod.splits)
  from pipe_step_stream [OF Cons.prems(1) s] Cons.IH [OF _ r(1)] r(2,3) show ?case
    by (metis append.assoc)
qed simp

text \<open>C5: whatever the interleaving of one writing thread with readers and with
  closes of either end, the bytes returned to the readers followed by the bytes
  still in the ring are exactly the bytes that were in the ring at the start
  followed by the bytes stored by the writes, in order: no byte is lost,
  duplicated or reordered, and the ring never holds more than 4095 bytes.\<close>

theorem pipe_single_writer_stream:
  assumes "pipe_inv p" "pipe_run es (p, None) = ((stored, returned), p', c)"
  shows "returned @ pipe_contents p' = pipe_contents p @ stored \<and> length (pipe_contents p') \<le> 4095"
proof -
  have "suspended_ok (p, None)" using assms(1) by (simp add: suspended_ok_def)
  from pipe_run_stream [OF this assms(2)] show ?thesis
    using pipe_fifo.contents_bound [of p'] by (simp add: suspended_ok_def)
qed

definition sample_pipe :: pipe where
  "sample_pipe = zero_pipe\<lparr>in_use := True, readers := 1, writers := 1\<rparr>"

lemma sample_pipe_write:
  "pipe_write [7, 9] sample_pipe =
     (WDone 2, sample_pipe\<lparr>pbuf := (pbuf sample_pipe)(0 := 7, 1 := 9), wr := 2\<rparr>)"
  by (simp add: pipe_write_def sample_pipe_def zero_pipe_def)

lemma sample_pipe_read:
  "pipe_read 8 (sample_pipe\<lparr>pbuf := (pbuf sample_pipe)(0 := 7, 1 := 9), wr := 2\<rparr>) =
     (RDone 2 [7, 9], sample_pipe\<lparr>pbuf := (pbuf sample_pipe)(0 := 7, 1 := 9), wr := 2, rd := 2\<rparr>)"
proof -
  have "pipe_read_loop 2 p = (let (a, p1) = pipe_get_byte p; (b, p2) = pipe_get_byte p1 in ([a, b], p2))" for p
    by (simp add: numeral_2_eq_2 split: prod.splits)
  then show ?thesis by (simp add: pipe_read_def sample_pipe_def zero_pipe_def pipe_get_byte_def Let_def)
qed

theorem pipe_single_writer_stream_witness:
  "\<exists>p'. pipe_run [ReadCall 4, WriteCall [7, 9], ReadCall 8] (sample_pipe, None) = (([7, 9], [7, 9]), p', None) \<and>
    [7, 9] @ pipe_contents p' = pipe_contents sample_pipe @ [7, 9]"
proof -
  have "pipe_read 4 sample_pipe = (RYield, sample_pipe)"
    by (simp add: pipe_read_def sample_pipe_def zero_pipe_def)
  then have "pipe_run [ReadCall 4, WriteCall [7, 9], ReadCall 8] (sample_pipe, None) =
      (([7, 9], [7, 9]), sample_pipe\<lparr>pbuf := (pbuf sample_pipe)(0 := 7, 1 := 9), wr := 2, rd := 2\<rparr>, None)"
    by (simp add: sample_pipe_write sample_pipe_read del: One_nat_def)
  moreover have "pipe_inv sample_pipe" by (simp add: pipe_inv_def sample_pipe_def zero_pipe_def)
  ultimately show ?thesis using pipe_single_writer_stream by blast
qed

section \<open>Two writers\<close>

lemma pipe_write_wr_slot:
  assumes "pipe_inv p"
  shows "pipe_contents (p\<lparr>pbuf := (pbuf p)(unat (wr p) := b)\<rparr>) = pipe_contents p"
proof -
  let ?r = "unat (rd p)" and ?w = "unat (wr p)"
  have b: "?r < 4096" "?w < 4096" using assms by (simp_all add: pipe_inv_def)
  have "?w \<noteq> (?r + i) mod 4096" if "i < ring_gap ?r ?w 4096" for i
    using ring_slot_neq [OF that ring_gap_less, of ?r] ring_gap_wr [OF b] by simp
  then show ?thesis by (simp add: pipe_contents_def ring_contents_upd_outside)
qed

text \<open>C29: with two writers a byte can be lost.  A write that finds the ring full
  waits with the index it computed before waiting; if a reader then takes two
  bytes and another writer stores a byte, the first one stores its byte at the
  new write position, sets the index to the stale value, where it already is,
  and reports one byte written: the ring holds the other writer's byte, but not
  the one of the writer that waited.\<close>

theorem pipe_second_writer_loses_byte:
  assumes "pipe_inv p" "readers p > 0" "(wr p + 1) mod 4096 = rd p"
  shows "\<exists>bs p1 p2 p3. pipe_write [a] p = (WYield [a] (rd p) 0, p) \<and>
    pipe_read 2 p = (RDone 2 bs, p1) \<and> bs = take 2 (pipe_contents p) \<and>
    pipe_write [b] p1 = (WDone 1, p2) \<and> pipe_contents p2 = drop 2 (pipe_contents p) @ [b] \<and>
    pipe_write_loop [a] (Some (rd p)) 0 p2 = (WDone 1, p3) \<and> pipe_contents p3 = drop 2 (pipe_contents p) @ [b]"
proof -
  have bd: "unat (rd p) < 4096" "unat (wr p) < 4096" using assms(1) by (simp_all add: pipe_inv_def)
  have "Suc (unat (wr p)) mod 4096 = unat (rd p)" using assms(3) bd(2) unat_succ_4096 [of "wr p"]
    by (metis unat_mod_4096)
  then have "length (pipe_contents p) = 4095" using ring_gap_full [OF bd] by (simp add: pipe_contents_def)
  with pipe_read_spec [OF assms(1), of 2] obtain bs p1 where r: "pipe_read 2 p = (RDone 2 bs, p1)" "bs = take 2 (pipe_contents p)"
    and p1: "pipe_contents p1 = drop 2 (pipe_contents p)" "pipe_inv p1" "wr p1 = wr p" "readers p1 = readers p"
    by auto
  have "length (pipe_contents p1) = 4093" using p1(1) \<open>length (pipe_contents p) = 4095\<close> by simp
  then have gap: "ring_gap (unat (rd p1)) (unat (wr p1)) 4096 = 4093" by (simp add: pipe_contents_def)
  have b1: "unat (rd p1) < 4096" "unat (wr p1) < 4096" using p1(2) by (simp_all add: pipe_inv_def)
  have ne: "rd p \<noteq> rd p1"
    using ring_gap_full [OF b1] gap \<open>Suc (unat (wr p)) mod 4096 = unat (rd p)\<close> p1(3) by auto
  let ?p2 = "p1\<lparr>pbuf := (pbuf p1)(unat (wr p1) := b), wr := rd p\<rparr>"
  have "pipe_put b p1 = ?p2" using assms(3) p1(3) ne by (simp add: pipe_put_def)
  then have c2: "pipe_contents ?p2 = drop 2 (pipe_contents p) @ [b]"
    using pipe_put_contents [OF p1(2), of b] \<open>length (pipe_contents p1) = 4093\<close> p1(1) by simp
  have "pipe_write [b] p1 = (WDone 1, ?p2)" using assms(2,3) p1 ne by (simp add: pipe_write_def)
  moreover have "pipe_write_loop [a] (Some (rd p)) 0 ?p2 =
      (WDone 1, ?p2\<lparr>pbuf := (pbuf ?p2)(unat (wr ?p2) := a)\<rparr>)" using assms(2) p1 ne
    by (simp add: Let_def)
  moreover have "pipe_inv ?p2" using p1(2) bd(1) by (simp add: pipe_inv_def)
  ultimately show ?thesis
    using r c2 assms(2,3) pipe_write_wr_slot [of ?p2 a] by (auto simp: pipe_write_def)
qed

definition full_pipe :: pipe where
  "full_pipe = zero_pipe\<lparr>in_use := True, readers := 1, writers := 2, wr := 4095\<rparr>"

theorem pipe_second_writer_loses_byte_witness:
  "\<exists>bs p1 p2 p3. pipe_write [1] full_pipe = (WYield [1] 0 0, full_pipe) \<and>
    pipe_read 2 full_pipe = (RDone 2 bs, p1) \<and> pipe_write [2] p1 = (WDone 1, p2) \<and>
    pipe_write_loop [1] (Some 0) 0 p2 = (WDone 1, p3) \<and> last (pipe_contents p3) = 2 \<and>
    length (pipe_contents p3) = 4094"
proof -
  have h: "pipe_inv full_pipe" "readers full_pipe > 0" "(wr full_pipe + 1) mod 4096 = rd full_pipe" "rd full_pipe = 0"
    by (simp_all add: full_pipe_def zero_pipe_def pipe_inv_def)
  have "length (pipe_contents full_pipe) = 4095"
    by (simp add: pipe_contents_def full_pipe_def zero_pipe_def ring_gap_def)
  with h pipe_second_writer_loses_byte [OF h(1-3), of 1 2] show ?thesis by force
qed

end
