(* ===== verification/Pipe_Ends.thy ===== *)
theory Pipe_Ends
  imports Pipe
begin

text \<open>
  The descriptor operations of all processes together with the pipes: a step
  relation over opening, duplicating, closing, forking, exiting, executing,
  creating pipes, reading and writing, and the invariants of its reachable
  states.  The counts of a file are the descriptors that refer to it, and the
  reader and writer counts of a pipe are the open files on its two ends, so an
  empty pipe is at end of file exactly when no descriptor can write to it.
\<close>

section \<open>Ends of a pipe\<close>

definition ends :: "(nat \<Rightarrow> vnode_id option) \<Rightarrow> pipe_sys \<Rightarrow> pipe_end \<Rightarrow> nat \<Rightarrow> nat set" where
  "ends L w e i = {f. \<exists>k. L f = Some (PipeVnode k) \<and>
     v_op (pipe_vnodes w k) = Some e \<and> v_data (pipe_vnodes w k) = Some i}"

text \<open>The pipes in \<open>X\<close> are under construction and exempt from the count.\<close>

definition ends_inv :: "nat set \<Rightarrow> (nat \<Rightarrow> vnode_id option) \<Rightarrow> pipe_sys \<Rightarrow> bool" where
  "ends_inv X L w \<longleftrightarrow>
     finite (dom L) \<and>
     (\<forall>f k. L f = Some (PipeVnode k) \<longrightarrow> k < pipe_vnode_next w \<and>
        v_op (pipe_vnodes w k) \<noteq> None \<and> v_data (pipe_vnodes w k) \<noteq> None) \<and>
     (\<forall>i. i \<notin> X \<longrightarrow>
        (if in_use (pipe_pool w i)
         then readers (pipe_pool w i) = int (card (ends L w ReadOps i)) \<and>
              writers (pipe_pool w i) = int (card (ends L w WriteOps i))
         else ends L w ReadOps i = {} \<and> ends L w WriteOps i = {}))"

lemma ends_invD:
  assumes "ends_inv X L w"
  shows "finite (dom L)"
    "\<And>f k. L f = Some (PipeVnode k) \<Longrightarrow> k < pipe_vnode_next w \<and>
        v_op (pipe_vnodes w k) \<noteq> None \<and> v_data (pipe_vnodes w k) \<noteq> None"
    "\<And>i. \<lbrakk>i \<notin> X; in_use (pipe_pool w i)\<rbrakk> \<Longrightarrow>
       readers (pipe_pool w i) = int (card (ends L w ReadOps i)) \<and>
       writers (pipe_pool w i) = int (card (ends L w WriteOps i))"
    "\<And>i e. \<lbrakk>i \<notin> X; \<not> in_use (pipe_pool w i)\<rbrakk> \<Longrightarrow> ends L w e i = {}"
  using assms unfolding ends_inv_def by (auto split: if_splits) (metis pipe_end.exhaust emptyE)

lemma finite_ends: "finite (dom L) \<Longrightarrow> finite (ends L w e i)"
  by (rule finite_subset [of _ "dom L"]) (auto simp: ends_def)

lemma upd_pipe_simps [simp]:
  "pipe_vnodes (upd_pipe i f w) = pipe_vnodes w" "pipe_vnode_next (upd_pipe i f w) = pipe_vnode_next w"
  "pipe_pool (upd_pipe i f w) j = (if j = i then f (pipe_pool w i) else pipe_pool w j)"
  by (simp_all add: upd_pipe_def)

lemma upd_vnode_simps [simp]:
  "pipe_pool (upd_vnode k f w) = pipe_pool w" "pipe_vnode_next (upd_vnode k f w) = pipe_vnode_next w"
  "pipe_vnodes (upd_vnode k f w) j = (if j = k then f (pipe_vnodes w k) else pipe_vnodes w j)"
  by (simp_all add: upd_vnode_def)

lemma ends_upd_pipe [simp]: "ends L (upd_pipe i f w) = ends L w"
  by (simp add: ends_def fun_eq_iff)

lemma ends_upd_vnode:
  "(\<And>f. L f \<noteq> Some (PipeVnode k)) \<Longrightarrow> ends L (upd_vnode k g w) = ends L w"
  by (fastforce simp: ends_def fun_eq_iff)

lemma ends_remove: "ends (L(f := None)) w e i = ends L w e i - {f}"
  by (auto simp: ends_def)

lemma ends_add_other: "v \<noteq> None \<Longrightarrow> (\<And>k. v \<noteq> Some (PipeVnode k)) \<Longrightarrow> L f = None \<Longrightarrow>
    ends (L(f := v)) w e i = ends L w e i"
  by (auto simp: ends_def)

lemma ends_add_pipe:
  "L f = None \<Longrightarrow> ends (L(f := Some (PipeVnode k))) w e i =
     (if v_op (pipe_vnodes w k) = Some e \<and> v_data (pipe_vnodes w k) = Some i
      then insert f (ends L w e i) else ends L w e i)"
  by (auto simp: ends_def)

text \<open>Moving bytes keeps the counts, so reads and writes keep the invariant.\<close>

lemma ends_inv_upd_data:
  assumes "ends_inv X L w" "readers p = readers (pipe_pool w i)" "writers p = writers (pipe_pool w i)"
    "in_use p = in_use (pipe_pool w i)"
  shows "ends_inv X L (upd_pipe i (\<lambda>_. p) w)"
  using assms unfolding ends_inv_def by simp

lemma ends_inv_open:
  assumes "ends_inv X L w" "L f = None" "\<And>k. v \<noteq> PipeVnode k"
  shows "ends_inv X (L(f := Some v)) w"
proof -
  have "ends (L(f := Some v)) w = ends L w"
    using ends_add_other [of "Some v" L f w] assms(2,3) by (auto simp: fun_eq_iff)
  with assms show ?thesis unfolding ends_inv_def by (auto split: if_splits)
qed

text \<open>Closing the last reference to a file takes one end away and counts it down.\<close>

lemma ends_inv_close:
  assumes "ends_inv X L w"
  shows "ends_inv X (L(f := None)) (close_file pipe_close (L f) w)"
proof (cases "\<exists>k. L f = Some (PipeVnode k)")
  case False
  then have "close_file pipe_close (L f) w = w"
    by (auto simp: close_file_def pipe_close_def split: option.split vnode_id.split)
  moreover have "ends (L(f := None)) w = ends L w" using False by (auto simp: fun_eq_iff ends_def)
  ultimately show ?thesis using assms unfolding ends_inv_def by (auto split: if_splits)
next
  case True
  then obtain k where k: "L f = Some (PipeVnode k)" by blast
  with ends_invD(2) [OF assms k] obtain e i where
    e: "v_op (pipe_vnodes w k) = Some e" and i: "v_data (pipe_vnodes w k) = Some i" by auto
  have m: "f \<in> ends L w e i" "\<And>e' j. (e', j) \<noteq> (e, i) \<Longrightarrow> f \<notin> ends L w e' j"
    using k e i by (auto simp: ends_def)
  have fin: "finite (ends L w e' j)" for e' j by (rule finite_ends) (rule ends_invD(1) [OF assms])
  have card: "int (card (ends L w e' j - {f})) =
      (if (e', j) = (e, i) then int (card (ends L w e' j)) - 1 else int (card (ends L w e' j)))" for e' j
    using m fin card_gt_0_iff [of "ends L w e i"] by (auto simp: card_Diff_singleton of_nat_diff)
  have u: "i \<notin> X \<Longrightarrow> in_use (pipe_pool w i)" using ends_invD(4) [OF assms, of i e] m by auto
  show ?thesis
  proof (cases e)
    case ReadOps
    then have "close_file pipe_close (L f) w = upd_pipe i (\<lambda>p. p\<lparr>readers := readers p - 1\<rparr>) w"
      using k e i by (simp add: close_file_def pipe_close_def pipe_vop_close_read_def)
    with assms u card ReadOps show ?thesis unfolding ends_inv_def by (auto simp: ends_remove)
  next
    case WriteOps
    then have "close_file pipe_close (L f) w = upd_pipe i (\<lambda>p. p\<lparr>writers := writers p - 1\<rparr>) w"
      using k e i by (simp add: close_file_def pipe_close_def pipe_vop_close_write_def)
    with assms u card WriteOps show ?thesis unfolding ends_inv_def by (auto simp: ends_remove)
  qed
qed

section \<open>Creating a pipe\<close>

lemma ends_inv_unuse:
  assumes "ends_inv {i} L w" "\<And>e. ends L w e i = {}"
  shows "ends_inv {} L (upd_pipe i (\<lambda>p. p\<lparr>in_use := False\<rparr>) w)"
  using assms unfolding ends_inv_def by auto

lemma ends_inv_created:
  assumes "ends_inv {i} L w" "in_use (pipe_pool w i)" "ends L w ReadOps i = {r}" "ends L w WriteOps i = {k}"
  shows "ends_inv {} L (upd_pipe i (\<lambda>p. p\<lparr>readers := 1, writers := 1\<rparr>) w)"
  using assms unfolding ends_inv_def by auto

lemma ends_inv_drop:
  assumes "ends_inv {i} L w" "\<And>e j. f \<in> ends L w e j \<Longrightarrow> j = i"
  shows "ends_inv {i} (L(f := None)) w"
proof -
  have "ends (L(f := None)) w e j = ends L w e j" if "j \<noteq> i" for e j
    using assms(2) [of e j] that by (auto simp: ends_remove)
  with assms(1) show ?thesis unfolding ends_inv_def by (auto split: if_splits)
qed

lemma ends_unique: "f \<in> ends L w e i \<Longrightarrow> f \<in> ends L w e' j \<Longrightarrow> e = e' \<and> i = j"
  by (auto simp: ends_def)

lemma vworld_upd_simps [simp]:
  "fd_inv held (s\<lparr>vworld := w\<rparr>) = fd_inv held s" "live (s\<lparr>vworld := w\<rparr>) = live s"
  "fd_entries (s\<lparr>vworld := w\<rparr>) = fd_entries s"
  by (simp_all add: fd_inv_def live_def fd_entries_def fun_eq_iff)

lemma pipe_unuse_simps [simp]:
  "fd_inv held (pipe_unuse i s) = fd_inv held s" "live (pipe_unuse i s) = live s"
  "vworld (pipe_unuse i s) = upd_pipe i (\<lambda>p. p\<lparr>in_use := False\<rparr>) (vworld s)"
  by (simp_all add: pipe_unuse_def)

text \<open>Both new files given back.\<close>

lemma pipe_give_back:
  assumes "fd_inv ((\<lambda>_. 0)(r := 1, k := 1)) s" "file_pool_inited s" "r < FILE_POOL_SIZE" "k < FILE_POOL_SIZE"
    "fd_entries s r = {}" "fd_entries s k = {}" "ends_inv {i} (live s) (vworld s)"
    "ends (live s) (vworld s) ReadOps i = {r}" "ends (live s) (vworld s) WriteOps i = {k}"
  defines "t \<equiv> pipe_unuse i (set_refcount k 0 (set_refcount r 0 s))"
  shows "fd_inv (\<lambda>_. 0) t \<and> ends_inv {} (live t) (vworld t)"
proof -
  note A = fd_release [OF assms(1,2,3,5)]
  have "fd_inv ((\<lambda>_. 0)(r := 1, k := 1, r := 0, k := 0)) (set_refcount k 0 (set_refcount r 0 s))"
    by (rule fd_release(1) [OF A(1)]) (use assms in auto)
  moreover have "((\<lambda>_. 0)(r := 1, k := 1, r := 0, k := 0)) = (\<lambda>_. 0 :: nat)" by auto
  moreover have "ends_inv {} (live t) (vworld t)"
    unfolding t_def pipe_unuse_simps set_refcount_fields set_refcount_0_live
  proof (rule ends_inv_unuse)
    have r: "r \<in> ends (live s) (vworld s) ReadOps i" and k: "k \<in> ends (live s) (vworld s) WriteOps i"
      using assms by auto
    show "ends_inv {i} ((live s)(r := None, k := None)) (vworld s)"
    proof (intro ends_inv_drop)
      show "j = i" if "r \<in> ends (live s) (vworld s) e j" for e j using ends_unique [OF that r] by simp
      show "j = i" if "k \<in> ends ((live s)(r := None)) (vworld s) e j" for e j
        using ends_unique [OF _ k] that by (auto simp: ends_remove)
    qed (rule assms(7))
    show "ends ((live s)(r := None, k := None)) (vworld s) e i = {}" for e
      using assms(8,9) by (cases e) (auto simp: ends_remove)
  qed
  ultimately show ?thesis by (simp add: t_def)
qed

lemma pipe_install_inv:
  assumes inv: "fd_inv ((\<lambda>_. 0)(r := 1, k := 1)) s" and init: "file_pool_inited s" and ne: "r \<noteq> k"
    and rk: "r < FILE_POOL_SIZE" "k < FILE_POOL_SIZE" and ent: "fd_entries s r = {}" "fd_entries s k = {}"
    and E: "ends_inv {i} (live s) (vworld s)" and u: "in_use (pipe_pool (vworld s) i)"
    and er: "ends (live s) (vworld s) ReadOps i = {r}" and ek: "ends (live s) (vworld s) WriteOps i = {k}"
    and res: "pipe_install p i r k s = (res, fds, s')"
  shows "fd_inv (\<lambda>_. 0) s' \<and> ends_inv {} (live s') (vworld s')"
proof -
  obtain rfd s1 where a1: "fd_alloc (Some p) (Some r) s = (rfd, s1)" by fastforce
  show ?thesis
  proof (cases "rfd < 0")
    case True
    then have "s' = pipe_unuse i (set_refcount k 0 (set_refcount r 0 s))"
      using res a1 fd_alloc_inv [OF inv init rk(1) a1] by (auto simp: pipe_install_def)
    with pipe_give_back [OF inv init rk ent E er ek] show ?thesis by simp
  next
    case False
    define s2 where "s2 = set_refcount r (refcount (file_pool s1 r) - 1) s1"
    have h: "((\<lambda>_. 0)(r := 1, k := 1)) r = (1::nat)" using ne by simp
    have "rfd \<ge> 0" using False by simp
    note F = fd_install [OF inv h init rk(1) a1 this, folded s2_def]
    have z: "((\<lambda>_. 0)(r := 1, k := 1, r := 0)) = (\<lambda>_. 0)(k := 1 :: nat)" using ne by auto
    obtain wfd s3 where a2: "fd_alloc (Some p) (Some k) s2 = (wfd, s3)" by fastforce
    have inv2: "fd_inv ((\<lambda>_. 0)(k := 1)) s2" using F(1) unfolding z .
    show ?thesis
    proof (cases "wfd < 0")
      case True
      then have s3: "s3 = s2" using fd_alloc_inv [OF inv2 F(4) rk(2) a2] by simp
      obtain c s4 where c: "fd_close pipe_close (Some p) (int (nat rfd)) s2 = (c, s4)" by fastforce
      have tab: "fd_table s2 p (nat rfd) = Some r" by (simp add: F(6))
      have e2: "fd_entries s2 r = {(p, nat rfd)}" "fd_entries s2 k = {}"
        using ent ne by (auto simp: fd_entries_def F(6) split: if_splits)
      have one: "refcount (file_pool s2 r) = 1" using fd_invD(4) [OF inv2 F(4) rk(1)] e2 ne by simp
      note cl = fd_close_inv [OF inv2 c]
      note cw = fd_close_live_at [OF inv2 tab c]
      have c0: "c = 0" using c tab F(7) False by (auto simp: fd_close_def split: if_splits)
      have init4: "file_pool_inited s4"
        using fd_invD(5) [of "(\<lambda>_. 0)(k := 1)" s4 k] cl by (cases "file_pool_inited s4") auto
      have e4: "fd_entries s4 k = {}" using e2 cl c0 ne by (auto simp: fd_entries_def split: if_splits)
      have "s' = pipe_unuse i (set_refcount k 0 s4)"
        using res a1 a2 False True c by (simp add: pipe_install_def s2_def s3)
      moreover have "fd_inv ((\<lambda>_. 0)(k := 1, k := 0)) (set_refcount k 0 s4)"
        by (rule fd_release(1)) (use cl init4 rk e4 in auto)
      moreover have "((\<lambda>_. 0)(k := 1, k := 0)) = (\<lambda>_. 0 :: nat)" by auto
      moreover have "ends_inv {} ((live s4)(k := None)) (upd_pipe i (\<lambda>p. p\<lparr>in_use := False\<rparr>) (vworld s4))"
      proof (rule ends_inv_unuse)
        have l4: "live s4 = (live s)(r := None)" "vworld s4 = close_file pipe_close (live s r) (vworld s)"
          using cw one F by auto
        have E4: "ends_inv {i} (live s4) (vworld s4)" unfolding l4 by (rule ends_inv_close [OF E])
        have same: "ends L (vworld s4) = ends L (vworld s)" for L
          by (auto simp: l4(2) close_file_def pipe_close_def pipe_vop_close_read_def pipe_vop_close_write_def
              split: option.split vnode_id.split pipe_end.split)
        show "ends_inv {i} ((live s4)(k := None)) (vworld s4)"
          by (rule ends_inv_drop [OF E4]) (use ek same in \<open>auto simp: l4(1) ends_remove dest: ends_unique\<close>)
        show "ends ((live s4)(k := None)) (vworld s4) e i = {}" for e
          using er ek by (cases e) (auto simp: same l4(1) ends_remove)
      qed
      ultimately show ?thesis by (simp add: set_refcount_0_live)
    next
      case False2: False
      define s4 where "s4 = set_refcount k (refcount (file_pool s3 k) - 1) s3"
      have "wfd \<ge> 0" "((\<lambda>_. 0)(k := 1)) k = (1 :: nat)" using False2 by simp_all
      note G = fd_install [OF inv2 this(2) F(4) rk(2) a2 this(1), folded s4_def]
      have "s' = s4\<lparr>vworld := upd_pipe i (\<lambda>p. p\<lparr>readers := 1, writers := 1\<rparr>) (vworld s4)\<rparr>"
        using res a1 a2 False False2 by (simp add: pipe_install_def s2_def s4_def)
      moreover have z0: "((\<lambda>_. 0)(k := 1, k := 0)) = (\<lambda>_. 0 :: nat)" by auto
      have "fd_inv (\<lambda>_. 0) s4" using G(1) unfolding z0 .
      ultimately show ?thesis using G(2,3) F(2,3) ends_inv_created [OF E u er ek] by simp
    qed
  qed
qed

lemma pipe_files_inv:
  assumes inv: "fd_inv (\<lambda>_. 0) s" and E: "ends_inv {} (live s) (vworld s)"
    and u: "in_use (pipe_pool (vworld s) i)" "ends (live s) (vworld s) ReadOps i = {}"
      "ends (live s) (vworld s) WriteOps i = {}"
    and rv: "pipe_vnodes (vworld s) rk = \<lparr>v_op = Some ReadOps, v_data = Some i\<rparr>" "rk < pipe_vnode_next (vworld s)"
    and wv: "pipe_vnodes (vworld s) wk = \<lparr>v_op = Some WriteOps, v_data = Some i\<rparr>" "wk < pipe_vnode_next (vworld s)"
    and res: "pipe_files p i rk wk s = (res, fds, s')"
  shows "fd_inv (\<lambda>_. 0) s' \<and> ends_inv {} (live s') (vworld s')"
proof -
  obtain rf s1 where a1: "file_alloc (Some (PipeVnode rk)) O_RDONLY s = (rf, s1)" by fastforce
  obtain kf s2 where a2: "file_alloc (Some (PipeVnode wk)) O_WRONLY s1 = (kf, s2)" by fastforce
  have E0: "ends_inv {i} L w" if "ends_inv {} L w" for L w using that unfolding ends_inv_def by auto
  have unuse: "ends_inv {} (live s) (upd_pipe i (\<lambda>p. p\<lparr>in_use := False\<rparr>) (vworld s))"
    by (rule ends_inv_unuse [OF E0 [OF E]]) (metis u(2,3) pipe_end.exhaust)
  note A = file_alloc_inv [OF inv a1] and L = file_alloc_live [OF inv a1]
  show ?thesis
  proof (cases rf)
    case None
    then have inv1: "fd_inv (\<lambda>_. 0) s1" using A by simp
    note A2 = file_alloc_inv [OF inv1 a2] and L2 = file_alloc_live [OF inv1 a2]
    show ?thesis
    proof (cases kf)
      case kN: None
      have "s' = pipe_unuse i s2" using res a1 a2 None kN by (simp add: pipe_files_def)
      with unuse A2 L2 L None kN show ?thesis by simp
    next
      case (Some k)
      have s': "s' = pipe_unuse i (set_refcount k 0 s2)" using res a1 a2 None Some by (simp add: pipe_files_def)
      have e: "fd_entries s2 k = {}" using A2 Some fd_entries_cong [of s2 s1] by simp
      have z: "((\<lambda>_. 0)(k := 1, k := 0)) = (\<lambda>_. 0 :: nat)" by auto
      have "fd_inv ((\<lambda>_. 0)(k := 1, k := 0)) (set_refcount k 0 s2)"
        by (rule fd_release(1)) (use A2 L2 Some e in auto)
      moreover have "(live s)(k := None) = live s" using L L2 None Some by auto
      ultimately show ?thesis using unuse L L2 None Some z by (simp add: s' set_refcount_0_live)
    qed
  next
    case (Some r)
    note A = A [unfolded Some option.case] and L = L [unfolded Some option.case]
    have inv1: "fd_inv ((\<lambda>_. 0)(r := 1)) s1" using A by simp
    note A2 = file_alloc_inv [OF inv1 a2] and L2 = file_alloc_live [OF inv1 a2]
    have e1: "fd_entries s1 r = {}" using A fd_entries_cong [of s1 s] by simp
    show ?thesis
    proof (cases kf)
      case None
      have s': "s' = pipe_unuse i (set_refcount r 0 s2)" using res a1 a2 None Some by (simp add: pipe_files_def)
      have e: "fd_entries s2 r = {}" using e1 L2 fd_entries_cong [of s2 s1] by simp
      have z: "((\<lambda>_. 0)(r := 1, r := 0)) = (\<lambda>_. 0 :: nat)" by auto
      have "fd_inv ((\<lambda>_. 0)(r := 1, r := 0)) (set_refcount r 0 s2)"
        by (rule fd_release(1)) (use A A2 L2 None e in auto)
      moreover have "(live s)(r := None) = live s" using L by auto
      ultimately show ?thesis using unuse L L2 None z by (simp add: s' set_refcount_0_live)
    next
      case kS: (Some k)
      note A2 = A2 [unfolded kS option.case] and L2 = L2 [unfolded kS option.case]
      have ne: "r \<noteq> k" using A2 by auto
      have live2: "live s2 = (live s)(r := Some (PipeVnode rk), k := Some (PipeVnode wk))"
        and w2: "vworld s2 = vworld s" and fr: "live s r = None" "((live s)(r := Some (PipeVnode rk))) k = None"
        using L L2 by auto
      have ends2: "ends (live s2) (vworld s2) e j =
          (if j = i then (if e = ReadOps then {r} else {k}) else ends (live s) (vworld s) e j)" for e j
        unfolding live2 w2 ends_add_pipe [of "(live s)(r := Some (PipeVnode rk))" k, OF fr(2)]
          ends_add_pipe [of "live s" r, OF fr(1)]
        using u(2,3) rv(1) wv(1) by (cases e) auto
      have "ends_inv {i} (live s2) (vworld s2)"
        using E rv wv unfolding ends_inv_def ends2 unfolding live2 w2 by (auto split: if_splits)
      moreover have "fd_entries s2 r = {}" "fd_entries s2 k = {}"
        using e1 A2 L2 fd_entries_cong [of s2 s1] by simp_all
      moreover have "pipe_install p i r k s2 = (res, fds, s')"
        using res a1 a2 Some kS by (simp add: pipe_files_def)
      ultimately show ?thesis
        using pipe_install_inv [of r k s2 i p res fds s'] ne A A2 L2 u(1) w2 ends2 by simp
    qed
  qed
qed

lemma pipe_create_inv:
  assumes inv: "fd_inv (\<lambda>_. 0) s" and E: "ends_inv {} (live s) (vworld s)"
    and res: "pipe_create (Some p) s = (res, fds, s')"
  shows "fd_inv (\<lambda>_. 0) s' \<and> ends_inv {} (live s') (vworld s')"
proof -
  let ?w = "vworld s"
  obtain q w1 where ar: "pipe_alloc_ring ?w = (q, w1)" by fastforce
  show ?thesis
  proof (cases q)
    case None
    with ar have "w1 = ?w" by (auto simp: pipe_alloc_ring_def split: option.splits)
    with None ar inv E res show ?thesis by (simp add: pipe_create_def)
  next
    case (Some i)
    then have w1: "w1 = upd_pipe i (\<lambda>_. zero_pipe\<lparr>in_use := True\<rparr>) ?w" and free: "\<not> in_use (pipe_pool ?w i)"
      using ar by (auto simp: pipe_alloc_ring_def dest: first_slot_SomeD split: option.splits)
    have no: "ends (live s) ?w e i = {}" for e using ends_invD(4) [OF E _ free] by simp
    have E1: "ends_inv {} (live s) w1"
      using E no unfolding ends_inv_def by (auto simp: w1 zero_pipe_def)
    have va: "ends_inv {} (live s) w' \<and> pipe_pool w' = pipe_pool w \<and> (\<forall>e. ends (live s) w' e i = ends (live s) w e i) \<and>
        pipe_vnode_next w \<le> pipe_vnode_next w' \<and> (\<forall>k. vn = Some k \<longrightarrow> k = pipe_vnode_next w \<and> k < pipe_vnode_next w')"
      if "ends_inv {} (live s) w" "pipe_vnode_alloc w = (vn, w')" for w vn w'
    proof (cases vn)
      case None
      with that show ?thesis by (auto simp: pipe_vnode_alloc_def split: if_splits)
    next
      case (Some k)
      then have w': "w' = upd_vnode k (\<lambda>_. \<lparr>v_op = None, v_data = None\<rparr>) (w\<lparr>pipe_vnode_next := k + 1\<rparr>)"
        and k: "k = pipe_vnode_next w" using that(2) by (auto simp: pipe_vnode_alloc_def split: if_splits)
      have fresh: "live s f \<noteq> Some (PipeVnode k)" for f using ends_invD(2) [OF that(1), of f k] k by auto
      have "ends (live s) (w\<lparr>pipe_vnode_next := k + 1\<rparr>) = ends (live s) w" by (simp add: ends_def fun_eq_iff)
      then have en: "ends (live s) w' = ends (live s) w"
        unfolding w' using ends_upd_vnode [OF fresh] by simp
      have "ends_inv {} (live s) w'"
        using that(1) fresh unfolding ends_inv_def en by (auto simp: w' k less_SucI split: if_splits)
      then show ?thesis using Some k en by (simp add: w')
    qed
    obtain rk w2 where v1: "pipe_vnode_alloc w1 = (rk, w2)" by fastforce
    obtain wk w3 where v2: "pipe_vnode_alloc w2 = (wk, w3)" by fastforce
    note V1 = va [OF E1 v1]
    have V2: "ends_inv {} (live s) w3" "pipe_pool w3 = pipe_pool w1" "\<And>e. ends (live s) w3 e i = {}"
      using va [OF _ v2] V1 no by (auto simp: w1)
    show ?thesis
    proof (cases "rk = None \<or> wk = None")
      case True
      then have "s' = pipe_unuse i (s\<lparr>vworld := w3\<rparr>)"
        using res ar Some v1 v2 by (auto simp: pipe_create_def split: option.splits)
      moreover have "ends_inv {i} (live s) w3" using V2(1) unfolding ends_inv_def by auto
      ultimately show ?thesis using inv ends_inv_unuse V2(3) by simp
    next
      case False
      then obtain r k where rk: "rk = Some r" "wk = Some k" by auto
      have lt: "r < pipe_vnode_next w3" "k < pipe_vnode_next w3" "r \<noteq> k" "r \<ge> pipe_vnode_next w1" "k \<ge> pipe_vnode_next w1"
        using V1 va [OF _ v2] rk by fastforce+
      define w4 where "w4 = upd_vnode k (\<lambda>_. \<lparr>v_op = Some WriteOps, v_data = Some i\<rparr>)
          (upd_vnode r (\<lambda>_. \<lparr>v_op = Some ReadOps, v_data = Some i\<rparr>) w3)"
      have fresh: "live s f \<noteq> Some (PipeVnode r)" "live s f \<noteq> Some (PipeVnode k)" for f
        using ends_invD(2) [OF E1, of f] lt(4,5) by fastforce+
      have e4: "ends (live s) w4 = ends (live s) w3"
        unfolding w4_def by (simp add: ends_upd_vnode fresh)
      have E4: "ends_inv {} (live s) w4"
        using V2(1) fresh unfolding ends_inv_def e4 by (auto simp: w4_def split: if_splits)
      have "pipe_files p i r k (s\<lparr>vworld := w4\<rparr>) = (res, fds, s')"
        using res ar Some v1 v2 rk by (simp add: pipe_create_def w4_def)
      moreover have "in_use (pipe_pool w4 i)" by (simp add: w4_def V2(2)) (simp add: w1)
      ultimately show ?thesis
        using pipe_files_inv [of "s\<lparr>vworld := w4\<rparr>" i r k p res fds s'] inv E4 e4 V2(3) lt
        by (simp add: w4_def)
    qed
  qed
qed

section \<open>All descriptor operations\<close>

text \<open>
  Operations of the terminal and of file systems do not touch the pipes: they
  are any operations that keep the pipe state.  A suspended write resumes with
  some value of \<open>next\<close> below the ring size.
\<close>

definition keeps_pipes :: "pipe_sys vops \<Rightarrow> bool" where
  "keeps_pipes ops \<longleftrightarrow>
     (\<forall>f n off w. vop_read_at ops = Some f \<longrightarrow> snd (snd (f n off w)) = w) \<and>
     (\<forall>f n w. vop_read ops = Some f \<longrightarrow> snd (snd (f n w)) = w) \<and>
     (\<forall>f bs off w. vop_write_at ops = Some f \<longrightarrow> snd (f bs off w) = w) \<and>
     (\<forall>f bs w. vop_write ops = Some f \<longrightarrow> snd (f bs w) = w)"

definition vnode_ops_of :: "(vnode_id \<Rightarrow> pipe_sys vops) \<Rightarrow> pipe_sys \<Rightarrow> vnode_id \<Rightarrow> pipe_sys vops" where
  "vnode_ops_of other w v =
     (case v of PipeVnode k \<Rightarrow> pipe_ops (v_op (pipe_vnodes w k)) k | _ \<Rightarrow> other v)"

inductive fd_step :: "pipe_sys fdsys \<Rightarrow> pipe_sys fdsys \<Rightarrow> bool" where
  open_step: "sys_open_install (FsVnode n) flags (Some p) s = (r, s') \<Longrightarrow> fd_step s s'"
| dup_step: "fd_dup (Some p) fd s = (r, s') \<Longrightarrow> fd_step s s'"
| close_step: "fd_close pipe_close (Some p) fd s = (r, s') \<Longrightarrow> fd_step s s'"
| pipe_step': "pipe_create (Some p) s = (r, fds, s') \<Longrightarrow> fd_step s s'"
| fork_step: "\<lbrakk>p \<noteq> c; \<forall>fd. fd_table s c fd = None\<rbrakk> \<Longrightarrow> fd_step s (fd_clone (Some p) (Some c) s)"
| create_step: "\<forall>fd. fd_table s p fd = None \<Longrightarrow> fd_step s (fd_init_stdio (Some p) s)"
| exit_step: "fd_step s (fd_close_all pipe_close (Some p) s)"
| exec_step: "fd_step s (exec_close_fds pipe_close p s)"
| read_step: "\<lbrakk>\<forall>v. keeps_pipes (other v);
    sys_read (vnode_ops_of other (vworld s)) (Some p) fd bad n s = (r, bs, s')\<rbrakk> \<Longrightarrow> fd_step s s'"
| write_step: "\<lbrakk>\<forall>v. keeps_pipes (other v);
    sys_write_fd (vnode_ops_of other (vworld s)) (Some p) fd bad bs s = (r, s')\<rbrakk> \<Longrightarrow> fd_step s s'"
| resume_step: "\<lbrakk>unat nxt < PIPE_BUF_SIZE; pipe_write_loop src (Some nxt) n (pipe_pool (vworld s) i) = (r, q)\<rbrakk> \<Longrightarrow>
    fd_step s (s\<lparr>vworld := upd_pipe i (\<lambda>_. q) (vworld s)\<rparr>)"

definition boot_fdsys :: "pipe_sys fdsys" where
  "boot_fdsys =
     \<lparr>file_pool = (\<lambda>_. \<lparr>f_vnode = None, f_offset = 0, f_flags = 0, refcount = 0\<rparr>), file_pool_inited = False,
      fd_table = (\<lambda>_ _. None),
      vworld = \<lparr>pipe_pool = (\<lambda>_. zero_pipe), pipe_vnodes = (\<lambda>_. \<lparr>v_op = None, v_data = None\<rparr>), pipe_vnode_next = 0\<rparr>\<rparr>"

inductive fd_reach :: "pipe_sys fdsys \<Rightarrow> bool" where
  boot: "fd_reach boot_fdsys"
| step: "\<lbrakk>fd_reach s; fd_step s s'\<rbrakk> \<Longrightarrow> fd_reach s'"

definition rings_ok :: "pipe_sys \<Rightarrow> bool" where
  "rings_ok w \<longleftrightarrow> (\<forall>i. pipe_inv (pipe_pool w i))"

definition fd_ok :: "pipe_sys fdsys \<Rightarrow> bool" where
  "fd_ok s \<longleftrightarrow> fd_inv (\<lambda>_. 0) s \<and> ends_inv {} (live s) (vworld s) \<and> rings_ok (vworld s)"

lemma fd_okD:
  "fd_ok s \<Longrightarrow> fd_inv (\<lambda>_. 0) s" "fd_ok s \<Longrightarrow> ends_inv {} (live s) (vworld s)" "fd_ok s \<Longrightarrow> rings_ok (vworld s)"
  by (simp_all add: fd_ok_def)

text \<open>What a step does to one ring: it moves bytes and keeps the indices in range.\<close>

definition moves_bytes :: "pipe \<Rightarrow> pipe \<Rightarrow> bool" where
  "moves_bytes p q \<longleftrightarrow> readers q = readers p \<and> writers q = writers p \<and> in_use q = in_use p \<and>
     (pipe_inv p \<longrightarrow> pipe_inv q)"

lemma moves_bytes_refl: "moves_bytes p p" and
  moves_bytes_trans: "moves_bytes p q \<Longrightarrow> moves_bytes q r \<Longrightarrow> moves_bytes p r"
  by (simp_all add: moves_bytes_def)

lemma pipe_read_loop_moves: "pipe_read_loop n p = (bs, q) \<Longrightarrow> moves_bytes p q"
proof (induction n arbitrary: p bs)
  case (Suc n)
  then obtain b p1 cs where "pipe_get_byte p = (b, p1)" "pipe_read_loop n p1 = (cs, q)"
    by (auto split: prod.splits)
  moreover from this(1) have "moves_bytes p p1"
    by (auto simp: pipe_get_byte_def moves_bytes_def pipe_inv_def)
  ultimately show ?case using Suc.IH moves_bytes_trans by blast
qed (simp add: moves_bytes_refl)

lemma pipe_read_moves: "pipe_read n p = (r, q) \<Longrightarrow> moves_bytes p q"
  by (auto simp: pipe_read_def Let_def moves_bytes_refl dest: pipe_read_loop_moves split: if_splits prod.splits)

lemma pipe_write_loop_moves:
  "\<lbrakk>pipe_write_loop bs sv n p = (r, q); \<forall>k. sv = Some k \<longrightarrow> unat k < PIPE_BUF_SIZE\<rbrakk> \<Longrightarrow> moves_bytes p q"
proof (induction bs sv n p rule: pipe_write_loop.induct)
  case (2 b bs sv n p)
  let ?nxt = "case sv of Some k \<Rightarrow> k | None \<Rightarrow> (wr p + 1) mod 4096"
  have lt: "unat ?nxt < PIPE_BUF_SIZE" using "2.prems"(2) by (cases sv) auto
  let ?p = "p\<lparr>pbuf := (pbuf p)(unat (wr p) := b), wr := ?nxt\<rparr>"
  have m: "moves_bytes p ?p" using lt by (simp add: moves_bytes_def pipe_inv_def)
  show ?case
  proof (cases "?nxt = rd p \<and> readers p > 0 \<or> readers p \<le> 0")
    case True
    with "2.prems"(1) have "q = p" by (auto simp: Let_def split: if_splits)
    then show ?thesis by (simp add: moves_bytes_refl)
  next
    case False
    then have "pipe_write_loop bs None (Suc n) ?p = (r, q)" using "2.prems"(1) by (auto simp: Let_def)
    with "2.IH" [OF refl] False have "moves_bytes ?p q" by auto
    with m show ?thesis by (rule moves_bytes_trans)
  qed
qed (simp add: moves_bytes_refl)

lemma pipe_write_moves: "pipe_write bs p = (r, q) \<Longrightarrow> moves_bytes p q"
  by (auto simp: pipe_write_def moves_bytes_refl dest: pipe_write_loop_moves split: if_splits)

lemma moves_bytes_ok:
  assumes "ends_inv {} L w" "rings_ok w" "moves_bytes (pipe_pool w i) q"
  shows "ends_inv {} L (upd_pipe i (\<lambda>_. q) w) \<and> rings_ok (upd_pipe i (\<lambda>_. q) w)"
  using ends_inv_upd_data [OF assms(1), of q i] assms(2,3) by (auto simp: moves_bytes_def rings_ok_def)

lemma pipe_vop_moves:
  assumes "ends_inv {} L w" "rings_ok w"
  shows "pipe_vop_read k n w = (r, bs, w') \<Longrightarrow> ends_inv {} L w' \<and> rings_ok w'"
    and "pipe_vop_write k cs w = (r, w') \<Longrightarrow> ends_inv {} L w' \<and> rings_ok w'"
  using assms moves_bytes_ok [OF assms]
  by (auto simp: pipe_vop_read_def pipe_vop_write_def dest!: pipe_read_moves pipe_write_moves
      split: option.splits prod.splits read_result.splits write_result.splits)

lemma rings_ok_upd:
  "\<lbrakk>rings_ok w; \<And>p. pipe_inv p \<Longrightarrow> pipe_inv (f p)\<rbrakk> \<Longrightarrow> rings_ok (upd_pipe i f w)"
  by (simp add: rings_ok_def)

lemma rings_ok_close: "rings_ok w \<Longrightarrow> rings_ok (pipe_close v w)"
  by (auto simp: pipe_close_def pipe_vop_close_read_def pipe_vop_close_write_def pipe_inv_def
      intro!: rings_ok_upd split: vnode_id.split option.split pipe_end.split)

lemma rings_ok_fd_close: "rings_ok (vworld s) \<Longrightarrow> rings_ok (vworld (snd (fd_close pipe_close p fd s)))"
  by (auto simp: fd_close_def file_free_def Let_def rings_ok_close split: option.split)

lemma fd_alloc_vworld: "fd_alloc p f s = (r, s') \<Longrightarrow> vworld s' = vworld s"
  by (auto simp: fd_alloc_def split: option.splits)

lemma file_alloc_vworld: "file_alloc v fl s = (r, s') \<Longrightarrow> vworld s' = vworld s"
  by (auto simp: file_alloc_def Let_def file_pool_init_def split: option.splits)

lemma pipe_install_rings:
  assumes "rings_ok (vworld s)" "pipe_install p i r k s = (res, fds, s')"
  shows "rings_ok (vworld s')"
proof -
  obtain rfd s1 where a1: "fd_alloc (Some p) (Some r) s = (rfd, s1)" by fastforce
  define s2 where "s2 = set_refcount r (refcount (file_pool s1 r) - 1) s1"
  obtain wfd s3 where a2: "fd_alloc (Some p) (Some k) s2 = (wfd, s3)" by fastforce
  have w: "vworld s1 = vworld s" "vworld s3 = vworld s"
    using fd_alloc_vworld [OF a1] fd_alloc_vworld [OF a2] by (simp_all add: s2_def)
  have inv: "\<And>p. pipe_inv p \<Longrightarrow> pipe_inv (p\<lparr>in_use := False\<rparr>)"
    "\<And>p. pipe_inv p \<Longrightarrow> pipe_inv (p\<lparr>readers := 1, writers := 1\<rparr>)" by (simp_all add: pipe_inv_def)
  show ?thesis
    using assms a1 a2 w rings_ok_fd_close [of s3 "Some p" rfd]
    by (auto simp: pipe_install_def s2_def [symmetric] Let_def intro!: rings_ok_upd inv split: if_splits)
qed

lemma pipe_create_rings:
  assumes "rings_ok (vworld s)" "pipe_create (Some p) s = (res, fds, s')"
  shows "rings_ok (vworld s')"
proof -
  have inv: "\<And>p. pipe_inv p \<Longrightarrow> pipe_inv (p\<lparr>in_use := False\<rparr>)" "pipe_inv (zero_pipe\<lparr>in_use := True\<rparr>)"
    by (simp_all add: pipe_inv_def zero_pipe_def)
  have files: "rings_ok (vworld u')" if "rings_ok (vworld u)" "pipe_files p i a b u = (x, y, u')" for u u' i a b x y
  proof -
    obtain rf u1 where a1: "file_alloc (Some (PipeVnode a)) O_RDONLY u = (rf, u1)" by fastforce
    obtain kf u2 where a2: "file_alloc (Some (PipeVnode b)) O_WRONLY u1 = (kf, u2)" by fastforce
    have w: "vworld u2 = vworld u" using file_alloc_vworld [OF a1] file_alloc_vworld [OF a2] by simp
    show ?thesis using that a1 a2 w pipe_install_rings [of u2]
      by (auto simp: pipe_files_def intro!: rings_ok_upd inv split: option.splits)
  qed
  obtain q w1 where ar: "pipe_alloc_ring (vworld s) = (q, w1)" by fastforce
  obtain rk w2 where v1: "pipe_vnode_alloc w1 = (rk, w2)" by fastforce
  obtain wk w3 where v2: "pipe_vnode_alloc w2 = (wk, w3)" by fastforce
  have r1: "rings_ok w1" using ar assms(1) inv(2)
    by (auto simp: pipe_alloc_ring_def intro!: rings_ok_upd split: option.splits)
  have r3: "rings_ok w3" using r1 v1 v2 by (auto simp: pipe_vnode_alloc_def rings_ok_def split: if_splits)
  then have up: "rings_ok (upd_vnode a f (upd_vnode b g w3))" for a b f g by (simp add: rings_ok_def)
  show ?thesis
  proof (cases "q = None \<or> rk = None \<or> wk = None")
    case True
    with r1 r3 assms(2) ar v1 v2 show ?thesis
      by (auto simp: pipe_create_def intro!: rings_ok_upd inv split: option.splits)
  next
    case False
    then obtain i a b where "q = Some i" "rk = Some a" "wk = Some b" by auto
    with assms(2) ar v1 v2 have "pipe_files p i a b (s\<lparr>vworld :=
        upd_vnode b (\<lambda>_. \<lparr>v_op = Some WriteOps, v_data = Some i\<rparr>)
          (upd_vnode a (\<lambda>_. \<lparr>v_op = Some ReadOps, v_data = Some i\<rparr>) w3)\<rparr>) = (res, fds, s')"
      by (simp add: pipe_create_def)
    from files [OF _ this] up show ?thesis by simp
  qed
qed

text \<open>What a read or a write does: nothing, or one vnode operation.\<close>

lemma sys_read_cases:
  assumes "sys_read ops (Some p) fd bad n s = (r, bs, s')"
  obtains "s' = s"
  | f v g off w where "vop_read_at (ops v) = Some g" "g n off (vworld s) = (r, bs, w)" "s' = advance_offset f r (s\<lparr>vworld := w\<rparr>)"
  | f v g w where "vop_read (ops v) = Some g" "g n (vworld s) = (r, bs, w)" "s' = advance_offset f r (s\<lparr>vworld := w\<rparr>)"
  using assms that by (fastforce simp: sys_read_def split: option.splits if_splits prod.splits)

lemma sys_write_cases:
  assumes "sys_write_fd ops (Some p) fd bad bs s = (r, s')"
  obtains "s' = s"
  | f v g off w where "vop_write_at (ops v) = Some g" "g bs off (vworld s) = (r, w)" "s' = advance_offset f r (s\<lparr>vworld := w\<rparr>)"
  | f v g w where "vop_write (ops v) = Some g" "g bs (vworld s) = (r, w)" "s' = advance_offset f r (s\<lparr>vworld := w\<rparr>)"
  using assms that by (fastforce simp: sys_write_fd_def split: option.splits if_splits prod.splits)

lemma read_step_ok:
  assumes "fd_ok s" "\<forall>v. keeps_pipes (other v)"
    "sys_read (vnode_ops_of other (vworld s)) (Some p) fd bad n s = (r, bs, s')"
  shows "fd_ok s'"
proof -
  have op: "ends_inv {} (live s) w \<and> rings_ok w"
    if "(\<exists>g off. vop_read_at (vnode_ops_of other (vworld s) v) = Some g \<and> g n off (vworld s) = (r, bs, w)) \<or>
        (\<exists>g. vop_read (vnode_ops_of other (vworld s) v) = Some g \<and> g n (vworld s) = (r, bs, w))" for v w
  proof (cases "\<exists>k. v = PipeVnode k")
    case True
    with that show ?thesis using pipe_vop_moves(1) [OF fd_okD(2,3) [OF assms(1)]]
      by (auto simp: vnode_ops_of_def pipe_ops_def split: if_splits)
  next
    case False
    then have "vnode_ops_of other (vworld s) v = other v" by (cases v) (auto simp: vnode_ops_of_def)
    with that assms(2) have "w = vworld s" unfolding keeps_pipes_def by (metis snd_conv)
    with fd_okD [OF assms(1)] show ?thesis by simp
  qed
  from assms(3) show ?thesis
  proof (cases rule: sys_read_cases)
    case 1
    with assms(1) show ?thesis by simp
  next
    case (2 f v g off w)
    with op [of v w] fd_okD(1) [OF assms(1)] show ?thesis by (auto simp: fd_ok_def)
  next
    case (3 f v g w)
    with op [of v w] fd_okD(1) [OF assms(1)] show ?thesis by (auto simp: fd_ok_def)
  qed
qed

lemma write_step_ok:
  assumes "fd_ok s" "\<forall>v. keeps_pipes (other v)"
    "sys_write_fd (vnode_ops_of other (vworld s)) (Some p) fd bad bs s = (r, s')"
  shows "fd_ok s'"
proof -
  have op: "ends_inv {} (live s) w \<and> rings_ok w"
    if "(\<exists>g off. vop_write_at (vnode_ops_of other (vworld s) v) = Some g \<and> g bs off (vworld s) = (r, w)) \<or>
        (\<exists>g. vop_write (vnode_ops_of other (vworld s) v) = Some g \<and> g bs (vworld s) = (r, w))" for v w
  proof (cases "\<exists>k. v = PipeVnode k")
    case True
    with that show ?thesis using pipe_vop_moves(2) [OF fd_okD(2,3) [OF assms(1)]]
      by (auto simp: vnode_ops_of_def pipe_ops_def split: if_splits)
  next
    case False
    then have "vnode_ops_of other (vworld s) v = other v" by (cases v) (auto simp: vnode_ops_of_def)
    with that assms(2) have "w = vworld s" unfolding keeps_pipes_def by (metis snd_conv)
    with fd_okD [OF assms(1)] show ?thesis by simp
  qed
  from assms(3) show ?thesis
  proof (cases rule: sys_write_cases)
    case 1
    with assms(1) show ?thesis by simp
  next
    case (2 f v g off w)
    with op [of v w] fd_okD(1) [OF assms(1)] show ?thesis by (auto simp: fd_ok_def)
  next
    case (3 f v g w)
    with op [of v w] fd_okD(1) [OF assms(1)] show ?thesis by (auto simp: fd_ok_def)
  qed
qed

section \<open>Reachable states\<close>

lemma fd_close_loop_ok:
  assumes "fd_ok s" "i + k \<le> MAX_FILES"
  shows "fd_ok (fd_close_loop pipe_close p i k s)"
proof -
  define P where "P L w \<longleftrightarrow> ends_inv {} L w \<and> rings_ok w" for L w
  have step: "P (L(f := None)) (close_file pipe_close (L f) w)" if "P L w" for L w f
    using that ends_inv_close [of "{}" L w f] rings_ok_close [of w]
    by (auto simp: P_def close_file_def split: option.split)
  have "P (live (fd_close_loop pipe_close p i k s)) (vworld (fd_close_loop pipe_close p i k s))"
  proof (rule fd_close_loop_live [where P = P, OF fd_okD(1) [OF assms(1)] assms(2)])
    show "P (live s) (vworld s)" using fd_okD [OF assms(1)] by (simp add: P_def)
  qed (rule step)
  with fd_close_loop_inv [OF fd_okD(1) [OF assms(1)] assms(2)] show ?thesis by (simp add: fd_ok_def P_def)
qed

lemma stdio_slot_ok:
  assumes "fd_ok s" "fd_table s p fd = None" "fd < MAX_FILES"
  shows "fd_ok (stdio_slot p fd flags s) \<and>
    (\<forall>g. g \<noteq> fd \<longrightarrow> fd_table (stdio_slot p fd flags s) p g = fd_table s p g)"
  using stdio_slot_spec [OF fd_okD(1) [OF assms(1)] assms(2,3), of flags] fd_okD [OF assms(1)]
  by (auto simp: fd_ok_def intro!: ends_inv_open)

lemma fd_step_ok: "fd_step s s' \<Longrightarrow> fd_ok s \<Longrightarrow> fd_ok s'"
proof (induction rule: fd_step.induct)
  case (open_step n flags p s r s')
  note ok = fd_okD [OF open_step(2)]
  show ?case using sys_open_install_spec [OF ok(1) open_step(1)] ok(2,3) ends_inv_open [OF ok(2)]
    by (auto simp: fd_ok_def split: if_splits)
next
  case (dup_step p fd s r s')
  note ok = fd_okD [OF dup_step(2)]
  show ?case using fd_dup_inv [OF ok(1) dup_step(1)] fd_dup_live [OF ok(1) dup_step(1)] ok(2,3)
    by (simp add: fd_ok_def)
next
  case (close_step p fd s r s')
  note ok = fd_okD [OF close_step(2)]
  have "ends_inv {} (live s') (vworld s')"
    using ok(2) by (cases rule: fd_close_live [OF ok(1) close_step(1)]) (auto intro: ends_inv_close)
  then show ?case using fd_close_inv [OF ok(1) close_step(1)] rings_ok_fd_close [OF ok(3), of "Some p" fd] close_step(1)
    by (simp add: fd_ok_def)
next
  case (pipe_step' p s r fds s')
  note ok = fd_okD [OF pipe_step'(2)]
  show ?case using pipe_create_inv [OF ok(1,2) pipe_step'(1)] pipe_create_rings [OF ok(3) pipe_step'(1)]
    by (simp add: fd_ok_def)
next
  case (fork_step p c s)
  note ok = fd_okD [OF fork_step(3)]
  show ?case using fd_clone_inv [OF ok(1) fork_step(1,2)] fd_clone_loop_live [OF ok(1) fork_step(1)] ok(2,3)
    by (simp add: fd_ok_def fd_clone_def)
next
  case (create_step s p)
  have a: "fd_ok (stdio_slot p 0 O_RDONLY s) \<and>
      (\<forall>g. g \<noteq> 0 \<longrightarrow> fd_table (stdio_slot p 0 O_RDONLY s) p g = fd_table s p g)" (is "fd_ok ?a \<and> _")
    by (rule stdio_slot_ok) (use create_step in auto)
  have b: "fd_ok (stdio_slot p 1 O_WRONLY ?a) \<and>
      (\<forall>g. g \<noteq> 1 \<longrightarrow> fd_table (stdio_slot p 1 O_WRONLY ?a) p g = fd_table ?a p g)" (is "fd_ok ?b \<and> _")
    by (rule stdio_slot_ok) (use create_step a in auto)
  have "fd_ok (stdio_slot p 2 O_WRONLY ?b) \<and>
      (\<forall>g. g \<noteq> 2 \<longrightarrow> fd_table (stdio_slot p 2 O_WRONLY ?b) p g = fd_table ?b p g)"
    by (rule stdio_slot_ok) (use create_step a b in auto)
  then show ?case by (simp add: fd_init_stdio_def)
next
  case (exit_step s p)
  then show ?case by (simp add: fd_close_all_def fd_close_loop_ok)
next
  case (exec_step s p)
  then show ?case by (simp add: exec_close_fds_def fd_close_loop_ok)
next
  case (read_step other s p fd bad n r bs s')
  then show ?case using read_step_ok by blast
next
  case (write_step other s p fd bad bs r s')
  then show ?case using write_step_ok by blast
next
  case (resume_step nxt src n s i r q)
  note ok = fd_okD [OF resume_step(3)]
  have "moves_bytes (pipe_pool (vworld s) i) q" by (rule pipe_write_loop_moves [OF resume_step(2)]) (use resume_step(1) in simp)
  from moves_bytes_ok [OF ok(2,3) this] ok(1) show ?case by (simp add: fd_ok_def)
qed

lemma boot_fdsys_ok: "fd_ok boot_fdsys"
proof -
  have "fd_inv (\<lambda>_. 0) boot_fdsys" by (rule fd_invI) (auto simp: boot_fdsys_def fd_entries_def)
  moreover have "live boot_fdsys = (\<lambda>_. None)" by (simp add: live_def boot_fdsys_def fun_eq_iff)
  ultimately show ?thesis
    by (auto simp: fd_ok_def ends_inv_def ends_def rings_ok_def boot_fdsys_def zero_pipe_def pipe_inv_def)
qed

lemma fd_reach_ok: "fd_reach s \<Longrightarrow> fd_ok s"
  by (induction rule: fd_reach.induct) (auto intro: boot_fdsys_ok fd_step_ok)

lemma live_of_fd: "\<lbrakk>fd_ok s; fd_table s p fd = Some f\<rbrakk> \<Longrightarrow> live s f = f_vnode (file_pool s f)"
  using fd_inv_init fd_inv_pos fd_invD(1) by (fastforce simp: live_def fd_ok_def)

text \<open>The open files on one end of a pipe: those a descriptor of some process refers to.\<close>

definition end_files :: "pipe_sys fdsys \<Rightarrow> pipe_end \<Rightarrow> nat \<Rightarrow> nat set" where
  "end_files s e i = {f. \<exists>p fd k. fd_table s p fd = Some f \<and> f_vnode (file_pool s f) = Some (PipeVnode k) \<and>
     v_op (pipe_vnodes (vworld s) k) = Some e \<and> v_data (pipe_vnodes (vworld s) k) = Some i}"

lemma live_fd:
  assumes "fd_ok s" "live s f = Some v"
  shows "\<exists>p fd. fd_table s p fd = Some f" "f_vnode (file_pool s f) = Some v"
proof -
  have l: "file_pool_inited s" "f < FILE_POOL_SIZE" "refcount (file_pool s f) > 0" "f_vnode (file_pool s f) = Some v"
    using assms(2) by (auto simp: live_def split: if_splits)
  then have "fd_entries s f \<noteq> {}" using fd_invD(4) [OF fd_okD(1) [OF assms(1)] l(1,2)] by auto
  then show "\<exists>p fd. fd_table s p fd = Some f" by (auto simp: fd_entries_def)
  show "f_vnode (file_pool s f) = Some v" by (rule l(4))
qed

lemma end_files_ends: "fd_ok s \<Longrightarrow> end_files s e i = ends (live s) (vworld s) e i"
proof (rule set_eqI)
  fix f assume ok: "fd_ok s"
  have "(\<exists>p fd. fd_table s p fd = Some f) \<and> f_vnode (file_pool s f) = Some (PipeVnode k) \<longleftrightarrow> live s f = Some (PipeVnode k)" for k
    using live_of_fd [OF ok] live_fd [OF ok] by metis
  then show "f \<in> end_files s e i \<longleftrightarrow> f \<in> ends (live s) (vworld s) e i"
    unfolding end_files_def ends_def mem_Collect_eq by metis
qed

lemma end_files_counted:
  assumes "fd_ok s"
  shows "finite (end_files s e i)"
    "in_use (pipe_pool (vworld s) i) \<Longrightarrow> readers (pipe_pool (vworld s) i) = int (card (end_files s ReadOps i))"
    "in_use (pipe_pool (vworld s) i) \<Longrightarrow> writers (pipe_pool (vworld s) i) = int (card (end_files s WriteOps i))"
    "\<not> in_use (pipe_pool (vworld s) i) \<Longrightarrow> end_files s e i = {}"
  using ends_invD(3) [OF fd_okD(2) [OF assms], of i] ends_invD(4) [OF fd_okD(2) [OF assms], of i e]
    finite_ends [OF ends_invD(1) [OF fd_okD(2) [OF assms]]]
  by (simp_all add: end_files_ends [OF assms])

definition piped_fdsys :: "pipe_sys fdsys" where
  "piped_fdsys = snd (snd (pipe_create (Some 1) boot_fdsys))"

definition half_closed_fdsys :: "pipe_sys fdsys" where
  "half_closed_fdsys = snd (fd_close pipe_close (Some 1) 1 piped_fdsys)"

lemma fd_reach_piped: "fd_reach piped_fdsys"
proof -
  obtain r fds s where c: "pipe_create (Some 1) boot_fdsys = (r, fds, s)" by (metis prod.exhaust)
  with fd_reach.step [OF fd_reach.boot fd_step.pipe_step' [OF c]] show ?thesis by (simp add: piped_fdsys_def)
qed

lemma fd_reach_half_closed: "fd_reach half_closed_fdsys"
proof -
  obtain r s where c: "fd_close pipe_close (Some 1) 1 piped_fdsys = (r, s)" by fastforce
  with fd_reach.step [OF fd_reach_piped fd_step.close_step [OF c]] show ?thesis by (simp add: half_closed_fdsys_def)
qed

text \<open>C10: in every state the descriptor operations of all processes can reach from
  boot, an open file is counted exactly once for each descriptor that refers to
  it, in any process, so its count is positive; and allocating a file never
  hands out one that a descriptor still refers to.\<close>

theorem open_files_counted:
  assumes "fd_reach s" "fd_table s p fd = Some f"
  shows "refcount (file_pool s f) = int (card {(q, g). fd_table s q g = Some f}) \<and>
    refcount (file_pool s f) > 0 \<and> fst (file_alloc vp flags s) \<noteq> Some f"
proof -
  have inv: "fd_inv (\<lambda>_. 0) s" by (rule fd_okD(1) [OF fd_reach_ok [OF assms(1)]])
  have ini: "file_pool_inited s" by (rule fd_inv_init [OF inv assms(2)])
  have "fd_entries s f = {(q, g). fd_table s q g = Some f}" by (auto simp: fd_entries_def)
  moreover have "fst (file_alloc vp flags s) \<noteq> Some f"
    using file_alloc_inv [OF inv, of vp flags] assms(2)
    by (cases "file_alloc vp flags s") (force simp: fd_entries_def split: option.splits)
  ultimately show ?thesis
    using fd_invD(4) [OF inv ini, of f] fd_invD(1) [OF inv assms(2)] fd_inv_pos [OF inv assms(2)] by simp
qed

theorem open_files_counted_witness:
  "fd_table piped_fdsys 1 0 = Some 0 \<and>
   refcount (file_pool piped_fdsys 0) = int (card {(q, g). fd_table piped_fdsys q g = Some 0}) \<and>
   fst (file_alloc None 0 piped_fdsys) \<noteq> Some 0"
proof -
  have t: "fd_table piped_fdsys 1 0 = Some 0" by code_simp
  from open_files_counted [OF fd_reach_piped t, of None 0] t show ?thesis by simp
qed

text \<open>C21: in every reachable state the reader and the writer count of a pipe in use
  are the numbers of open files on its read end and on its write end, zero
  included; a pipe not in use has no open file on either end, and every
  descriptor on a pipe refers to an end of one.\<close>

theorem pipe_ends_counted:
  assumes "fd_reach s"
  shows "(\<forall>i. if in_use (pipe_pool (vworld s) i)
        then readers (pipe_pool (vworld s) i) = int (card (end_files s ReadOps i)) \<and>
             writers (pipe_pool (vworld s) i) = int (card (end_files s WriteOps i))
        else end_files s ReadOps i = {} \<and> end_files s WriteOps i = {}) \<and>
    (\<forall>p fd f k. fd_table s p fd = Some f \<longrightarrow> f_vnode (file_pool s f) = Some (PipeVnode k) \<longrightarrow>
        (\<exists>e i. f \<in> end_files s e i \<and> in_use (pipe_pool (vworld s) i)))"
proof -
  have ok: "fd_ok s" by (rule fd_reach_ok [OF assms])
  note c = end_files_counted [OF ok]
  have "\<exists>e i. f \<in> end_files s e i \<and> in_use (pipe_pool (vworld s) i)"
    if f: "fd_table s p fd = Some f" "f_vnode (file_pool s f) = Some (PipeVnode k)" for p fd f k
  proof -
    have "live s f = Some (PipeVnode k)" using live_of_fd [OF ok f(1)] f(2) by simp
    from ends_invD(2) [OF fd_okD(2) [OF ok] this] f obtain e i where "f \<in> end_files s e i"
      by (auto simp: end_files_def)
    with c(4) [of i e] show ?thesis by blast
  qed
  with c(2-4) show ?thesis by simp
qed

theorem pipe_ends_counted_witness:
  "readers (pipe_pool (vworld half_closed_fdsys) 0) = 1 \<and> card (end_files half_closed_fdsys ReadOps 0) = 1 \<and>
   writers (pipe_pool (vworld half_closed_fdsys) 0) = 0 \<and> card (end_files half_closed_fdsys WriteOps 0) = 0 \<and>
   writers (pipe_pool (vworld piped_fdsys) 0) = 1 \<and> card (end_files piped_fdsys WriteOps 0) = 1"
proof -
  have "in_use (pipe_pool (vworld half_closed_fdsys) 0)" "readers (pipe_pool (vworld half_closed_fdsys) 0) = 1"
    "writers (pipe_pool (vworld half_closed_fdsys) 0) = 0" "in_use (pipe_pool (vworld piped_fdsys) 0)"
    "writers (pipe_pool (vworld piped_fdsys) 0) = 1" by code_simp+
  with pipe_ends_counted [OF fd_reach_half_closed, THEN conjunct1, rule_format, of 0]
    pipe_ends_counted [OF fd_reach_piped, THEN conjunct1, rule_format, of 0] show ?thesis by simp
qed

text \<open>C22: in every reachable state a read of at least one byte through a descriptor
  on the read end of a pipe reports end of file (returns 0) exactly when the
  pipe is empty and no process has a descriptor left that could write to it,
  and waits exactly when the pipe is empty and some process has one.\<close>

theorem pipe_eof_no_writers:
  assumes "fd_reach s" "fd_table s p fd = Some f" "f_vnode (file_pool s f) = Some (PipeVnode k)"
    "v_data (pipe_vnodes (vworld s) k) = Some i" "0 < n"
  shows "(fst (pipe_vop_read k n (vworld s)) = Some 0 \<longleftrightarrow>
      pipe_contents (pipe_pool (vworld s) i) = [] \<and> end_files s WriteOps i = {}) \<and>
    (fst (pipe_vop_read k n (vworld s)) = None \<longleftrightarrow>
      pipe_contents (pipe_pool (vworld s) i) = [] \<and> end_files s WriteOps i \<noteq> {})"
proof -
  let ?p = "pipe_pool (vworld s) i"
  have ok: "fd_ok s" by (rule fd_reach_ok [OF assms(1)])
  have "live s f = Some (PipeVnode k)" using live_of_fd [OF ok assms(2)] assms(3) by simp
  from ends_invD(2) [OF fd_okD(2) [OF ok] this] assms(2-4) obtain e where "f \<in> end_files s e i"
    by (auto simp: end_files_def)
  then have "in_use ?p" using end_files_counted(4) [OF ok, of i e] by blast
  then have w: "writers ?p > 0 \<longleftrightarrow> end_files s WriteOps i \<noteq> {}"
    using end_files_counted(1,3) [OF ok] by (simp add: card_gt_0_iff)
  have inv: "pipe_inv ?p" using fd_okD(3) [OF ok] by (simp add: rings_ok_def)
  show ?thesis
  proof (cases "pipe_contents ?p = []")
    case True
    then have "rd ?p = wr ?p" using pipe_contents_empty [OF inv] by simp
    with True w assms(4) show ?thesis by (simp add: pipe_vop_read_def pipe_read_def)
  next
    case False
    with pipe_read_spec [OF inv, of n] assms(4,5) show ?thesis by (auto simp: pipe_vop_read_def min_def split: if_splits)
  qed
qed

theorem pipe_eof_no_writers_witness:
  "fst (pipe_vop_read 0 1 (vworld half_closed_fdsys)) = Some 0 \<and> end_files half_closed_fdsys WriteOps 0 = {} \<and>
   fst (pipe_vop_read 0 1 (vworld piped_fdsys)) = None \<and> end_files piped_fdsys WriteOps 0 \<noteq> {}"
proof -
  have h: "fd_table half_closed_fdsys 1 0 = Some 0" "f_vnode (file_pool half_closed_fdsys 0) = Some (PipeVnode 0)"
    "v_data (pipe_vnodes (vworld half_closed_fdsys) 0) = Some 0" "fst (pipe_vop_read 0 1 (vworld half_closed_fdsys)) = Some 0"
    by code_simp+
  have p: "fd_table piped_fdsys 1 0 = Some 0" "f_vnode (file_pool piped_fdsys 0) = Some (PipeVnode 0)"
    "v_data (pipe_vnodes (vworld piped_fdsys) 0) = Some 0" "fst (pipe_vop_read 0 1 (vworld piped_fdsys)) = None"
    by code_simp+
  show ?thesis
    using pipe_eof_no_writers [OF fd_reach_half_closed h(1-3), of 1] h(4)
      pipe_eof_no_writers [OF fd_reach_piped p(1-3), of 1] p(4) by simp
qed

end
