(* ===== verification/Signals.thy ===== *)
theory Signals
  imports Kernel_Prelude
begin

text \<open>
  The signal state of a process (\<open>signal.h\<close>, \<open>signal.c\<close>): handlers, the pending
  and blocked masks, and the operations on them.  Signal sets are 64-bit masks
  with signal \<open>s\<close> at bit \<open>s - 1\<close>; handlers are addresses, 0 for the default and
  1 for ignoring.  Delivery changes the scheduler and is in the process theory.
\<close>

unbundle bit_operations_syntax

abbreviation NSIG :: int where "NSIG \<equiv> 32"
abbreviation SIGKILL :: int where "SIGKILL \<equiv> 9"
abbreviation SIGSTOP :: int where "SIGSTOP \<equiv> 19"
abbreviation SIG_DFL :: u64 where "SIG_DFL \<equiv> 0"
abbreviation SIG_IGN :: u64 where "SIG_IGN \<equiv> 1"

datatype sig_default_action = SIG_ACTION_TERM | SIG_ACTION_IGN | SIG_ACTION_CORE | SIG_ACTION_STOP | SIG_ACTION_CONT

record signal_struct =
  handlers :: "u64 array"
  pending :: u64
  blocked :: u64
  sigstack :: u64
  saved_rip :: u64
  saved_rsp :: u64
  in_signal_handler :: bool

definition sig_mask :: "int \<Rightarrow> u64" where
  "sig_mask sig = push_bit (nat (sig - 1)) 1"

definition sigaddset :: "u64 \<Rightarrow> int \<Rightarrow> u64" where
  "sigaddset m sig = m OR sig_mask sig"

definition sigdelset :: "u64 \<Rightarrow> int \<Rightarrow> u64" where
  "sigdelset m sig = m AND NOT (sig_mask sig)"

definition sigismember :: "u64 \<Rightarrow> int \<Rightarrow> bool" where
  "sigismember m sig \<longleftrightarrow> m AND sig_mask sig \<noteq> 0"

definition default_actions :: "nat \<Rightarrow> sig_default_action" where
  "default_actions n =
     (if n \<in> {0, 17, 23, 28} then SIG_ACTION_IGN
      else if n \<in> {3, 4, 5, 6, 7, 8, 11, 24, 25, 31} then SIG_ACTION_CORE
      else if n = 18 then SIG_ACTION_CONT
      else if n \<in> {19, 20, 21, 22} then SIG_ACTION_STOP
      else SIG_ACTION_TERM)"

definition signal_init :: "signal_struct \<Rightarrow> signal_struct" where
  "signal_init sig =
     sig\<lparr>handlers := (\<lambda>i. if i < 32 then SIG_DFL else handlers sig i), pending := 0, blocked := 0,
         sigstack := 0, in_signal_handler := False, saved_rip := 0, saved_rsp := 0\<rparr>"

definition signal_default_action :: "int \<Rightarrow> sig_default_action" where
  "signal_default_action signo =
     (if signo \<le> 0 \<or> signo \<ge> NSIG then SIG_ACTION_IGN else default_actions (nat signo))"

definition signal_pending :: "signal_struct \<Rightarrow> bool" where
  "signal_pending sig \<longleftrightarrow> pending sig AND NOT (blocked sig) \<noteq> 0"

definition signal_next_pending :: "signal_struct \<Rightarrow> int" where
  "signal_next_pending sig =
     (let ready = pending sig AND NOT (blocked sig) in
      if ready = 0 then 0
      else case find (\<lambda>i. ready AND push_bit (nat (i - 1)) 1 \<noteq> 0) [1..31] of
        Some i \<Rightarrow> i | None \<Rightarrow> 0)"

definition signal_queue :: "int \<Rightarrow> signal_struct \<Rightarrow> signal_struct" where
  "signal_queue signo sig =
     (if signo \<le> 0 \<or> signo \<ge> NSIG then sig else sig\<lparr>pending := sigaddset (pending sig) signo\<rparr>)"

definition signal_dequeue :: "int \<Rightarrow> signal_struct \<Rightarrow> signal_struct" where
  "signal_dequeue signo sig =
     (if signo \<le> 0 \<or> signo \<ge> NSIG then sig else sig\<lparr>pending := sigdelset (pending sig) signo\<rparr>)"

definition install_handler :: "int \<Rightarrow> u64 \<Rightarrow> signal_struct \<Rightarrow> signal_struct" where
  "install_handler signo handler sig =
     (if signo < 1 \<or> signo > 31 then sig
      else if signo = SIGKILL \<or> signo = SIGSTOP then sig
      else sig\<lparr>handlers := (handlers sig)(nat signo := handler)\<rparr>)"

section \<open>Pending signals as a set\<close>

definition pending_set :: "signal_struct \<Rightarrow> int set" where
  "pending_set sig = {i. 1 \<le> i \<and> i \<le> 31 \<and> bit (pending sig) (nat (i - 1))}"

definition blocked_set :: "signal_struct \<Rightarrow> int set" where
  "blocked_set sig = {i. 1 \<le> i \<and> i \<le> 31 \<and> bit (blocked sig) (nat (i - 1))}"

lemma and_mask_iff: "(w :: u64) AND push_bit k 1 \<noteq> 0 \<longleftrightarrow> k < 64 \<and> bit w k"
proof
  assume "w AND push_bit k 1 \<noteq> 0"
  then obtain n where "bit (w AND push_bit k 1) n" using bit_eq_iff [of "w AND push_bit k 1" 0] by auto
  then show "k < 64 \<and> bit w k" by (auto simp: bit_simps)
next
  assume a: "k < 64 \<and> bit w k"
  then have "bit (w AND push_bit k 1) k" by (auto simp: bit_simps)
  then show "w AND push_bit k 1 \<noteq> 0" by (metis bit_0_eq bot_apply bot_bool_def)
qed

lemma pending_set_queue:
  "1 \<le> s \<Longrightarrow> s \<le> 31 \<Longrightarrow> pending_set (signal_queue s sig) = insert s (pending_set sig)"
  by (auto simp: pending_set_def signal_queue_def sigaddset_def sig_mask_def bit_simps)

lemma pending_set_dequeue:
  "1 \<le> s \<Longrightarrow> s \<le> 31 \<Longrightarrow> pending_set (signal_dequeue s sig) = pending_set sig - {s}"
  by (auto simp: pending_set_def signal_dequeue_def sigdelset_def sig_mask_def bit_simps)

text \<open>The scan finds the lowest pending signal that is not blocked, if there is one.\<close>

lemma find_upto_Min:
  assumes "find P [1..31] = Some (i :: int)"
  shows "1 \<le> i" "i \<le> 31" "P i" "\<And>j. 1 \<le> j \<Longrightarrow> j < i \<Longrightarrow> \<not> P j"
proof -
  from assms obtain k where k: "k < length [1..31]" "P ([1..31] ! k)" "i = [1..31] ! k"
    "\<forall>j<k. \<not> P ([1..31] ! j)" by (auto simp: find_Some_iff)
  have i: "i = 1 + int k" using k(1,3) by (simp add: nth_upto)
  with k show "1 \<le> i" "i \<le> 31" "P i" by auto
  fix j :: int assume "1 \<le> j" "j < i"
  then have "nat (j - 1) < k" "[1..31] ! nat (j - 1) = j" using i k(1) by (auto simp: nth_upto)
  with k(4) show "\<not> P j" by metis
qed

lemma ready_bit:
  "1 \<le> i \<Longrightarrow> i \<le> 31 \<Longrightarrow>
     (pending sig AND NOT (blocked sig)) AND push_bit (nat (i - 1)) 1 \<noteq> 0 \<longleftrightarrow> i \<in> pending_set sig - blocked_set sig"
  unfolding and_mask_iff by (auto simp: pending_set_def blocked_set_def bit_simps)

lemma signal_next_pending_spec:
  "signal_next_pending sig =
     (if pending_set sig - blocked_set sig = {} then 0 else Min (pending_set sig - blocked_set sig))"
proof -
  let ?P = "\<lambda>i :: int. (pending sig AND NOT (blocked sig)) AND push_bit (nat (i - 1)) 1 \<noteq> 0"
  let ?S = "pending_set sig - blocked_set sig"
  have fin: "finite ?S" by (rule finite_subset [of _ "{1..31}"]) (auto simp: pending_set_def)
  have range: "1 \<le> i \<and> i \<le> 31" if "i \<in> ?S" for i using that by (auto simp: pending_set_def)
  show ?thesis
  proof (cases "find ?P [1..31]")
    case None
    then have "\<not> ?P i" if "1 \<le> i" "i \<le> 31" for i using that by (auto simp: find_None_iff)
    then have "?S = {}" using range ready_bit by blast
    then show ?thesis using None by (simp add: signal_next_pending_def Let_def)
  next
    case (Some i)
    note f = find_upto_Min [OF Some]
    have m: "i \<in> ?S" using f(1-3) ready_bit by blast
    have "Min ?S = i"
      by (rule Min_eqI [OF fin]) (use m f(4) ready_bit range in \<open>force+\<close>)
    moreover have "pending sig AND NOT (blocked sig) \<noteq> 0" using f(3) by force
    ultimately show ?thesis using Some m by (auto simp: signal_next_pending_def Let_def)
  qed
qed

end
