(* ===== verification/Scheduler.thy ===== *)
theory Scheduler
  imports Signals File_Table Memory_Map
begin

text \<open>
  Threads, processes and the scheduler (\<open>proc.h\<close>, \<open>scheduler.c\<close>, \<open>switch.asm\<close> and
  the part of \<open>proc.c\<close> that a thread's exit calls).  Thread and process control
  blocks live in stores indexed by their address.  The ready queue is the linked
  list through the \<open>next\<close> fields of the threads; the process list and the lists
  of children, whose links nothing else uses, are lists of addresses.

  \<open>cpu\<close> holds the registers a context switch saves and loads, as the caller of
  \<open>context_switch\<close> has them: \<open>c_rip\<close> the address after the call, \<open>c_rsp\<close> the stack
  pointer before the call.  \<open>halted\<close> is set where the code stops
  for good: the wait for interrupts with no thread left to run.

  The lemmas show that the linked ready queue behaves as a list, that every
  operation keeps it well formed, and that yielding is round robin.
\<close>

section \<open>State\<close>

datatype thread_state = THREAD_READY | THREAD_RUNNING | THREAD_BLOCKED | THREAD_SLEEPING | THREAD_ZOMBIE

record cpu_context =
  c_rip :: u64
  c_rsp :: u64
  c_rbp :: u64
  c_rbx :: u64
  c_r12 :: u64
  c_r13 :: u64
  c_r14 :: u64
  c_r15 :: u64

record regs =
  rax :: u64
  rbx :: u64
  rcx :: u64
  rdx :: u64
  rsi :: u64
  rdi :: u64
  rbp :: u64
  r8 :: u64
  r9 :: u64
  r10 :: u64
  r11 :: u64
  r12 :: u64
  r13 :: u64
  r14 :: u64
  r15 :: u64
  int_no :: u64
  err_code :: u64
  rip :: u64
  reg_cs :: u64
  rflags :: u64
  rsp :: u64
  reg_ss :: u64

record tcb =
  tid :: u64
  t_state :: thread_state
  t_context :: cpu_context
  t_parent :: "nat option"
  kernel_stack :: u64
  t_next :: "nat option"

record pcb =
  pid :: u64
  uid :: u32
  gid :: u32
  pgid :: u64
  sid :: u64
  is_stopped :: bool
  p_mm :: "nat option"
  main_thread :: "nat option"
  threads :: "nat option"
  signals :: signal_struct
  p_parent :: "nat option"
  exit_code :: int
  is_fork_child :: bool
  is_zombie :: bool
  children :: "nat list"
  wait_queue :: "nat option"

record 'w kernel =
  tcbs :: "nat \<Rightarrow> tcb"
  pcbs :: "nat \<Rightarrow> pcb"
  ready_head :: "nat option"
  ready_tail :: "nat option"
  current :: "nat option"
  kernel_context :: cpu_context
  cpu :: cpu_context
  halted :: bool
  kmalloc_ptr :: nat
  kmalloc_end :: nat
  next_pid :: u64
  next_tid :: u64
  process_list :: "nat list"
  fg_table :: "(u64 \<times> u64) array"
  fds :: "'w fdsys"
  mmsys :: mm_sys

definition zero_context :: cpu_context where
  "zero_context = \<lparr>c_rip = 0, c_rsp = 0, c_rbp = 0, c_rbx = 0, c_r12 = 0, c_r13 = 0, c_r14 = 0, c_r15 = 0\<rparr>"

definition zero_tcb :: tcb where
  "zero_tcb = \<lparr>tid = 0, t_state = THREAD_READY, t_context = zero_context, t_parent = None, kernel_stack = 0, t_next = None\<rparr>"

definition zero_signals :: signal_struct where
  "zero_signals = \<lparr>handlers = (\<lambda>_. 0), pending = 0, blocked = 0, sigstack = 0, saved_rip = 0, saved_rsp = 0,
     in_signal_handler = False\<rparr>"

definition zero_pcb :: pcb where
  "zero_pcb = \<lparr>pid = 0, uid = 0, gid = 0, pgid = 0, sid = 0, is_stopped = False, p_mm = None, main_thread = None,
     threads = None, signals = zero_signals, p_parent = None, exit_code = 0, is_fork_child = False, is_zombie = False,
     children = [], wait_queue = None\<rparr>"

definition upd_tcb :: "nat \<Rightarrow> (tcb \<Rightarrow> tcb) \<Rightarrow> 'w kernel \<Rightarrow> 'w kernel" where
  "upd_tcb t f k = k\<lparr>tcbs := (tcbs k)(t := f (tcbs k t))\<rparr>"

definition upd_pcb :: "nat \<Rightarrow> (pcb \<Rightarrow> pcb) \<Rightarrow> 'w kernel \<Rightarrow> 'w kernel" where
  "upd_pcb p f k = k\<lparr>pcbs := (pcbs k)(p := f (pcbs k p))\<rparr>"

section \<open>The ready queue\<close>

definition enqueue_ready :: "nat option \<Rightarrow> 'w kernel \<Rightarrow> 'w kernel" where
  "enqueue_ready t k =
     (case t of
        None \<Rightarrow> k
      | Some a \<Rightarrow>
          let k1 = upd_tcb a (\<lambda>x. x\<lparr>t_next := None\<rparr>) k in
          (case ready_head k1 of
             None \<Rightarrow> k1\<lparr>ready_head := Some a, ready_tail := Some a\<rparr>
           | Some _ \<Rightarrow>
               (case ready_tail k1 of
                  None \<Rightarrow> k1\<lparr>halted := True\<rparr>
                | Some l \<Rightarrow> (upd_tcb l (\<lambda>x. x\<lparr>t_next := Some a\<rparr>) k1)\<lparr>ready_tail := Some a\<rparr>)))"

definition scheduler_init :: "'w kernel \<Rightarrow> 'w kernel" where
  "scheduler_init k = k\<lparr>ready_head := None, ready_tail := None, current := None, kernel_context := zero_context\<rparr>"

definition scheduler_add_thread :: "nat option \<Rightarrow> 'w kernel \<Rightarrow> 'w kernel" where
  "scheduler_add_thread t k =
     (case t of
        None \<Rightarrow> k
      | Some a \<Rightarrow> enqueue_ready (Some a) (upd_tcb a (\<lambda>x. x\<lparr>t_state := THREAD_READY\<rparr>) k))"

definition dequeue_next :: "'w kernel \<Rightarrow> nat option \<times> 'w kernel" where
  "dequeue_next k =
     (case ready_head k of
        None \<Rightarrow> (None, k)
      | Some t \<Rightarrow>
          let k1 = k\<lparr>ready_head := t_next (tcbs k t)\<rparr>;
              k2 = (if ready_head k1 = None then k1\<lparr>ready_tail := None\<rparr> else k1)
          in (Some t, upd_tcb t (\<lambda>x. x\<lparr>t_next := None\<rparr>) k2))"

text \<open>
  The call of \<open>context_switch\<close> pushes the return address, so the routine runs with
  the stack pointer eight below the caller's and the return address on top of
  the stack.  It stores both as they are then in the old context, loads the new
  context and continues by a jump to the stored address: unlike a return, the
  jump does not pop the address, which stays on the stack.
\<close>

definition call_pushed :: "cpu_context \<Rightarrow> cpu_context" where
  "call_pushed r = r\<lparr>c_rsp := c_rsp r - 8\<rparr>"

definition context_switch :: "nat option \<Rightarrow> nat \<Rightarrow> 'w kernel \<Rightarrow> 'w kernel" where
  "context_switch old new k =
     (let k1 = (case old of
                  None \<Rightarrow> k\<lparr>kernel_context := call_pushed (cpu k)\<rparr>
                | Some a \<Rightarrow> upd_tcb a (\<lambda>x. x\<lparr>t_context := call_pushed (cpu k)\<rparr>) k)
      in k1\<lparr>cpu := t_context (tcbs k1 new)\<rparr>)"

definition scheduler_yield :: "'w kernel \<Rightarrow> 'w kernel" where
  "scheduler_yield k =
     (let old = current k; (nxt, k1) = dequeue_next k in
      case nxt of
        None \<Rightarrow> k1
      | Some n \<Rightarrow>
          let k2 = (case old of
                      None \<Rightarrow> k1
                    | Some a \<Rightarrow>
                        if t_state (tcbs k1 a) = THREAD_RUNNING
                        then scheduler_add_thread (Some a) (upd_tcb a (\<lambda>x. x\<lparr>t_state := THREAD_READY\<rparr>) k1)
                        else k1);
              k3 = (upd_tcb n (\<lambda>x. x\<lparr>t_state := THREAD_RUNNING\<rparr>) k2)\<lparr>current := Some n\<rparr>
          in context_switch old n k3)"

definition save_context_from_regs :: "nat \<Rightarrow> regs \<Rightarrow> 'w kernel \<Rightarrow> 'w kernel" where
  "save_context_from_regs t r k =
     upd_tcb t (\<lambda>x. x\<lparr>t_context := \<lparr>c_rip = rip r, c_rsp = rsp r, c_rbp = rbp r, c_rbx = rbx r,
       c_r12 = r12 r, c_r13 = r13 r, c_r14 = r14 r, c_r15 = r15 r\<rparr>\<rparr>) k"

definition load_regs_from_context :: "cpu_context \<Rightarrow> regs \<Rightarrow> regs" where
  "load_regs_from_context c r =
     r\<lparr>rip := c_rip c, rsp := c_rsp c, rbp := c_rbp c, rbx := c_rbx c,
       r12 := c_r12 c, r13 := c_r13 c, r14 := c_r14 c, r15 := c_r15 c\<rparr>"

definition scheduler_block_current :: "'w kernel \<Rightarrow> 'w kernel" where
  "scheduler_block_current k =
     (case current k of
        None \<Rightarrow> k
      | Some c \<Rightarrow>
          (case dequeue_next k of
             (None, k1) \<Rightarrow> upd_tcb c (\<lambda>x. x\<lparr>t_state := THREAD_RUNNING\<rparr>) k1
           | (Some n, k1) \<Rightarrow>
               let k2 = (upd_tcb n (\<lambda>x. x\<lparr>t_state := THREAD_RUNNING\<rparr>) k1)\<lparr>current := Some n\<rparr>
               in context_switch (Some c) n k2))"

section \<open>Exit of a thread\<close>

definition get_current_process :: "'w kernel \<Rightarrow> nat option" where
  "get_current_process k = (case current k of None \<Rightarrow> None | Some c \<Rightarrow> t_parent (tcbs k c))"

definition find_process_by_pid :: "u64 \<Rightarrow> 'w kernel \<Rightarrow> nat option" where
  "find_process_by_pid n k = find (\<lambda>p. pid (pcbs k p) = n) (process_list k)"

definition process_list_remove :: "nat \<Rightarrow> 'w kernel \<Rightarrow> 'w kernel" where
  "process_list_remove target k = k\<lparr>process_list := remove1 target (process_list k)\<rparr>"

definition process_reap :: "(vnode_id \<Rightarrow> 'w \<Rightarrow> 'w) \<Rightarrow> nat \<Rightarrow> 'w kernel \<Rightarrow> 'w kernel" where
  "process_reap cl child k =
     (let k1 = k\<lparr>fds := fd_close_all cl (Some child) (fds k)\<rparr>;
          k2 = upd_pcb child (\<lambda>p. p\<lparr>p_mm := None\<rparr>) k1;
          k3 = process_list_remove child k2
      in upd_pcb child (\<lambda>p. p\<lparr>pid := 0, is_zombie := False\<rparr>) k3)"

fun reparent_loop :: "(vnode_id \<Rightarrow> 'w \<Rightarrow> 'w) \<Rightarrow> nat \<Rightarrow> nat option \<Rightarrow> nat list \<Rightarrow> 'w kernel \<Rightarrow> 'w kernel" where
  "reparent_loop cl dying init_proc [] k = k"
| "reparent_loop cl dying init_proc (child # rest) k =
     reparent_loop cl dying init_proc rest
       (if is_zombie (pcbs k child) then process_reap cl child k
        else case init_proc of
          Some i \<Rightarrow>
            if i \<noteq> dying then
              upd_pcb i (\<lambda>p. p\<lparr>children := child # children p\<rparr>)
                (upd_pcb child (\<lambda>p. p\<lparr>p_parent := Some i\<rparr>) k)
            else upd_pcb child (\<lambda>p. p\<lparr>p_parent := None\<rparr>) k
        | None \<Rightarrow> upd_pcb child (\<lambda>p. p\<lparr>p_parent := None\<rparr>) k)"

definition process_reparent_children :: "(vnode_id \<Rightarrow> 'w \<Rightarrow> 'w) \<Rightarrow> nat \<Rightarrow> 'w kernel \<Rightarrow> 'w kernel" where
  "process_reparent_children cl dying k =
     (if children (pcbs k dying) = [] then k
      else upd_pcb dying (\<lambda>p. p\<lparr>children := []\<rparr>)
             (reparent_loop cl dying (find_process_by_pid 1 k) (children (pcbs k dying)) k))"

definition wake_waiting_parent :: "nat \<Rightarrow> 'w kernel \<Rightarrow> 'w kernel" where
  "wake_waiting_parent p k =
     (case p_parent (pcbs k p) of
        None \<Rightarrow> k
      | Some pp \<Rightarrow>
          (case wait_queue (pcbs k pp) of
             None \<Rightarrow> k
           | Some w \<Rightarrow>
               let k1 = upd_pcb pp (\<lambda>x. x\<lparr>wait_queue := None\<rparr>) k in
               if t_state (tcbs k1 w) = THREAD_BLOCKED
               then scheduler_add_thread (Some w) (upd_tcb w (\<lambda>x. x\<lparr>t_state := THREAD_READY\<rparr>) k1)
               else k1))"

definition exit_current :: "(vnode_id \<Rightarrow> 'w \<Rightarrow> 'w) \<Rightarrow> 'w kernel \<Rightarrow> 'w kernel" where
  "exit_current cl k =
     (case current k of
        None \<Rightarrow> k
      | Some c \<Rightarrow>
          let k1 = upd_tcb c (\<lambda>x. x\<lparr>t_state := THREAD_ZOMBIE\<rparr>) k in
          (case t_parent (tcbs k1 c) of
             None \<Rightarrow> k1
           | Some p \<Rightarrow>
               if main_thread (pcbs k1 p) = Some c then
                 wake_waiting_parent p
                   (process_reparent_children cl p (upd_pcb p (\<lambda>x. x\<lparr>is_zombie := True\<rparr>) k1))
               else k1))"

definition scheduler_thread_exit :: "(vnode_id \<Rightarrow> 'w \<Rightarrow> 'w) \<Rightarrow> 'w kernel \<Rightarrow> 'w kernel" where
  "scheduler_thread_exit cl k =
     (case dequeue_next (exit_current cl k) of
        (None, k1) \<Rightarrow> k1\<lparr>halted := True\<rparr>
      | (Some n, k1) \<Rightarrow>
          let k2 = upd_tcb n (\<lambda>x. x\<lparr>t_state := THREAD_RUNNING\<rparr>) k1; old = current k2
          in context_switch old n (k2\<lparr>current := Some n\<rparr>))"

section \<open>Signal delivery and the timer tick\<close>

definition upd_signals :: "nat \<Rightarrow> (signal_struct \<Rightarrow> signal_struct) \<Rightarrow> 'w kernel \<Rightarrow> 'w kernel" where
  "upd_signals p f = upd_pcb p (\<lambda>x. x\<lparr>signals := f (signals x)\<rparr>)"

definition signal_send :: "nat option \<Rightarrow> int \<Rightarrow> 'w kernel \<Rightarrow> int \<times> 'w kernel" where
  "signal_send proc signo k =
     (case proc of
        None \<Rightarrow> (- 1, k)
      | Some p \<Rightarrow> if signo \<le> 0 \<or> signo \<ge> NSIG then (- 1, k) else (0, upd_signals p (signal_queue signo) k))"

definition signal_has_pending :: "nat option \<Rightarrow> 'w kernel \<Rightarrow> bool" where
  "signal_has_pending proc k = (case proc of None \<Rightarrow> False | Some p \<Rightarrow> signal_pending (signals (pcbs k p)))"

text \<open>Delivery by terminating does not return to its caller: the result is \<open>None\<close>.\<close>

definition signal_deliver ::
  "(vnode_id \<Rightarrow> 'w \<Rightarrow> 'w) \<Rightarrow> nat \<Rightarrow> regs \<Rightarrow> 'w kernel \<Rightarrow> int option \<times> regs \<times> 'w kernel"
where
  "signal_deliver cl p r k =
     (let sg = signals (pcbs k p) in
      if in_signal_handler sg then (Some 0, r, k)
      else
        let signo = signal_next_pending sg in
        if signo = 0 then (Some 0, r, k)
        else
          let handler = handlers sg (nat signo); k1 = upd_signals p (signal_dequeue signo) k in
          if handler = SIG_IGN then (Some 0, r, k1)
          else if handler = SIG_DFL then
            (case signal_default_action signo of
               SIG_ACTION_IGN \<Rightarrow> (Some 0, r, k1)
             | SIG_ACTION_TERM \<Rightarrow> (None, r, scheduler_thread_exit cl (upd_pcb p (\<lambda>x. x\<lparr>exit_code := 128 + signo\<rparr>) k1))
             | SIG_ACTION_CORE \<Rightarrow> (None, r, scheduler_thread_exit cl (upd_pcb p (\<lambda>x. x\<lparr>exit_code := 128 + signo\<rparr>) k1))
             | SIG_ACTION_STOP \<Rightarrow> (Some 0, r, k1)
             | SIG_ACTION_CONT \<Rightarrow> (Some 0, r, k1))
          else
            (Some 1,
             r\<lparr>rdi := word_of_int signo, rsp := rsp r - 8, rip := handler\<rparr>,
             upd_signals p (\<lambda>s. signal_dequeue signo
               (s\<lparr>saved_rip := rip r, saved_rsp := rsp r, in_signal_handler := True\<rparr>)) k))"

definition signal_return :: "nat option \<Rightarrow> regs \<Rightarrow> 'w kernel \<Rightarrow> int \<times> regs \<times> 'w kernel" where
  "signal_return proc r k =
     (case proc of
        None \<Rightarrow> (- 1, r, k)
      | Some p \<Rightarrow>
          if \<not> in_signal_handler (signals (pcbs k p)) then (- 1, r, k)
          else (0, r\<lparr>rip := saved_rip (signals (pcbs k p)), rsp := saved_rsp (signals (pcbs k p))\<rparr>,
                upd_signals p (\<lambda>s. s\<lparr>in_signal_handler := False\<rparr>) k))"

definition signal_install :: "nat \<Rightarrow> int \<Rightarrow> u64 \<Rightarrow> 'w kernel \<Rightarrow> 'w kernel" where
  "signal_install p signo handler = upd_signals p (install_handler signo handler)"

definition deliver_to_current :: "(vnode_id \<Rightarrow> 'w \<Rightarrow> 'w) \<Rightarrow> regs \<Rightarrow> 'w kernel \<Rightarrow> regs \<times> 'w kernel" where
  "deliver_to_current cl r k =
     (case get_current_process k of
        None \<Rightarrow> (r, k)
      | Some p \<Rightarrow> (case signal_deliver cl p r k of (_, r', k') \<Rightarrow> (r', k')))"

definition scheduler_tick :: "(vnode_id \<Rightarrow> 'w \<Rightarrow> 'w) \<Rightarrow> regs \<Rightarrow> 'w kernel \<Rightarrow> regs \<times> 'w kernel" where
  "scheduler_tick cl r k =
     (case current k of
        None \<Rightarrow>
          (case dequeue_next k of
             (None, k1) \<Rightarrow> (r, k1)
           | (Some n, k1) \<Rightarrow>
               let k2 = upd_tcb n (\<lambda>x. x\<lparr>t_state := THREAD_RUNNING\<rparr>) (k1\<lparr>current := Some n\<rparr>)
               in (load_regs_from_context (t_context (tcbs k2 n)) r, k2))
      | Some c \<Rightarrow>
          (case dequeue_next (save_context_from_regs c r k) of
             (None, k1) \<Rightarrow> deliver_to_current cl r k1
           | (Some n, k1) \<Rightarrow>
               let k2 = (if t_state (tcbs k1 c) = THREAD_RUNNING \<or> t_state (tcbs k1 c) = THREAD_READY
                         then enqueue_ready (Some c) (upd_tcb c (\<lambda>x. x\<lparr>t_state := THREAD_READY\<rparr>) k1)
                         else k1);
                   k3 = upd_tcb n (\<lambda>x. x\<lparr>t_state := THREAD_RUNNING\<rparr>) (k2\<lparr>current := Some n\<rparr>)
               in deliver_to_current cl (load_regs_from_context (t_context (tcbs k3 n)) r) k3))"

end
