(* ===== verification/Ready_Queue.thy ===== *)
theory Ready_Queue
  imports Scheduler
begin

text \<open>
  The linked ready queue as a list of threads: the queue operations append and
  take from the front, the scheduler keeps the queue well formed (no thread
  twice, every queued thread ready, the running thread not queued), and yielding
  runs the ready threads in turn, each with the registers it yielded with.
\<close>

section \<open>The queue as a list\<close>

fun chain :: "(nat \<Rightarrow> tcb) \<Rightarrow> nat option \<Rightarrow> nat list \<Rightarrow> bool" where
  "chain h p [] \<longleftrightarrow> p = None"
| "chain h p (a # as) \<longleftrightarrow> p = Some a \<and> chain h (t_next (h a)) as"

definition ready_q :: "'w kernel \<Rightarrow> nat list \<Rightarrow> bool" where
  "ready_q k xs \<longleftrightarrow> chain (tcbs k) (ready_head k) xs \<and> distinct xs \<and>
     ready_tail k = (if xs = [] then None else Some (last xs))"

lemma chain_cong: "(\<And>a. a \<in> set xs \<Longrightarrow> t_next (h a) = t_next (h' a)) \<Longrightarrow> chain h p xs = chain h' p xs"
  by (induction xs arbitrary: p) auto

lemma chain_append1:
  "\<lbrakk>chain h p (xs @ [l]); distinct (xs @ [l]); a \<notin> set (xs @ [l]); t_next (h a) = None\<rbrakk> \<Longrightarrow>
     chain (h(l := (h l)\<lparr>t_next := Some a\<rparr>)) p (xs @ [l, a])"
proof (induction xs arbitrary: p)
  case (Cons x xs)
  have "chain (h(l := (h l)\<lparr>t_next := Some a\<rparr>)) (t_next (h x)) (xs @ [l, a])"
    by (rule Cons.IH) (use Cons.prems in auto)
  with Cons.prems show ?case by (auto simp: fun_upd_def)
qed auto

lemma upd_tcb_simps [simp]:
  "tcbs (upd_tcb t f k) = (tcbs k)(t := f (tcbs k t))" "pcbs (upd_tcb t f k) = pcbs k"
  "ready_head (upd_tcb t f k) = ready_head k" "ready_tail (upd_tcb t f k) = ready_tail k"
  "current (upd_tcb t f k) = current k" "cpu (upd_tcb t f k) = cpu k" "halted (upd_tcb t f k) = halted k"
  "fds (upd_tcb t f k) = fds k" "mmsys (upd_tcb t f k) = mmsys k" "process_list (upd_tcb t f k) = process_list k"
  by (simp_all add: upd_tcb_def)

lemma upd_pcb_simps [simp]:
  "pcbs (upd_pcb p f k) = (pcbs k)(p := f (pcbs k p))" "tcbs (upd_pcb p f k) = tcbs k"
  "ready_head (upd_pcb p f k) = ready_head k" "ready_tail (upd_pcb p f k) = ready_tail k"
  "current (upd_pcb p f k) = current k" "cpu (upd_pcb p f k) = cpu k" "halted (upd_pcb p f k) = halted k"
  "fds (upd_pcb p f k) = fds k" "mmsys (upd_pcb p f k) = mmsys k" "process_list (upd_pcb p f k) = process_list k"
  by (simp_all add: upd_pcb_def)

text \<open>What the queue operations leave alone.\<close>

definition same_but_queue :: "'w kernel \<Rightarrow> 'w kernel \<Rightarrow> bool" where
  "same_but_queue k k' \<longleftrightarrow>
     (\<forall>t. t_state (tcbs k' t) = t_state (tcbs k t) \<and> t_context (tcbs k' t) = t_context (tcbs k t) \<and>
          t_parent (tcbs k' t) = t_parent (tcbs k t)) \<and>
     pcbs k' = pcbs k \<and> current k' = current k \<and> cpu k' = cpu k \<and> halted k' = halted k \<and>
     fds k' = fds k \<and> mmsys k' = mmsys k \<and> process_list k' = process_list k"

lemma enqueue_ready_spec:
  assumes "ready_q k xs" "a \<notin> set xs"
  shows "ready_q (enqueue_ready (Some a) k) (xs @ [a]) \<and> same_but_queue k (enqueue_ready (Some a) k)"
proof (cases xs rule: rev_cases)
  case Nil
  with assms show ?thesis
    by (auto simp: enqueue_ready_def ready_q_def same_but_queue_def Let_def)
next
  case (snoc ys l)
  let ?h = "(tcbs k)(a := (tcbs k a)\<lparr>t_next := None\<rparr>)"
  have "chain ?h (ready_head k) (ys @ [l]) = chain (tcbs k) (ready_head k) (ys @ [l])"
    by (rule chain_cong) (use assms(2) snoc in auto)
  then have c: "chain ?h (ready_head k) (ys @ [l])" using assms(1) snoc by (simp add: ready_q_def)
  have "chain (?h(l := (?h l)\<lparr>t_next := Some a\<rparr>)) (ready_head k) (ys @ [l, a])"
    by (rule chain_append1 [OF c]) (use assms snoc in \<open>auto simp: ready_q_def\<close>)
  moreover have "ready_tail k = Some l" "ready_head k \<noteq> None"
    using assms(1) snoc by (auto simp: ready_q_def) (cases ys; simp)
  ultimately show ?thesis using assms snoc
    by (auto simp: enqueue_ready_def ready_q_def same_but_queue_def Let_def)
qed

lemma dequeue_next_empty: "ready_q k [] \<Longrightarrow> dequeue_next k = (None, k)"
  by (simp add: ready_q_def dequeue_next_def)

lemma dequeue_next_spec:
  assumes "ready_q k (n # ns)"
  shows "fst (dequeue_next k) = Some n \<and> ready_q (snd (dequeue_next k)) ns \<and>
    same_but_queue k (snd (dequeue_next k))"
proof -
  let ?h = "(tcbs k)(n := (tcbs k n)\<lparr>t_next := None\<rparr>)"
  have c: "ready_head k = Some n" "chain (tcbs k) (t_next (tcbs k n)) ns" "n \<notin> set ns"
    using assms by (auto simp: ready_q_def)
  have "chain ?h (t_next (tcbs k n)) ns = chain (tcbs k) (t_next (tcbs k n)) ns"
    by (rule chain_cong) (use c(3) in auto)
  moreover have "t_next (tcbs k n) = None \<longleftrightarrow> ns = []" using c(2) by (cases ns) auto
  ultimately show ?thesis using assms c
    by (auto simp: dequeue_next_def ready_q_def same_but_queue_def Let_def)
qed

section \<open>The scheduler's invariant\<close>

definition sched_inv :: "'w kernel \<Rightarrow> nat list \<Rightarrow> bool" where
  "sched_inv k xs \<longleftrightarrow> ready_q k xs \<and> (\<forall>t \<in> set xs. t_state (tcbs k t) = THREAD_READY) \<and>
     (\<forall>c. current k = Some c \<longrightarrow> c \<notin> set xs)"

lemma ready_q_cong:
  assumes "ready_q k xs" "\<And>t. t \<in> set xs \<Longrightarrow> t_next (tcbs k' t) = t_next (tcbs k t)"
    "ready_head k' = ready_head k" "ready_tail k' = ready_tail k"
  shows "ready_q k' xs"
  using assms chain_cong [of xs "tcbs k" "tcbs k'" "ready_head k"] by (auto simp: ready_q_def)

lemma sched_inv_cong:
  assumes "sched_inv k xs" "\<And>t. t \<in> set xs \<Longrightarrow> t_next (tcbs k' t) = t_next (tcbs k t) \<and> t_state (tcbs k' t) = t_state (tcbs k t)"
    "ready_head k' = ready_head k" "ready_tail k' = ready_tail k" "\<And>c. current k' = Some c \<Longrightarrow> c \<notin> set xs"
  shows "sched_inv k' xs"
  using assms ready_q_cong [of k xs k'] by (auto simp: sched_inv_def)

lemma scheduler_add_thread_spec:
  assumes "sched_inv k xs" "a \<notin> set xs" "current k \<noteq> Some a"
  shows "sched_inv (scheduler_add_thread (Some a) k) (xs @ [a]) \<and>
    same_but_queue (upd_tcb a (\<lambda>x. x\<lparr>t_state := THREAD_READY\<rparr>) k) (scheduler_add_thread (Some a) k)"
proof -
  let ?k = "upd_tcb a (\<lambda>x. x\<lparr>t_state := THREAD_READY\<rparr>) k"
  have q: "ready_q ?k xs" by (rule ready_q_cong [of k]) (use assms in \<open>auto simp: sched_inv_def\<close>)
  from enqueue_ready_spec [OF q assms(2)] assms show ?thesis
    by (auto simp: scheduler_add_thread_def sched_inv_def same_but_queue_def)
qed

lemma dequeue_sched_inv:
  assumes "sched_inv k (n # ns)"
  obtains k1 where "dequeue_next k = (Some n, k1)" "ready_q k1 ns" "same_but_queue k k1"
    "sched_inv k1 ns" "n \<notin> set ns" "current k \<noteq> Some n"
proof -
  obtain a k1 where d: "dequeue_next k = (a, k1)" by fastforce
  with dequeue_next_spec [of k n ns] assms have "a = Some n" "ready_q k1 ns" "same_but_queue k k1"
    by (auto simp: sched_inv_def)
  with assms d that show ?thesis by (auto simp: sched_inv_def same_but_queue_def ready_q_def)
qed

text \<open>Making a dequeued thread the running one, and switching the registers to it.\<close>

lemma sched_inv_run:
  assumes "sched_inv k xs" "n \<notin> set xs"
  shows "sched_inv ((upd_tcb n (\<lambda>x. x\<lparr>t_state := THREAD_RUNNING\<rparr>) k)\<lparr>current := Some n\<rparr>) xs"
  by (rule sched_inv_cong [OF assms(1)]) (use assms(2) in auto)

lemma sched_inv_context_switch: "sched_inv k xs \<Longrightarrow> sched_inv (context_switch old n k) xs"
  by (rule sched_inv_cong [of k]) (auto simp: context_switch_def Let_def sched_inv_def split: option.splits)

lemma context_switch_simps [simp]:
  "current (context_switch old n k) = current k" "t_state (tcbs (context_switch old n k) t) = t_state (tcbs k t)"
  "pcbs (context_switch old n k) = pcbs k" "halted (context_switch old n k) = halted k"
  by (simp_all add: context_switch_def Let_def split: option.split)

lemma scheduler_yield_spec:
  assumes "sched_inv k (n # ns)" "current k = Some c" "t_state (tcbs k c) = THREAD_RUNNING"
  defines "k' \<equiv> scheduler_yield k"
  shows "sched_inv k' (ns @ [c])" "current k' = Some n" "t_state (tcbs k' n) = THREAD_RUNNING"
    "t_context (tcbs k' c) = call_pushed (cpu k)" "cpu k' = t_context (tcbs k n)"
    "\<And>t. t \<noteq> c \<Longrightarrow> t_context (tcbs k' t) = t_context (tcbs k t)"
proof -
  obtain k1 where d: "dequeue_next k = (Some n, k1)" and s1: "same_but_queue k k1" and i1: "sched_inv k1 ns"
    and n: "n \<notin> set ns" "current k \<noteq> Some n" using dequeue_sched_inv [OF assms(1)] by metis
  have c: "c \<notin> set (n # ns)" using assms(1,2) by (auto simp: sched_inv_def)
  let ?k2 = "upd_tcb c (\<lambda>x. x\<lparr>t_state := THREAD_READY\<rparr>) k1"
  let ?k3 = "enqueue_ready (Some c) (upd_tcb c (\<lambda>x. x\<lparr>t_state := THREAD_READY\<rparr>) ?k2)"
  have q2: "ready_q (upd_tcb c (\<lambda>x. x\<lparr>t_state := THREAD_READY\<rparr>) ?k2) ns"
    by (rule ready_q_cong [of k1]) (use i1 c in \<open>auto simp: sched_inv_def\<close>)
  note e = enqueue_ready_spec [OF q2, of c]
  let ?k4 = "(upd_tcb n (\<lambda>x. x\<lparr>t_state := THREAD_RUNNING\<rparr>) ?k3)\<lparr>current := Some n\<rparr>"
  have k': "k' = context_switch (Some c) n ?k4"
    using d s1 assms(2,3) by (simp add: k'_def scheduler_yield_def scheduler_add_thread_def same_but_queue_def Let_def)
  have st: "t_state (tcbs ?k3 t) = (if t = c then THREAD_READY else t_state (tcbs k t))"
    "t_context (tcbs ?k3 t) = t_context (tcbs k t)" for t
    using e c s1 by (auto simp: same_but_queue_def)
  have "sched_inv ?k4 (ns @ [c])" unfolding sched_inv_def
  proof (intro conjI ballI allI impI)
    show "ready_q ?k4 (ns @ [c])" by (rule ready_q_cong [of ?k3]) (use e c in auto)
    show "t_state (tcbs ?k4 t) = THREAD_READY" if "t \<in> set (ns @ [c])" for t
      using that st(1) [of t] n(1) c assms(1) by (auto simp: sched_inv_def)
    show "x \<notin> set (ns @ [c])" if "current ?k4 = Some x" for x using that n(1) c by auto
  qed
  then show "sched_inv k' (ns @ [c])" unfolding k' by (rule sched_inv_context_switch)
  show "current k' = Some n" "t_state (tcbs k' n) = THREAD_RUNNING" unfolding k' by simp_all
  have cpu: "cpu ?k3 = cpu k" using e c s1 by (simp add: same_but_queue_def)
  show "t_context (tcbs k' c) = call_pushed (cpu k)" "cpu k' = t_context (tcbs k n)"
    using c cpu st(2) unfolding k' by (simp_all add: context_switch_def)
  show "t_context (tcbs k' t) = t_context (tcbs k t)" if "t \<noteq> c" for t
    using that st(2) unfolding k' by (simp add: context_switch_def)
qed

section \<open>Round robin\<close>

text \<open>
  A sequence of yields: each element is the register contents with which the
  thread then running yields.
\<close>

definition yield_with :: "cpu_context \<Rightarrow> 'w kernel \<Rightarrow> 'w kernel" where
  "yield_with r k = scheduler_yield (k\<lparr>cpu := r\<rparr>)"

definition yields :: "cpu_context list \<Rightarrow> 'w kernel \<Rightarrow> 'w kernel" where
  "yields rs k = fold yield_with rs k"

lemma sched_inv_cpu [simp]: "sched_inv (k\<lparr>cpu := r\<rparr>) xs = sched_inv k xs"
  by (simp add: sched_inv_def ready_q_def)

lemma yields_rotate:
  assumes "sched_inv k xs" "current k = Some c" "t_state (tcbs k c) = THREAD_RUNNING"
    "m \<le> length xs" "m \<le> length rs"
  shows "sched_inv (yields (take m rs) k) (drop (Suc m) (c # xs) @ take m (c # xs)) \<and>
    current (yields (take m rs) k) = Some ((c # xs) ! m) \<and>
    t_state (tcbs (yields (take m rs) k) ((c # xs) ! m)) = THREAD_RUNNING \<and>
    (\<forall>j<m. t_context (tcbs (yields (take m rs) k) ((c # xs) ! j)) = call_pushed (rs ! j))"
  using assms(4,5)
proof (induction m)
  case 0
  with assms(1-3) show ?case by (simp add: yields_def)
next
  case (Suc m)
  let ?L = "c # xs" and ?K = "yields (take m rs) k"
  have IH: "sched_inv ?K (drop (Suc m) ?L @ take m ?L)" "current ?K = Some (?L ! m)"
    "t_state (tcbs ?K (?L ! m)) = THREAD_RUNNING" "\<forall>j<m. t_context (tcbs ?K (?L ! j)) = call_pushed (rs ! j)"
    using Suc by auto
  have step: "yields (take (Suc m) rs) k = scheduler_yield (?K\<lparr>cpu := rs ! m\<rparr>)"
    using Suc.prems by (simp add: yields_def take_Suc_conv_app_nth yield_with_def)
  have q: "drop (Suc m) ?L @ take m ?L = ?L ! Suc m # (drop (Suc (Suc m)) ?L @ take m ?L)"
    using Suc.prems(1) by (simp add: Cons_nth_drop_Suc)
  have inv: "sched_inv (?K\<lparr>cpu := rs ! m\<rparr>) (?L ! Suc m # (drop (Suc (Suc m)) ?L @ take m ?L))"
    using IH(1) unfolding q by simp
  have cur: "current (?K\<lparr>cpu := rs ! m\<rparr>) = Some (?L ! m)" "t_state (tcbs (?K\<lparr>cpu := rs ! m\<rparr>) (?L ! m)) = THREAD_RUNNING"
    using IH(2,3) by simp_all
  note y = scheduler_yield_spec [OF inv cur, folded step]
  have dist: "distinct ?L" using assms(1,2) by (auto simp: sched_inv_def ready_q_def)
  have "take (Suc m) ?L = take m ?L @ [?L ! m]" by (rule take_Suc_conv_app_nth) (use Suc.prems(1) in simp)
  moreover have "t_context (tcbs (yields (take (Suc m) rs) k) (?L ! j)) = call_pushed (rs ! j)" if "j < Suc m" for j
  proof (cases "j = m")
    case True
    with y(4) show ?thesis by simp
  next
    case False
    then have "?L ! j \<noteq> ?L ! m" using nth_eq_iff_index_eq [OF dist, of j m] that Suc.prems(1) by simp
    with y(6) IH(4) that False show ?thesis by simp
  qed
  ultimately show ?case using y(1-3) by simp
qed

text \<open>C15: from a state with one running thread and any ready threads, if each
  thread that runs yields in turn, then the i-th yield runs the i-th ready
  thread of the queue, and after one yield per thread the first thread runs
  again and the queue is as it was.  The thread resumes at the instruction
  after its call with its callee-saved registers, but, when there was another
  thread to switch to, with a stack pointer eight bytes too low: the return
  address the switch leaves behind is never popped.\<close>

theorem yield_round_robin:
  assumes "sched_inv k xs" "current k = Some c" "t_state (tcbs k c) = THREAD_RUNNING"
    "length rs = Suc (length xs)"
  shows "(\<forall>i \<le> length xs. current (yields (take i rs) k) = Some ((c # xs) ! i)) \<and>
    current (yields rs k) = Some c \<and> sched_inv (yields rs k) xs \<and>
    cpu (yields rs k) = (if xs = [] then rs ! 0 else (rs ! 0)\<lparr>c_rsp := c_rsp (rs ! 0) - 8\<rparr>)"
proof -
  let ?n = "length xs" and ?L = "c # xs"
  let ?K = "yields (take ?n rs) k"
  note r = yields_rotate [OF assms(1-3), of _ rs]
  have last: "sched_inv ?K (take ?n ?L)" "current ?K = Some (?L ! ?n)" "t_state (tcbs ?K (?L ! ?n)) = THREAD_RUNNING"
    "\<forall>j<?n. t_context (tcbs ?K (?L ! j)) = call_pushed (rs ! j)"
    using r [of ?n] assms(4) by auto
  have "rs = take ?n rs @ [rs ! ?n]" using assms(4) take_Suc_conv_app_nth [of ?n rs] by simp
  then have step: "yields rs k = scheduler_yield (?K\<lparr>cpu := rs ! ?n\<rparr>)"
    unfolding yields_def yield_with_def [symmetric] by (metis fold_append fold_simps comp_apply)
  have "current (yields rs k) = Some c \<and> sched_inv (yields rs k) xs \<and>
      cpu (yields rs k) = (if xs = [] then rs ! 0 else call_pushed (rs ! 0))"
  proof (cases xs)
    case Nil
    then have "dequeue_next (?K\<lparr>cpu := rs ! ?n\<rparr>) = (None, ?K\<lparr>cpu := rs ! ?n\<rparr>)"
      using last(1) dequeue_next_empty [of "?K\<lparr>cpu := rs ! ?n\<rparr>"] by (simp add: sched_inv_def ready_q_def)
    then show ?thesis using Nil last by (simp add: step scheduler_yield_def)
  next
    case (Cons x ys)
    have q: "take ?n ?L = c # take (length ys) xs" using Cons by simp
    have inv: "sched_inv (?K\<lparr>cpu := rs ! ?n\<rparr>) (c # take (length ys) xs)" using last(1) unfolding q by simp
    note y = scheduler_yield_spec [OF inv, of "?L ! ?n", folded step]
    have "xs = take (length ys) xs @ [?L ! ?n]"
      using Cons take_Suc_conv_app_nth [of "length ys" xs] by simp
    moreover have "t_context (tcbs ?K c) = call_pushed (rs ! 0)" using last(4) [rule_format, of 0] Cons by simp
    ultimately show ?thesis using y last Cons by simp
  qed
  with r assms(4) show ?thesis by (simp add: call_pushed_def)
qed

definition sample_kernel :: "unit kernel" where
  "sample_kernel =
     \<lparr>tcbs = (\<lambda>_. zero_tcb)(0 := zero_tcb\<lparr>t_state := THREAD_RUNNING, t_parent := Some 0\<rparr>,
        1 := zero_tcb\<lparr>t_parent := Some 1, t_next := Some 2, t_context := zero_context\<lparr>c_rip := 0x1000\<rparr>\<rparr>,
        2 := zero_tcb\<lparr>t_parent := Some 1\<rparr>),
      pcbs = (\<lambda>_. zero_pcb)(0 := zero_pcb\<lparr>pid := 1, main_thread := Some 0, children := [1]\<rparr>,
        1 := zero_pcb\<lparr>pid := 2, main_thread := Some 1, p_parent := Some 0\<rparr>),
      ready_head = Some 1, ready_tail = Some 2, current = Some 0, kernel_context = zero_context,
      cpu = zero_context, halted = False, kmalloc_ptr = 16, kmalloc_end = 1048576, next_pid = 3, next_tid = 4,
      process_list = [1, 0], fg_table = (\<lambda>_. (0, 0)),
      fds = \<lparr>file_pool = (\<lambda>_. \<lparr>f_vnode = None, f_offset = 0, f_flags = 0, refcount = 0\<rparr>), file_pool_inited = False,
        fd_table = (\<lambda>_ _. None), vworld = ()\<rparr>,
      mmsys = sample_mm_sys\<rparr>"

lemma sample_kernel_sched: "sched_inv sample_kernel [1, 2]"
  by (simp add: sched_inv_def ready_q_def sample_kernel_def zero_tcb_def)

theorem yield_round_robin_witness:
  "current (yields [zero_context\<lparr>c_rip := 5, c_rsp := 0x2000\<rparr>] sample_kernel) = Some 1 \<and>
   current (yields [zero_context\<lparr>c_rip := 5, c_rsp := 0x2000\<rparr>, zero_context, zero_context] sample_kernel) = Some 0 \<and>
   cpu (yields [zero_context\<lparr>c_rip := 5, c_rsp := 0x2000\<rparr>, zero_context, zero_context] sample_kernel) =
     zero_context\<lparr>c_rip := 5, c_rsp := 0x1FF8\<rparr>"
proof -
  let ?rs = "[zero_context\<lparr>c_rip := 5, c_rsp := 0x2000\<rparr>, zero_context, zero_context]"
  have c: "current sample_kernel = Some 0" "t_state (tcbs sample_kernel 0) = THREAD_RUNNING"
    by (simp_all add: sample_kernel_def)
  have "length ?rs = Suc (length [1, 2 :: nat])" by simp
  note r = yield_round_robin [OF sample_kernel_sched c this]
  from r [THEN conjunct1, rule_format, of 1] r show ?thesis by simp
qed

end
