(* ===== verification/Processes.thy ===== *)
theory Processes
  imports Ready_Queue
begin

text \<open>
  Processes (\<open>proc.c\<close>) and the process system calls (\<open>sys_proc.c\<close>): the bump
  allocator for control blocks and stacks, creation of threads and processes,
  fork, waiting for children, process groups, sessions and their foreground
  groups, and the permission check of \<open>kill\<close>.

  Address spaces created by fork come from the kernel's allocator; they are
  stored beyond the offsets of the pool of \<open>mm.c\<close>.  A call of \<open>waitpid\<close> that has
  to wait returns \<open>None\<close> with the calling thread blocked; the code scans again
  when the thread is resumed.
\<close>

abbreviation KERNEL_STACK_SIZE :: nat where "KERNEL_STACK_SIZE \<equiv> 16384"
abbreviation SIZEOF_TCB :: nat where "SIZEOF_TCB \<equiv> 104"
abbreviation SIZEOF_PCB :: nat where "SIZEOF_PCB \<equiv> 680"
abbreviation SIZEOF_MM :: nat where "SIZEOF_MM \<equiv> 16"
abbreviation EPERM :: int where "EPERM \<equiv> 1"
abbreviation ROOT_UID :: u32 where "ROOT_UID \<equiv> 0"

section \<open>Allocation\<close>

definition kmalloc :: "nat \<Rightarrow> nat \<Rightarrow> 'w kernel \<Rightarrow> nat option \<times> 'w kernel" where
  "kmalloc sz align k =
     (if sz = 0 then (None, k)
      else
        let ptr = (kmalloc_ptr k + (align - 1)) div align * align in
        if ptr + sz > kmalloc_end k then (None, k)
        else (Some ptr, k\<lparr>kmalloc_ptr := ptr + sz\<rparr>))"

definition zalloc_tcb :: "'w kernel \<Rightarrow> nat option \<times> 'w kernel" where
  "zalloc_tcb k =
     (case kmalloc SIZEOF_TCB 16 k of
        (None, k1) \<Rightarrow> (None, k1)
      | (Some t, k1) \<Rightarrow> (Some t, upd_tcb t (\<lambda>_. zero_tcb) k1))"

definition zalloc_pcb :: "'w kernel \<Rightarrow> nat option \<times> 'w kernel" where
  "zalloc_pcb k =
     (case kmalloc SIZEOF_PCB 16 k of
        (None, k1) \<Rightarrow> (None, k1)
      | (Some p, k1) \<Rightarrow>
          (Some p, (upd_pcb p (\<lambda>_. zero_pcb) k1)
             \<lparr>fds := (fds k1)\<lparr>fd_table := (fd_table (fds k1))(p := (\<lambda>_. None))\<rparr>\<rparr>))"

definition mm_key :: "nat \<Rightarrow> nat" where
  "mm_key a = MM_POOL_SIZE + a"

definition zalloc_mm :: "'w kernel \<Rightarrow> nat option \<times> 'w kernel" where
  "zalloc_mm k =
     (case kmalloc SIZEOF_MM 16 k of
        (None, k1) \<Rightarrow> (None, k1)
      | (Some a, k1) \<Rightarrow>
          (Some (mm_key a),
           k1\<lparr>mmsys := (mmsys k1)\<lparr>mms := (mms (mmsys k1))(mm_key a \<mapsto> \<lparr>pml4_phys = 0, mmap = []\<rparr>)\<rparr>\<rparr>))"

definition alloc_kernel_stack :: "'w kernel \<Rightarrow> nat option \<times> 'w kernel" where
  "alloc_kernel_stack k =
     (case kmalloc KERNEL_STACK_SIZE 16 k of
        (None, k1) \<Rightarrow> (None, k1)
      | (Some stk, k1) \<Rightarrow> (Some ((stk + KERNEL_STACK_SIZE) div 16 * 16), k1))"

section \<open>Creation\<close>

definition create_thread :: "nat option \<Rightarrow> u64 \<Rightarrow> 'w kernel \<Rightarrow> nat option \<times> 'w kernel" where
  "create_thread proc entry k =
     (case zalloc_tcb k of
        (None, k1) \<Rightarrow> (None, k1)
      | (Some t, k1) \<Rightarrow>
          let k2 = (upd_tcb t (\<lambda>x. x\<lparr>tid := next_tid k1, t_state := THREAD_READY, t_parent := proc\<rparr>) k1)
                     \<lparr>next_tid := next_tid k1 + 1\<rparr>;
              (stk, k3) = alloc_kernel_stack k2;
              top = (case stk of None \<Rightarrow> 0 | Some a \<Rightarrow> of_nat a) :: u64;
              k4 = upd_tcb t (\<lambda>x. x\<lparr>kernel_stack := top,
                     t_context := zero_context\<lparr>c_rip := entry, c_rsp := top - 8, c_rbp := top - 8\<rparr>\<rparr>) k3;
              k5 = (case proc of
                      None \<Rightarrow> k4
                    | Some p \<Rightarrow>
                        upd_pcb p (\<lambda>x. x\<lparr>threads := Some t\<rparr>)
                          (upd_tcb t (\<lambda>x. x\<lparr>t_next := threads (pcbs k4 p)\<rparr>) k4))
          in (Some t, scheduler_add_thread (Some t) k5))"

definition create_process :: "u64 \<Rightarrow> 'w kernel \<Rightarrow> nat option \<times> 'w kernel" where
  "create_process entry k =
     (case zalloc_pcb k of
        (None, k1) \<Rightarrow> (None, k1)
      | (Some p, k1) \<Rightarrow>
          let npid = next_pid k1;
              k2 = (upd_pcb p (\<lambda>x. x\<lparr>pid := npid\<rparr>) k1)\<lparr>next_pid := npid + 1\<rparr>;
              (mm, ms) = mm_create (mmsys k2);
              k3 = upd_pcb p (\<lambda>x. x\<lparr>p_mm := mm, signals := signal_init (signals x), exit_code := 0\<rparr>) (k2\<lparr>mmsys := ms\<rparr>);
              caller = get_current_process k3;
              k4 = upd_pcb p (\<lambda>x. x\<lparr>p_parent := caller\<rparr>) k3;
              k5 = (case caller of None \<Rightarrow> k4 | Some c \<Rightarrow> upd_pcb c (\<lambda>x. x\<lparr>children := p # children x\<rparr>) k4);
              k6 = upd_pcb p (\<lambda>x. x\<lparr>pgid := npid, sid := npid, is_stopped := False\<rparr>) k5;
              (t, k7) = create_thread (Some p) entry k6;
              k8 = upd_pcb p (\<lambda>x. x\<lparr>main_thread := t, threads := t\<rparr>) k7;
              k9 = k8\<lparr>process_list := p # process_list k8\<rparr>
          in (Some p, k9\<lparr>fds := fd_init_stdio (Some p) (fds k9)\<rparr>))"

text \<open>
  \<open>fork_process\<close> in the stages of the code: the child's control block with the
  descriptors and signal handlers, its address space, its thread.
\<close>

definition fork_pcb :: "nat \<Rightarrow> nat \<Rightarrow> 'w kernel \<Rightarrow> 'w kernel" where
  "fork_pcb parent child k =
     (let pp = pcbs k parent;
          k1 = (upd_pcb child (\<lambda>x. x\<lparr>pid := next_pid k, p_parent := Some parent, exit_code := 0,
                 pgid := pgid pp, sid := sid pp, is_stopped := False, uid := uid pp, gid := gid pp\<rparr>) k)
                 \<lparr>next_pid := next_pid k + 1\<rparr>;
          k2 = k1\<lparr>fds := fd_clone (Some parent) (Some child) (fds k1)\<rparr>
      in upd_pcb child (\<lambda>x. x\<lparr>signals := (signals pp)\<lparr>pending := 0\<rparr>\<rparr>) k2)"

definition fork_mm :: "u64 \<Rightarrow> nat \<Rightarrow> nat \<Rightarrow> 'w kernel \<Rightarrow> bool \<times> 'w kernel" where
  "fork_mm kernel_end parent child k =
     (case p_mm (pcbs k parent) of
        None \<Rightarrow> (False, k)
      | Some m \<Rightarrow>
          let src = (case mms (mmsys k) m of None \<Rightarrow> 0 | Some mm \<Rightarrow> pml4_phys mm) in
          if src = 0 then (False, k)
          else (case zalloc_mm k of
            (None, k1) \<Rightarrow> (False, upd_pcb child (\<lambda>x. x\<lparr>p_mm := None\<rparr>) k1)
          | (Some cm, k1) \<Rightarrow>
              let (pml4, h) = paging_clone_cow kernel_end src (hw (mmsys k1));
                  ms = (mmsys k1)\<lparr>hw := h, mms := (mms (mmsys k1))(cm \<mapsto> \<lparr>pml4_phys = pml4, mmap = []\<rparr>)\<rparr>;
                  k2 = upd_pcb child (\<lambda>x. x\<lparr>p_mm := Some cm\<rparr>) (k1\<lparr>mmsys := ms\<rparr>)
              in (pml4 \<noteq> 0, k2)))"

definition fork_thread :: "nat \<Rightarrow> nat \<Rightarrow> 'w kernel \<Rightarrow> nat option \<times> 'w kernel" where
  "fork_thread parent child k =
     (case current k of
        None \<Rightarrow> (None, k)
      | Some c \<Rightarrow>
          (case zalloc_tcb k of
             (None, k1) \<Rightarrow> (None, k1)
           | (Some t, k1) \<Rightarrow>
               let k2 = (upd_tcb t (\<lambda>x. x\<lparr>tid := next_tid k1, t_state := THREAD_READY, t_parent := Some child,
                           t_context := t_context (tcbs k1 c)\<rparr>) k1)\<lparr>next_tid := next_tid k1 + 1\<rparr>
               in (case alloc_kernel_stack k2 of
                     (None, k3) \<Rightarrow> (None, k3)
                   | (Some stk, k3) \<Rightarrow> (Some t, upd_tcb t (\<lambda>x. x\<lparr>kernel_stack := of_nat stk\<rparr>) k3))))"

definition fork_process :: "u64 \<Rightarrow> 'w kernel \<Rightarrow> int \<times> 'w kernel" where
  "fork_process kernel_end k =
     (case get_current_process k of
        None \<Rightarrow> (- 1, k)
      | Some parent \<Rightarrow>
          (case zalloc_pcb k of
             (None, k1) \<Rightarrow> (- 1, k1)
           | (Some child, k1) \<Rightarrow>
               let k2 = fork_pcb parent child k1; (ok, k3) = fork_mm kernel_end parent child k2 in
               if \<not> ok then (- 1, k3)
               else (case fork_thread parent child k3 of
                 (None, k4) \<Rightarrow> (- 1, k4)
               | (Some t, k4) \<Rightarrow>
                   let k5 = upd_pcb child (\<lambda>x. x\<lparr>main_thread := Some t, threads := Some t, is_fork_child := True\<rparr>) k4;
                       k6 = scheduler_add_thread (Some t) k5;
                       k7 = k6\<lparr>process_list := child # process_list k6\<rparr>;
                       k8 = upd_pcb parent (\<lambda>x. x\<lparr>children := child # children x\<rparr>) k7
                   in (sint (ucast (pid (pcbs k8 child)) :: u32), k8))))"

section \<open>Waiting\<close>

definition waits_for :: "int \<Rightarrow> 'w kernel \<Rightarrow> nat \<Rightarrow> bool" where
  "waits_for n k child \<longleftrightarrow> (n = - 1 \<or> pid (pcbs k child) = word_of_int n) \<and> is_zombie (pcbs k child)"

definition waitpid_process ::
  "(vnode_id \<Rightarrow> 'w \<Rightarrow> 'w) \<Rightarrow> int \<Rightarrow> bool \<Rightarrow> 'w kernel \<Rightarrow> (int \<times> int option) option \<times> 'w kernel"
where
  "waitpid_process cl n wnohang k =
     (case get_current_process k of
        None \<Rightarrow> (Some (- 1, None), k)
      | Some parent \<Rightarrow>
          if children (pcbs k parent) = [] then (Some (- 1, None), k)
          else (case find (waits_for n k) (children (pcbs k parent)) of
            Some child \<Rightarrow>
              let k1 = upd_pcb parent (\<lambda>x. x\<lparr>children := remove1 child (children x)\<rparr>) k
              in (Some (sint (ucast (pid (pcbs k child)) :: u32), Some (exit_code (pcbs k child))), process_reap cl child k1)
          | None \<Rightarrow>
              if wnohang then (Some (0, None), k)
              else
                let k1 = upd_pcb parent (\<lambda>x. x\<lparr>wait_queue := current k\<rparr>) k;
                    k2 = (case current k of None \<Rightarrow> k1 | Some me \<Rightarrow> upd_tcb me (\<lambda>x. x\<lparr>t_state := THREAD_BLOCKED\<rparr>) k1)
                in (None, scheduler_block_current k2)))"

definition wait_process :: "(vnode_id \<Rightarrow> 'w \<Rightarrow> 'w) \<Rightarrow> 'w kernel \<Rightarrow> (int \<times> int option) option \<times> 'w kernel" where
  "wait_process cl k = waitpid_process cl (- 1) False k"

section \<open>Job control\<close>

abbreviation MAX_SESSIONS :: nat where "MAX_SESSIONS \<equiv> 8"

definition session_set_foreground :: "u64 \<Rightarrow> u64 \<Rightarrow> 'w kernel \<Rightarrow> 'w kernel" where
  "session_set_foreground s g k =
     (case first_slot (\<lambda>i. fst (fg_table k i) = s) MAX_SESSIONS of
        Some i \<Rightarrow> k\<lparr>fg_table := (fg_table k)(i := (fst (fg_table k i), g))\<rparr>
      | None \<Rightarrow>
          (case first_slot (\<lambda>i. fst (fg_table k i) = 0) MAX_SESSIONS of
             Some i \<Rightarrow> k\<lparr>fg_table := (fg_table k)(i := (s, g))\<rparr>
           | None \<Rightarrow> k))"

definition session_get_foreground :: "u64 \<Rightarrow> 'w kernel \<Rightarrow> u64" where
  "session_get_foreground s k =
     (case first_slot (\<lambda>i. fst (fg_table k i) = s) MAX_SESSIONS of
        Some i \<Rightarrow> snd (fg_table k i) | None \<Rightarrow> 0)"

definition setpgid :: "nat option \<Rightarrow> u64 \<Rightarrow> 'w kernel \<Rightarrow> int \<times> 'w kernel" where
  "setpgid proc g k =
     (case proc of
        None \<Rightarrow> (- 1, k)
      | Some p \<Rightarrow> (0, upd_pcb p (\<lambda>x. x\<lparr>pgid := (if g = 0 then pid x else g)\<rparr>) k))"

definition setsid :: "nat option \<Rightarrow> 'w kernel \<Rightarrow> int \<times> 'w kernel" where
  "setsid proc k =
     (case proc of
        None \<Rightarrow> (- 1, k)
      | Some p \<Rightarrow>
          let k1 = upd_pcb p (\<lambda>x. x\<lparr>sid := pid x, pgid := pid x\<rparr>) k
          in (0, session_set_foreground (sid (pcbs k1 p)) (pgid (pcbs k1 p)) k1))"

fun signal_group_loop :: "u64 \<Rightarrow> int \<Rightarrow> nat list \<Rightarrow> 'w kernel \<Rightarrow> nat \<times> 'w kernel" where
  "signal_group_loop g signo [] k = (0, k)"
| "signal_group_loop g signo (p # ps) k =
     (if pgid (pcbs k p) = g \<and> pid (pcbs k p) \<noteq> 0 \<and> \<not> is_zombie (pcbs k p) then
        let (n, k1) = signal_group_loop g signo ps (snd (signal_send (Some p) signo k)) in (Suc n, k1)
      else signal_group_loop g signo ps k)"

definition signal_process_group :: "u64 \<Rightarrow> int \<Rightarrow> 'w kernel \<Rightarrow> nat \<times> 'w kernel" where
  "signal_process_group g signo k = signal_group_loop g signo (process_list k) k"

definition process_continue :: "nat option \<Rightarrow> 'w kernel \<Rightarrow> 'w kernel" where
  "process_continue proc k =
     (case proc of
        None \<Rightarrow> k
      | Some p \<Rightarrow>
          if \<not> is_stopped (pcbs k p) then k
          else
            let k1 = upd_pcb p (\<lambda>x. x\<lparr>is_stopped := False\<rparr>) k in
            (case main_thread (pcbs k1 p) of
               None \<Rightarrow> k1
             | Some t \<Rightarrow>
                 if t_state (tcbs k1 t) = THREAD_BLOCKED
                 then scheduler_add_thread (Some t) (upd_tcb t (\<lambda>x. x\<lparr>t_state := THREAD_READY\<rparr>) k1)
                 else k1))"

section \<open>System calls\<close>

definition can_manage_process :: "nat option \<Rightarrow> nat option \<Rightarrow> 'w kernel \<Rightarrow> bool" where
  "can_manage_process src tgt k =
     (case (src, tgt) of
        (Some s, Some t) \<Rightarrow> uid (pcbs k s) = ROOT_UID \<or> uid (pcbs k s) = uid (pcbs k t)
      | _ \<Rightarrow> False)"

definition sys_fork :: "u64 \<Rightarrow> 'w kernel \<Rightarrow> int \<times> 'w kernel" where
  "sys_fork kernel_end k =
     (case get_current_process k of
        Some p \<Rightarrow>
          if is_fork_child (pcbs k p) then (0, upd_pcb p (\<lambda>x. x\<lparr>is_fork_child := False\<rparr>) k)
          else fork_process kernel_end k
      | None \<Rightarrow> fork_process kernel_end k)"

definition sys_exit :: "(vnode_id \<Rightarrow> 'w \<Rightarrow> 'w) \<Rightarrow> 'w kernel \<Rightarrow> 'w kernel" where
  "sys_exit cl k = scheduler_thread_exit cl k"

definition sys_getpid :: "'w kernel \<Rightarrow> u64" where
  "sys_getpid k = (case get_current_process k of None \<Rightarrow> 0 | Some p \<Rightarrow> pid (pcbs k p))"

definition sys_kill :: "u64 \<Rightarrow> int \<Rightarrow> 'w kernel \<Rightarrow> int \<times> 'w kernel" where
  "sys_kill n signo k =
     (if signo \<le> 0 \<or> signo \<ge> NSIG then (- EINVAL, k)
      else
        let cur = get_current_process k; tgt = find_process_by_pid n k in
        if tgt = None then (- ESRCH, k)
        else if \<not> can_manage_process cur tgt k then (- EPERM, k)
        else signal_send tgt signo k)"

definition sys_signal :: "int \<Rightarrow> u64 \<Rightarrow> 'w kernel \<Rightarrow> u64 \<times> 'w kernel" where
  "sys_signal signo handler k =
     (case get_current_process k of
        None \<Rightarrow> (word_of_int (- EINVAL), k)
      | Some p \<Rightarrow>
          if signo \<le> 0 \<or> signo \<ge> NSIG then (word_of_int (- EINVAL), k)
          else if signo = SIGKILL \<or> signo = SIGSTOP then (word_of_int (- EINVAL), k)
          else (handlers (signals (pcbs k p)) (nat signo),
                upd_signals p (\<lambda>s. s\<lparr>handlers := (handlers s)(nat signo := handler)\<rparr>) k))"

definition job_target :: "u64 \<Rightarrow> 'w kernel \<Rightarrow> nat option" where
  "job_target n k = (if n = 0 then get_current_process k else find_process_by_pid n k)"

definition sys_setpgid :: "u64 \<Rightarrow> u64 \<Rightarrow> 'w kernel \<Rightarrow> int \<times> 'w kernel" where
  "sys_setpgid n g k = (case job_target n k of None \<Rightarrow> (- ESRCH, k) | Some p \<Rightarrow> setpgid (Some p) g k)"

definition sys_getpgid :: "u64 \<Rightarrow> 'w kernel \<Rightarrow> u64" where
  "sys_getpgid n k = (case job_target n k of None \<Rightarrow> word_of_int (- ESRCH) | Some p \<Rightarrow> pgid (pcbs k p))"

definition sys_setsid :: "'w kernel \<Rightarrow> int \<times> 'w kernel" where
  "sys_setsid k = (case get_current_process k of None \<Rightarrow> (- ESRCH, k) | Some p \<Rightarrow> setsid (Some p) k)"

definition sys_tcsetpgrp :: "u64 \<Rightarrow> 'w kernel \<Rightarrow> int \<times> 'w kernel" where
  "sys_tcsetpgrp g k =
     (case get_current_process k of
        None \<Rightarrow> (- ESRCH, k) | Some p \<Rightarrow> (0, session_set_foreground (sid (pcbs k p)) g k))"

definition sys_tcgetpgrp :: "'w kernel \<Rightarrow> u64" where
  "sys_tcgetpgrp k =
     (case get_current_process k of
        None \<Rightarrow> word_of_int (- ESRCH) | Some p \<Rightarrow> session_get_foreground (sid (pcbs k p)) k)"

end
