(* ===== verification/Process_Invariants.thy ===== *)
theory Process_Invariants
  imports Processes
begin

text \<open>
  Invariants of the kernel's threads and processes over all their operations:
  the ready queue stays a list of distinct ready threads without the running
  one, and live processes keep distinct nonzero process ids.
\<close>

section \<open>Invariants\<close>

definition sched_ok :: "'w kernel \<Rightarrow> bool" where
  "sched_ok k \<longleftrightarrow> (\<exists>xs. sched_inv k xs \<and> (\<forall>t \<in> set xs. t < kmalloc_ptr k)) \<and>
     (\<forall>c. current k = Some c \<longrightarrow> c < kmalloc_ptr k \<and> (t_state (tcbs k c) = THREAD_RUNNING \<or> halted k))"

definition pids_ok :: "'w kernel \<Rightarrow> bool" where
  "pids_ok k \<longleftrightarrow> distinct (process_list k) \<and>
     inj_on (\<lambda>p. pid (pcbs k p)) (set (process_list k)) \<and>
     (\<forall>p \<in> set (process_list k). p < kmalloc_ptr k \<and> 0 < unat (pid (pcbs k p)) \<and> unat (pid (pcbs k p)) < unat (next_pid k)) \<and>
     0 < unat (next_pid k) \<and> unat (next_pid k) \<le> kmalloc_ptr k \<and> kmalloc_ptr k \<le> kmalloc_end k \<and> kmalloc_end k < 2 ^ 64"

definition ptrs_ok :: "'w kernel \<Rightarrow> bool" where
  "ptrs_ok k \<longleftrightarrow> (\<forall>p w. wait_queue (pcbs k p) = Some w \<or> main_thread (pcbs k p) = Some w \<longrightarrow> w < kmalloc_ptr k)"

definition kernel_ok :: "'w kernel \<Rightarrow> bool" where
  "kernel_ok k \<longleftrightarrow> sched_ok k \<and> pids_ok k \<and> ptrs_ok k"

text \<open>Operations that leave the threads, or the process ids, alone.\<close>

definition same_threads :: "'w kernel \<Rightarrow> 'w kernel \<Rightarrow> bool" where
  "same_threads k k' \<longleftrightarrow> tcbs k' = tcbs k \<and> ready_head k' = ready_head k \<and> ready_tail k' = ready_tail k \<and>
     current k' = current k \<and> halted k' = halted k \<and> kmalloc_ptr k' = kmalloc_ptr k"

definition same_pids :: "'w kernel \<Rightarrow> 'w kernel \<Rightarrow> bool" where
  "same_pids k k' \<longleftrightarrow> process_list k' = process_list k \<and> (\<forall>p. pid (pcbs k' p) = pid (pcbs k p)) \<and>
     next_pid k' = next_pid k \<and> kmalloc_ptr k' = kmalloc_ptr k \<and> kmalloc_end k' = kmalloc_end k"

lemma same_threads_trans: "same_threads a b \<Longrightarrow> same_threads b c \<Longrightarrow> same_threads a c"
  and same_threads_refl [simp]: "same_threads a a"
  by (simp_all add: same_threads_def)

lemma same_pids_trans: "same_pids a b \<Longrightarrow> same_pids b c \<Longrightarrow> same_pids a c"
  and same_pids_refl [simp]: "same_pids a a"
  by (simp_all add: same_pids_def)

lemma sched_inv_same: "same_threads k k' \<Longrightarrow> sched_inv k' xs = sched_inv k xs"
  by (simp add: same_threads_def sched_inv_def ready_q_def)

lemma sched_ok_same: "same_threads k k' \<Longrightarrow> sched_ok k' = sched_ok k"
  unfolding sched_ok_def by (simp add: sched_inv_same) (simp add: same_threads_def)

lemma pids_ok_same: "same_pids k k' \<Longrightarrow> pids_ok k' = pids_ok k"
  by (simp add: same_pids_def pids_ok_def inj_on_def)

lemma upd_more_simps [simp]:
  "kmalloc_ptr (upd_tcb t f k) = kmalloc_ptr k" "kmalloc_end (upd_tcb t f k) = kmalloc_end k"
  "next_pid (upd_tcb t f k) = next_pid k" "next_tid (upd_tcb t f k) = next_tid k"
  "kmalloc_ptr (upd_pcb p g k) = kmalloc_ptr k" "kmalloc_end (upd_pcb p g k) = kmalloc_end k"
  "next_pid (upd_pcb p g k) = next_pid k" "next_tid (upd_pcb p g k) = next_tid k"
  by (simp_all add: upd_tcb_def upd_pcb_def)

lemma same_threads_upd_pcb [simp]: "same_threads k (upd_pcb p f k)"
  by (simp add: same_threads_def)

lemma same_pids_upd_tcb [simp]: "same_pids k (upd_tcb t f k)"
  by (simp add: same_pids_def)

lemma same_pids_upd_pcb: "(\<And>x. pid (f x) = pid x) \<Longrightarrow> same_pids k (upd_pcb p f k)"
  by (simp add: same_pids_def)

lemma enqueue_same_pids: "same_pids k (enqueue_ready t k)"
  by (auto simp: enqueue_ready_def Let_def same_pids_def split: option.split)

lemma add_thread_same_pids: "same_pids k (scheduler_add_thread t k)"
  unfolding scheduler_add_thread_def
  by (cases t) (auto intro: same_pids_trans [OF same_pids_upd_tcb enqueue_same_pids])

lemma dequeue_same_pids: "dequeue_next k = (r, k') \<Longrightarrow> same_pids k k'"
  by (auto simp: dequeue_next_def Let_def same_pids_def split: option.splits if_splits)

lemma context_switch_same_pids: "same_pids k (context_switch old n k)"
  by (simp add: context_switch_def Let_def same_pids_def split: option.split)

lemma yield_same_pids: "same_pids k (scheduler_yield k)"
proof -
  obtain n k1 where d: "dequeue_next k = (n, k1)" by fastforce
  note p1 = dequeue_same_pids [OF d]
  show ?thesis
  proof (cases n)
    case None
    with d p1 show ?thesis by (simp add: scheduler_yield_def Let_def)
  next
    case (Some a)
    have "same_pids k1 (case current k of None \<Rightarrow> k1 | Some a \<Rightarrow>
        if t_state (tcbs k1 a) = THREAD_RUNNING
        then scheduler_add_thread (Some a) (upd_tcb a (\<lambda>x. x\<lparr>t_state := THREAD_READY\<rparr>) k1) else k1)" (is "same_pids k1 ?k2")
      by (auto intro: same_pids_trans [OF same_pids_upd_tcb add_thread_same_pids] split: option.split)
    moreover have "same_pids ?k2 ((upd_tcb a (\<lambda>x. x\<lparr>t_state := THREAD_RUNNING\<rparr>) ?k2)\<lparr>current := Some a\<rparr>)"
      by (simp add: same_pids_def)
    ultimately have "same_pids k ((upd_tcb a (\<lambda>x. x\<lparr>t_state := THREAD_RUNNING\<rparr>) ?k2)\<lparr>current := Some a\<rparr>)"
      using p1 by (meson same_pids_trans)
    with d Some show ?thesis
      by (simp add: scheduler_yield_def Let_def same_pids_trans [OF _ context_switch_same_pids])
  qed
qed

section \<open>Threads\<close>

lemma sched_okE:
  assumes "sched_ok k"
  obtains xs where "sched_inv k xs" "\<And>t. t \<in> set xs \<Longrightarrow> t < kmalloc_ptr k"
    "\<And>c. current k = Some c \<Longrightarrow> c < kmalloc_ptr k \<and> (t_state (tcbs k c) = THREAD_RUNNING \<or> halted k)"
  using assms unfolding sched_ok_def by blast

lemma sched_okI:
  assumes "sched_inv k xs" "\<And>t. t \<in> set xs \<Longrightarrow> t < kmalloc_ptr k"
    "\<And>c. current k = Some c \<Longrightarrow> c < kmalloc_ptr k \<and> (t_state (tcbs k c) = THREAD_RUNNING \<or> halted k)"
  shows "sched_ok k"
  using assms unfolding sched_ok_def by blast

lemma same_but_queue_ptr:
  "dequeue_next k = (r, k') \<Longrightarrow> kmalloc_ptr k' = kmalloc_ptr k"
  "kmalloc_ptr (enqueue_ready t k) = kmalloc_ptr k"
  "kmalloc_ptr (scheduler_add_thread t k) = kmalloc_ptr k"
  using dequeue_same_pids [of k r k'] enqueue_same_pids [of k t] add_thread_same_pids [of k t]
  by (simp_all add: same_pids_def)

text \<open>Taking the next thread and switching to it, from any well-formed queue.\<close>

lemma run_next_ok:
  assumes "sched_inv k (n # ns)" "\<And>t. t \<in> set (n # ns) \<Longrightarrow> t < kmalloc_ptr k" "dequeue_next k = (Some n, k1)"
  shows "sched_ok (context_switch old n ((upd_tcb n (\<lambda>x. x\<lparr>t_state := THREAD_RUNNING\<rparr>) k1)\<lparr>current := Some n\<rparr>))"
proof -
  have i1: "sched_inv k1 ns" "n \<notin> set ns"
    using dequeue_sched_inv [OF assms(1)] assms(3) by (metis prod.inject)+
  have p: "kmalloc_ptr k1 = kmalloc_ptr k" by (rule same_but_queue_ptr(1) [OF assms(3)])
  have ptr: "kmalloc_ptr (context_switch old n kk) = kmalloc_ptr kk" for kk :: "'a kernel"
    using context_switch_same_pids [of kk old n] by (simp add: same_pids_def)
  show ?thesis
    by (rule sched_okI [OF sched_inv_context_switch [OF sched_inv_run [OF i1]]])
      (use assms(2) p ptr in \<open>auto\<close>)
qed

lemma yield_sched_ok:
  assumes "sched_ok k" "\<not> halted k"
  shows "sched_ok (scheduler_yield k)"
proof -
  obtain xs where xs: "sched_inv k xs" "\<And>t. t \<in> set xs \<Longrightarrow> t < kmalloc_ptr k"
    "\<And>c. current k = Some c \<Longrightarrow> c < kmalloc_ptr k \<and> (t_state (tcbs k c) = THREAD_RUNNING \<or> halted k)"
    using sched_okE [OF assms(1)] by blast
  show ?thesis
  proof (cases xs)
    case Nil
    then have "dequeue_next k = (None, k)" using xs(1) dequeue_next_empty by (auto simp: sched_inv_def)
    then show ?thesis using assms(1) by (simp add: scheduler_yield_def Let_def)
  next
    case (Cons n ns)
    show ?thesis
    proof (cases "current k")
      case None
      obtain k1 where d: "dequeue_next k = (Some n, k1)" using dequeue_sched_inv [of k n ns] xs(1) Cons by metis
      then have "scheduler_yield k = context_switch None n ((upd_tcb n (\<lambda>x. x\<lparr>t_state := THREAD_RUNNING\<rparr>) k1)\<lparr>current := Some n\<rparr>)"
        using None by (simp add: scheduler_yield_def Let_def)
      with run_next_ok [OF xs(1) [unfolded Cons] _ d] xs(2) Cons show ?thesis by simp
    next
      case (Some c)
      then have c: "t_state (tcbs k c) = THREAD_RUNNING" "c < kmalloc_ptr k" using xs(3) assms(2) by auto
      note y = scheduler_yield_spec [OF xs(1) [unfolded Cons] Some c(1)]
      have "kmalloc_ptr (scheduler_yield k) = kmalloc_ptr k" using yield_same_pids [of k] by (simp add: same_pids_def)
      then show ?thesis by (intro sched_okI [OF y(1)]) (use y(2,3) xs(2) c Cons in auto)
    qed
  qed
qed

section \<open>Exit\<close>

text \<open>The fields of a process that point to threads.\<close>

definition same_ptrs :: "'w kernel \<Rightarrow> 'w kernel \<Rightarrow> bool" where
  "same_ptrs k k' \<longleftrightarrow> (\<forall>p. (wait_queue (pcbs k' p) = wait_queue (pcbs k p) \<or> wait_queue (pcbs k' p) = None) \<and>
     main_thread (pcbs k' p) = main_thread (pcbs k p)) \<and> kmalloc_ptr k' = kmalloc_ptr k"

lemma same_ptrs_trans: "same_ptrs a b \<Longrightarrow> same_ptrs b c \<Longrightarrow> same_ptrs a c"
  and same_ptrs_refl [simp]: "same_ptrs a a"
  unfolding same_ptrs_def by (metis, simp)

lemma ptrs_ok_same: "same_ptrs k k' \<Longrightarrow> ptrs_ok k \<Longrightarrow> ptrs_ok k'"
  unfolding same_ptrs_def ptrs_ok_def by (metis option.distinct(1))

lemma same_ptrs_upd_pcb:
  "(\<And>x. wait_queue (f x) = wait_queue x \<or> wait_queue (f x) = None) \<Longrightarrow> (\<And>x. main_thread (f x) = main_thread x) \<Longrightarrow>
     same_ptrs k (upd_pcb p f k)"
  by (simp add: same_ptrs_def)

lemma same_ptrs_pcbs: "pcbs k' = pcbs k \<Longrightarrow> kmalloc_ptr k' = kmalloc_ptr k \<Longrightarrow> same_ptrs k k'"
  by (simp add: same_ptrs_def)

lemma process_reap_same: "same_threads k (process_reap cl c k)" "same_ptrs k (process_reap cl c k)"
  by (simp_all add: process_reap_def process_list_remove_def Let_def same_threads_def same_ptrs_def)

lemma process_reap_pids:
  assumes "pids_ok k"
  shows "pids_ok (process_reap cl c k)"
proof -
  let ?k = "process_reap cl c k"
  have f: "process_list ?k = remove1 c (process_list k)" "next_pid ?k = next_pid k" "kmalloc_ptr ?k = kmalloc_ptr k"
    "kmalloc_end ?k = kmalloc_end k" "\<And>p. p \<noteq> c \<Longrightarrow> pid (pcbs ?k p) = pid (pcbs k p)"
    by (simp_all add: process_reap_def process_list_remove_def Let_def)
  have s: "set (process_list ?k) = set (process_list k) - {c}" "distinct (process_list ?k)"
    using assms by (simp_all add: f(1) pids_ok_def)
  show ?thesis using assms s unfolding pids_ok_def f(2-4) inj_on_def by (simp add: f(5))
qed

lemma reparent_loop_ok:
  "pids_ok k \<Longrightarrow> same_threads k (reparent_loop cl d i cs k) \<and> same_ptrs k (reparent_loop cl d i cs k) \<and>
     pids_ok (reparent_loop cl d i cs k)"
proof (induction cl d i cs k rule: reparent_loop.induct)
  case (2 cl d i c cs k)
  let ?k = "if is_zombie (pcbs k c) then process_reap cl c k
        else case i of
          Some i \<Rightarrow> if i \<noteq> d then upd_pcb i (\<lambda>p. p\<lparr>children := c # children p\<rparr>) (upd_pcb c (\<lambda>p. p\<lparr>p_parent := Some i\<rparr>) k)
            else upd_pcb c (\<lambda>p. p\<lparr>p_parent := None\<rparr>) k
        | None \<Rightarrow> upd_pcb c (\<lambda>p. p\<lparr>p_parent := None\<rparr>) k"
  have "same_threads k ?k \<and> same_ptrs k ?k \<and> pids_ok ?k"
  proof (cases "is_zombie (pcbs k c)")
    case True
    then show ?thesis by (simp add: process_reap_same process_reap_pids [OF "2.prems"])
  next
    case False
    then have "same_pids k ?k" "same_threads k ?k" "same_ptrs k ?k"
      by (auto simp: same_pids_def same_threads_def same_ptrs_def split: option.split)
    with pids_ok_same "2.prems" show ?thesis by blast
  qed
  with "2.IH" show ?case
    using same_threads_trans [of k ?k] same_ptrs_trans [of k ?k] by simp
qed simp

lemma reparent_ok:
  assumes "pids_ok k"
  shows "same_threads k (process_reparent_children cl d k)" "same_ptrs k (process_reparent_children cl d k)"
    "pids_ok (process_reparent_children cl d k)"
proof -
  let ?k = "reparent_loop cl d (find_process_by_pid 1 k) (children (pcbs k d)) k"
  let ?u = "upd_pcb d (\<lambda>p. p\<lparr>children := []\<rparr>) ?k"
  note l = reparent_loop_ok [OF assms, of cl d "find_process_by_pid 1 k" "children (pcbs k d)"]
  have "same_pids ?k ?u" "same_ptrs ?k ?u" by (simp_all add: same_pids_def same_ptrs_def)
  with l have "same_threads k ?u" "same_ptrs k ?u" "pids_ok ?u"
    using same_threads_trans same_ptrs_trans pids_ok_same same_threads_upd_pcb by blast+
  with assms show "same_threads k (process_reparent_children cl d k)" "same_ptrs k (process_reparent_children cl d k)"
    "pids_ok (process_reparent_children cl d k)" by (simp_all add: process_reparent_children_def)
qed

text \<open>Waking a blocked thread queues it: it was not queued, and it is not the current one.\<close>

lemma wake_thread_ok:
  assumes "sched_inv k xs" "\<And>t. t \<in> set xs \<Longrightarrow> t < kmalloc_ptr k" "w < kmalloc_ptr k"
    "t_state (tcbs k w) = THREAD_BLOCKED" "\<And>c. current k = Some c \<Longrightarrow> t_state (tcbs k c) \<noteq> THREAD_BLOCKED"
  defines "k' \<equiv> scheduler_add_thread (Some w) (upd_tcb w (\<lambda>x. x\<lparr>t_state := THREAD_READY\<rparr>) k)"
  shows "sched_inv k' (xs @ [w])" "current k' = current k" "kmalloc_ptr k' = kmalloc_ptr k" "halted k' = halted k"
    "pcbs k' = pcbs k" "\<And>t. t \<noteq> w \<Longrightarrow> t_state (tcbs k' t) = t_state (tcbs k t)"
proof -
  let ?k = "upd_tcb w (\<lambda>x. x\<lparr>t_state := THREAD_READY\<rparr>) k"
  have w: "w \<notin> set xs" "current k \<noteq> Some w" using assms by (auto simp: sched_inv_def)
  have i: "sched_inv ?k xs" by (rule sched_inv_cong [OF assms(1)]) (use w assms(1) in \<open>auto simp: sched_inv_def\<close>)
  have a: "sched_inv k' (xs @ [w]) \<and> same_but_queue (upd_tcb w (\<lambda>x. x\<lparr>t_state := THREAD_READY\<rparr>) ?k) k'"
    unfolding k'_def by (rule scheduler_add_thread_spec [OF i]) (use w in simp_all)
  then show "sched_inv k' (xs @ [w])" "current k' = current k" "halted k' = halted k" "pcbs k' = pcbs k"
    "\<And>t. t \<noteq> w \<Longrightarrow> t_state (tcbs k' t) = t_state (tcbs k t)" by (simp_all add: same_but_queue_def)
  show "kmalloc_ptr k' = kmalloc_ptr k" unfolding k'_def by (simp add: same_but_queue_ptr)
qed

lemma wake_waiting_parent_ok:
  fixes k :: "'w kernel" and p :: nat
  assumes "sched_inv k xs" "\<And>t. t \<in> set xs \<Longrightarrow> t < kmalloc_ptr k" "ptrs_ok k"
    "\<And>c. current k = Some c \<Longrightarrow> t_state (tcbs k c) \<noteq> THREAD_BLOCKED"
  defines "k' \<equiv> wake_waiting_parent p k"
  shows "\<exists>ys. sched_inv k' ys \<and> (\<forall>t \<in> set ys. t < kmalloc_ptr k')" "current k' = current k" "same_ptrs k k'" "same_pids k k'"
    "halted k' = halted k"
proof -
  have "k' = k \<or> (\<exists>pp w. p_parent (pcbs k p) = Some pp \<and> wait_queue (pcbs k pp) = Some w)"
    unfolding k'_def wake_waiting_parent_def by (simp split: option.split)
  then consider "k' = k" | pp w where "p_parent (pcbs k p) = Some pp" "wait_queue (pcbs k pp) = Some w" by blast
  then have "(\<exists>ys. sched_inv k' ys \<and> (\<forall>t \<in> set ys. t < kmalloc_ptr k')) \<and> current k' = current k \<and> same_ptrs k k' \<and>
      same_pids k k' \<and> halted k' = halted k"
  proof cases
    case 1
    with assms(1,2) show ?thesis by auto
  next
    case (2 pp w)
    let ?k = "upd_pcb pp (\<lambda>x. x\<lparr>wait_queue := None\<rparr>) k"
    have w: "w < kmalloc_ptr k" using 2(2) assms(3) by (auto simp: ptrs_ok_def)
    have i: "sched_inv ?k xs" using assms(1) sched_inv_same [OF same_threads_upd_pcb] by blast
    have s: "same_ptrs k ?k" "same_pids k ?k" by (simp_all add: same_ptrs_def same_pids_def)
    show ?thesis
    proof (cases "t_state (tcbs k w) = THREAD_BLOCKED")
      case True
      let ?k2 = "scheduler_add_thread (Some w) (upd_tcb w (\<lambda>x. x\<lparr>t_state := THREAD_READY\<rparr>) ?k)"
      have k': "k' = ?k2" using 2 True by (simp add: k'_def wake_waiting_parent_def Let_def)
      note a = wake_thread_ok [OF i, of w, folded k']
      have "same_pids ?k k'" unfolding k' by (rule same_pids_trans [OF same_pids_upd_tcb add_thread_same_pids])
      moreover have "same_ptrs ?k k'" by (rule same_ptrs_pcbs) (use a assms(2,4) w True in auto)
      ultimately show ?thesis
        using a assms(2,4) w True s same_pids_trans same_ptrs_trans
        by (intro conjI exI [of _ "xs @ [w]"]) (auto intro: same_pids_trans same_ptrs_trans)
    next
      case False
      then have "k' = ?k" using 2 by (simp add: k'_def wake_waiting_parent_def Let_def)
      with i s assms(2) show ?thesis by auto
    qed
  qed
  then show "\<exists>ys. sched_inv k' ys \<and> (\<forall>t \<in> set ys. t < kmalloc_ptr k')" "current k' = current k" "same_ptrs k k'"
    "same_pids k k'" "halted k' = halted k" by auto
qed

lemma kernel_okD: "kernel_ok k \<Longrightarrow> sched_ok k" "kernel_ok k \<Longrightarrow> pids_ok k" "kernel_ok k \<Longrightarrow> ptrs_ok k"
  by (simp_all add: kernel_ok_def)

text \<open>The first half of an exit: the thread is a zombie, its process may be, a waiting parent is queued.\<close>

lemma exit_current_ok:
  fixes k :: "'w kernel" and cl
  assumes "kernel_ok k" "\<not> halted k"
  defines "k' \<equiv> exit_current cl k"
  shows "\<exists>ys. sched_inv k' ys \<and> (\<forall>t \<in> set ys. t < kmalloc_ptr k')" "current k' = current k"
    "pids_ok k'" "ptrs_ok k'" "kmalloc_ptr k' = kmalloc_ptr k"
proof -
  obtain xs where xs: "sched_inv k xs" "\<And>t. t \<in> set xs \<Longrightarrow> t < kmalloc_ptr k"
    "\<And>c. current k = Some c \<Longrightarrow> c < kmalloc_ptr k \<and> (t_state (tcbs k c) = THREAD_RUNNING \<or> halted k)"
    using sched_okE [OF kernel_okD(1) [OF assms(1)]] by blast
  have "(\<exists>ys. sched_inv k' ys \<and> (\<forall>t \<in> set ys. t < kmalloc_ptr k')) \<and> current k' = current k \<and>
      pids_ok k' \<and> ptrs_ok k' \<and> kmalloc_ptr k' = kmalloc_ptr k"
  proof (cases "current k")
    case None
    then have "k' = k" by (simp add: k'_def exit_current_def)
    with xs kernel_okD [OF assms(1)] show ?thesis by auto
  next
    case (Some c)
    let ?k1 = "upd_tcb c (\<lambda>x. x\<lparr>t_state := THREAD_ZOMBIE\<rparr>) k"
    have c: "c \<notin> set xs" using xs(1) Some by (simp add: sched_inv_def)
    have i1: "sched_inv ?k1 xs" by (rule sched_inv_cong [OF xs(1)]) (use c Some in auto)
    have p1: "pids_ok ?k1" using kernel_okD(2) [OF assms(1)] pids_ok_same [OF same_pids_upd_tcb] by blast
    have q1: "ptrs_ok ?k1" using kernel_okD(3) [OF assms(1)] by (simp add: ptrs_ok_def)
    show ?thesis
    proof (cases "\<exists>p. t_parent (tcbs k c) = Some p \<and> main_thread (pcbs k p) = Some c")
      case False
      then have "k' = ?k1" using Some by (auto simp: k'_def exit_current_def Let_def split: option.split)
      with i1 p1 q1 xs(2) show ?thesis by auto
    next
      case True
      then obtain p where p: "t_parent (tcbs k c) = Some p" "main_thread (pcbs k p) = Some c" by blast
      let ?k2 = "upd_pcb p (\<lambda>x. x\<lparr>is_zombie := True\<rparr>) ?k1" and ?k3 = "process_reparent_children cl p (upd_pcb p (\<lambda>x. x\<lparr>is_zombie := True\<rparr>) ?k1)"
      have k': "k' = wake_waiting_parent p ?k3" using p Some by (simp add: k'_def exit_current_def Let_def)
      have s2: "same_pids ?k1 ?k2" "same_ptrs ?k1 ?k2" "same_threads ?k1 ?k2"
        by (simp_all add: same_pids_def same_ptrs_def same_threads_def)
      have p2: "pids_ok ?k2" using p1 pids_ok_same [OF s2(1)] by blast
      note r = reparent_ok [OF p2, of cl p]
      have st: "same_threads ?k1 ?k3" by (rule same_threads_trans [OF s2(3) r(1)])
      have i3: "sched_inv ?k3 xs" using i1 sched_inv_same [OF st] by blast
      have q3: "ptrs_ok ?k3" using q1 ptrs_ok_same [OF s2(2)] ptrs_ok_same [OF r(2)] by blast
      have f: "kmalloc_ptr ?k3 = kmalloc_ptr k" "tcbs ?k3 = tcbs ?k1" "current ?k3 = Some c"
        using st Some by (simp_all add: same_threads_def)
      note w = wake_waiting_parent_ok [OF i3, of p, folded k']
      have a: "\<exists>ys. sched_inv k' ys \<and> (\<forall>t \<in> set ys. t < kmalloc_ptr k')" "current k' = Some c"
        "same_ptrs ?k3 k'" "same_pids ?k3 k'"
        using w q3 xs(2) f by auto
      have b: "current k' = current k" "pids_ok k'" "kmalloc_ptr k' = kmalloc_ptr k"
        using a(2,4) Some r(3) pids_ok_same [OF a(4)] f(1) by (simp_all add: same_pids_def)
      show ?thesis by (intro conjI a(1) b ptrs_ok_same [OF a(3) q3])
    qed
  qed
  then show "\<exists>ys. sched_inv k' ys \<and> (\<forall>t \<in> set ys. t < kmalloc_ptr k')" "current k' = current k"
    "pids_ok k'" "ptrs_ok k'" "kmalloc_ptr k' = kmalloc_ptr k" by auto
qed

lemma dequeue_cases:
  assumes "sched_inv k ys"
  obtains "ys = []" "dequeue_next k = (None, k)"
  | n ns k1 where "ys = n # ns" "dequeue_next k = (Some n, k1)" "same_but_queue k k1" "sched_inv k1 ns" "n \<notin> set ns"
proof (cases ys)
  case Nil
  with assms dequeue_next_empty that(1) show ?thesis by (auto simp: sched_inv_def)
next
  case (Cons n ns)
  from dequeue_sched_inv [OF assms [unfolded Cons]] that(2) [OF Cons] show ?thesis by metis
qed

lemma ptrs_ok_pcbs: "pcbs k' = pcbs k \<Longrightarrow> kmalloc_ptr k' = kmalloc_ptr k \<Longrightarrow> ptrs_ok k' = ptrs_ok k"
  by (simp add: ptrs_ok_def)

lemma same_pids_current [simp]: "same_pids k (k\<lparr>current := c\<rparr>)" "same_pids k (k\<lparr>halted := h\<rparr>)"
  by (simp_all add: same_pids_def)

lemma thread_exit_ok:
  assumes "kernel_ok k" "\<not> halted k"
  shows "kernel_ok (scheduler_thread_exit cl k)"
proof -
  let ?k = "exit_current cl k"
  note e = exit_current_ok [OF assms, of cl]
  obtain ys where ys: "sched_inv ?k ys" "\<forall>t \<in> set ys. t < kmalloc_ptr ?k" using e(1) by blast
  have c: "c < kmalloc_ptr ?k" if "current ?k = Some c" for c
    using that e(2,5) kernel_okD(1) [OF assms(1)] by (auto simp: sched_ok_def)
  show ?thesis
  proof (cases rule: dequeue_cases [OF ys(1)])
    case 1
    have "same_threads ?k ?k" by simp
    have "sched_inv (?k\<lparr>halted := True\<rparr>) ys" using ys(1) by (simp add: sched_inv_def ready_q_def)
    then have "sched_ok (?k\<lparr>halted := True\<rparr>)" by (rule sched_okI) (use ys(2) c in auto)
    moreover have "pids_ok (?k\<lparr>halted := True\<rparr>)" using e(3) pids_ok_same [OF same_pids_current(2)] by blast
    moreover have "ptrs_ok (?k\<lparr>halted := True\<rparr>)" using e(4) by (simp add: ptrs_ok_def)
    ultimately show ?thesis using 1(2) by (simp add: scheduler_thread_exit_def kernel_ok_def)
  next
    case (2 n ns k1)
    let ?k2 = "(upd_tcb n (\<lambda>x. x\<lparr>t_state := THREAD_RUNNING\<rparr>) k1)\<lparr>current := Some n\<rparr>"
    have k': "scheduler_thread_exit cl k = context_switch (current k1) n ?k2"
      using 2(2) by (simp add: scheduler_thread_exit_def Let_def)
    have "sched_ok (context_switch (current k1) n ?k2)"
      by (rule run_next_ok [OF ys(1) [unfolded 2(1)] _ 2(2)]) (use ys(2) 2(1) in auto)
    moreover have s: "same_pids ?k (context_switch (current k1) n ?k2)"
      by (rule same_pids_trans [OF dequeue_same_pids [OF 2(2)]
          same_pids_trans [OF same_pids_trans [OF same_pids_upd_tcb same_pids_current(1)] context_switch_same_pids]])
    then have "pids_ok (context_switch (current k1) n ?k2)" using e(3) pids_ok_same by blast
    moreover have "ptrs_ok (context_switch (current k1) n ?k2)"
      using e(4) s 2(3) by (subst ptrs_ok_pcbs [of _ ?k]) (simp_all add: same_but_queue_def same_pids_def)
    ultimately show ?thesis unfolding k' by (simp add: kernel_ok_def)
  qed
qed

end
