(* ===== verification/Process_Steps.thy ===== *)
theory Process_Steps
  imports Process_Invariants
begin

text \<open>
  The operations that schedule, create and wait for processes keep the kernel's
  invariant, and every kernel state reached from boot by them satisfies it.
\<close>

section \<open>The invariant with its queue\<close>

definition kernel_q :: "'w kernel \<Rightarrow> nat list \<Rightarrow> bool" where
  "kernel_q k xs \<longleftrightarrow> sched_inv k xs \<and> (\<forall>t \<in> set xs. t < kmalloc_ptr k) \<and>
     (\<forall>c. current k = Some c \<longrightarrow> c < kmalloc_ptr k \<and> (t_state (tcbs k c) = THREAD_RUNNING \<or> halted k)) \<and>
     pids_ok k \<and> ptrs_ok k"

lemma kernel_ok_iff: "kernel_ok k \<longleftrightarrow> (\<exists>xs. kernel_q k xs)"
  unfolding kernel_ok_def kernel_q_def sched_ok_def by blast

lemma kernel_qD:
  assumes "kernel_q k xs"
  shows "sched_inv k xs" "\<And>t. t \<in> set xs \<Longrightarrow> t < kmalloc_ptr k" "pids_ok k" "ptrs_ok k"
    "\<And>c. current k = Some c \<Longrightarrow> c < kmalloc_ptr k" "\<And>c. current k = Some c \<Longrightarrow> \<not> halted k \<Longrightarrow> t_state (tcbs k c) = THREAD_RUNNING"
  using assms by (auto simp: kernel_q_def)

lemma kernel_q_frame:
  assumes "kernel_q k xs" "same_threads k k'" "same_ptrs k k'" "same_pids k k'"
  shows "kernel_q k' xs"
  using assms(1) sched_inv_same [OF assms(2)] ptrs_ok_same [OF assms(3)] pids_ok_same [OF assms(4)] assms(2)
  by (auto simp: kernel_q_def same_threads_def)

lemma kernel_q_upd_pcb:
  assumes "kernel_q k xs" "\<And>x. pid (f x) = pid x" "\<And>x. wait_queue (f x) = wait_queue x" "\<And>x. main_thread (f x) = main_thread x"
  shows "kernel_q (upd_pcb p f k) xs"
  by (rule kernel_q_frame [OF assms(1) same_threads_upd_pcb])
    (use assms(2-4) in \<open>simp_all add: same_ptrs_def same_pids_def\<close>)

lemma kernel_q_upd_signals: "kernel_q k xs \<Longrightarrow> kernel_q (upd_signals p f k) xs"
  unfolding upd_signals_def by (rule kernel_q_upd_pcb) simp_all

text \<open>Changing a thread that is neither queued nor running.\<close>

definition fresh :: "nat \<Rightarrow> 'w kernel \<Rightarrow> nat list \<Rightarrow> bool" where
  "fresh t k xs \<longleftrightarrow> t \<notin> set xs \<and> current k \<noteq> Some t \<and> t < kmalloc_ptr k"

lemma kernel_q_upd_tcb:
  assumes "kernel_q k xs" "fresh t k xs"
  shows "kernel_q (upd_tcb t f k) xs" "fresh t (upd_tcb t f k) xs"
proof -
  have "sched_inv (upd_tcb t f k) xs"
    by (rule sched_inv_cong [OF kernel_qD(1) [OF assms(1)]])
      (use assms in \<open>auto simp: fresh_def kernel_q_def sched_inv_def\<close>)
  moreover have "pids_ok (upd_tcb t f k) = pids_ok k" by (rule pids_ok_same) simp
  moreover have "ptrs_ok (upd_tcb t f k) = ptrs_ok k" by (rule ptrs_ok_pcbs) simp_all
  ultimately show "kernel_q (upd_tcb t f k) xs" "fresh t (upd_tcb t f k) xs"
    using assms by (auto simp: kernel_q_def fresh_def)
qed

lemma kernel_q_add_thread:
  assumes "kernel_q k xs" "fresh t k xs"
  shows "kernel_q (scheduler_add_thread (Some t) k) (xs @ [t])"
proof -
  let ?k = "scheduler_add_thread (Some t) k"
  have a: "sched_inv ?k (xs @ [t])" "same_but_queue (upd_tcb t (\<lambda>x. x\<lparr>t_state := THREAD_READY\<rparr>) k) ?k"
    using scheduler_add_thread_spec [OF kernel_qD(1) [OF assms(1)]] assms(2) by (auto simp: fresh_def)
  have s: "same_pids k ?k" by (rule add_thread_same_pids)
  have p: "pids_ok ?k" using pids_ok_same [OF s] assms(1) by (simp add: kernel_q_def)
  have q: "ptrs_ok ?k = ptrs_ok k" by (rule ptrs_ok_pcbs) (use a(2) s in \<open>simp_all add: same_but_queue_def same_pids_def\<close>)
  have "current ?k = current k" "halted ?k = halted k" "kmalloc_ptr ?k = kmalloc_ptr k"
    "\<And>c. c \<noteq> t \<Longrightarrow> t_state (tcbs ?k c) = t_state (tcbs k c)"
    using a(2) s by (simp_all add: same_but_queue_def same_pids_def)
  with a(1) p q assms show ?thesis by (auto simp: kernel_q_def fresh_def)
qed

lemma wake_ok:
  assumes "kernel_q k xs" "\<not> halted k" "w < kmalloc_ptr k" "t_state (tcbs k w) = THREAD_BLOCKED"
  shows "kernel_ok (scheduler_add_thread (Some w) (upd_tcb w (\<lambda>x. x\<lparr>t_state := THREAD_READY\<rparr>) k))"
proof -
  have f: "fresh w k xs" using assms by (auto simp: kernel_q_def fresh_def sched_inv_def)
  show ?thesis using kernel_q_add_thread [OF kernel_q_upd_tcb [OF assms(1) f]] by (auto simp: kernel_ok_iff)
qed

section \<open>Scheduling\<close>

lemma kernel_okI:
  "sched_ok k' \<Longrightarrow> same_pids k k' \<Longrightarrow> pcbs k' = pcbs k \<Longrightarrow> kernel_ok k \<Longrightarrow> kernel_ok k'"
  using pids_ok_same [of k k'] ptrs_ok_pcbs [of k' k] by (auto simp: kernel_ok_def same_pids_def)

lemma yield_pcbs: assumes "kernel_ok k" "\<not> halted k" shows "pcbs (scheduler_yield k) = pcbs k"
proof -
  obtain xs where q: "kernel_q k xs" using assms(1) kernel_ok_iff by blast
  show ?thesis
  proof (cases rule: dequeue_cases [OF kernel_qD(1) [OF q]])
    case 1
    then show ?thesis by (simp add: scheduler_yield_def)
  next
    case (2 n ns k1)
    have "pcbs (case current k of None \<Rightarrow> k1 | Some a \<Rightarrow> if t_state (tcbs k1 a) = THREAD_RUNNING
        then scheduler_add_thread (Some a) (upd_tcb a (\<lambda>x. x\<lparr>t_state := THREAD_READY\<rparr>) k1) else k1) = pcbs k1"
      by (auto simp: scheduler_add_thread_def enqueue_ready_def Let_def split: option.split)
    with 2 show ?thesis by (simp add: scheduler_yield_def Let_def same_but_queue_def)
  qed
qed

lemma yield_ok: "kernel_ok k \<Longrightarrow> \<not> halted k \<Longrightarrow> kernel_ok (scheduler_yield k)"
  using kernel_okI [OF yield_sched_ok yield_same_pids yield_pcbs, of k] by (simp add: kernel_ok_def)

lemma deliver_ok:
  assumes "kernel_ok k" "\<not> halted k"
  shows "kernel_ok (snd (snd (signal_deliver cl p r k)))"
proof -
  obtain xs where q: "kernel_q k xs" using assms(1) kernel_ok_iff by blast
  have u: "kernel_ok (upd_signals p f k)" for f using kernel_q_upd_signals [OF q] kernel_ok_iff by blast
  have t: "kernel_ok (scheduler_thread_exit cl (upd_pcb p (\<lambda>x. x\<lparr>exit_code := e\<rparr>) (upd_signals p f k)))" for e f
  proof (rule thread_exit_ok)
    have "kernel_q (upd_pcb p (\<lambda>x. x\<lparr>exit_code := e\<rparr>) (upd_signals p f k)) xs"
      by (rule kernel_q_upd_pcb [OF kernel_q_upd_signals [OF q]]) simp_all
    then show "kernel_ok (upd_pcb p (\<lambda>x. x\<lparr>exit_code := e\<rparr>) (upd_signals p f k))" using kernel_ok_iff by blast
    show "\<not> halted (upd_pcb p (\<lambda>x. x\<lparr>exit_code := e\<rparr>) (upd_signals p f k))" using assms(2) by (simp add: upd_signals_def)
  qed
  show ?thesis
    unfolding signal_deliver_def Let_def using u t assms(1) by (simp split: sig_default_action.split)
qed

lemma deliver_to_current_ok:
  "kernel_ok k \<Longrightarrow> \<not> halted k \<Longrightarrow> kernel_ok (snd (deliver_to_current cl r k))"
  using deliver_ok [of k cl _ r] by (auto simp: deliver_to_current_def split: option.split prod.split)
     (metis snd_conv)

text \<open>Making a queued thread the running one, with the old one queued behind the others or not.\<close>

lemma kernel_q_run:
  assumes "kernel_q k xs" "n \<notin> set xs" "n < kmalloc_ptr k"
  shows "kernel_q ((upd_tcb n (\<lambda>x. x\<lparr>t_state := THREAD_RUNNING\<rparr>) k)\<lparr>current := Some n\<rparr>) xs"
    (is "kernel_q ?k xs")
proof -
  have "sched_inv ?k xs" by (rule sched_inv_run [OF kernel_qD(1) [OF assms(1)] assms(2)])
  moreover have "same_pids k ?k" "pcbs ?k = pcbs k" "kmalloc_ptr ?k = kmalloc_ptr k" by (simp_all add: same_pids_def)
  ultimately show ?thesis
    using assms pids_ok_same [of k ?k] ptrs_ok_pcbs [of ?k k] by (auto simp: kernel_q_def)
qed

lemma kernel_q_dequeue:
  assumes "kernel_q k (n # ns)" "dequeue_next k = (Some n, k1)"
  shows "kernel_q k1 ns" "n \<notin> set ns" "current k1 \<noteq> Some n" "n < kmalloc_ptr k1" "halted k1 = halted k" "current k1 = current k"
    "\<And>t. t_state (tcbs k1 t) = t_state (tcbs k t)"
proof -
  obtain k1' where d: "dequeue_next k = (Some n, k1')" and s: "same_but_queue k k1'" and i: "sched_inv k1' ns"
    and n: "n \<notin> set ns" "current k \<noteq> Some n" using dequeue_sched_inv [OF kernel_qD(1) [OF assms(1)]] by metis
  then have [simp]: "k1' = k1" using assms(2) by simp
  have p: "same_pids k k1" by (rule dequeue_same_pids [OF assms(2)])
  show "n \<notin> set ns" "current k1 \<noteq> Some n" "n < kmalloc_ptr k1" "halted k1 = halted k" "current k1 = current k"
    "\<And>t. t_state (tcbs k1 t) = t_state (tcbs k t)"
    using n s p assms(1) by (auto simp: same_but_queue_def same_pids_def kernel_q_def)
  show "kernel_q k1 ns"
    using assms(1) s i p pids_ok_same [OF p] ptrs_ok_pcbs [of k1 k]
    by (auto simp: kernel_q_def same_but_queue_def same_pids_def)
qed

lemma enqueue_ready_add:
  "enqueue_ready (Some a) (upd_tcb a (\<lambda>x. x\<lparr>t_state := THREAD_READY\<rparr>) k) = scheduler_add_thread (Some a) k"
  by (simp add: scheduler_add_thread_def)

lemma kernel_q_switch:
  assumes "kernel_q k (n # ns)" "dequeue_next k = (Some n, k1)" "current k = Some c" "\<not> halted k"
  defines "k2 \<equiv> scheduler_add_thread (Some c) k1"
  shows "kernel_q ((upd_tcb n (\<lambda>x. x\<lparr>t_state := THREAD_RUNNING\<rparr>) k2)\<lparr>current := Some n\<rparr>) (ns @ [c])"
proof -
  note d = kernel_q_dequeue [OF assms(1,2)]
  let ?k = "k1\<lparr>current := None\<rparr>"
  have c: "c \<noteq> n" "c < kmalloc_ptr k1" "c \<notin> set ns"
    using d assms(3) kernel_qD(5) [OF d(1)] kernel_qD(1) [OF d(1)] by (auto simp: sched_inv_def)
  have "same_pids k1 ?k" by simp
  then have q: "kernel_q ?k ns" using d(1) pids_ok_same [of k1 ?k] ptrs_ok_pcbs [of ?k k1]
    by (auto simp: kernel_q_def sched_inv_def ready_q_def)
  have "kernel_q (scheduler_add_thread (Some c) ?k) (ns @ [c])"
    by (rule kernel_q_add_thread [OF q]) (use c in \<open>simp add: fresh_def\<close>)
  moreover have "scheduler_add_thread (Some c) ?k = k2\<lparr>current := None\<rparr>"
    by (simp add: k2_def scheduler_add_thread_def enqueue_ready_def Let_def upd_tcb_def split: option.split)
  ultimately have "kernel_q (k2\<lparr>current := None\<rparr>) (ns @ [c])" by simp
  moreover have "kmalloc_ptr k2 = kmalloc_ptr k1" by (simp add: k2_def same_but_queue_ptr)
  ultimately have "kernel_q ((upd_tcb n (\<lambda>x. x\<lparr>t_state := THREAD_RUNNING\<rparr>) (k2\<lparr>current := None\<rparr>))\<lparr>current := Some n\<rparr>) (ns @ [c])"
    using c d by (intro kernel_q_run) auto
  then show ?thesis by (simp add: upd_tcb_def)
qed

lemma save_context_simps:
  "t_state (tcbs (save_context_from_regs c r k) t) = t_state (tcbs k t)"
  "t_next (tcbs (save_context_from_regs c r k) t) = t_next (tcbs k t)"
  "ready_head (save_context_from_regs c r k) = ready_head k" "ready_tail (save_context_from_regs c r k) = ready_tail k"
  "current (save_context_from_regs c r k) = current k" "halted (save_context_from_regs c r k) = halted k"
  "pcbs (save_context_from_regs c r k) = pcbs k" "kmalloc_ptr (save_context_from_regs c r k) = kmalloc_ptr k"
  "same_pids k (save_context_from_regs c r k)"
  by (simp_all add: save_context_from_regs_def)

lemma kernel_q_save_context:
  assumes "kernel_q k xs" shows "kernel_q (save_context_from_regs c r k) xs"
proof -
  let ?k = "save_context_from_regs c r k"
  have "sched_inv ?k xs"
    by (rule sched_inv_cong [OF kernel_qD(1) [OF assms]])
      (use kernel_qD(1) [OF assms] in \<open>auto simp: save_context_simps sched_inv_def\<close>)
  with assms pids_ok_same [OF save_context_simps(9) [of k c r]] ptrs_ok_pcbs [of ?k k] show ?thesis
    by (simp add: kernel_q_def save_context_simps)
qed

lemma upd_tcb_current: "upd_tcb n f (k\<lparr>current := c\<rparr>) = (upd_tcb n f k)\<lparr>current := c\<rparr>"
  by (simp add: upd_tcb_def)

lemma add_thread_halted:
  "kernel_q k xs \<Longrightarrow> c \<notin> set xs \<Longrightarrow> \<not> halted k \<Longrightarrow> \<not> halted (scheduler_add_thread (Some c) k)"
  unfolding scheduler_add_thread_def
  using enqueue_ready_spec [OF ready_q_cong [of k xs "upd_tcb c (\<lambda>x. x\<lparr>t_state := THREAD_READY\<rparr>) k"], of c]
  by (auto simp: kernel_q_def sched_inv_def same_but_queue_def)

lemma tick_ok:
  assumes "kernel_ok k" "\<not> halted k"
  shows "kernel_ok (snd (scheduler_tick cl r k))"
proof -
  obtain xs where q: "kernel_q k xs" using assms(1) kernel_ok_iff by blast
  show ?thesis
  proof (cases "current k")
    case None
    show ?thesis
    proof (cases rule: dequeue_cases [OF kernel_qD(1) [OF q]])
      case 1
      with None assms show ?thesis by (simp add: scheduler_tick_def)
    next
      case (2 n ns k1)
      note d = kernel_q_dequeue [OF q [unfolded 2(1)] 2(2)]
      have "kernel_ok ((upd_tcb n (\<lambda>x. x\<lparr>t_state := THREAD_RUNNING\<rparr>) k1)\<lparr>current := Some n\<rparr>)"
        using kernel_q_run [OF d(1,2,4)] kernel_ok_iff by blast
      with None 2 show ?thesis by (simp add: scheduler_tick_def Let_def upd_tcb_current)
    qed
  next
    case (Some c)
    let ?k = "save_context_from_regs c r k"
    have qs: "kernel_q ?k xs" by (rule kernel_q_save_context [OF q])
    have h: "\<not> halted ?k" "current ?k = Some c" using assms(2) Some by (simp_all add: save_context_simps)
    show ?thesis
    proof (cases rule: dequeue_cases [OF kernel_qD(1) [OF qs]])
      case 1
      have "kernel_ok ?k" using qs kernel_ok_iff by blast
      from deliver_to_current_ok [OF this h(1)] Some 1 show ?thesis by (simp add: scheduler_tick_def)
    next
      case (2 n ns k1)
      note d = kernel_q_dequeue [OF qs [unfolded 2(1)] 2(2)]
      have st: "t_state (tcbs k1 c) = THREAD_RUNNING" using kernel_qD(6) [OF qs] h d(7) by simp
      let ?k3 = "(upd_tcb n (\<lambda>x. x\<lparr>t_state := THREAD_RUNNING\<rparr>) (scheduler_add_thread (Some c) k1))\<lparr>current := Some n\<rparr>"
      have k3: "kernel_ok ?k3" using kernel_q_switch [OF qs [unfolded 2(1)] 2(2) h(2,1)] kernel_ok_iff by blast
      have "c \<notin> set ns" using d(1,6) h(2) by (auto simp: kernel_q_def sched_inv_def)
      then have "\<not> halted ?k3" using add_thread_halted [OF d(1)] h(1) d(5) by simp
      from deliver_to_current_ok [OF k3 this] Some 2 st show ?thesis
        by (simp add: scheduler_tick_def Let_def enqueue_ready_add upd_tcb_current)
    qed
  qed
qed

section \<open>Waiting for a child\<close>

lemma kernel_q_context_switch:
  assumes "kernel_q k xs" shows "kernel_q (context_switch old n k) xs"
proof -
  have s: "same_pids k (context_switch old n k)" by (rule context_switch_same_pids)
  then show ?thesis
    using assms sched_inv_context_switch [OF kernel_qD(1) [OF assms], of old n] pids_ok_same [OF s]
      ptrs_ok_pcbs [of "context_switch old n k" k]
    by (simp add: kernel_q_def same_pids_def)
qed

lemma dequeue_current: "dequeue_next (k\<lparr>current := c\<rparr>) = (fst (dequeue_next k), (snd (dequeue_next k))\<lparr>current := c\<rparr>)"
  by (simp add: dequeue_next_def Let_def upd_tcb_def split: option.split)

lemma kernel_q_no_current:
  assumes "kernel_q k xs" "current k = Some c"
  shows "kernel_q ((upd_tcb c f k)\<lparr>current := None\<rparr>) xs"
proof -
  let ?k = "(upd_tcb c f k)\<lparr>current := None\<rparr>"
  have "sched_inv ?k xs"
    by (rule sched_inv_cong [OF kernel_qD(1) [OF assms(1)]]) (use assms in \<open>auto simp: kernel_q_def sched_inv_def\<close>)
  moreover have "same_pids k ?k" by (simp add: same_pids_def)
  ultimately show ?thesis using assms pids_ok_same [of k ?k] ptrs_ok_pcbs [of ?k k] by (simp add: kernel_q_def)
qed

lemma block_current_ok:
  assumes "kernel_q k xs" "current k = Some c"
  shows "kernel_ok (scheduler_block_current (upd_tcb c (\<lambda>x. x\<lparr>t_state := THREAD_BLOCKED\<rparr>) k))"
proof -
  let ?k = "upd_tcb c (\<lambda>x. x\<lparr>t_state := THREAD_BLOCKED\<rparr>) k"
  have q: "kernel_q (?k\<lparr>current := None\<rparr>) xs" by (rule kernel_q_no_current [OF assms])
  show ?thesis
  proof (cases rule: dequeue_cases [OF kernel_qD(1) [OF q]])
    case 1
    have d: "dequeue_next ?k = (None, ?k)" using 1(1) kernel_qD(1) [OF q] by (simp add: sched_inv_def ready_q_def dequeue_next_def)
    have c: "c \<notin> set xs" "c < kmalloc_ptr ?k" using assms by (auto simp: kernel_q_def sched_inv_def)
    have "kernel_q ((upd_tcb c (\<lambda>x. x\<lparr>t_state := THREAD_RUNNING\<rparr>) (?k\<lparr>current := None\<rparr>))\<lparr>current := Some c\<rparr>) xs"
      by (rule kernel_q_run [OF q]) (use c in simp_all)
    moreover have "(upd_tcb c (\<lambda>x. x\<lparr>t_state := THREAD_RUNNING\<rparr>) (?k\<lparr>current := None\<rparr>))\<lparr>current := Some c\<rparr> =
        upd_tcb c (\<lambda>x. x\<lparr>t_state := THREAD_RUNNING\<rparr>) ?k" using assms(2) by (simp add: upd_tcb_def)
    ultimately show ?thesis using d assms(2) by (auto simp: scheduler_block_current_def kernel_ok_iff)
  next
    case (2 n ns k1)
    note d = kernel_q_dequeue [OF q [unfolded 2(1)] 2(2)]
    have s: "?k\<lparr>current := Some c\<rparr> = ?k" using assms(2) by (simp add: upd_tcb_def)
    have e: "dequeue_next ?k = (Some n, k1\<lparr>current := Some c\<rparr>)"
      using dequeue_current [of "Some c" "?k\<lparr>current := None\<rparr>"] 2(2) s by simp
    have "kernel_q (context_switch (Some c) n ((upd_tcb n (\<lambda>x. x\<lparr>t_state := THREAD_RUNNING\<rparr>) k1)\<lparr>current := Some n\<rparr>)) ns"
      by (rule kernel_q_context_switch [OF kernel_q_run [OF d(1,2,4)]])
    then show ?thesis using e assms(2) by (auto simp: scheduler_block_current_def kernel_ok_iff Let_def upd_tcb_current)
  qed
qed

lemma kernel_ok_reap: assumes "kernel_ok k" shows "kernel_ok (process_reap cl c k)"
  using assms sched_ok_same [OF process_reap_same(1)] ptrs_ok_same [OF process_reap_same(2)] process_reap_pids
  unfolding kernel_ok_def by blast

lemma waitpid_ok:
  assumes "kernel_ok k" "\<not> halted k"
  shows "kernel_ok (snd (waitpid_process cl n w k))"
proof -
  obtain xs where q: "kernel_q k xs" using assms(1) kernel_ok_iff by blast
  have r: "kernel_ok (process_reap cl child (upd_pcb p (\<lambda>x. x\<lparr>children := remove1 child (children x)\<rparr>) k))" for child p
    by (rule kernel_ok_reap) (use kernel_q_upd_pcb [OF q, of "\<lambda>x. x\<lparr>children := remove1 child (children x)\<rparr>"] kernel_ok_iff in auto)
  have b: "kernel_ok (scheduler_block_current (upd_tcb c (\<lambda>x. x\<lparr>t_state := THREAD_BLOCKED\<rparr>)
      (upd_pcb p (\<lambda>x. x\<lparr>wait_queue := current k\<rparr>) k)))" if c: "current k = Some c" for c p
  proof (rule block_current_ok)
    let ?k = "upd_pcb p (\<lambda>x. x\<lparr>wait_queue := current k\<rparr>) k"
    have "same_pids k ?k" by (simp add: same_pids_def)
    moreover have "ptrs_ok ?k" using q c by (auto simp: ptrs_ok_def kernel_q_def)
    ultimately show "kernel_q ?k xs"
      using q pids_ok_same [of k ?k] by (simp add: kernel_q_def sched_inv_same [OF same_threads_upd_pcb])
    show "current ?k = Some c" using c by simp
  qed
  have "current k \<noteq> None" if "get_current_process k = Some p" for p
    using that by (auto simp: get_current_process_def split: option.splits)
  with r b assms(1) show ?thesis
    by (auto simp: waitpid_process_def Let_def split: option.split)
qed

section \<open>Creating threads and processes\<close>

lemma kmalloc_cases:
  assumes "kmalloc sz al k = (r, k')" "0 < al"
  obtains "r = None" "k' = k"
  | p where "r = Some p" "kmalloc_ptr k \<le> p" "0 < sz" "p + sz \<le> kmalloc_end k" "k' = k\<lparr>kmalloc_ptr := p + sz\<rparr>"
proof -
  let ?p = "(kmalloc_ptr k + (al - 1)) div al * al"
  have "?p = kmalloc_ptr k + (al - 1) - (kmalloc_ptr k + (al - 1)) mod al"
    by (simp add: minus_mod_eq_div_mult)
  moreover have "(kmalloc_ptr k + (al - 1)) mod al \<le> al - 1"
    using mod_less_divisor [OF assms(2), of "kmalloc_ptr k + (al - 1)"] by linarith
  ultimately have p: "kmalloc_ptr k \<le> ?p" by linarith
  show ?thesis
  proof (cases "sz = 0 \<or> ?p + sz > kmalloc_end k")
    case True
    then have "kmalloc sz al k = (None, k)" by (auto simp: kmalloc_def Let_def)
    with assms(1) show ?thesis by (intro that(1)) simp_all
  next
    case False
    then have "kmalloc sz al k = (Some ?p, k\<lparr>kmalloc_ptr := ?p + sz\<rparr>)" by (auto simp: kmalloc_def Let_def)
    with assms(1) False p show ?thesis by (intro that(2) [of ?p]) simp_all
  qed
qed

lemma kernel_q_grow:
  assumes "kernel_q k xs" "kmalloc_ptr k \<le> n" "n \<le> kmalloc_end k"
  shows "kernel_q (k\<lparr>kmalloc_ptr := n\<rparr>) xs"
  using assms by (fastforce simp: kernel_q_def sched_inv_def ready_q_def pids_ok_def ptrs_ok_def)

lemma zalloc_tcb_ok:
  assumes "kernel_q k xs" "zalloc_tcb k = (r, k')"
  shows "kernel_q k' xs" "\<And>t. r = Some t \<Longrightarrow> fresh t k' xs" "pcbs k' = pcbs k" "current k' = current k"
    "process_list k' = process_list k" "halted k' = halted k" "kmalloc_ptr k \<le> kmalloc_ptr k'"
proof -
  obtain r1 k1 where m: "kmalloc SIZEOF_TCB 16 k = (r1, k1)" by fastforce
  have "kernel_q k' xs \<and> (\<forall>t. r = Some t \<longrightarrow> fresh t k' xs) \<and> pcbs k' = pcbs k \<and> current k' = current k \<and>
    process_list k' = process_list k \<and> halted k' = halted k \<and> kmalloc_ptr k \<le> kmalloc_ptr k'"
  proof (cases rule: kmalloc_cases [OF m])
    case 2
    with m assms show ?thesis by (simp add: zalloc_tcb_def)
  next
    case (3 p)
    have q: "kernel_q k1 xs" using kernel_q_grow [OF assms(1), of "p + SIZEOF_TCB"] 3 by simp
    have f: "fresh p k1 xs" using assms(1) 3(2,5) by (auto simp: fresh_def kernel_q_def)
    have k': "k' = upd_tcb p (\<lambda>_. zero_tcb) k1" "r = Some p" using assms(2) m 3 by (auto simp: zalloc_tcb_def)
    from kernel_q_upd_tcb [OF q f, of "\<lambda>_. zero_tcb"] 3 k' show ?thesis by simp
  qed simp
  then show "kernel_q k' xs" "\<And>t. r = Some t \<Longrightarrow> fresh t k' xs" "pcbs k' = pcbs k" "current k' = current k"
    "process_list k' = process_list k" "halted k' = halted k" "kmalloc_ptr k \<le> kmalloc_ptr k'" by auto
qed

lemma alloc_kernel_stack_ok:
  assumes "kernel_q k xs" "alloc_kernel_stack k = (r, k')"
  shows "kernel_q k' xs" "fresh t k xs \<Longrightarrow> fresh t k' xs" "pcbs k' = pcbs k" "current k' = current k"
    "process_list k' = process_list k" "halted k' = halted k" "kmalloc_ptr k \<le> kmalloc_ptr k'"
proof -
  obtain r1 k1 where m: "kmalloc KERNEL_STACK_SIZE 16 k = (r1, k1)" by fastforce
  have "k' = k1" using assms(2) m by (auto simp: alloc_kernel_stack_def split: option.splits)
  moreover have "kernel_q k1 xs \<and> (fresh t k xs \<longrightarrow> fresh t k1 xs) \<and> pcbs k1 = pcbs k \<and> current k1 = current k \<and>
    process_list k1 = process_list k \<and> halted k1 = halted k \<and> kmalloc_ptr k \<le> kmalloc_ptr k1"
  proof (cases rule: kmalloc_cases [OF m])
    case (3 p)
    with kernel_q_grow [OF assms(1), of "p + KERNEL_STACK_SIZE"] show ?thesis by (simp add: fresh_def)
  qed (use assms(1) in simp_all)
  ultimately show "kernel_q k' xs" "fresh t k xs \<Longrightarrow> fresh t k' xs" "pcbs k' = pcbs k" "current k' = current k"
    "process_list k' = process_list k" "halted k' = halted k" "kmalloc_ptr k \<le> kmalloc_ptr k'" by auto
qed

text \<open>Steps that only allocate, as far as the process ids are concerned.\<close>

definition pids_grow :: "'w kernel \<Rightarrow> 'w kernel \<Rightarrow> bool" where
  "pids_grow k k' \<longleftrightarrow> process_list k' = process_list k \<and> (\<forall>p. pid (pcbs k' p) = pid (pcbs k p)) \<and>
     next_pid k' = next_pid k \<and> kmalloc_ptr k \<le> kmalloc_ptr k' \<and> current k' = current k \<and> halted k' = halted k"

definition newproc :: "nat \<Rightarrow> 'w kernel \<Rightarrow> bool" where
  "newproc p k \<longleftrightarrow> p \<notin> set (process_list k) \<and> p < kmalloc_ptr k \<and> 0 < unat (pid (pcbs k p)) \<and>
     unat (pid (pcbs k p)) < unat (next_pid k) \<and> (\<forall>q \<in> set (process_list k). pid (pcbs k q) \<noteq> pid (pcbs k p))"

lemma pids_grow_refl [simp]: "pids_grow k k"
  and pids_grow_trans: "pids_grow a b \<Longrightarrow> pids_grow b c \<Longrightarrow> pids_grow a c"
  by (auto simp: pids_grow_def)

lemma newproc_grow: "newproc p k \<Longrightarrow> pids_grow k k' \<Longrightarrow> newproc p k'"
  by (simp add: newproc_def pids_grow_def)

lemma kernel_q_link:
  assumes "kernel_q k xs" "newproc p k"
  shows "kernel_q (k\<lparr>process_list := p # process_list k\<rparr>) xs"
proof -
  have "pids_ok (k\<lparr>process_list := p # process_list k\<rparr>)"
    using assms unfolding kernel_q_def pids_ok_def newproc_def inj_on_def by auto
  with assms(1) show ?thesis by (simp add: kernel_q_def sched_inv_def ready_q_def ptrs_ok_def)
qed

lemma kernel_q_others [simp]:
  "kernel_q (k\<lparr>next_tid := n\<rparr>) xs = kernel_q k xs" "kernel_q (k\<lparr>fds := f\<rparr>) xs = kernel_q k xs"
  "kernel_q (k\<lparr>mmsys := m\<rparr>) xs = kernel_q k xs" "kernel_q (k\<lparr>fg_table := g\<rparr>) xs = kernel_q k xs"
  by (simp_all add: kernel_q_def sched_inv_def ready_q_def ptrs_ok_def pids_ok_def)

lemma fresh_others [simp]:
  "fresh t (k\<lparr>next_tid := n\<rparr>) xs = fresh t k xs" "fresh t (upd_pcb p f k) xs = fresh t k xs"
  by (simp_all add: fresh_def)

lemma create_thread_ok:
  assumes "kernel_q k xs" "create_thread proc entry k = (r, k')"
  shows "\<exists>ys. kernel_q k' ys" "pids_grow k k'" "\<And>t. r = Some t \<Longrightarrow> t < kmalloc_ptr k'"
proof -
  obtain t0 k1 where z: "zalloc_tcb k = (t0, k1)" by fastforce
  note z1 = zalloc_tcb_ok [OF assms(1) z]
  have g1: "pids_grow k k1" using z1 z
    by (auto simp: pids_grow_def zalloc_tcb_def kmalloc_def Let_def split: option.splits if_splits)
  have "(\<exists>ys. kernel_q k' ys) \<and> pids_grow k k' \<and> (\<forall>t. r = Some t \<longrightarrow> t < kmalloc_ptr k')"
  proof (cases t0)
    case None
    with assms z z1 g1 show ?thesis by (auto simp: create_thread_def)
  next
    case (Some t)
    let ?k2 = "(upd_tcb t (\<lambda>x. x\<lparr>tid := next_tid k1, t_state := THREAD_READY, t_parent := proc\<rparr>) k1)\<lparr>next_tid := next_tid k1 + 1\<rparr>"
    obtain stk k3 where s: "alloc_kernel_stack ?k2 = (stk, k3)" by fastforce
    have q2: "kernel_q ?k2 xs" "fresh t ?k2 xs" using kernel_q_upd_tcb [OF z1(1) z1(2) [OF Some]] by simp_all
    note a = alloc_kernel_stack_ok [OF q2(1) s]
    have g3: "pids_grow ?k2 k3" using s a(4-6)
      by (auto simp: pids_grow_def alloc_kernel_stack_def kmalloc_def Let_def split: option.splits if_splits)
    let ?top = "(case stk of None \<Rightarrow> 0 | Some a \<Rightarrow> of_nat a) :: u64"
    let ?k4 = "upd_tcb t (\<lambda>x. x\<lparr>kernel_stack := ?top,
        t_context := zero_context\<lparr>c_rip := entry, c_rsp := ?top - 8, c_rbp := ?top - 8\<rparr>\<rparr>) k3"
    let ?k5 = "case proc of None \<Rightarrow> ?k4 | Some p \<Rightarrow> upd_pcb p (\<lambda>x. x\<lparr>threads := Some t\<rparr>)
        (upd_tcb t (\<lambda>x. x\<lparr>t_next := threads (pcbs ?k4 p)\<rparr>) ?k4)"
    note q4 = kernel_q_upd_tcb [OF a(1) a(2) [OF q2(2)]]
    have q5: "kernel_q ?k5 xs \<and> fresh t ?k5 xs"
      using q4 kernel_q_upd_tcb [OF q4] by (auto intro: kernel_q_upd_pcb split: option.split)
    have k': "k' = scheduler_add_thread (Some t) ?k5" "r = Some t"
      using assms(2) z Some s by (auto simp: create_thread_def Let_def)
    have "pids_grow k3 ?k5" by (auto simp: pids_grow_def split: option.split)
    moreover have "pids_grow ?k5 k'"
      using add_thread_same_pids [of ?k5 "Some t"] scheduler_add_thread_spec [of ?k5 xs t] q5
      by (simp add: k'(1) pids_grow_def same_pids_def same_but_queue_def kernel_q_def fresh_def)
    moreover have "pids_grow k1 ?k2" by (simp add: pids_grow_def)
    ultimately have g: "pids_grow k k'" "pids_grow ?k5 k'" using g1 g3 by (blast intro: pids_grow_trans)+
    moreover have "kernel_q k' (xs @ [t])" using kernel_q_add_thread q5 k'(1) by blast
    moreover have "t < kmalloc_ptr k'" using q5 g(2) by (simp add: fresh_def pids_grow_def)
    ultimately show ?thesis using k'(2) by blast
  qed
  then show "\<exists>ys. kernel_q k' ys" "pids_grow k k'" "\<And>t. r = Some t \<Longrightarrow> t < kmalloc_ptr k'" by auto
qed

text \<open>A fresh control block with the next process id.\<close>

lemma new_pcb_ok:
  assumes "kernel_q k xs" "zalloc_pcb k = (Some p, k1)"
    "pid (f zero_pcb) = next_pid k1" "wait_queue (f zero_pcb) = None" "main_thread (f zero_pcb) = None"
  defines "k2 \<equiv> (upd_pcb p f k1)\<lparr>next_pid := next_pid k1 + 1\<rparr>"
  shows "kernel_q k2 xs" "newproc p k2" "current k2 = current k" "halted k2 = halted k" "p \<noteq> q \<Longrightarrow> pcbs k2 q = pcbs k q"
proof -
  obtain r m where a: "kmalloc SIZEOF_PCB 16 k = (r, m)" by fastforce
  from assms(2) a have r: "r = Some p"
    and k1: "k1 = (upd_pcb p (\<lambda>_. zero_pcb) m)\<lparr>fds := (fds m)\<lparr>fd_table := (fd_table (fds m))(p := (\<lambda>_. None))\<rparr>\<rparr>"
    by (auto simp: zalloc_pcb_def split: option.splits)
  have m: "kmalloc_ptr k \<le> p" "p + SIZEOF_PCB \<le> kmalloc_end k" "m = k\<lparr>kmalloc_ptr := p + SIZEOF_PCB\<rparr>"
    using kmalloc_cases [OF a] r by auto
  have n: "unat (next_pid k) + 1 < 2 ^ 64" and pk: "pids_ok k" using assms(1) m by (auto simp: kernel_q_def pids_ok_def)
  then have un: "unat (next_pid k + 1) = unat (next_pid k) + 1" by (simp add: unat_word_ariths)
  have pl: "p \<notin> set (process_list k)" using pk m(1) by (auto simp: pids_ok_def)
  have fld: "process_list k2 = process_list k" "next_pid k2 = next_pid k + 1" "kmalloc_ptr k2 = p + SIZEOF_PCB"
    "kmalloc_end k2 = kmalloc_end k" "pcbs k2 = (pcbs k)(p := f zero_pcb)" "tcbs k2 = tcbs k"
    "ready_head k2 = ready_head k" "ready_tail k2 = ready_tail k" "current k2 = current k" "halted k2 = halted k"
    "next_pid k1 = next_pid k"
    by (simp_all add: k2_def k1 m(3) upd_pcb_def)
  have po: "pids_ok k2"
  proof -
    have 1: "\<And>q. q \<in> set (process_list k) \<Longrightarrow> pcbs k2 q = pcbs k q" using pl fld(5) by auto
    show ?thesis using pk m un 1 unfolding pids_ok_def fld(1-4) inj_on_def by fastforce
  qed
  have "w < kmalloc_ptr k2" if "wait_queue (pcbs k2 q) = Some w \<or> main_thread (pcbs k2 q) = Some w" for q w
  proof -
    have "q \<noteq> p" using that assms(4,5) by (auto simp: fld(5))
    then have "w < kmalloc_ptr k" using that kernel_qD(4) [OF assms(1)] by (auto simp: fld(5) ptrs_ok_def)
    then show ?thesis using m(1) by (simp add: fld(3))
  qed
  then have "ptrs_ok k2" by (simp add: ptrs_ok_def)
  moreover have "sched_inv k2 xs" using assms(1) by (simp add: kernel_q_def sched_inv_def ready_q_def fld)
  ultimately show "kernel_q k2 xs" using assms(1) po m unfolding kernel_q_def fld by fastforce
  have lt: "unat (pid (pcbs k q)) < unat (next_pid k)" "q \<noteq> p" if "q \<in> set (process_list k)" for q
    using that pk pl by (auto simp: pids_ok_def)
  have "pid (pcbs k q) \<noteq> next_pid k" if "q \<in> set (process_list k)" for q using lt [OF that] by auto
  then show "newproc p k2"
    using pl pk un lt(2) assms(3) unfolding newproc_def fld by (auto simp: pids_ok_def)
  show "current k2 = current k" "halted k2 = halted k" "p \<noteq> q \<Longrightarrow> pcbs k2 q = pcbs k q" by (simp_all add: fld)
qed

lemma zalloc_pcb_none: "zalloc_pcb k = (None, k1) \<Longrightarrow> k1 = k"
  by (auto simp: zalloc_pcb_def kmalloc_def Let_def split: option.splits if_splits)

lemma pids_grow_upd_pcb: "(\<And>x. pid (f x) = pid x) \<Longrightarrow> pids_grow k (upd_pcb p f k)"
  by (simp add: pids_grow_def)

lemma pids_grow_others [simp]:
  "pids_grow k (k\<lparr>next_tid := n\<rparr>)" "pids_grow k (k\<lparr>fds := f\<rparr>)" "pids_grow k (k\<lparr>mmsys := m\<rparr>)"
  by (simp_all add: pids_grow_def)

lemma kernel_q_set_main:
  assumes "kernel_q k xs" "\<And>t. m = Some t \<Longrightarrow> t < kmalloc_ptr k"
    "\<And>x. pid (f x) = pid x" "\<And>x. wait_queue (f x) = wait_queue x" "\<And>x. main_thread (f x) = m"
  shows "kernel_q (upd_pcb p f k) xs"
proof -
  have "ptrs_ok (upd_pcb p f k)" using assms by (auto simp: ptrs_ok_def kernel_q_def)
  moreover have "pids_ok (upd_pcb p f k) = pids_ok k" by (rule pids_ok_same) (simp add: same_pids_def assms(3))
  ultimately show ?thesis using assms(1) by (simp add: kernel_q_def sched_inv_same [OF same_threads_upd_pcb])
qed

lemma create_process_some:
  fixes k :: "'w kernel" and entry :: u64
  assumes "kernel_ok k" "zalloc_pcb k = (Some p, k1)"
  defines "k' \<equiv> snd (create_process entry k)"
  shows "kernel_ok k'" "process_list k' = p # process_list k" "pid (pcbs k' p) = next_pid k" "halted k' = halted k"
    "current k' = current k" "next_pid k' = next_pid k + 1" "fst (create_process entry k) = Some p"
proof -
  obtain xs where q: "kernel_q k xs" using assms(1) kernel_ok_iff by blast
  let ?n = "next_pid k1"
  let ?k2 = "(upd_pcb p (\<lambda>x. x\<lparr>pid := ?n\<rparr>) k1)\<lparr>next_pid := ?n + 1\<rparr>"
  have z: "next_pid k1 = next_pid k" "process_list k1 = process_list k"
    using assms(2) by (auto simp: zalloc_pcb_def kmalloc_def Let_def split: option.splits if_splits)
  note n = new_pcb_ok [OF q assms(2), of "\<lambda>x. x\<lparr>pid := ?n\<rparr>", simplified zero_pcb_def, simplified]
  obtain mm ms where m: "mm_create (mmsys ?k2) = (mm, ms)" by fastforce
  let ?k3 = "upd_pcb p (\<lambda>x. x\<lparr>p_mm := mm, signals := signal_init (signals x), exit_code := 0\<rparr>) (?k2\<lparr>mmsys := ms\<rparr>)"
  let ?c = "get_current_process ?k3"
  let ?k4 = "upd_pcb p (\<lambda>x. x\<lparr>p_parent := ?c\<rparr>) ?k3"
  let ?k5 = "case ?c of None \<Rightarrow> ?k4 | Some c \<Rightarrow> upd_pcb c (\<lambda>x. x\<lparr>children := p # children x\<rparr>) ?k4"
  let ?k6 = "upd_pcb p (\<lambda>x. x\<lparr>pgid := ?n, sid := ?n, is_stopped := False\<rparr>) ?k5"
  have q3: "kernel_q ?k4 xs" by (intro kernel_q_upd_pcb) (use n(1) in simp_all)
  then have q5: "kernel_q ?k5 xs" by (auto intro: kernel_q_upd_pcb split: option.split)
  have q6: "kernel_q ?k6 xs" by (rule kernel_q_upd_pcb [OF q5]) simp_all
  have g6: "pids_grow ?k2 ?k6" by (simp add: pids_grow_def split: option.split)
  then have n6: "newproc p ?k6" using newproc_grow n(2) by blast
  obtain t k7 where c: "create_thread (Some p) entry ?k6 = (t, k7)" by fastforce
  note ct = create_thread_ok [OF q6 c]
  from ct(1) obtain ys where q7: "kernel_q k7 ys" by blast
  let ?k8 = "upd_pcb p (\<lambda>x. x\<lparr>main_thread := t, threads := t\<rparr>) k7"
  have q8: "kernel_q ?k8 ys" by (rule kernel_q_set_main [OF q7]) (use ct(3) in auto)
  have g8: "pids_grow ?k2 ?k8"
    using pids_grow_trans [OF pids_grow_trans [OF g6 ct(2)] pids_grow_upd_pcb, of "\<lambda>x. x\<lparr>main_thread := t, threads := t\<rparr>"] by simp
  have pid8: "pid (pcbs ?k8 p) = pid (pcbs ?k2 p)" using g8 unfolding pids_grow_def by blast
  have "newproc p ?k8" by (rule newproc_grow [OF n(2) g8])
  then have q9: "kernel_q (?k8\<lparr>process_list := p # process_list ?k8\<rparr>) ys" by (rule kernel_q_link [OF q8])
  have k': "create_process entry k =
      (Some p, (?k8\<lparr>process_list := p # process_list ?k8\<rparr>)\<lparr>fds := fd_init_stdio (Some p) (fds ?k8)\<rparr>)"
    using assms(2) m c by (simp add: create_process_def Let_def)
  then show "kernel_ok k'" using q9 kernel_q_others(2) kernel_ok_iff unfolding k'_def by (metis snd_conv)
  show "process_list k' = p # process_list k" "pid (pcbs k' p) = next_pid k" "halted k' = halted k"
    "current k' = current k" "next_pid k' = next_pid k + 1" "fst (create_process entry k) = Some p"
    using g8 n(3,4) z pid8 unfolding k'_def k' by (simp_all add: pids_grow_def)
qed

lemma create_process_ok:
  assumes "kernel_ok k"
  shows "kernel_ok (snd (create_process entry k))"
proof (cases "fst (zalloc_pcb k)")
  case None
  then have "zalloc_pcb k = (None, k)" using zalloc_pcb_none [of k "snd (zalloc_pcb k)"] by (metis prod.collapse)
  with assms show ?thesis by (simp add: create_process_def)
next
  case (Some p)
  with create_process_some(1) [OF assms] show ?thesis by (metis prod.collapse)
qed

lemma fork_mm_ok:
  assumes "kernel_q k xs" "fork_mm ke parent child k = (ok, k')"
  shows "kernel_q k' xs" "pids_grow k k'"
proof -
  obtain r m where a: "kmalloc SIZEOF_MM 16 k = (r, m)" by fastforce
  have m: "kernel_q m xs \<and> pids_grow k m" 
  proof (cases rule: kmalloc_cases [OF a])
    case (3 p)
    with kernel_q_grow [OF assms(1), of "p + SIZEOF_MM"] show ?thesis by (simp add: pids_grow_def)
  qed (use assms(1) in simp_all)
  have u: "kernel_q (upd_pcb child (\<lambda>x. x\<lparr>p_mm := v\<rparr>) kk) xs \<and> pids_grow k (upd_pcb child (\<lambda>x. x\<lparr>p_mm := v\<rparr>) kk)"
    if "kernel_q kk xs \<and> pids_grow k kk" for v and kk :: "'a kernel"
    using that kernel_q_upd_pcb [of kk xs "\<lambda>x. x\<lparr>p_mm := v\<rparr>"] pids_grow_trans [OF _ pids_grow_upd_pcb, of k kk "\<lambda>x. x\<lparr>p_mm := v\<rparr>"]
    by simp
  have w: "kernel_q (m\<lparr>mmsys := v\<rparr>) xs \<and> pids_grow k (m\<lparr>mmsys := v\<rparr>)" for v
    using m by (simp add: pids_grow_def)
  have "kernel_q k' xs \<and> pids_grow k k'"
    using assms a m u [OF m] u [OF w] 
    by (auto simp: fork_mm_def zalloc_mm_def Let_def split: option.splits if_splits prod.splits)
  then show "kernel_q k' xs" "pids_grow k k'" by auto
qed

lemma fork_thread_ok:
  assumes "kernel_q k xs" "fork_thread parent child k = (r, k')"
  shows "kernel_q k' xs" "pids_grow k k'" "\<And>t. r = Some t \<Longrightarrow> fresh t k' xs"
proof -
  obtain t0 k1 where z: "zalloc_tcb k = (t0, k1)" by fastforce
  note z1 = zalloc_tcb_ok [OF assms(1) z]
  have g1: "pids_grow k k1" using z1 z
    by (auto simp: pids_grow_def zalloc_tcb_def kmalloc_def Let_def split: option.splits if_splits)
  have "kernel_q k' xs \<and> pids_grow k k' \<and> (\<forall>t. r = Some t \<longrightarrow> fresh t k' xs)"
  proof (cases "current k = None \<or> t0 = None")
    case True
    with assms z z1(1) g1 show ?thesis by (auto simp: fork_thread_def split: option.splits)
  next
    case False
    then obtain c t where ct: "current k = Some c" "t0 = Some t" by auto
    let ?k2 = "(upd_tcb t (\<lambda>x. x\<lparr>tid := next_tid k1, t_state := THREAD_READY, t_parent := Some child,
        t_context := t_context (tcbs k1 c)\<rparr>) k1)\<lparr>next_tid := next_tid k1 + 1\<rparr>"
    obtain stk k3 where s: "alloc_kernel_stack ?k2 = (stk, k3)" by fastforce
    have q2: "kernel_q ?k2 xs" "fresh t ?k2 xs" using kernel_q_upd_tcb [OF z1(1) z1(2) [OF ct(2)]] by simp_all
    note a = alloc_kernel_stack_ok [OF q2(1) s]
    have "pids_grow ?k2 k3" using s a(4-6)
      by (auto simp: pids_grow_def alloc_kernel_stack_def kmalloc_def Let_def split: option.splits if_splits)
    moreover have "pids_grow k1 ?k2" by (simp add: pids_grow_def)
    ultimately have g: "pids_grow k k3" using g1 by (blast intro: pids_grow_trans)
    then have g': "pids_grow k (upd_tcb t f k3)" for f by (simp add: pids_grow_def)
    note u = kernel_q_upd_tcb [OF a(1) a(2) [OF q2(2)]]
    show ?thesis using assms(2) z ct s a(1) g g' u
      by (auto simp: fork_thread_def Let_def split: option.splits)
  qed
  then show "kernel_q k' xs" "pids_grow k k'" "\<And>t. r = Some t \<Longrightarrow> fresh t k' xs" by auto
qed

lemma fork_pcb_ok:
  assumes "kernel_q k xs" "zalloc_pcb k = (Some child, k1)"
  shows "kernel_q (fork_pcb parent child k1) xs" "newproc child (fork_pcb parent child k1)"
proof -
  let ?pp = "pcbs k1 parent"
  let ?f = "\<lambda>x. x\<lparr>pid := next_pid k1, p_parent := Some parent, exit_code := 0,
                 pgid := pgid ?pp, sid := sid ?pp, is_stopped := False, uid := uid ?pp, gid := gid ?pp\<rparr>"
  let ?k2 = "(upd_pcb child ?f k1)\<lparr>next_pid := next_pid k1 + 1\<rparr>"
  have n: "kernel_q ?k2 xs" "newproc child ?k2" by (rule new_pcb_ok [OF assms]; simp add: zero_pcb_def)+
  let ?g = "\<lambda>x. x\<lparr>signals := (signals ?pp)\<lparr>pending := 0\<rparr>\<rparr>"
  let ?k3 = "?k2\<lparr>fds := fd_clone (Some parent) (Some child) (fds ?k2)\<rparr>"
  have e: "fork_pcb parent child k1 = upd_pcb child ?g ?k3" by (simp add: fork_pcb_def Let_def)
  show "kernel_q (fork_pcb parent child k1) xs" unfolding e by (rule kernel_q_upd_pcb) (use n(1) in simp_all)
  have "pids_grow ?k2 (upd_pcb child ?g ?k3)" by (simp add: pids_grow_def)
  then show "newproc child (fork_pcb parent child k1)" unfolding e using newproc_grow [OF n(2)] by blast
qed

lemma fork_process_ok:
  assumes "kernel_ok k"
  shows "kernel_ok (snd (fork_process ke k))"
proof -
  obtain xs where q: "kernel_q k xs" using assms kernel_ok_iff by blast
  obtain r k1 where z: "zalloc_pcb k = (r, k1)" by fastforce
  show ?thesis
  proof (cases "get_current_process k = None \<or> r = None")
    case True
    with z zalloc_pcb_none [of k k1] assms show ?thesis by (auto simp: fork_process_def split: option.splits)
  next
    case False
    then obtain parent child where pc: "get_current_process k = Some parent" "r = Some child" by auto
    note f = fork_pcb_ok [OF q z [unfolded pc(2)], of parent]
    obtain ok k3 where m: "fork_mm ke parent child (fork_pcb parent child k1) = (ok, k3)" by fastforce
    note f3 = fork_mm_ok [OF f(1) m]
    obtain t0 k4 where t: "fork_thread parent child k3 = (t0, k4)" by fastforce
    note f4 = fork_thread_ok [OF f3(1) t]
    have k34: "kernel_ok k3" "kernel_ok k4" using f3(1) f4(1) kernel_ok_iff by blast+
    have last: "kernel_ok (upd_pcb parent (\<lambda>x. x\<lparr>children := child # children x\<rparr>)
       (k6\<lparr>process_list := child # process_list k6\<rparr>))"
      if tt: "t0 = Some t" "k6 = scheduler_add_thread (Some t)
          (upd_pcb child (\<lambda>x. x\<lparr>main_thread := Some t, threads := Some t, is_fork_child := True\<rparr>) k4)" for t k6
    proof -
      let ?k5 = "upd_pcb child (\<lambda>x. x\<lparr>main_thread := Some t, threads := Some t, is_fork_child := True\<rparr>) k4"
      have fr: "fresh t k4 xs" using f4(3) tt(1) by blast
      have q5: "kernel_q ?k5 xs" by (rule kernel_q_set_main [OF f4(1), of "Some t"]) (use fr in \<open>auto simp: fresh_def\<close>)
      have q6: "kernel_q k6 (xs @ [t])" unfolding tt(2) by (rule kernel_q_add_thread [OF q5]) (use fr in simp)
      have "same_pids ?k5 k6" unfolding tt(2) by (rule add_thread_same_pids)
      moreover have "newproc child ?k5" by (rule newproc_grow [OF newproc_grow [OF newproc_grow [OF f(2) f3(2)] f4(2)] pids_grow_upd_pcb]) simp
      ultimately have "newproc child k6" by (simp add: same_pids_def newproc_def)
      then have "kernel_q (upd_pcb parent (\<lambda>x. x\<lparr>children := child # children x\<rparr>)
         (k6\<lparr>process_list := child # process_list k6\<rparr>)) (xs @ [t])"
        by (intro kernel_q_upd_pcb [OF kernel_q_link [OF q6]]) simp_all
      then show ?thesis using kernel_ok_iff by blast
    qed
    show ?thesis using z pc m t k34 last by (auto simp: fork_process_def Let_def split: option.split)
  qed
qed

section \<open>Job control\<close>

lemma signal_send_ok: "kernel_ok k \<Longrightarrow> kernel_ok (snd (signal_send p s k))"
  using kernel_q_upd_signals [of k] unfolding kernel_ok_iff
  by (auto simp: signal_send_def split: option.split)

lemma kernel_ok_upd_pcb:
  assumes "kernel_ok k" "\<And>x. pid (f x) = pid x" "\<And>x. wait_queue (f x) = wait_queue x" "\<And>x. main_thread (f x) = main_thread x"
  shows "kernel_ok (upd_pcb p f k)"
  using assms kernel_q_upd_pcb unfolding kernel_ok_iff by metis

lemma kernel_ok_others [simp]: "kernel_ok (k\<lparr>fg_table := g\<rparr>) = kernel_ok k"
  by (simp add: kernel_ok_iff)

lemma session_set_foreground_ok: "kernel_ok k \<Longrightarrow> kernel_ok (session_set_foreground s g k)"
  by (simp add: session_set_foreground_def split: option.split)

lemma setpgid_ok: "kernel_ok k \<Longrightarrow> kernel_ok (snd (setpgid p g k))"
  by (simp add: setpgid_def kernel_ok_upd_pcb split: option.split)

lemma setsid_ok: "kernel_ok k \<Longrightarrow> kernel_ok (snd (setsid p k))"
  by (simp add: setsid_def Let_def kernel_ok_upd_pcb session_set_foreground_ok split: option.split)

lemma process_continue_ok:
  assumes "kernel_ok k" "\<not> halted k"
  shows "kernel_ok (process_continue p k)"
proof (cases "\<exists>q. p = Some q \<and> is_stopped (pcbs k q)")
  case True
  then obtain q where p: "p = Some q" "is_stopped (pcbs k q)" by blast
  obtain xs where x: "kernel_q k xs" using assms(1) kernel_ok_iff by blast
  let ?k = "upd_pcb q (\<lambda>x. x\<lparr>is_stopped := False\<rparr>) k"
  have q: "kernel_q ?k xs" by (rule kernel_q_upd_pcb [OF x]) simp_all
  have "kernel_ok ?k" using q kernel_ok_iff by blast
  moreover have "kernel_ok (scheduler_add_thread (Some t) (upd_tcb t (\<lambda>x. x\<lparr>t_state := THREAD_READY\<rparr>) ?k))"
    if "main_thread (pcbs k q) = Some t" "t_state (tcbs k t) = THREAD_BLOCKED" for t
    by (rule wake_ok [OF q]) (use assms(2) that kernel_qD(4) [OF x] in \<open>auto simp: ptrs_ok_def\<close>)
  ultimately show ?thesis using p by (simp add: process_continue_def Let_def split: option.split)
qed (use assms(1) in \<open>auto simp: process_continue_def split: option.split\<close>)

section \<open>Reachable kernel states\<close>

text \<open>
  The kernel before the first process: nothing allocated to a thread or process,
  and an allocator region below the end of the address space.  A step is an
  operation of the scheduler or a process system call of the running thread,
  or the thread's own computation, which only changes its registers.  A halted
  kernel makes no step.
\<close>

definition boot_kernel :: "'w kernel \<Rightarrow> bool" where
  "boot_kernel k \<longleftrightarrow> ready_head k = None \<and> ready_tail k = None \<and> current k = None \<and> \<not> halted k \<and>
     process_list k = [] \<and> next_pid k = 1 \<and> 0 < kmalloc_ptr k \<and> kmalloc_ptr k \<le> kmalloc_end k \<and> kmalloc_end k < 2 ^ 64 \<and>
     (\<forall>p. wait_queue (pcbs k p) = None \<and> main_thread (pcbs k p) = None)"

inductive kernel_step :: "(vnode_id \<Rightarrow> 'w \<Rightarrow> 'w) \<Rightarrow> u64 \<Rightarrow> 'w kernel \<Rightarrow> 'w kernel \<Rightarrow> bool" for cl ke where
  compute: "kernel_step cl ke k (k\<lparr>cpu := r\<rparr>)"
| yield: "kernel_step cl ke k (scheduler_yield k)"
| tick: "kernel_step cl ke k (snd (scheduler_tick cl r k))"
| exit: "kernel_step cl ke k (sys_exit cl k)"
| create: "kernel_step cl ke k (snd (create_process entry k))"
| thread: "kernel_step cl ke k (snd (create_thread proc entry k))"
| fork: "kernel_step cl ke k (snd (sys_fork ke k))"
| waitpid: "kernel_step cl ke k (snd (waitpid_process cl n w k))"
| kill: "kernel_step cl ke k (snd (sys_kill n s k))"
| handler: "kernel_step cl ke k (snd (sys_signal s h k))"
| deliver: "kernel_step cl ke k (snd (snd (signal_deliver cl p r k)))"
| sigreturn: "kernel_step cl ke k (snd (snd (signal_return proc r k)))"
| continue: "kernel_step cl ke k (process_continue proc k)"
| pgid: "kernel_step cl ke k (snd (sys_setpgid n g k))"
| session: "kernel_step cl ke k (snd (sys_setsid k))"
| foreground: "kernel_step cl ke k (snd (sys_tcsetpgrp g k))"

inductive kernel_reach :: "(vnode_id \<Rightarrow> 'w \<Rightarrow> 'w) \<Rightarrow> u64 \<Rightarrow> 'w kernel \<Rightarrow> bool" for cl ke where
  boot: "boot_kernel k \<Longrightarrow> kernel_reach cl ke k"
| step: "kernel_reach cl ke k \<Longrightarrow> \<not> halted k \<Longrightarrow> kernel_step cl ke k k' \<Longrightarrow> kernel_reach cl ke k'"

lemma boot_kernel_ok: "boot_kernel k \<Longrightarrow> kernel_ok k"
  unfolding kernel_ok_iff
  by (rule exI [of _ "[]"]) (auto simp: boot_kernel_def kernel_q_def sched_inv_def ready_q_def pids_ok_def ptrs_ok_def)

lemma sys_fork_ok: "kernel_ok k \<Longrightarrow> kernel_ok (snd (sys_fork ke k))"
  by (simp add: sys_fork_def fork_process_ok kernel_ok_upd_pcb split: option.split)

lemma sys_signal_ok: "kernel_ok k \<Longrightarrow> kernel_ok (snd (sys_signal s h k))"
  by (simp add: sys_signal_def upd_signals_def kernel_ok_upd_pcb split: option.split)

lemma signal_return_ok: "kernel_ok k \<Longrightarrow> kernel_ok (snd (snd (signal_return p r k)))"
  by (simp add: signal_return_def upd_signals_def kernel_ok_upd_pcb split: option.split)

lemma kernel_ok_cpu: "kernel_ok k \<Longrightarrow> kernel_ok (k\<lparr>cpu := r\<rparr>)"
  by (simp add: kernel_ok_def sched_ok_def sched_inv_def ready_q_def pids_ok_def ptrs_ok_def)

lemma kernel_step_ok:
  assumes "kernel_step cl ke k k'" "kernel_ok k" "\<not> halted k"
  shows "kernel_ok k'"
  using assms
proof cases
  case (thread proc entry)
  obtain xs where "kernel_q k xs" using assms(2) kernel_ok_iff by blast
  with create_thread_ok(1) [of k xs proc entry] thread show ?thesis by (metis kernel_ok_iff prod.collapse)
next
  case (kill n s)
  then show ?thesis using assms(2) by (simp add: sys_kill_def Let_def signal_send_ok)
qed (use assms(2,3) in \<open>simp_all add: kernel_ok_cpu yield_ok tick_ok sys_exit_def thread_exit_ok create_process_ok
  sys_fork_ok waitpid_ok sys_signal_ok deliver_ok signal_return_ok process_continue_ok setsid_ok setpgid_ok
  session_set_foreground_ok sys_setpgid_def sys_setsid_def sys_tcsetpgrp_def split: option.split\<close>)

lemma kernel_reach_ok: "kernel_reach cl ke k \<Longrightarrow> kernel_ok k"
  by (induction rule: kernel_reach.induct) (auto intro: boot_kernel_ok kernel_step_ok)

end
