(* ===== verification/Process_Props.thy ===== *)
theory Process_Props
  imports Process_Steps
begin

text \<open>
  What the kernel's threads and processes promise: a well-formed ready queue and
  unique process ids in every reachable state, an exit that reaches a waiting
  parent, handlers that return to the interrupted instruction, permission checks
  on \<open>kill\<close>, and what a timer switch does not save.
\<close>

section \<open>Reachable states\<close>

text \<open>A kernel before its first process, and the state after creating one and starting it.\<close>

definition boot_sample :: "unit kernel" where
  "boot_sample = sample_kernel\<lparr>tcbs := (\<lambda>_. zero_tcb), pcbs := (\<lambda>_. zero_pcb), ready_head := None, ready_tail := None,
     current := None, process_list := [], kmalloc_ptr := 16, next_pid := 1,
     mmsys := sample_mm_sys\<lparr>mm_pool_off := MM_POOL_SIZE\<rparr>\<rparr>"

definition started_sample :: "unit kernel" where
  "started_sample = scheduler_yield (snd (create_process 0x1000 boot_sample))"

lemma boot_sample: "boot_kernel boot_sample"
  by (simp add: boot_kernel_def boot_sample_def sample_kernel_def zero_pcb_def)

lemma started_sample_facts:
  "kernel_reach (\<lambda>_ w. w) 0 started_sample" "process_list started_sample = [16]" "pid (pcbs started_sample 16) = 1"
proof -
  let ?cl = "\<lambda>(_ :: vnode_id) (w :: unit). w" and ?k1 = "snd (create_process 0x1000 boot_sample)"
  have h: "\<not> halted boot_sample" using boot_sample by (simp add: boot_kernel_def)
  have "fst (zalloc_pcb boot_sample) = Some 16"
    by (simp add: zalloc_pcb_def kmalloc_def boot_sample_def sample_kernel_def)
  then obtain k0 where z: "zalloc_pcb boot_sample = (Some 16, k0)" by (metis prod.collapse)
  note c = create_process_some [OF boot_kernel_ok [OF boot_sample] z, of "0x1000"]
  have "kernel_reach ?cl 0 ?k1" by (rule step [OF boot [OF boot_sample] h kernel_step.create])
  then show "kernel_reach ?cl 0 started_sample"
    unfolding started_sample_def by (rule step [OF _ _ kernel_step.yield]) (use c(4) h in simp)
  show "process_list started_sample = [16]" "pid (pcbs started_sample 16) = 1"
    using yield_same_pids [of ?k1] c(2,3) unfolding started_sample_def
    by (simp_all add: same_pids_def) (simp_all add: boot_sample_def)
qed

text \<open>C11: in every state the kernel reaches from boot by scheduling, timer ticks,
  exits, forks, waits, signals and job control, the linked ready queue is a
  finite list of distinct threads, all in the ready state, the tail pointer
  is its last element, and the current thread is not in it and is running,
  unless the kernel has halted.\<close>

theorem ready_queue_well_formed:
  assumes "kernel_reach cl ke k"
  shows "\<exists>xs. chain (tcbs k) (ready_head k) xs \<and> distinct xs \<and>
     ready_tail k = (if xs = [] then None else Some (last xs)) \<and> (\<forall>t \<in> set xs. t_state (tcbs k t) = THREAD_READY) \<and>
     (\<forall>c. current k = Some c \<longrightarrow> c \<notin> set xs \<and> (t_state (tcbs k c) = THREAD_RUNNING \<or> halted k))"
  using kernel_reach_ok [OF assms] unfolding kernel_ok_def sched_ok_def sched_inv_def ready_q_def by blast

theorem ready_queue_well_formed_witness:
  "\<exists>xs. chain (tcbs started_sample) (ready_head started_sample) xs \<and> distinct xs \<and>
     (\<forall>t \<in> set xs. t_state (tcbs started_sample t) = THREAD_READY)"
  using ready_queue_well_formed [OF started_sample_facts(1)] by blast

text \<open>C24: in every reachable state the processes of the process list are distinct
  and have distinct, nonzero process ids below the next one to be given out:
  process ids do not repeat, since the allocator runs out before they wrap.\<close>

theorem live_pids_unique:
  assumes "kernel_reach cl ke k"
  shows "distinct (map (\<lambda>p. pid (pcbs k p)) (process_list k)) \<and>
     (\<forall>p \<in> set (process_list k). pid (pcbs k p) \<noteq> 0 \<and> pid (pcbs k p) < next_pid k)"
proof -
  have "pids_ok k" using kernel_reach_ok [OF assms] by (simp add: kernel_ok_def)
  then show ?thesis
    by (auto simp: pids_ok_def distinct_map word_less_nat_alt unat_gt_0 [symmetric] simp del: unat_gt_0)
qed

theorem live_pids_unique_witness:
  "process_list started_sample = [16] \<and> pid (pcbs started_sample 16) \<noteq> 0 \<and> pid (pcbs started_sample 16) < next_pid started_sample"
  using live_pids_unique [OF started_sample_facts(1)] started_sample_facts(2) by simp

section \<open>Exit and wait\<close>

lemma queue_frames:
  "pcbs (enqueue_ready t k) = pcbs k" "t_parent (tcbs (enqueue_ready t k) a) = t_parent (tcbs k a)"
  "pcbs (scheduler_add_thread t k) = pcbs k" "t_parent (tcbs (scheduler_add_thread t k) a) = t_parent (tcbs k a)"
  "pcbs (snd (dequeue_next k)) = pcbs k" "t_parent (tcbs (snd (dequeue_next k)) a) = t_parent (tcbs k a)"
  "t_parent (tcbs (context_switch old n k) a) = t_parent (tcbs k a)"
  "process_list (scheduler_add_thread t k) = process_list k" "process_list (snd (dequeue_next k)) = process_list k"
  "process_list (context_switch old n k) = process_list k"
  by (auto simp: enqueue_ready_def scheduler_add_thread_def dequeue_next_def context_switch_def Let_def split: option.split)

lemma yield_frames: "pcbs (scheduler_yield k) = pcbs k" "t_parent (tcbs (scheduler_yield k) a) = t_parent (tcbs k a)"
  "process_list (scheduler_yield k) = process_list k"
  using queue_frames(5,6,9) [of k]
  by (cases "dequeue_next k", auto simp: scheduler_yield_def Let_def queue_frames split: option.split)+

lemma yields_frames: "pcbs (yields rs k) = pcbs k" "t_parent (tcbs (yields rs k) a) = t_parent (tcbs k a)"
  "process_list (yields rs k) = process_list k"
  unfolding yields_def by (induction rs arbitrary: k) (simp_all add: yield_with_def yield_frames)

text \<open>
  What handing the children \<open>cs\<close> of an exiting process on does to the process table:
  none of them is a zombie afterwards, other processes keep their identity, and
  a process gains at most some of them as children.
\<close>

definition reparented :: "nat list \<Rightarrow> 'w kernel \<Rightarrow> 'w kernel \<Rightarrow> bool" where
  "reparented cs k k' \<longleftrightarrow> (\<forall>q. wait_queue (pcbs k' q) = wait_queue (pcbs k q) \<and> exit_code (pcbs k' q) = exit_code (pcbs k q) \<and>
     (\<exists>ns. set ns \<subseteq> set cs \<and> children (pcbs k' q) = ns @ children (pcbs k q)) \<and>
     (if q \<in> set cs then \<not> is_zombie (pcbs k' q)
      else pid (pcbs k' q) = pid (pcbs k q) \<and> is_zombie (pcbs k' q) = is_zombie (pcbs k q) \<and> p_parent (pcbs k' q) = p_parent (pcbs k q)))"

lemma reparentedD:
  assumes "reparented cs k k'"
  shows "wait_queue (pcbs k' q) = wait_queue (pcbs k q)" "exit_code (pcbs k' q) = exit_code (pcbs k q)"
    "\<exists>ns. set ns \<subseteq> set cs \<and> children (pcbs k' q) = ns @ children (pcbs k q)" "q \<in> set cs \<Longrightarrow> \<not> is_zombie (pcbs k' q)"
    "q \<notin> set cs \<Longrightarrow> pid (pcbs k' q) = pid (pcbs k q) \<and> is_zombie (pcbs k' q) = is_zombie (pcbs k q) \<and> p_parent (pcbs k' q) = p_parent (pcbs k q)"
  using assms unfolding reparented_def by (meson, meson, meson, meson, meson)

lemma reparented_Cons:
  assumes "reparented [c] k k1" "reparented cs k1 k2"
  shows "reparented (c # cs) k k2"
  unfolding reparented_def
proof (intro allI conjI)
  fix q
  note a = reparentedD [OF assms(1), of q] and b = reparentedD [OF assms(2), of q]
  show "wait_queue (pcbs k2 q) = wait_queue (pcbs k q)" "exit_code (pcbs k2 q) = exit_code (pcbs k q)" using a b by simp_all
  obtain ms ns where "set ms \<subseteq> {c}" "children (pcbs k1 q) = ms @ children (pcbs k q)"
    "set ns \<subseteq> set cs" "children (pcbs k2 q) = ns @ children (pcbs k1 q)" using a(3) b(3) by auto
  then show "\<exists>ns. set ns \<subseteq> set (c # cs) \<and> children (pcbs k2 q) = ns @ children (pcbs k q)"
    by (intro exI [of _ "ns @ ms"]) auto
  show "if q \<in> set (c # cs) then \<not> is_zombie (pcbs k2 q)
    else pid (pcbs k2 q) = pid (pcbs k q) \<and> is_zombie (pcbs k2 q) = is_zombie (pcbs k q) \<and> p_parent (pcbs k2 q) = p_parent (pcbs k q)"
    using a(4,5) b(4,5) by (cases "q \<in> set cs"; cases "q = c") auto
qed

lemma reparent_loop_reparented: "reparented cs k (reparent_loop cl d i cs k)"
proof (induction cl d i cs k rule: reparent_loop.induct)
  case (1 cl d i k)
  show ?case by (simp add: reparented_def)
next
  case (2 cl d i c cs k)
  let ?k = "if is_zombie (pcbs k c) then process_reap cl c k
        else case i of
          Some i \<Rightarrow> if i \<noteq> d then upd_pcb i (\<lambda>p. p\<lparr>children := c # children p\<rparr>) (upd_pcb c (\<lambda>p. p\<lparr>p_parent := Some i\<rparr>) k)
            else upd_pcb c (\<lambda>p. p\<lparr>p_parent := None\<rparr>) k
        | None \<Rightarrow> upd_pcb c (\<lambda>p. p\<lparr>p_parent := None\<rparr>) k"
  have n: "\<exists>ns. set ns \<subseteq> {c} \<and> xs = ns @ xs" "\<exists>ns. set ns \<subseteq> {c} \<and> c # xs = ns @ xs" for xs
    by (rule exI [of _ "[]"], simp) (rule exI [of _ "[c]"], simp)
  have "reparented [c] k ?k"
    by (auto simp: reparented_def process_reap_def process_list_remove_def Let_def n split: option.split)
  from reparented_Cons [OF this 2] show ?case by simp
qed

text \<open>The exit of a process whose parent's thread waits: the parent's thread is queued last.\<close>

lemma reparent_children_loop:
  "process_reparent_children cl d k =
     upd_pcb d (\<lambda>p. p\<lparr>children := []\<rparr>) (reparent_loop cl d (find_process_by_pid 1 k) (children (pcbs k d)) k)"
proof (cases "children (pcbs k d) = []")
  case True
  then have "(pcbs k)(d := (pcbs k d)\<lparr>children := []\<rparr>) = pcbs k" by (simp add: fun_upd_idem)
  then have "upd_pcb d (\<lambda>p. p\<lparr>children := []\<rparr>) k = k" unfolding upd_pcb_def by simp
  with True show ?thesis by (simp add: process_reparent_children_def)
qed (simp add: process_reparent_children_def)

lemma exit_wakes:
  assumes "kernel_q k xs" "\<not> halted k" "current k = Some c" "t_parent (tcbs k c) = Some p" "main_thread (pcbs k p) = Some c"
    "p \<notin> set (children (pcbs k p))" "p_parent (pcbs k p) = Some pp" "p \<noteq> pp" "wait_queue (pcbs k pp) = Some w"
    "t_state (tcbs k w) = THREAD_BLOCKED"
  obtains n ns K where "n # ns = xs @ [w]" "sched_inv (sys_exit cl k) ns" "current (sys_exit cl k) = Some n"
    "t_state (tcbs (sys_exit cl k) n) = THREAD_RUNNING"
    "\<And>t. t_parent (tcbs (sys_exit cl k) t) = t_parent (tcbs k t)"
    "reparented (children (pcbs k p)) (upd_pcb p (\<lambda>x. x\<lparr>is_zombie := True\<rparr>) k) K"
    "pcbs (sys_exit cl k) = pcbs (upd_pcb pp (\<lambda>x. x\<lparr>wait_queue := None\<rparr>) (upd_pcb p (\<lambda>x. x\<lparr>children := []\<rparr>) K))"
    "process_list (sys_exit cl k) = process_list K" "pids_ok K"
proof -
  let ?k1 = "upd_pcb p (\<lambda>x. x\<lparr>is_zombie := True\<rparr>) (upd_tcb c (\<lambda>x. x\<lparr>t_state := THREAD_ZOMBIE\<rparr>) k)"
  let ?K = "reparent_loop cl p (find_process_by_pid 1 ?k1) (children (pcbs ?k1 p)) ?k1"
  let ?k0 = "process_reparent_children cl p ?k1"
  let ?k2 = "upd_pcb pp (\<lambda>x. x\<lparr>wait_queue := None\<rparr>) ?k0"
  let ?k3 = "scheduler_add_thread (Some w) (upd_tcb w (\<lambda>x. x\<lparr>t_state := THREAD_READY\<rparr>) ?k2)"
  have cw: "c \<noteq> w" "c \<notin> set xs" "w \<notin> set xs" using assms(1,2,3,10) by (auto simp: kernel_q_def sched_inv_def)
  have p1: "pids_ok ?k1" using kernel_qD(3) [OF assms(1)] pids_ok_same [of k ?k1] by (simp add: same_pids_def)
  have s0: "same_threads ?k1 ?k0" by (rule reparent_ok(1) [OF p1])
  have pK: "pids_ok ?K" using reparent_loop_ok [OF p1] by blast
  have k0: "?k0 = upd_pcb p (\<lambda>x. x\<lparr>children := []\<rparr>) ?K" by (rule reparent_children_loop)
  have R: "reparented (children (pcbs k p)) ?k1 ?K" using reparent_loop_reparented [of "children (pcbs ?k1 p)" ?k1] by simp
  then have R': "reparented (children (pcbs k p)) (upd_pcb p (\<lambda>x. x\<lparr>is_zombie := True\<rparr>) k) ?K" by (simp add: reparented_def)
  have pw: "p_parent (pcbs ?k0 p) = Some pp" "wait_queue (pcbs ?k0 pp) = Some w"
    using reparentedD(5) [OF R assms(6)] reparentedD(1) [OF R, of pp] assms(7-9) by (simp_all add: k0)
  have st: "tcbs ?k0 = tcbs ?k1" "tcbs ?k2 = tcbs ?k1" "current ?k2 = Some c" "kmalloc_ptr ?k2 = kmalloc_ptr k"
    using s0 assms(3) by (simp_all add: same_threads_def)
  have e: "exit_current cl k = ?k3"
    using assms(3-5,10) cw(1) pw st(2) by (simp add: exit_current_def wake_waiting_parent_def Let_def)
  have "sched_inv ?k1 xs" by (rule sched_inv_cong [OF kernel_qD(1) [OF assms(1)]]) (use assms(3) cw in auto)
  then have "sched_inv ?k2 xs" using sched_inv_same [OF s0] sched_inv_same [OF same_threads_upd_pcb] by blast
  moreover have "t < kmalloc_ptr ?k2" if "t \<in> set xs" for t using kernel_qD(2) [OF assms(1) that] st(4) by simp
  moreover have "w < kmalloc_ptr ?k2" using kernel_qD(4) [OF assms(1)] assms(9) st(4) by (auto simp: ptrs_ok_def)
  ultimately have i3: "sched_inv ?k3 (xs @ [w])"
    using wake_thread_ok(1) [of ?k2 xs w] st assms(10) cw(1) by auto
  obtain n ns where n: "n # ns = xs @ [w]" by (metis append_is_Nil_conv list.exhaust not_Cons_self2)
  obtain k4 where d: "dequeue_next ?k3 = (Some n, k4)" "sched_inv k4 ns" "n \<notin> set ns"
    using dequeue_sched_inv [OF i3 [folded n]] by metis
  let ?k5 = "(upd_tcb n (\<lambda>x. x\<lparr>t_state := THREAD_RUNNING\<rparr>) k4)\<lparr>current := Some n\<rparr>"
  have x: "sys_exit cl k = context_switch (current k4) n ?k5"
    using d(1) e by (simp add: sys_exit_def scheduler_thread_exit_def Let_def)
  have k4: "pcbs k4 = pcbs ?k3" "t_parent (tcbs k4 t) = t_parent (tcbs ?k3 t)" "process_list k4 = process_list ?k3" for t
    using queue_frames(5,6,9) [of ?k3] d(1) by simp_all
  show thesis
  proof (rule that [OF n _ _ _ _ R' _ _ pK])
    show "sched_inv (sys_exit cl k) ns" unfolding x by (rule sched_inv_context_switch [OF sched_inv_run [OF d(2,3)]])
    show "t_parent (tcbs (sys_exit cl k) t) = t_parent (tcbs k t)" for t by (simp add: x k4 queue_frames st(1))
    show "pcbs (sys_exit cl k) = pcbs (upd_pcb pp (\<lambda>x. x\<lparr>wait_queue := None\<rparr>) (upd_pcb p (\<lambda>x. x\<lparr>children := []\<rparr>) ?K))"
      by (simp add: x k4 queue_frames(3) k0)
    show "process_list (sys_exit cl k) = process_list ?K"
      by (simp add: x k4 k0 queue_frames)
  qed (simp_all add: x)
qed

lemma find_unique: "a \<in> set xs \<Longrightarrow> (\<And>x. x \<in> set xs \<Longrightarrow> P x \<longleftrightarrow> x = a) \<Longrightarrow> find P xs = Some a"
  by (induction xs) auto

lemma waitpid_finds:
  assumes "get_current_process k = Some pp" "p \<in> set (children (pcbs k pp))" "p \<noteq> pp" "distinct (process_list k)"
    "\<And>q. q \<in> set (children (pcbs k pp)) \<Longrightarrow> waits_for m k q \<longleftrightarrow> q = p"
  shows "\<exists>k'. waitpid_process cl m False k = (Some (sint (ucast (pid (pcbs k p)) :: u32), Some (exit_code (pcbs k p))), k') \<and>
    process_list k' = remove1 p (process_list k) \<and> p \<notin> set (process_list k') \<and>
    children (pcbs k' pp) = remove1 p (children (pcbs k pp))"
proof -
  have f: "find (waits_for m k) (children (pcbs k pp)) = Some p" by (rule find_unique [OF assms(2,5)])
  have "process_list (process_reap cl p kk) = remove1 p (process_list kk)"
    "children (pcbs (process_reap cl p kk) pp) = children (pcbs kk pp)" for kk :: "'a kernel"
    using assms(3) by (simp_all add: process_reap_def process_list_remove_def Let_def)
  with assms f show ?thesis by (auto simp: waitpid_process_def Let_def)
qed

text \<open>C12: a process that exits while a thread of its parent is blocked waiting
  for it reaches that parent, whatever children the process leaves behind.  The
  exit queues the parent's thread behind the ready threads: the ready threads
  run in order as each yields, and after one yield for each of them the
  parent's thread runs.  Its \<open>waitpid\<close> on the child then returns the child's
  process id and exit code and takes the child off the process list and off
  the parent's children.\<close>

theorem exit_reaches_waiting_parent:
  assumes "kernel_q k xs" "\<not> halted k" "current k = Some c" "t_parent (tcbs k c) = Some p" "main_thread (pcbs k p) = Some c"
    "p \<notin> set (children (pcbs k p))" "p_parent (pcbs k p) = Some pp" "p \<noteq> pp" "wait_queue (pcbs k pp) = Some w"
    "t_state (tcbs k w) = THREAD_BLOCKED" "t_parent (tcbs k w) = Some pp" "p \<in> set (children (pcbs k pp))"
    "\<And>q. q \<in> set (children (pcbs k pp)) \<Longrightarrow> pid (pcbs k q) = pid (pcbs k p) \<Longrightarrow> q = p"
    "pid (pcbs k p) = word_of_int m" "m \<noteq> - 1"
  shows "(\<forall>rs. length rs \<le> length xs \<longrightarrow> current (yields rs (sys_exit cl k)) = Some ((xs @ [w]) ! length rs)) \<and>
    (\<forall>rs. length rs = length xs \<longrightarrow>
      (let k' = yields rs (sys_exit cl k); (r, k'') = waitpid_process cl m False k' in
        r = Some (sint (ucast (pid (pcbs k p)) :: u32), Some (exit_code (pcbs k p))) \<and>
        process_list k'' = remove1 p (process_list k') \<and> p \<notin> set (process_list k'') \<and>
        children (pcbs k'' pp) = remove1 p (children (pcbs k' pp))))"
proof -
  obtain n ns K where n: "n # ns = xs @ [w]" "sched_inv (sys_exit cl k) ns" "current (sys_exit cl k) = Some n"
    "t_state (tcbs (sys_exit cl k) n) = THREAD_RUNNING" "\<And>t. t_parent (tcbs (sys_exit cl k) t) = t_parent (tcbs k t)"
    and R: "reparented (children (pcbs k p)) (upd_pcb p (\<lambda>x. x\<lparr>is_zombie := True\<rparr>) k) K"
    and P: "pcbs (sys_exit cl k) = pcbs (upd_pcb pp (\<lambda>x. x\<lparr>wait_queue := None\<rparr>) (upd_pcb p (\<lambda>x. x\<lparr>children := []\<rparr>) K))"
    "process_list (sys_exit cl k) = process_list K" "pids_ok K"
    by (rule exit_wakes [OF assms(1-10), of cl]) (rule that)
  have len: "length ns = length xs" using arg_cong [OF n(1), of length] by simp
  have cur: "current (yields rs (sys_exit cl k)) = Some ((xs @ [w]) ! length rs)" if "length rs \<le> length xs" for rs
    using yields_rotate [OF n(2-4), of "length rs" rs] that len n(1) by simp
  have old: "pid (pcbs K q) = pid (pcbs k q)" if "q \<notin> set (children (pcbs k p))" for q using reparentedD(5) [OF R that] by simp
  have me: "is_zombie (pcbs K p)" "exit_code (pcbs K p) = exit_code (pcbs k p)"
    using reparentedD(5) [OF R assms(6)] reparentedD(2) [OF R, of p] by simp_all
  obtain ms where ms: "set ms \<subseteq> set (children (pcbs k p))" "children (pcbs K pp) = ms @ children (pcbs k pp)"
    using reparentedD(3) [OF R, of pp] by auto
  have zombie: "is_zombie (pcbs K q) \<and> pid (pcbs K q) = word_of_int m \<longleftrightarrow> q = p" if "q \<in> set (children (pcbs K pp))" for q
  proof (cases "q \<in> set (children (pcbs k p))")
    case True
    then show ?thesis using reparentedD(4) [OF R] assms(6) by blast
  next
    case False
    with that ms have "q \<in> set (children (pcbs k pp))" by auto
    with old [OF False] old [OF assms(6)] me(1) assms(13,14) show ?thesis by metis
  qed
  have "let k' = yields rs (sys_exit cl k); (r, k'') = waitpid_process cl m False k' in
      r = Some (sint (ucast (pid (pcbs k p)) :: u32), Some (exit_code (pcbs k p))) \<and>
      process_list k'' = remove1 p (process_list k') \<and> p \<notin> set (process_list k'') \<and>
      children (pcbs k'' pp) = remove1 p (children (pcbs k' pp))"
    if rs: "length rs = length xs" for rs
  proof -
    let ?k = "yields rs (sys_exit cl k)"
    have Q: "pcbs ?k = pcbs (upd_pcb pp (\<lambda>x. x\<lparr>wait_queue := None\<rparr>) (upd_pcb p (\<lambda>x. x\<lparr>children := []\<rparr>) K))"
      unfolding yields_frames(1) by (rule P(1))
    have "get_current_process ?k = Some pp"
      using cur [of rs] rs assms(11) n(5) by (simp add: get_current_process_def yields_frames(2))
    moreover have ch: "children (pcbs ?k pp) = children (pcbs K pp)" "pid (pcbs ?k p) = pid (pcbs k p)"
      "exit_code (pcbs ?k p) = exit_code (pcbs k p)" unfolding Q using assms(8) old [OF assms(6)] me(2) by simp_all
    moreover have "p \<in> set (children (pcbs ?k pp))" using ch(1) ms(2) assms(12) by simp
    moreover have "distinct (process_list ?k)" using P(2,3) by (simp add: yields_frames(3) pids_ok_def)
    moreover have "waits_for m ?k q \<longleftrightarrow> q = p" if "q \<in> set (children (pcbs ?k pp))" for q
      using zombie [of q] that assms(15) ch(1) unfolding waits_for_def Q by auto
    ultimately show ?thesis using waitpid_finds [OF _ _ assms(8), of ?k m cl] by force
  qed
  with cur show ?thesis by blast
qed

text \<open>Process 2 running, with a child of its own, its parent blocked in a wait and a second thread ready.\<close>

definition waiting_kernel :: "unit kernel" where
  "waiting_kernel = sample_kernel\<lparr>
     tcbs := (\<lambda>_. zero_tcb)(0 := zero_tcb\<lparr>t_state := THREAD_BLOCKED, t_parent := Some 0\<rparr>,
       1 := zero_tcb\<lparr>t_state := THREAD_RUNNING, t_parent := Some 1\<rparr>, 2 := zero_tcb\<lparr>t_parent := Some 2\<rparr>),
     pcbs := (\<lambda>_. zero_pcb)(0 := zero_pcb\<lparr>pid := 1, main_thread := Some 0, children := [1], wait_queue := Some 0\<rparr>,
       1 := zero_pcb\<lparr>pid := 2, main_thread := Some 1, p_parent := Some 0, exit_code := 7, children := [2]\<rparr>,
       2 := zero_pcb\<lparr>pid := 3, main_thread := Some 2, p_parent := Some 1\<rparr>),
     ready_head := Some 2, ready_tail := Some 2, current := Some 1, process_list := [2, 1, 0], next_pid := 4\<rparr>"

lemma waiting_kernel_ok: "kernel_q waiting_kernel [2]"
proof -
  have "sched_inv waiting_kernel [2]"
    by (simp add: sched_inv_def ready_q_def waiting_kernel_def zero_tcb_def)
  moreover have "pids_ok waiting_kernel"
    by (simp add: pids_ok_def waiting_kernel_def sample_kernel_def inj_on_def)
  moreover have "ptrs_ok waiting_kernel"
    by (simp add: ptrs_ok_def waiting_kernel_def sample_kernel_def zero_pcb_def)
  ultimately show ?thesis by (simp add: kernel_q_def waiting_kernel_def sample_kernel_def)
qed

lemma waiting_kernel_facts:
  "\<not> halted waiting_kernel" "current waiting_kernel = Some 1" "t_parent (tcbs waiting_kernel 1) = Some 1"
  "main_thread (pcbs waiting_kernel 1) = Some 1" "1 \<notin> set (children (pcbs waiting_kernel 1))"
  "p_parent (pcbs waiting_kernel 1) = Some 0" "(1 :: nat) \<noteq> 0" "wait_queue (pcbs waiting_kernel 0) = Some 0"
  "t_state (tcbs waiting_kernel 0) = THREAD_BLOCKED" "t_parent (tcbs waiting_kernel 0) = Some 0"
  "1 \<in> set (children (pcbs waiting_kernel 0))"
  "\<And>q. q \<in> set (children (pcbs waiting_kernel 0)) \<Longrightarrow> pid (pcbs waiting_kernel q) = pid (pcbs waiting_kernel 1) \<Longrightarrow> q = 1"
  "pid (pcbs waiting_kernel 1) = word_of_int 2" "exit_code (pcbs waiting_kernel 1) = 7"
  by (simp_all add: waiting_kernel_def sample_kernel_def)

theorem exit_reaches_waiting_parent_witness:
  "current (yields [] (sys_exit (\<lambda>_ w. w) waiting_kernel)) = Some 2 \<and>
   current (yields [zero_context] (sys_exit (\<lambda>_ w. w) waiting_kernel)) = Some 0 \<and>
   (let (r, k'') = waitpid_process (\<lambda>_ w. w) 2 False (yields [zero_context] (sys_exit (\<lambda>_ w. w) waiting_kernel)) in
     r = Some (2, Some 7) \<and> 1 \<notin> set (process_list k''))"
proof -
  note x = exit_reaches_waiting_parent [OF waiting_kernel_ok waiting_kernel_facts(1-13), of "\<lambda>_ w. w"]
  from x [THEN conjunct1, rule_format, of "[]"] x [THEN conjunct1, rule_format, of "[zero_context]"]
    x [THEN conjunct2, rule_format, of "[zero_context]"]
  show ?thesis unfolding waiting_kernel_facts(13,14) by (auto simp: Let_def split: prod.splits)
qed

section \<open>Signals\<close>

text \<open>C20: delivery to a process that is not in a handler takes the lowest pending
  signal that is not blocked.  If a handler is installed for it, the interrupted
  thread continues at the handler with the signal number as its argument, the
  signal is no longer pending, no further signal is delivered until the
  handler returns, and its return resumes the interrupted instruction with
  the interrupted stack pointer.\<close>

theorem handler_runs_and_returns:
  assumes "\<not> in_signal_handler (signals (pcbs k p))"
    "pending_set (signals (pcbs k p)) - blocked_set (signals (pcbs k p)) \<noteq> {}"
    "s = Min (pending_set (signals (pcbs k p)) - blocked_set (signals (pcbs k p)))"
    "h = handlers (signals (pcbs k p)) (nat s)" "h \<noteq> SIG_DFL" "h \<noteq> SIG_IGN"
  shows "\<exists>r' k'. signal_deliver cl p r k = (Some 1, r', k') \<and> rip r' = h \<and> rdi r' = word_of_int s \<and>
     pending_set (signals (pcbs k' p)) = pending_set (signals (pcbs k p)) - {s} \<and>
     (\<forall>r2. signal_deliver cl p r2 k' = (Some 0, r2, k')) \<and>
     (\<forall>r2. \<exists>k2. signal_return (Some p) r2 k' = (0, r2\<lparr>rip := rip r, rsp := rsp r\<rparr>, k2) \<and>
        signals (pcbs k2 p) = (signals (pcbs k' p))\<lparr>in_signal_handler := False\<rparr>)"
proof -
  let ?sg = "signals (pcbs k p)"
  have n: "signal_next_pending ?sg = s" using assms(2,3) by (simp add: signal_next_pending_spec)
  have "finite (pending_set ?sg - blocked_set ?sg)"
    by (rule finite_subset [of _ "{1..31}"]) (auto simp: pending_set_def)
  then have "s \<in> pending_set ?sg" using Min_in assms(2,3) by blast
  then have s: "1 \<le> s" "s \<le> 31" by (auto simp: pending_set_def)
  let ?f = "\<lambda>x. signal_dequeue s (x\<lparr>saved_rip := rip r, saved_rsp := rsp r, in_signal_handler := True\<rparr>)"
  let ?k = "upd_signals p ?f k"
  have d: "signal_deliver cl p r k = (Some 1, r\<lparr>rdi := word_of_int s, rsp := rsp r - 8, rip := h\<rparr>, ?k)"
    using assms n s unfolding signal_deliver_def by (simp add: Let_def)
  have g: "signals (pcbs ?k p) = ?f ?sg" by (simp add: upd_signals_def)
  have i: "in_signal_handler (?f ?sg)" "saved_rip (?f ?sg) = rip r" "saved_rsp (?f ?sg) = rsp r"
    by (simp_all add: signal_dequeue_def)
  have "pending_set (?f ?sg) = pending_set ?sg - {s}"
    using pending_set_dequeue [OF s, of "?sg\<lparr>saved_rip := rip r, saved_rsp := rsp r, in_signal_handler := True\<rparr>"]
    by (simp add: pending_set_def)
  moreover have "signal_deliver cl p r2 ?k = (Some 0, r2, ?k)" for r2
    by (simp add: signal_deliver_def g i Let_def)
  moreover have "signal_return (Some p) r2 ?k = (0, r2\<lparr>rip := rip r, rsp := rsp r\<rparr>, upd_signals p (\<lambda>x. x\<lparr>in_signal_handler := False\<rparr>) ?k)" for r2
    by (simp add: signal_return_def g i)
  ultimately show ?thesis using d g by (auto simp: upd_signals_def)
qed

definition handler_kernel :: "unit kernel" where
  "handler_kernel = sample_kernel\<lparr>pcbs := (\<lambda>_. zero_pcb)(0 := zero_pcb\<lparr>pid := 1,
     signals := zero_signals\<lparr>handlers := (\<lambda>_. 0)(10 := 0x4000), pending := 0x4200, blocked := 0\<rparr>\<rparr>)\<rparr>"

definition zero_regs :: regs where
  "zero_regs = \<lparr>rax = 0, rbx = 0, rcx = 0, rdx = 0, rsi = 0, rdi = 0, rbp = 0, r8 = 0, r9 = 0, r10 = 0, r11 = 0, r12 = 0,
     r13 = 0, r14 = 0, r15 = 0, int_no = 0, err_code = 0, rip = 0, reg_cs = 0, rflags = 0, rsp = 0, reg_ss = 0\<rparr>"

lemma handler_kernel_pending: "pending_set (signals (pcbs handler_kernel 0)) - blocked_set (signals (pcbs handler_kernel 0)) = {10, 15}"
proof -
  have b: "bit (0x4200 :: u64) n \<longleftrightarrow> n = 9 \<or> n = 14" for n
  proof -
    have e: "(0x4200 :: u64) = push_bit 9 1 OR push_bit 14 1" by simp
    show ?thesis unfolding e bit_or_iff bit_push_bit_iff bit_1_iff by auto
  qed
  show ?thesis
    by (auto simp: handler_kernel_def zero_pcb_def zero_signals_def pending_set_def blocked_set_def b simp del: bit_numeral_word_iff)
qed

theorem handler_runs_and_returns_witness:
  "\<exists>r' k'. signal_deliver (\<lambda>_ w. w) 0 (zero_regs\<lparr>rip := 0x77\<rparr>) handler_kernel = (Some 1, r', k') \<and> rip r' = 0x4000 \<and>
     (\<exists>k2. signal_return (Some 0) r' k' = (0, r'\<lparr>rip := 0x77, rsp := 0\<rparr>, k2))"
proof -
  let ?sg = "signals (pcbs handler_kernel 0)"
  have a: "\<not> in_signal_handler ?sg" "handlers ?sg (nat 10) = 0x4000"
    by (simp_all add: handler_kernel_def zero_signals_def)
  have m: "10 = Min (pending_set ?sg - blocked_set ?sg)" unfolding handler_kernel_pending by simp
  have "pending_set ?sg - blocked_set ?sg \<noteq> {}" unfolding handler_kernel_pending by simp
  from handler_runs_and_returns [OF a(1) this m refl, of "\<lambda>_ w. w" "zero_regs\<lparr>rip := 0x77\<rparr>"] show ?thesis
    unfolding a(2) by (force simp: zero_regs_def)
qed

text \<open>C25: \<open>kill\<close> either fails and changes nothing, or the signal is pending at the
  process with that id and the caller runs as root or as the target's user.
  Every other process keeps its signals.\<close>

theorem kill_needs_permission:
  "case sys_kill n s k of (r, k') \<Rightarrow>
     (r \<noteq> 0 \<and> k' = k) \<or>
     (\<exists>p c. r = 0 \<and> find_process_by_pid n k = Some p \<and> get_current_process k = Some c \<and>
        (uid (pcbs k c) = ROOT_UID \<or> uid (pcbs k c) = uid (pcbs k p)) \<and>
        pending_set (signals (pcbs k' p)) = insert s (pending_set (signals (pcbs k p))) \<and>
        (\<forall>q. q \<noteq> p \<longrightarrow> pcbs k' q = pcbs k q))"
proof -
  have "pending_set (signals (pcbs (upd_signals p (signal_queue s) k) p)) = insert s (pending_set (signals (pcbs k p)))"
    if "0 < s" "s < NSIG" for p using pending_set_queue [of s] that by (simp add: upd_signals_def)
  then show ?thesis
    by (auto simp: sys_kill_def signal_send_def can_manage_process_def Let_def upd_signals_def split: option.splits)
qed

theorem kill_needs_permission_witness:
  "fst (sys_kill 2 9 sample_kernel) = 0 \<and> 9 \<in> pending_set (signals (pcbs (snd (sys_kill 2 9 sample_kernel)) 1))"
proof -
  have f: "find_process_by_pid 2 sample_kernel = Some 1" "get_current_process sample_kernel = Some 0" "uid (pcbs sample_kernel 0) = 0"
    by (simp_all add: sample_kernel_def find_process_by_pid_def get_current_process_def zero_pcb_def)
  then have "fst (sys_kill 2 9 sample_kernel) = 0"
    by (simp add: sys_kill_def can_manage_process_def signal_send_def Let_def)
  with f(1) kill_needs_permission [where n = 2 and s = 9 and k = sample_kernel] show ?thesis by (auto split: prod.splits)
qed

section \<open>What a timer switch does not save\<close>

text \<open>
  With no signal to deliver, a tick that finds a ready thread schedules as a
  yield does, but saves the interrupted registers and not those of a call:
  there is no return address to push.
\<close>

definition frame_context :: "regs \<Rightarrow> cpu_context" where
  "frame_context r = \<lparr>c_rip = rip r, c_rsp = rsp r, c_rbp = rbp r, c_rbx = rbx r,
     c_r12 = r12 r, c_r13 = r13 r, c_r14 = r14 r, c_r15 = r15 r\<rparr>"

definition tick_call :: "regs \<Rightarrow> cpu_context" where
  "tick_call r = (frame_context r)\<lparr>c_rsp := rsp r + 8\<rparr>"

definition no_signals :: "'w kernel \<Rightarrow> bool" where
  "no_signals k \<longleftrightarrow> (\<forall>p. in_signal_handler (signals (pcbs k p)) \<or> signal_next_pending (signals (pcbs k p)) = 0)"

lemma call_pushed_tick [simp]: "call_pushed (tick_call r) = frame_context r"
  by (simp add: call_pushed_def tick_call_def frame_context_def)

lemma no_signals_deliver: "no_signals k \<Longrightarrow> deliver_to_current cl r k = (r, k)"
  by (auto simp: deliver_to_current_def signal_deliver_def no_signals_def Let_def split: option.split)

lemma save_commutes:
  "dequeue_next (upd_tcb t (\<lambda>x. x\<lparr>t_context := v\<rparr>) k) = apsnd (upd_tcb t (\<lambda>x. x\<lparr>t_context := v\<rparr>)) (dequeue_next k)"
  "enqueue_ready a (upd_tcb t (\<lambda>x. x\<lparr>t_context := v\<rparr>) k) = upd_tcb t (\<lambda>x. x\<lparr>t_context := v\<rparr>) (enqueue_ready a k)"
  "upd_tcb n (\<lambda>x. x\<lparr>t_state := s\<rparr>) (upd_tcb t (\<lambda>x. x\<lparr>t_context := v\<rparr>) k) =
     upd_tcb t (\<lambda>x. x\<lparr>t_context := v\<rparr>) (upd_tcb n (\<lambda>x. x\<lparr>t_state := s\<rparr>) k)"
  by (auto simp: dequeue_next_def enqueue_ready_def upd_tcb_def Let_def fun_eq_iff split: option.split)

lemma cpu_commutes:
  "dequeue_next (k\<lparr>cpu := v\<rparr>) = apsnd (\<lambda>k. k\<lparr>cpu := v\<rparr>) (dequeue_next k)"
  "enqueue_ready a (k\<lparr>cpu := v\<rparr>) = (enqueue_ready a k)\<lparr>cpu := v\<rparr>"
  "upd_tcb n f (k\<lparr>cpu := v\<rparr>) = (upd_tcb n f k)\<lparr>cpu := v\<rparr>"
  by (auto simp: dequeue_next_def enqueue_ready_def upd_tcb_def Let_def split: option.split)

lemma cpu_restored:
  "cpu k = u \<Longrightarrow> (upd_tcb t f (k\<lparr>cpu := v, current := y\<rparr>))\<lparr>cpu := u\<rparr> = upd_tcb t f (k\<lparr>current := y\<rparr>)"
  by (cases k) (simp add: upd_tcb_def)

lemma tick_is_yield:
  assumes "sched_inv k (n # ns)" "current k = Some c" "t_state (tcbs k c) = THREAD_RUNNING" "no_signals k"
  shows "scheduler_tick cl r k = (load_regs_from_context (t_context (tcbs k n)) r,
    (scheduler_yield (k\<lparr>cpu := tick_call r\<rparr>))\<lparr>cpu := cpu k\<rparr>)"
proof -
  obtain k1 where d: "dequeue_next k = (Some n, k1)" and s1: "same_but_queue k k1"
    using dequeue_sched_inv [OF assms(1)] by metis
  have c: "c \<noteq> n" using assms(1,2) by (auto simp: sched_inv_def)
  let ?save = "upd_tcb c (\<lambda>x. x\<lparr>t_context := frame_context r\<rparr>)"
  let ?E = "enqueue_ready (Some c) (upd_tcb c (\<lambda>x. x\<lparr>t_state := THREAD_READY\<rparr>) k1)"
  let ?F = "?save ((upd_tcb n (\<lambda>x. x\<lparr>t_state := THREAD_RUNNING\<rparr>) ?E)\<lparr>current := Some n\<rparr>)"
  have s: "save_context_from_regs c r k = ?save k"
    by (simp add: save_context_from_regs_def frame_context_def)
  have k1: "t_state (tcbs k1 t) = t_state (tcbs k t)" "t_context (tcbs k1 t) = t_context (tcbs k t)" "pcbs k1 = pcbs k" "cpu k1 = cpu k"
    "current k1 = current k" for t
    using s1 by (simp_all add: same_but_queue_def)
  have E: "t_context (tcbs ?E t) = t_context (tcbs k t)" "pcbs ?E = pcbs k" "cpu ?E = cpu k" for t
    using k1 by (auto simp: enqueue_ready_def Let_def split: option.split)
  have "no_signals ?F" using assms(4) E(2) by (simp add: no_signals_def)
  then have "deliver_to_current cl x ?F = (x, ?F)" for x by (rule no_signals_deliver)
  moreover have "upd_tcb n (\<lambda>x. x\<lparr>t_state := THREAD_RUNNING\<rparr>) ((?save ?E)\<lparr>current := Some n\<rparr>) = ?F"
    by (simp add: upd_tcb_def fun_eq_iff)
  ultimately have "scheduler_tick cl r k = (load_regs_from_context (t_context (tcbs k n)) r, ?F)"
    using assms(2,3) d c E(1) k1(1) by (simp add: scheduler_tick_def s save_commutes Let_def)
  moreover have "(scheduler_yield (k\<lparr>cpu := tick_call r\<rparr>))\<lparr>cpu := cpu k\<rparr> = ?F"
  proof -
    have "upd_tcb c (\<lambda>x. x\<lparr>t_state := THREAD_READY\<rparr>) (upd_tcb c (\<lambda>x. x\<lparr>t_state := THREAD_READY\<rparr>) k1) =
        upd_tcb c (\<lambda>x. x\<lparr>t_state := THREAD_READY\<rparr>) k1" by (simp add: upd_tcb_def)
    then show ?thesis
      using assms(2,3) d k1(1) E(3)
      by (simp add: scheduler_yield_def cpu_commutes scheduler_add_thread_def context_switch_def Let_def cpu_restored)
  qed
  ultimately show ?thesis by simp
qed

text \<open>A sequence of ticks: each element is the interrupt frame of the thread then running.\<close>

definition ticks :: "(vnode_id \<Rightarrow> 'w \<Rightarrow> 'w) \<Rightarrow> regs list \<Rightarrow> 'w kernel \<Rightarrow> 'w kernel" where
  "ticks cl rs k = fold (\<lambda>r k. snd (scheduler_tick cl r k)) rs k"

lemma same_but_cpu:
  assumes "\<And>v. k\<lparr>cpu := v\<rparr> = k'\<lparr>cpu := v\<rparr>"
  shows "tcbs k = tcbs k'" "current k = current k'" "pcbs k = pcbs k'" "sched_inv k xs = sched_inv k' xs"
  using arg_cong [OF assms [of zero_context], of tcbs] arg_cong [OF assms [of zero_context], of current]
    arg_cong [OF assms [of zero_context], of pcbs] arg_cong [OF assms [of zero_context], of "\<lambda>k. sched_inv k xs"] by simp_all

lemma ticks_yields:
  assumes "sched_inv k xs" "current k = Some c" "t_state (tcbs k c) = THREAD_RUNNING" "no_signals k"
    "m \<le> length xs" "m \<le> length rs"
  shows "(ticks cl (take m rs) k)\<lparr>cpu := v\<rparr> = (yields (take m (map tick_call rs)) k)\<lparr>cpu := v\<rparr>"
  using assms(5,6)
proof (induction m arbitrary: v)
  case 0
  then show ?case by (simp add: ticks_def yields_def)
next
  case (Suc m)
  let ?bs = "map tick_call rs" and ?L = "c # xs"
  let ?T = "ticks cl (take m rs) k" and ?Y = "yields (take m (map tick_call rs)) k"
  have IH: "?T\<lparr>cpu := v\<rparr> = ?Y\<lparr>cpu := v\<rparr>" for v using Suc by simp
  note same = same_but_cpu [OF IH]
  have Y: "sched_inv ?Y (drop (Suc m) ?L @ take m ?L)" "current ?Y = Some (?L ! m)" "t_state (tcbs ?Y (?L ! m)) = THREAD_RUNNING"
    using yields_rotate [OF assms(1-3), of m ?bs] Suc.prems by auto
  have q: "drop (Suc m) ?L @ take m ?L = ?L ! Suc m # (drop (Suc (Suc m)) ?L @ take m ?L)"
    using Suc.prems(1) by (simp add: Cons_nth_drop_Suc)
  have "sched_inv ?T (?L ! Suc m # (drop (Suc (Suc m)) ?L @ take m ?L))" "current ?T = Some (?L ! m)"
    "t_state (tcbs ?T (?L ! m)) = THREAD_RUNNING" using Y unfolding q same by simp_all
  moreover have "no_signals ?T" using assms(4) by (simp add: no_signals_def same(3) yields_frames(1))
  ultimately have "snd (scheduler_tick cl (rs ! m) ?T) =
      (scheduler_yield (?Y\<lparr>cpu := ?bs ! m\<rparr>))\<lparr>cpu := cpu ?T\<rparr>"
    using Suc.prems(2) by (simp add: tick_is_yield IH)
  moreover have "ticks cl (take (Suc m) rs) k = snd (scheduler_tick cl (rs ! m) ?T)"
    "yields (take (Suc m) ?bs) k = scheduler_yield (?Y\<lparr>cpu := ?bs ! m\<rparr>)"
    using Suc.prems by (simp_all add: ticks_def yields_def take_Suc_conv_app_nth yield_with_def)
  ultimately show ?case by simp
qed

text \<open>C30: a timer switch mixes the registers of two threads.  From a state with
  other threads ready and no signal to deliver, the ticks run the ready threads
  in order; the tick that resumes the first thread gives it back its
  instruction and stack pointer and its callee-saved registers, but leaves in
  the frame every other register (rax, rcx, rdx, rsi, rdi, r8 to r11, the
  flags) of the thread it has just interrupted.\<close>

theorem tick_leaks_scratch_registers:
  assumes "sched_inv k xs" "xs \<noteq> []" "current k = Some c" "t_state (tcbs k c) = THREAD_RUNNING" "no_signals k"
    "length rs = length xs"
  shows "(\<forall>i \<le> length xs. current (ticks cl (take i rs) k) = Some ((c # xs) ! i)) \<and>
    (case scheduler_tick cl r (ticks cl rs k) of (r', k') \<Rightarrow> current k' = Some c \<and>
       r' = r\<lparr>rip := rip (rs ! 0), rsp := rsp (rs ! 0), rbp := rbp (rs ! 0), rbx := rbx (rs ! 0),
         r12 := r12 (rs ! 0), r13 := r13 (rs ! 0), r14 := r14 (rs ! 0), r15 := r15 (rs ! 0)\<rparr>)"
proof -
  let ?bs = "map tick_call rs" and ?n = "length xs" and ?L = "c # xs"
  note T = ticks_yields [OF assms(1,3-5)] and R = yields_rotate [OF assms(1,3,4)]
  have run: "current (ticks cl (take i rs) k) = Some (?L ! i)" if "i \<le> ?n" for i
    using same_but_cpu(2) [OF T [where m = i and rs = rs and cl = cl]] R [of i ?bs] that assms(6) by simp
  let ?Y = "yields ?bs k"
  have Y: "sched_inv ?Y (take ?n ?L)" "current ?Y = Some (?L ! ?n)" "t_state (tcbs ?Y (?L ! ?n)) = THREAD_RUNNING"
    "t_context (tcbs ?Y c) = frame_context (rs ! 0)"
    using R [of ?n ?bs] assms(2,6) by auto
  note same = same_but_cpu [OF T [where m = ?n and rs = rs and cl = cl, unfolded assms(6) [symmetric], simplified]]
  have q: "take ?n ?L = c # take (?n - 1) xs" using assms(2) by (cases xs) simp_all
  have inv: "sched_inv (ticks cl rs k) (c # take (?n - 1) xs)" "current (ticks cl rs k) = Some (?L ! ?n)"
    "t_state (tcbs (ticks cl rs k) (?L ! ?n)) = THREAD_RUNNING" "no_signals (ticks cl rs k)"
    using Y(1-3) assms(5,6) unfolding q by (simp_all add: same no_signals_def yields_frames(1))
  have i2: "sched_inv ((ticks cl rs k)\<lparr>cpu := x\<rparr>) (c # take (?n - 1) xs)" "current ((ticks cl rs k)\<lparr>cpu := x\<rparr>) = Some (?L ! ?n)"
    "t_state (tcbs ((ticks cl rs k)\<lparr>cpu := x\<rparr>) (?L ! ?n)) = THREAD_RUNNING" for x using inv by simp_all
  have "t_context (tcbs (ticks cl rs k) c) = frame_context (rs ! 0)" using Y(4) assms(6) by (simp add: same)
  then show ?thesis
    using run tick_is_yield [OF inv, of cl r] scheduler_yield_spec(2) [OF i2]
    by (simp add: load_regs_from_context_def frame_context_def)
qed

lemma zero_signals_next: "signal_next_pending zero_signals = 0"
  by (simp add: signal_next_pending_spec pending_set_def zero_signals_def)

theorem tick_leaks_scratch_registers_witness:
  "current (ticks (\<lambda>_ w. w) [zero_regs\<lparr>rax := 1, rbx := 2\<rparr>] sample_kernel) = Some 1 \<and>
   (case scheduler_tick (\<lambda>_ w. w) (zero_regs\<lparr>rax := 3, rbx := 4\<rparr>)
      (ticks (\<lambda>_ w. w) [zero_regs\<lparr>rax := 1, rbx := 2\<rparr>, zero_regs] sample_kernel) of
      (r', k') \<Rightarrow> current k' = Some 0 \<and> rax r' = 3 \<and> rbx r' = 2)"
proof -
  have c: "[1, 2 :: nat] \<noteq> []" "current sample_kernel = Some 0" "t_state (tcbs sample_kernel 0) = THREAD_RUNNING"
    "no_signals sample_kernel" by (simp_all add: sample_kernel_def no_signals_def zero_pcb_def zero_signals_next)
  have "length [zero_regs\<lparr>rax := 1, rbx := 2\<rparr>, zero_regs] = length [1, 2 :: nat]" by simp
  note r = tick_leaks_scratch_registers [OF sample_kernel_sched c this, of "\<lambda>_ w. w" "zero_regs\<lparr>rax := 3, rbx := 4\<rparr>"]
  from r [THEN conjunct1, rule_format, of 1] r [THEN conjunct2] show ?thesis by (auto split: prod.splits)
qed

end
