(* ===== verification/Net_Bytes.thy ===== *)
theory Net_Bytes
  imports Kernel_Prelude
begin

text \<open>
  Byte order and the Internet checksum (\<open>net.h\<close>, \<open>checksum.h\<close>).  A packed struct
  in a buffer is the list of its bytes; a multi-byte field is stored in the
  little-endian order of the machine, after \<open>htons\<close> or \<open>htonl\<close> where the code
  applies them.  The lemmas give the round trips of the encodings, the value
  of the checksum modulo 65535, and that a block which carries its own
  checksum verifies.
\<close>

unbundle bit_operations_syntax

section \<open>Little-endian storage\<close>

definition le_bytes :: "nat \<Rightarrow> 'a::len word \<Rightarrow> u8 list" where
  "le_bytes n w = map (\<lambda>i. ucast (drop_bit (8 * i) w)) [0..<n]"

fun le_word :: "u8 list \<Rightarrow> 'a::len word" where
  "le_word [] = 0"
| "le_word (b # bs) = ucast b OR push_bit 8 (le_word bs)"

lemma length_le_bytes [simp]: "length (le_bytes n w) = n"
  by (simp add: le_bytes_def)

lemma bit_le_word:
  "bit (le_word bs :: 'a::len word) n \<longleftrightarrow> n < LENGTH('a) \<and> n div 8 < length bs \<and> bit (bs ! (n div 8)) (n mod 8)"
proof (induction bs arbitrary: n)
  case (Cons b bs)
  show ?case
  proof (cases "n < 8")
    case True
    then show ?thesis by (auto simp: bit_simps)
  next
    case False
    then have "n div 8 = Suc ((n - 8) div 8)" "n mod 8 = (n - 8) mod 8"
      by (simp_all add: div_if mod_if)
    moreover have "\<not> bit b n" using False bit_imp_le_length [of b n] by auto
    ultimately show ?thesis using False Cons.IH [of "n - 8"] by (auto simp: bit_simps)
  qed
qed simp

lemma bit_le_byte:
  "i < n \<Longrightarrow> bit (le_bytes n w ! i) k \<longleftrightarrow> k < 8 \<and> bit w (8 * i + k)"
  by (auto simp: le_bytes_def bit_simps ac_simps)

lemma le_word_bytes:
  fixes w :: "'a::len word"
  assumes "LENGTH('a) \<le> 8 * n"
  shows "le_word (le_bytes n w) = w"
proof (rule bit_word_eqI)
  fix k assume "k < LENGTH('a)"
  then have "k div 8 < n" using assms by auto
  then show "bit (le_word (le_bytes n w) :: 'a word) k = bit w k"
    using \<open>k < LENGTH('a)\<close> by (simp add: bit_le_word bit_le_byte)
qed

lemma le_bytes_word:
  assumes "8 * length bs \<le> LENGTH('a::len)"
  shows "le_bytes (length bs) (le_word bs :: 'a word) = bs"
proof (rule nth_equalityI)
  fix i assume i: "i < length (le_bytes (length bs) (le_word bs :: 'a word))"
  show "le_bytes (length bs) (le_word bs :: 'a word) ! i = bs ! i"
  proof (rule bit_word_eqI)
    fix k assume "k < LENGTH(8)"
    then have k: "k < 8" "(8 * i + k) div 8 = i" "(8 * i + k) mod 8 = k" by auto
    have "8 * i + k < LENGTH('a)" using i k(1) assms by simp
    with i k show "bit (le_bytes (length bs) (le_word bs :: 'a word) ! i) k = bit (bs ! i) k"
      by (simp add: bit_le_byte bit_le_word)
  qed
qed simp

section \<open>Byte order\<close>

definition htons :: "u16 \<Rightarrow> u16" where
  "htons h = drop_bit 8 h OR push_bit 8 h"

definition ntohs :: "u16 \<Rightarrow> u16" where
  "ntohs n = htons n"

definition htonl :: "u32 \<Rightarrow> u32" where
  "htonl h = (drop_bit 24 h AND 0x000000FF) OR (drop_bit 8 h AND 0x0000FF00) OR
     (push_bit 8 h AND 0x00FF0000) OR (push_bit 24 h AND 0xFF000000)"

definition ntohl :: "u32 \<Rightarrow> u32" where
  "ntohl n = htonl n"

lemma ntohs_htons [simp]: "ntohs (htons h) = h"
proof (rule bit_word_eqI)
  fix n assume "n < LENGTH(16)"
  then show "bit (ntohs (htons h)) n = bit h n" unfolding ntohs_def htons_def by (cases "n < 8") (auto simp: bit_simps)
qed

lemma mask_shapes: "(0xFF :: u32) = mask 8" "(0xFF00 :: u32) = push_bit 8 (mask 8)"
  "(0xFF0000 :: u32) = push_bit 16 (mask 8)" "(0xFF000000 :: u32) = push_bit 24 (mask 8)"
  by (simp_all add: mask_eq_exp_minus_1)

lemma bit_htonl: "bit (htonl h) n \<longleftrightarrow> n < 32 \<and> bit h (8 * (3 - n div 8) + n mod 8)"
proof (cases "n < 32")
  case True
  then consider "n div 8 = 0" | "n div 8 = 1" | "n div 8 = 2" | "n div 8 = 3" by linarith
  then show ?thesis
  proof cases
    case 1
    then have r: "0 \<le> n" "n < 8" by auto
    then have e: "8 * (3 - n div 8) + n mod 8 = n + 24" using 1 by (auto simp: mod_if)
    show ?thesis unfolding htonl_def mask_shapes e using r by (auto simp: bit_simps ac_simps)
  next
    case 2
    then have r: "8 \<le> n" "n < 16" by auto
    then have e: "8 * (3 - n div 8) + n mod 8 = n + 8" using 2 by (auto simp: mod_if)
    show ?thesis unfolding htonl_def mask_shapes e using r by (auto simp: bit_simps ac_simps)
  next
    case 3
    then have r: "16 \<le> n" "n < 24" by auto
    then have e: "8 * (3 - n div 8) + n mod 8 = n - 8" using 3 by (auto simp: mod_if)
    show ?thesis unfolding htonl_def mask_shapes e using r by (auto simp: bit_simps ac_simps)
  next
    case 4
    then have r: "24 \<le> n" "n < 32" by auto
    then have e: "8 * (3 - n div 8) + n mod 8 = n - 24" using 4 by (auto simp: mod_if)
    show ?thesis unfolding htonl_def mask_shapes e using r by (auto simp: bit_simps ac_simps)
  qed
qed (use bit_imp_le_length [of "htonl h" n] in auto)

lemma ntohl_htonl [simp]: "ntohl (htonl h) = h"
proof (rule bit_word_eqI)
  fix n assume "n < LENGTH(32)"
  then have "(8 * (3 - n div 8) + n mod 8) div 8 = 3 - n div 8" "(8 * (3 - n div 8) + n mod 8) mod 8 = n mod 8"
    "n div 8 \<le> 3" "8 * (3 - n div 8) + n mod 8 < 32" by auto
  then show "bit (ntohl (htonl h)) n = bit h n"
    unfolding ntohl_def bit_htonl using \<open>n < LENGTH(32)\<close> by simp
qed

section \<open>The Internet checksum\<close>

fun sum16 :: "u8 list \<Rightarrow> u32 \<Rightarrow> u32" where
  "sum16 (a # b # p) s = sum16 p (s + (ucast a OR push_bit 8 (ucast b)))"
| "sum16 [a] s = s + ucast a"
| "sum16 [] s = s"

function fold16 :: "u32 \<Rightarrow> u32" where
  "fold16 s = (if drop_bit 16 s \<noteq> 0 then fold16 ((s AND 0xFFFF) + drop_bit 16 s) else s)"
  by auto

lemma unat_fold_step: "unat ((s AND 0xFFFF) + drop_bit 16 s) = unat s mod 65536 + unat s div 65536" for s :: u32
proof -
  have "s AND 0xFFFF = take_bit 16 s" by (simp add: take_bit_eq_mask mask_eq_exp_minus_1)
  then have "unat (s AND 0xFFFF) = unat s mod 65536" by (simp add: take_bit_eq_mod unat_mod_distrib)
  moreover have "unat (drop_bit 16 s) = unat s div 65536" by (simp add: drop_bit_eq_div unat_div_distrib)
  moreover have "unat s < 2 ^ 32" using unat_less_exp [of s] by simp
  ultimately show ?thesis by (subst unat_word_ariths(1)) simp
qed

lemma drop_bit_16_zero: "drop_bit 16 s = 0 \<longleftrightarrow> unat s < 65536" for s :: u32
  by (simp add: unat_eq_0 [symmetric] drop_bit_eq_div unat_div_distrib div_eq_0_iff del: unat_eq_0)

termination fold16
proof (relation "measure unat")
  fix s :: u32 assume "drop_bit 16 s \<noteq> 0"
  then have "65536 \<le> unat s" by (simp add: drop_bit_16_zero)
  moreover have "unat s mod 65536 + unat s div 65536 < unat s" if "65536 \<le> unat s"
    using that mult_div_mod_eq [of 65536 "unat s"] by linarith
  ultimately show "((s AND 0xFFFF) + drop_bit 16 s, s) \<in> measure unat"
    unfolding in_measure unat_fold_step by blast
qed simp

declare fold16.simps [simp del]

definition net_checksum :: "u8 list \<Rightarrow> u32 \<Rightarrow> u16" where
  "net_checksum data initial = ucast (NOT (fold16 (sum16 data initial)))"

definition net_checksum_verify :: "u8 list \<Rightarrow> bool" where
  "net_checksum_verify data \<longleftrightarrow> net_checksum data 0 = 0"

text \<open>The folded sum is the sum modulo 65535, with 65535 for a nonzero multiple.\<close>

definition oc_mod :: "nat \<Rightarrow> nat" where
  "oc_mod n = (if n = 0 then 0 else (n - 1) mod 65535 + 1)"

lemma oc_mod_small: "n \<le> 65535 \<Longrightarrow> oc_mod n = n"
  by (simp add: oc_mod_def)

lemma oc_mod_step: "65536 \<le> n \<Longrightarrow> oc_mod (n mod 65536 + n div 65536) = oc_mod n"
proof -
  assume n: "65536 \<le> n"
  then have q: "1 \<le> n div 65536" by (simp add: div_greater_zero_iff Suc_le_eq)
  have "n = 65536 * (n div 65536) + n mod 65536" by simp
  then have "n - 1 = 65535 * (n div 65536) + (n mod 65536 + n div 65536 - 1)" using q by linarith
  then have "(n - 1) mod 65535 = (n mod 65536 + n div 65536 - 1) mod 65535"
    by (metis mod_mult_self4 add.commute)
  with q n show ?thesis by (simp add: oc_mod_def)
qed

lemma unat_fold16: "unat (fold16 s) = oc_mod (unat s)"
proof (induction s rule: fold16.induct)
  case (1 s)
  show ?case
  proof (cases "drop_bit 16 s = 0")
    case True
    then show ?thesis by (subst fold16.simps) (simp add: drop_bit_16_zero oc_mod_small)
  next
    case False
    then have "65536 \<le> unat s" by (simp add: drop_bit_16_zero)
    with 1 False show ?thesis by (subst fold16.simps) (simp add: unat_fold_step oc_mod_step)
  qed
qed

lemma oc_mod_le: "oc_mod n \<le> 65535"
  unfolding oc_mod_def using mod_less_divisor [of 65535 "n - 1"] by auto

lemma unat_net_checksum: "unat (net_checksum data i) = 65535 - oc_mod (unat (sum16 data i))"
proof -
  let ?f = "fold16 (sum16 data i)"
  have f: "unat ?f = oc_mod (unat (sum16 data i))" by (rule unat_fold16)
  have "net_checksum data i = NOT (ucast ?f)"
    unfolding net_checksum_def by (rule bit_word_eqI) (auto simp: bit_simps)
  moreover have "unat (ucast ?f :: u16) = unat ?f" 
    using f oc_mod_le [of "unat (sum16 data i)"] by (simp add: unsigned_ucast_eq take_bit_nat_eq_self)
  moreover have "NOT (ucast ?f :: u16) = - 1 - ucast ?f" by (simp add: not_eq_complement)
  moreover have "unat (- 1 - x) = 65535 - unat x" for x :: u16
  proof -
    have "unat (- 1 :: u16) = 65535" by (simp add: unsigned_minus_1_eq_mask mask_eq_exp_minus_1)
    moreover have "x \<le> - 1" by (rule word_order.extremum)
    ultimately show ?thesis by (simp add: unat_sub)
  qed
  ultimately show ?thesis using f by metis
qed

text \<open>Without overflow of its 32 bits the sum is that of the 16-bit words.\<close>

fun nsum16 :: "u8 list \<Rightarrow> nat" where
  "nsum16 (a # b # p) = unat a + 256 * unat b + nsum16 p"
| "nsum16 [a] = unat a"
| "nsum16 [] = 0"

lemma unat_u8_u32 [simp]: "unat (ucast b :: u32) = unat b" for b :: u8
proof -
  have "unat b < 2 ^ 32" using unat_less_exp [of b] by simp
  then show ?thesis by (simp add: unsigned_ucast_eq take_bit_nat_eq_self)
qed

lemma unat_le16: "unat ((ucast a :: u32) OR push_bit 8 (ucast b)) = unat a + 256 * unat b" for a b :: u8
proof -
  have d: "(ucast a :: u32) AND push_bit 8 (ucast b) = 0"
    by (rule bit_word_eqI) (auto simp: bit_simps dest: bit_imp_le_length)
  have p: "unat (push_bit 8 (ucast b) :: u32) = 256 * unat b"
    using unat_less_exp [of b] by (simp add: push_bit_eq_mult unat_word_ariths)
  have "(ucast a :: u32) OR push_bit 8 (ucast b) = ucast a + push_bit 8 (ucast b)"
    by (rule disjunctive_add_eq_or [symmetric]) (rule d)
  moreover have "unat (ucast a :: u32) + unat (push_bit 8 (ucast b) :: u32) < 2 ^ 32"
    using p unat_less_exp [of a] unat_less_exp [of b] by simp
  ultimately show ?thesis using p by (simp add: unat_word_ariths)
qed

lemma unat_sum16:
  "unat s + nsum16 data < 2 ^ 32 \<Longrightarrow> unat (sum16 data s) = unat s + nsum16 data"
proof (induction data s rule: sum16.induct)
  case (1 a b p s)
  then have "unat (s + (ucast a OR push_bit 8 (ucast b))) = unat s + (unat a + 256 * unat b)"
    by (simp add: unat_word_ariths unat_le16)
  with 1 show ?case by simp
qed (simp_all add: unat_word_ariths)

lemma nsum16_bound: "nsum16 data \<le> 65535 * ((length data + 1) div 2)"
proof (induction data rule: nsum16.induct)
  case (1 a b p)
  then show ?case using unat_less_exp [of a] unat_less_exp [of b] by simp
next
  case (2 a)
  then show ?case using unat_less_exp [of a] by simp
qed simp

lemma nsum16_append: "even (length xs) \<Longrightarrow> nsum16 (xs @ ys) = nsum16 xs + nsum16 ys"
  by (induction xs rule: nsum16.induct) auto

lemma nsum16_le_bytes: "nsum16 (le_bytes 2 c) = unat c" for c :: u16
proof -
  have "unat (ucast c :: u8) = unat c mod 256" by (simp add: unsigned_ucast_eq take_bit_eq_mod)
  moreover have "unat (ucast (drop_bit 8 c) :: u8) = unat c div 256 mod 256"
    by (simp add: unsigned_ucast_eq take_bit_eq_mod drop_bit_eq_div unat_div_distrib)
  moreover have "unat c div 256 < 256" using unat_less_exp [of c] by simp
  ultimately show ?thesis
    by (simp add: le_bytes_def numeral_2_eq_2 upt_rec)
qed

lemma sum16_append: "even (length xs) \<Longrightarrow> sum16 (xs @ ys) s = sum16 ys (sum16 xs s)"
  by (induction xs s rule: sum16.induct) auto

lemma oc_mod_complement: "oc_mod (n + (65535 - oc_mod n)) = 65535"
proof (cases "n = 0")
  case False
  define q r where "q = (n - 1) div 65535" and "r = (n - 1) mod 65535"
  have "n = 65535 * q + r + 1" "r \<le> 65534" "oc_mod n = r + 1"
    using False mult_div_mod_eq [of 65535 "n - 1"] mod_less_divisor [of 65535 "n - 1"]
    by (auto simp: oc_mod_def q_def r_def)
  then have "n + (65535 - oc_mod n) = Suc (65535 * q + 65534)" by linarith
  then show ?thesis by (simp add: oc_mod_def)
qed (simp add: oc_mod_def)

lemma checksum_zero_iff: "net_checksum data i = 0 \<longleftrightarrow> oc_mod (unat (sum16 data i)) = 65535"
  using unat_net_checksum [of data i] oc_mod_le [of "unat (sum16 data i)"] by (auto simp: unat_eq_0 [symmetric] simp del: unat_eq_0)

text \<open>
  A block with a zero checksum field at an even offset verifies once the
  field holds the checksum of the block; \<open>i\<close> is the sum of a pseudo-header.
\<close>

lemma checksum_field_verifies:
  fixes i :: u32 and pre post :: "u8 list"
  assumes "even (length pre)" "unat i + nsum16 pre + nsum16 post + 65535 < 2 ^ 32"
  defines "c \<equiv> net_checksum (pre @ [0, 0] @ post) i"
  shows "net_checksum (pre @ le_bytes 2 c @ post) i = 0"
proof -
  have two: "nsum16 (xs @ post) = nsum16 xs + nsum16 post" if "length xs = 2" for xs using nsum16_append [of xs] that by simp
  let ?n = "unat i + nsum16 pre + nsum16 post"
  have z: "unat (sum16 (pre @ [0, 0] @ post) i) = ?n"
    using assms(2) by (subst unat_sum16) (simp_all add: nsum16_append [OF assms(1)])
  have c: "unat c = 65535 - oc_mod ?n" unfolding c_def unat_net_checksum z ..
  have s: "nsum16 (pre @ le_bytes 2 c @ post) = nsum16 pre + unat c + nsum16 post"
    by (simp add: nsum16_append [OF assms(1)] two nsum16_le_bytes)
  have "unat (sum16 (pre @ le_bytes 2 c @ post) i) = unat i + nsum16 (pre @ le_bytes 2 c @ post)"
    by (rule unat_sum16) (use assms(2) c s in linarith)
  then have "unat (sum16 (pre @ le_bytes 2 c @ post) i) = ?n + (65535 - oc_mod ?n)" using s c by simp
  then show ?thesis unfolding checksum_zero_iff by (simp add: oc_mod_complement)
qed

end
