(* ===== verification/Netbuf.thy ===== *)
theory Netbuf
  imports Net_Bytes
begin

text \<open>
  The pool of packet buffers (\<open>net.h\<close>, \<open>net.c\<close>).  The raw storage of all buffers is
  one array, addressed by integers, so that pointers that leave their buffer
  are still addresses; a descriptor holds the address of its buffer and of its
  first valid byte.  The free list is linked through the descriptors.

  The lemmas show that the pool hands out every buffer at most once at a time,
  and how the operations that add and strip headers act on the bytes of a
  packet.
\<close>

abbreviation NETBUF_MAX_SIZE :: nat where "NETBUF_MAX_SIZE \<equiv> 2048"
abbreviation NETBUF_HEADROOM :: u16 where "NETBUF_HEADROOM \<equiv> 64"
abbreviation NETBUF_POOL_SIZE :: nat where "NETBUF_POOL_SIZE \<equiv> 64"

record netbuf =
  nb_buf :: int
  nb_data :: int
  nb_len :: u16
  nb_capacity :: u16
  mac_offset :: u16
  net_offset :: u16
  transport_offset :: u16
  nb_dev :: "nat option"
  in_use :: bool
  nb_next :: "nat option"

record nbpool =
  netbuf_raw :: "int \<Rightarrow> u8"
  netbuf_pool :: "netbuf array"
  netbuf_free_list :: "nat option"

definition upd_nb :: "nat \<Rightarrow> (netbuf \<Rightarrow> netbuf) \<Rightarrow> nbpool \<Rightarrow> nbpool" where
  "upd_nb i f s = s\<lparr>netbuf_pool := (netbuf_pool s)(i := f (netbuf_pool s i))\<rparr>"

section \<open>Allocation\<close>

primrec netbuf_pool_loop :: "nat \<Rightarrow> nbpool \<Rightarrow> nbpool" where
  "netbuf_pool_loop 0 s = s"
| "netbuf_pool_loop (Suc i) s =
     netbuf_pool_loop i
       ((upd_nb i (\<lambda>nb. nb\<lparr>nb_buf := int (i * NETBUF_MAX_SIZE), nb_data := int (i * NETBUF_MAX_SIZE), nb_len := 0,
           nb_capacity := of_nat NETBUF_MAX_SIZE, mac_offset := 0, net_offset := 0, transport_offset := 0,
           nb_dev := None, in_use := False, nb_next := netbuf_free_list s\<rparr>) s)
        \<lparr>netbuf_free_list := Some i\<rparr>)"

definition netbuf_pool_init :: "nbpool \<Rightarrow> nbpool" where
  "netbuf_pool_init s = netbuf_pool_loop NETBUF_POOL_SIZE (s\<lparr>netbuf_free_list := None\<rparr>)"

definition netbuf_alloc :: "nbpool \<Rightarrow> (nat \<times> nbpool) option" where
  "netbuf_alloc s =
     (case netbuf_free_list s of
        None \<Rightarrow> None
      | Some i \<Rightarrow>
          Some (i, (upd_nb i (\<lambda>nb. nb\<lparr>nb_next := None, in_use := True, nb_data := nb_buf nb, nb_len := 0,
                     mac_offset := 0, net_offset := 0, transport_offset := 0, nb_dev := None\<rparr>) s)
                   \<lparr>netbuf_free_list := nb_next (netbuf_pool s i)\<rparr>))"

definition netbuf_free :: "nat \<Rightarrow> nbpool \<Rightarrow> nbpool" where
  "netbuf_free i s =
     (upd_nb i (\<lambda>nb. nb\<lparr>in_use := False, nb_len := 0, nb_data := nb_buf nb, nb_dev := None,
        nb_next := netbuf_free_list s\<rparr>) s)\<lparr>netbuf_free_list := Some i\<rparr>"

section \<open>Headers and payload\<close>

definition netbuf_reserve :: "nat \<Rightarrow> u16 \<Rightarrow> nbpool \<Rightarrow> nbpool" where
  "netbuf_reserve i headroom = upd_nb i (\<lambda>nb. nb\<lparr>nb_data := nb_data nb + uint headroom\<rparr>)"

definition netbuf_push :: "nat \<Rightarrow> u16 \<Rightarrow> nbpool \<Rightarrow> int \<times> nbpool" where
  "netbuf_push i n s =
     (let s1 = upd_nb i (\<lambda>nb. nb\<lparr>nb_data := nb_data nb - uint n, nb_len := nb_len nb + n\<rparr>) s
      in (nb_data (netbuf_pool s1 i), s1))"

definition netbuf_put :: "nat \<Rightarrow> u16 \<Rightarrow> nbpool \<Rightarrow> int \<times> nbpool" where
  "netbuf_put i n s =
     (nb_data (netbuf_pool s i) + uint (nb_len (netbuf_pool s i)), upd_nb i (\<lambda>nb. nb\<lparr>nb_len := nb_len nb + n\<rparr>) s)"

definition netbuf_pull :: "nat \<Rightarrow> u16 \<Rightarrow> nbpool \<Rightarrow> nbpool" where
  "netbuf_pull i n s =
     (let m = (if n > nb_len (netbuf_pool s i) then nb_len (netbuf_pool s i) else n)
      in upd_nb i (\<lambda>nb. nb\<lparr>nb_data := nb_data nb + uint m, nb_len := nb_len nb - m\<rparr>) s)"

definition netbuf_reset :: "nat \<Rightarrow> nbpool \<Rightarrow> nbpool" where
  "netbuf_reset i = upd_nb i (\<lambda>nb. nb\<lparr>nb_data := nb_buf nb, nb_len := 0, mac_offset := 0, net_offset := 0,
     transport_offset := 0\<rparr>)"

text \<open>Reading and writing the bytes behind a pointer.\<close>

definition store_bytes :: "int \<Rightarrow> u8 list \<Rightarrow> nbpool \<Rightarrow> nbpool" where
  "store_bytes a bs s = s\<lparr>netbuf_raw := (\<lambda>x. if a \<le> x \<and> x < a + int (length bs) then bs ! nat (x - a) else netbuf_raw s x)\<rparr>"

definition load_bytes :: "int \<Rightarrow> nat \<Rightarrow> nbpool \<Rightarrow> u8 list" where
  "load_bytes a n s = map (\<lambda>i. netbuf_raw s (a + int i)) [0..<n]"

definition nb_bytes :: "nat \<Rightarrow> nbpool \<Rightarrow> u8 list" where
  "nb_bytes i s = load_bytes (nb_data (netbuf_pool s i)) (unat (nb_len (netbuf_pool s i))) s"

section \<open>The pool hands out each buffer once\<close>

definition free_path :: "nbpool \<Rightarrow> nat list \<Rightarrow> bool" where
  "free_path s xs \<longleftrightarrow> path (\<lambda>i. nb_next (netbuf_pool s i)) (netbuf_free_list s) xs \<and> distinct xs \<and>
     set xs \<subseteq> {..<NETBUF_POOL_SIZE}"

definition pool_inv :: "nbpool \<Rightarrow> bool" where
  "pool_inv s \<longleftrightarrow> (\<exists>xs. free_path s xs)"

definition free_bufs :: "nbpool \<Rightarrow> nat set" where
  "free_bufs s = {i. \<exists>xs. free_path s xs \<and> i \<in> set xs}"

lemma free_bufs_path: "free_path s xs \<Longrightarrow> free_bufs s = set xs"
  by (auto simp: free_bufs_def free_path_def dest: path_unique)

lemma upd_nb_simps [simp]:
  "netbuf_pool (upd_nb i f s) = (netbuf_pool s)(i := f (netbuf_pool s i))"
  "netbuf_raw (upd_nb i f s) = netbuf_raw s" "netbuf_free_list (upd_nb i f s) = netbuf_free_list s"
  by (simp_all add: upd_nb_def)

lemma alloc_path:
  assumes "free_path s (i # xs)" "netbuf_alloc s = Some (j, s')"
  shows "j = i \<and> free_path s' xs"
proof -
  have i: "netbuf_free_list s = Some i" "path (\<lambda>i. nb_next (netbuf_pool s i)) (nb_next (netbuf_pool s i)) xs" "i \<notin> set xs"
    using assms(1) by (auto simp: free_path_def)
  then have j: "j = i" and s': "netbuf_free_list s' = nb_next (netbuf_pool s i)"
    "\<And>k. k \<noteq> i \<Longrightarrow> netbuf_pool s' k = netbuf_pool s k"
    using assms(2) by (auto simp: netbuf_alloc_def)
  have "path (\<lambda>i. nb_next (netbuf_pool s' i)) (netbuf_free_list s') xs"
    unfolding s'(1) using i(2,3) s'(2) path_cong [of xs "\<lambda>i. nb_next (netbuf_pool s' i)" "\<lambda>i. nb_next (netbuf_pool s i)"] by metis
  with assms(1) j show ?thesis by (simp add: free_path_def)
qed

lemma free_path_free:
  assumes "free_path s xs" "i \<notin> set xs" "i < NETBUF_POOL_SIZE"
  shows "free_path (netbuf_free i s) (i # xs)"
proof -
  let ?s = "netbuf_free i s"
  have "path (\<lambda>i. nb_next (netbuf_pool ?s i)) (netbuf_free_list s) xs =
      path (\<lambda>i. nb_next (netbuf_pool s i)) (netbuf_free_list s) xs"
    by (rule path_cong) (use assms(2) in \<open>auto simp: netbuf_free_def\<close>)
  with assms show ?thesis by (simp add: free_path_def netbuf_free_def)
qed

interpretation nb_pool: resource_pool netbuf_alloc netbuf_free free_bufs "\<lambda>_. {..<NETBUF_POOL_SIZE}" pool_inv
proof unfold_locales
  fix s r s' assume a: "pool_inv s" "netbuf_alloc s = Some (r, s')"
  then obtain xs where xs: "free_path s xs" by (auto simp: pool_inv_def)
  show "r \<in> free_bufs s \<and> free_bufs s' = free_bufs s - {r} \<and> {..<NETBUF_POOL_SIZE} = {..<NETBUF_POOL_SIZE} \<and> pool_inv s'"
  proof (cases xs)
    case Nil
    with xs a(2) show ?thesis by (simp add: free_path_def netbuf_alloc_def)
  next
    case (Cons i ys)
    note p = alloc_path [OF xs [unfolded Cons] a(2)]
    have "i \<notin> set ys" using xs Cons by (simp add: free_path_def)
    with p xs Cons show ?thesis by (auto simp: free_bufs_path pool_inv_def)
  qed
next
  fix s assume a: "pool_inv s" "netbuf_alloc s = None"
  then obtain xs where xs: "free_path s xs" by (auto simp: pool_inv_def)
  then have "xs = []" using a(2) by (cases xs) (auto simp: free_path_def netbuf_alloc_def)
  with free_bufs_path [OF xs] show "free_bufs s = {}" by simp
next
  fix s r assume a: "pool_inv s" "r \<in> {..<NETBUF_POOL_SIZE}" "r \<notin> free_bufs s"
  then obtain xs where xs: "free_path s xs" by (auto simp: pool_inv_def)
  have "free_path (netbuf_free r s) (r # xs)" by (rule free_path_free [OF xs]) (use a xs free_bufs_path in auto)
  with xs show "free_bufs (netbuf_free r s) = insert r (free_bufs s) \<and> {..<NETBUF_POOL_SIZE} = {..<NETBUF_POOL_SIZE} \<and> pool_inv (netbuf_free r s)"
    by (auto simp: free_bufs_path pool_inv_def)
next
  fix s assume "pool_inv s"
  then show "free_bufs s \<subseteq> {..<NETBUF_POOL_SIZE}" by (auto simp: free_bufs_def free_path_def)
qed

lemma pool_init_path:
  "free_path s xs \<Longrightarrow> n \<le> NETBUF_POOL_SIZE \<Longrightarrow> set xs \<inter> {..<n} = {} \<Longrightarrow> free_path (netbuf_pool_loop n s) ([0..<n] @ xs)"
proof (induction n arbitrary: s xs)
  case (Suc n)
  let ?s = "(upd_nb n (\<lambda>nb. nb\<lparr>nb_buf := int (n * NETBUF_MAX_SIZE), nb_data := int (n * NETBUF_MAX_SIZE), nb_len := 0,
           nb_capacity := of_nat NETBUF_MAX_SIZE, mac_offset := 0, net_offset := 0, transport_offset := 0,
           nb_dev := None, in_use := False, nb_next := netbuf_free_list s\<rparr>) s)\<lparr>netbuf_free_list := Some n\<rparr>"
  have n: "n \<notin> set xs" using Suc.prems(3) by auto
  have "path (\<lambda>i. nb_next (netbuf_pool ?s i)) (netbuf_free_list s) xs =
      path (\<lambda>i. nb_next (netbuf_pool s i)) (netbuf_free_list s) xs"
    by (rule path_cong) (use n in auto)
  then have "free_path ?s (n # xs)" using Suc.prems n by (auto simp: free_path_def)
  then have "free_path (netbuf_pool_loop n ?s) ([0..<n] @ n # xs)"
    by (rule Suc.IH) (use Suc.prems in auto)
  then show ?case by simp
qed simp

lemma pool_init_free_path: "free_path (netbuf_pool_init s) [0..<NETBUF_POOL_SIZE]"
proof -
  have "free_path (netbuf_pool_init s) ([0..<NETBUF_POOL_SIZE] @ [])"
    unfolding netbuf_pool_init_def by (rule pool_init_path) (simp_all add: free_path_def)
  then show ?thesis by (simp only: append_Nil2)
qed

lemma pool_init_inv: "pool_inv (netbuf_pool_init s)" "free_bufs (netbuf_pool_init s) = {..<NETBUF_POOL_SIZE}"
  using pool_init_free_path [of s] unfolding pool_inv_def by (blast, simp only: free_bufs_path set_upt atLeast0LessThan)

section \<open>The bytes of a packet\<close>

lemma length_load_bytes [simp]: "length (load_bytes a n s) = n"
  by (simp add: load_bytes_def)

lemma length_nb_bytes [simp]: "length (nb_bytes i s) = unat (nb_len (netbuf_pool s i))"
  by (simp add: nb_bytes_def)

lemma load_append: "load_bytes a (m + n) s = load_bytes a m s @ load_bytes (a + int m) n s"
  by (rule nth_equalityI) (auto simp: load_bytes_def nth_append)

lemma load_store_same: "load_bytes a (length bs) (store_bytes a bs s) = bs"
  by (rule nth_equalityI) (auto simp: load_bytes_def store_bytes_def)

lemma load_store_other:
  assumes "b + int n \<le> a \<or> a + int (length bs) \<le> b"
  shows "load_bytes b n (store_bytes a bs s) = load_bytes b n s"
  using assms by (auto simp: load_bytes_def store_bytes_def)

lemma load_drop: "m \<le> n \<Longrightarrow> load_bytes (a + int m) (n - m) s = drop m (load_bytes a n s)"
  using load_append [of a m "n - m" s] by simp

lemma load_upd [simp]: "load_bytes a n (upd_nb i f s) = load_bytes a n s"
  "load_bytes a n (s\<lparr>netbuf_free_list := x\<rparr>) = load_bytes a n s"
  by (simp_all add: load_bytes_def)

lemma store_simps [simp]:
  "netbuf_pool (store_bytes a bs s) = netbuf_pool s" "netbuf_free_list (store_bytes a bs s) = netbuf_free_list s"
  by (simp_all add: store_bytes_def)

lemma unat_add_u16: "unat a + n < 65536 \<Longrightarrow> unat (a + of_nat n) = unat a + n" for a :: u16
proof -
  assume a: "unat a + n < 65536"
  then have "unat (of_nat n :: u16) = n" by (simp add: unat_of_nat take_bit_nat_eq_self)
  with a show ?thesis by (simp add: unat_word_ariths)
qed

lemma unat_of_nat_u16: "n < 65536 \<Longrightarrow> unat (of_nat n :: u16) = n" "n < 65536 \<Longrightarrow> uint (of_nat n :: u16) = int n"
  by (simp_all add: unat_of_nat take_bit_nat_eq_self uint_nat)

text \<open>Prepending a header, appending a payload, and stripping a header.\<close>

definition push_bytes :: "nat \<Rightarrow> u8 list \<Rightarrow> nbpool \<Rightarrow> nbpool" where
  "push_bytes i bs s = (let (p, s1) = netbuf_push i (of_nat (length bs)) s in store_bytes p bs s1)"

definition put_bytes :: "nat \<Rightarrow> u8 list \<Rightarrow> nbpool \<Rightarrow> nbpool" where
  "put_bytes i bs s = (let (p, s1) = netbuf_put i (of_nat (length bs)) s in store_bytes p bs s1)"

lemma push_bytes:
  assumes "unat (nb_len (netbuf_pool s i)) + length bs < 65536"
  shows "nb_bytes i (push_bytes i bs s) = bs @ nb_bytes i s"
proof -
  have u: "unat (nb_len (netbuf_pool s i) + of_nat (length bs)) = length bs + unat (nb_len (netbuf_pool s i))"
    using unat_add_u16 [OF assms] by simp
  let ?a = "nb_data (netbuf_pool s i) - int (length bs)"
  have "length bs < 65536" using assms by simp
  then have l: "uint (of_nat (length bs) :: u16) = int (length bs)" by (rule unat_of_nat_u16(2))
  show ?thesis
    unfolding nb_bytes_def push_bytes_def netbuf_push_def Let_def
    by (simp add: l u load_append load_store_same load_store_other)
qed

lemma put_bytes:
  assumes "unat (nb_len (netbuf_pool s i)) + length bs < 65536"
  shows "nb_bytes i (put_bytes i bs s) = nb_bytes i s @ bs"
proof -
  have u: "unat (nb_len (netbuf_pool s i) + of_nat (length bs)) = unat (nb_len (netbuf_pool s i)) + length bs"
    using unat_add_u16 [OF assms] by simp
  show ?thesis
    unfolding nb_bytes_def put_bytes_def netbuf_put_def Let_def
    by (simp add: u load_append load_store_same load_store_other)
qed

lemma pull_bytes: "nb_bytes i (netbuf_pull i n s) = drop (unat n) (nb_bytes i s)"
proof -
  let ?l = "nb_len (netbuf_pool s i)"
  define m where "m = (if n > ?l then ?l else n)"
  have m: "unat (?l - m) = unat ?l - unat m" "unat m \<le> unat ?l"
    by (auto simp: m_def unat_sub word_le_nat_alt not_less)
  have "nb_bytes i (netbuf_pull i n s) = drop (unat m) (nb_bytes i s)"
    using load_drop [OF m(2), of "nb_data (netbuf_pool s i)" s]
    unfolding nb_bytes_def netbuf_pull_def Let_def m_def [symmetric]
    by (simp add: m(1))
  also have "\<dots> = drop (unat n) (nb_bytes i s)" by (auto simp: m_def word_less_nat_alt)
  finally show ?thesis .
qed

end
