(* ===== verification/Net_Rings.thy ===== *)
theory Net_Rings
  imports Net_Bytes
begin

text \<open>
  The three ring buffers of the network stack: received frames waiting for the
  bottom half (\<open>net_rx.c\<close>), frames waiting for transmission (\<open>net_tx.c\<close>), and the
  datagrams of a socket (\<open>socket.c\<close>).  Each keeps a count of its occupied slots.
  The locks around the first two are not modelled: each operation is one step.

  The first two rings are bounded queues that lose nothing they accept; the
  socket ring keeps the first 1500 bytes of each datagram, in order.
\<close>

section \<open>Received frames\<close>

abbreviation NET_RX_RING_SIZE :: nat where "NET_RX_RING_SIZE \<equiv> 128"
abbreviation NET_TX_RING_SIZE :: nat where "NET_TX_RING_SIZE \<equiv> 64"

type_synonym ring_entry = "nat option \<times> nat option"

record net_ring =
  ring_slots :: "ring_entry array"
  ring_head :: nat
  ring_tail :: nat
  ring_count :: nat
  stat_enqueued :: u64
  stat_processed :: u64
  stat_dropped :: u64

definition net_rx_init :: "net_ring \<Rightarrow> net_ring" where
  "net_rx_init r = r\<lparr>ring_head := 0, ring_tail := 0, ring_count := 0, stat_enqueued := 0, stat_processed := 0,
     stat_dropped := 0, ring_slots := (\<lambda>i. if i < NET_RX_RING_SIZE then (None, None) else ring_slots r i)\<rparr>"

definition rx_ring_enqueue :: "ring_entry \<Rightarrow> net_ring \<Rightarrow> int \<times> net_ring" where
  "rx_ring_enqueue e r =
     (if ring_count r \<ge> NET_RX_RING_SIZE then (- 1, r\<lparr>stat_dropped := stat_dropped r + 1\<rparr>)
      else (0, r\<lparr>ring_slots := (ring_slots r)(ring_head r := e),
                 ring_head := (ring_head r + 1) AND (NET_RX_RING_SIZE - 1),
                 ring_count := ring_count r + 1, stat_enqueued := stat_enqueued r + 1\<rparr>))"

definition rx_ring_dequeue :: "net_ring \<Rightarrow> (ring_entry \<times> net_ring) option" where
  "rx_ring_dequeue r =
     (if ring_count r = 0 then None
      else Some (ring_slots r (ring_tail r),
                 r\<lparr>ring_slots := (ring_slots r)(ring_tail r := (None, None)),
                   ring_tail := (ring_tail r + 1) AND (NET_RX_RING_SIZE - 1), ring_count := ring_count r - 1\<rparr>))"

section \<open>Frames to transmit\<close>

definition net_tx_init :: "net_ring \<Rightarrow> net_ring" where
  "net_tx_init r = r\<lparr>ring_head := 0, ring_tail := 0, ring_count := 0, stat_enqueued := 0, stat_processed := 0,
     stat_dropped := 0, ring_slots := (\<lambda>i. if i < NET_TX_RING_SIZE then (None, None) else ring_slots r i)\<rparr>"

definition tx_ring_enqueue :: "ring_entry \<Rightarrow> net_ring \<Rightarrow> int \<times> net_ring" where
  "tx_ring_enqueue e r =
     (if ring_count r \<ge> NET_TX_RING_SIZE then (- 1, r\<lparr>stat_dropped := stat_dropped r + 1\<rparr>)
      else (0, r\<lparr>ring_slots := (ring_slots r)(ring_head r := e),
                 ring_head := (ring_head r + 1) AND (NET_TX_RING_SIZE - 1),
                 ring_count := ring_count r + 1, stat_enqueued := stat_enqueued r + 1\<rparr>))"

definition tx_ring_dequeue :: "net_ring \<Rightarrow> (ring_entry \<times> net_ring) option" where
  "tx_ring_dequeue r =
     (if ring_count r = 0 then None
      else Some (ring_slots r (ring_tail r),
                 r\<lparr>ring_slots := (ring_slots r)(ring_tail r := (None, None)),
                   ring_tail := (ring_tail r + 1) AND (NET_TX_RING_SIZE - 1), ring_count := ring_count r - 1\<rparr>))"

section \<open>Datagrams of a socket\<close>

abbreviation SOCKET_RX_RING_SIZE :: nat where "SOCKET_RX_RING_SIZE \<equiv> 16"
abbreviation SOCKET_RX_BUF_SIZE :: nat where "SOCKET_RX_BUF_SIZE \<equiv> 1500"

record sockaddr_in =
  sin_family :: u16
  sin_port :: u16
  sin_addr :: u32

record socket_rx_entry =
  e_data :: "u8 array"
  e_len :: nat
  e_from :: sockaddr_in
  e_valid :: bool

record socket_rx_ring =
  sk_entries :: "socket_rx_entry array"
  sk_head :: nat
  sk_tail :: nat
  sk_count :: nat

definition sk_ring_init :: "socket_rx_ring \<Rightarrow> socket_rx_ring" where
  "sk_ring_init r = r\<lparr>sk_head := 0, sk_tail := 0, sk_count := 0,
     sk_entries := (\<lambda>i. if i < SOCKET_RX_RING_SIZE then (sk_entries r i)\<lparr>e_valid := False, e_len := 0\<rparr> else sk_entries r i)\<rparr>"

definition rx_ring_push :: "u8 list \<Rightarrow> sockaddr_in \<Rightarrow> socket_rx_ring \<Rightarrow> int \<times> socket_rx_ring" where
  "rx_ring_push data from r =
     (if sk_count r \<ge> SOCKET_RX_RING_SIZE then (- 1, r)
      else
        let e = sk_entries r (sk_head r);
            copy_len = (if length data > SOCKET_RX_BUF_SIZE then SOCKET_RX_BUF_SIZE else length data);
            e' = e\<lparr>e_data := (\<lambda>i. if i < copy_len then data ! i else e_data e i), e_len := copy_len,
                   e_from := from, e_valid := True\<rparr>
        in (0, r\<lparr>sk_entries := (sk_entries r)(sk_head r := e'),
                 sk_head := (sk_head r + 1) mod SOCKET_RX_RING_SIZE, sk_count := sk_count r + 1\<rparr>))"

definition rx_ring_pop :: "nat \<Rightarrow> socket_rx_ring \<Rightarrow> ((u8 list \<times> sockaddr_in) \<times> socket_rx_ring) option" where
  "rx_ring_pop maxlen r =
     (if sk_count r = 0 then None
      else
        let e = sk_entries r (sk_tail r);
            copy_len = (if e_len e > maxlen then maxlen else e_len e)
        in Some ((map (e_data e) [0..<copy_len], e_from e),
                 r\<lparr>sk_entries := (sk_entries r)(sk_tail r := e\<lparr>e_valid := False\<rparr>),
                   sk_tail := (sk_tail r + 1) mod SOCKET_RX_RING_SIZE, sk_count := sk_count r - 1\<rparr>))"

section \<open>Rings with a count\<close>

text \<open>The shared argument: a slot array with a tail, a head \<open>n\<close> slots behind it, and the count \<open>n\<close>.\<close>

definition cring_inv :: "nat \<Rightarrow> nat \<Rightarrow> nat \<Rightarrow> nat \<Rightarrow> bool" where
  "cring_inv N h t n \<longleftrightarrow> t < N \<and> n \<le> N \<and> h = (t + n) mod N"

lemma cring_push:
  assumes "cring_inv N h t n" "n < N"
  shows "cring_inv N (Suc h mod N) t (Suc n)"
    "ring_contents (buf(h := x)) t (Suc n) N = ring_contents buf t n N @ [x]"
proof -
  show "cring_inv N (Suc h mod N) t (Suc n)" using assms by (simp add: cring_inv_def mod_simps)
  have "h = (t + n) mod N" using assms(1) by (simp add: cring_inv_def)
  then show "ring_contents (buf(h := x)) t (Suc n) N = ring_contents buf t n N @ [x]"
    using ring_push [OF assms(2), of buf t x] by simp
qed

lemma cring_pop:
  assumes "cring_inv N h t n" "0 < n"
  shows "cring_inv N h (Suc t mod N) (n - 1)"
    "ring_contents buf t n N = buf t # ring_contents (buf(t := y)) (Suc t mod N) (n - 1) N"
proof -
  have t: "t < N" "n \<le> N" "h = (t + n) mod N" using assms(1) by (simp_all add: cring_inv_def)
  have "(Suc t mod N + (n - 1)) mod N = (t + n) mod N" using assms(2) by (cases n) (simp_all add: mod_simps)
  then show "cring_inv N h (Suc t mod N) (n - 1)" using t by (simp add: cring_inv_def)
  have "t \<noteq> (Suc t mod N + i) mod N" if "i < n - 1" for i
    using ring_slot_neq [of 0 "Suc i" N t] that t by (simp add: mod_simps)
  then have "ring_contents (buf(t := y)) (Suc t mod N) (n - 1) N = ring_contents buf (Suc t mod N) (n - 1) N"
    by (intro ring_contents_upd_outside) auto
  with ring_pop [OF assms(2), of buf t N] t(1)
  show "ring_contents buf t n N = buf t # ring_contents (buf(t := y)) (Suc t mod N) (n - 1) N" by simp
qed

lemma and_127: "n AND 127 = n mod 128" for n :: nat
  using take_bit_eq_mask [of 7 n] by (simp add: take_bit_eq_mod mask_eq_exp_minus_1)

lemma and_63: "n AND 63 = n mod 64" for n :: nat
  using take_bit_eq_mask [of 6 n] by (simp add: take_bit_eq_mod mask_eq_exp_minus_1)

section \<open>The frame rings are bounded queues\<close>

definition rx_contents :: "net_ring \<Rightarrow> ring_entry list" where
  "rx_contents r = ring_contents (ring_slots r) (ring_tail r) (ring_count r) NET_RX_RING_SIZE"

definition rx_inv :: "net_ring \<Rightarrow> bool" where
  "rx_inv r \<longleftrightarrow> cring_inv NET_RX_RING_SIZE (ring_head r) (ring_tail r) (ring_count r)"

definition tx_contents :: "net_ring \<Rightarrow> ring_entry list" where
  "tx_contents r = ring_contents (ring_slots r) (ring_tail r) (ring_count r) NET_TX_RING_SIZE"

definition tx_inv :: "net_ring \<Rightarrow> bool" where
  "tx_inv r \<longleftrightarrow> cring_inv NET_TX_RING_SIZE (ring_head r) (ring_tail r) (ring_count r)"

definition rx_put :: "ring_entry \<Rightarrow> net_ring \<Rightarrow> net_ring" where
  "rx_put e r = snd (rx_ring_enqueue e r)"

definition tx_put :: "ring_entry \<Rightarrow> net_ring \<Rightarrow> net_ring" where
  "tx_put e r = snd (tx_ring_enqueue e r)"

interpretation rx_fifo: bounded_fifo rx_put rx_ring_dequeue rx_contents rx_inv NET_RX_RING_SIZE
proof unfold_locales
  fix q x assume i: "rx_inv q"
  show "rx_contents (rx_put x q) = (if length (rx_contents q) < NET_RX_RING_SIZE then rx_contents q @ [x] else rx_contents q)"
    "rx_inv (rx_put x q)"
    using i cring_push(1) [of NET_RX_RING_SIZE "ring_head q" "ring_tail q" "ring_count q"] cring_push(2) [of NET_RX_RING_SIZE "ring_head q" "ring_tail q" "ring_count q" "ring_slots q" x]
    by (auto simp: rx_contents_def rx_inv_def rx_put_def rx_ring_enqueue_def and_127)
next
  fix q assume "rx_inv q" "rx_contents q = []"
  then show "rx_ring_dequeue q = None" by (simp add: rx_contents_def rx_ring_dequeue_def ring_contents_def)
next
  fix q x xs assume i: "rx_inv q" "rx_contents q = x # xs"
  then have n: "0 < ring_count q" by (cases "ring_count q") (simp_all add: rx_contents_def)
  show "\<exists>q'. rx_ring_dequeue q = Some (x, q') \<and> rx_contents q' = xs \<and> rx_inv q'"
    using i n cring_pop(1) [of NET_RX_RING_SIZE "ring_head q" "ring_tail q" "ring_count q"] cring_pop(2) [of NET_RX_RING_SIZE "ring_head q" "ring_tail q" "ring_count q" "ring_slots q" "(None, None)"]
    by (auto simp: rx_contents_def rx_inv_def rx_ring_dequeue_def and_127)
next
  fix q assume "rx_inv q"
  then show "length (rx_contents q) \<le> NET_RX_RING_SIZE" by (simp add: rx_contents_def rx_inv_def cring_inv_def)
qed

interpretation tx_fifo: bounded_fifo tx_put tx_ring_dequeue tx_contents tx_inv NET_TX_RING_SIZE
proof unfold_locales
  fix q x assume i: "tx_inv q"
  show "tx_contents (tx_put x q) = (if length (tx_contents q) < NET_TX_RING_SIZE then tx_contents q @ [x] else tx_contents q)"
    "tx_inv (tx_put x q)"
    using i cring_push(1) [of NET_TX_RING_SIZE "ring_head q" "ring_tail q" "ring_count q"] cring_push(2) [of NET_TX_RING_SIZE "ring_head q" "ring_tail q" "ring_count q" "ring_slots q" x]
    by (auto simp: tx_contents_def tx_inv_def tx_put_def tx_ring_enqueue_def and_63)
next
  fix q assume "tx_inv q" "tx_contents q = []"
  then show "tx_ring_dequeue q = None" by (simp add: tx_contents_def tx_ring_dequeue_def ring_contents_def)
next
  fix q x xs assume i: "tx_inv q" "tx_contents q = x # xs"
  then have n: "0 < ring_count q" by (cases "ring_count q") (simp_all add: tx_contents_def)
  show "\<exists>q'. tx_ring_dequeue q = Some (x, q') \<and> tx_contents q' = xs \<and> tx_inv q'"
    using i n cring_pop(1) [of NET_TX_RING_SIZE "ring_head q" "ring_tail q" "ring_count q"] cring_pop(2) [of NET_TX_RING_SIZE "ring_head q" "ring_tail q" "ring_count q" "ring_slots q" "(None, None)"]
    by (auto simp: tx_contents_def tx_inv_def tx_ring_dequeue_def and_63)
next
  fix q assume "tx_inv q"
  then show "length (tx_contents q) \<le> NET_TX_RING_SIZE" by (simp add: tx_contents_def tx_inv_def cring_inv_def)
qed

section \<open>The socket ring\<close>

definition entry_datagram :: "socket_rx_entry \<Rightarrow> u8 list \<times> sockaddr_in" where
  "entry_datagram e = (map (e_data e) [0..<e_len e], e_from e)"

definition sk_datagrams :: "socket_rx_ring \<Rightarrow> (u8 list \<times> sockaddr_in) list" where
  "sk_datagrams r = map entry_datagram (ring_contents (sk_entries r) (sk_tail r) (sk_count r) SOCKET_RX_RING_SIZE)"

definition sk_inv :: "socket_rx_ring \<Rightarrow> bool" where
  "sk_inv r \<longleftrightarrow> cring_inv SOCKET_RX_RING_SIZE (sk_head r) (sk_tail r) (sk_count r)"

lemma length_sk_datagrams [simp]: "length (sk_datagrams r) = sk_count r"
  by (simp add: sk_datagrams_def)

lemma rx_ring_push_spec:
  assumes "sk_inv r"
  shows "rx_ring_push data from r = (if length (sk_datagrams r) < 16 then 0 else - 1, snd (rx_ring_push data from r))"
    "sk_datagrams (snd (rx_ring_push data from r)) =
       (if length (sk_datagrams r) < 16 then sk_datagrams r @ [(take 1500 data, from)] else sk_datagrams r)"
    "sk_inv (snd (rx_ring_push data from r))"
proof -
  define e where "e = (sk_entries r (sk_head r))\<lparr>e_data := (\<lambda>i. if i < min 1500 (length data) then data ! i else e_data (sk_entries r (sk_head r)) i),
      e_len := min 1500 (length data), e_from := from, e_valid := True\<rparr>"
  have d: "entry_datagram e = (take 1500 data, from)"
    by (auto simp: entry_datagram_def e_def intro: nth_equalityI)
  have p: "rx_ring_push data from r = (if sk_count r \<ge> 16 then (- 1, r)
      else (0, r\<lparr>sk_entries := (sk_entries r)(sk_head r := e), sk_head := Suc (sk_head r) mod 16, sk_count := sk_count r + 1\<rparr>))"
    unfolding rx_ring_push_def e_def Let_def by (simp add: min_def)
  show "rx_ring_push data from r = (if length (sk_datagrams r) < 16 then 0 else - 1, snd (rx_ring_push data from r))"
    unfolding p by simp
  show "sk_datagrams (snd (rx_ring_push data from r)) =
       (if length (sk_datagrams r) < 16 then sk_datagrams r @ [(take 1500 data, from)] else sk_datagrams r)"
    "sk_inv (snd (rx_ring_push data from r))"
    using assms cring_push(1) [of 16 "sk_head r" "sk_tail r" "sk_count r"] cring_push(2) [of 16 "sk_head r" "sk_tail r" "sk_count r" "sk_entries r" e] d
    unfolding p by (auto simp: sk_datagrams_def sk_inv_def)
qed

lemma rx_ring_pop_spec:
  assumes "sk_inv r"
  shows "sk_datagrams r = [] \<Longrightarrow> rx_ring_pop m r = None"
    "sk_datagrams r = (d, f) # ds \<Longrightarrow> \<exists>r'. rx_ring_pop m r = Some ((take m d, f), r') \<and> sk_datagrams r' = ds \<and> sk_inv r'"
proof -
  show "sk_datagrams r = [] \<Longrightarrow> rx_ring_pop m r = None"
    using length_sk_datagrams [of r] by (simp add: rx_ring_pop_def)
  assume s: "sk_datagrams r = (d, f) # ds"
  then have n: "0 < sk_count r" using length_sk_datagrams [of r] by (metis length_greater_0_conv list.discI)
  let ?e = "sk_entries r (sk_tail r)"
  note p = cring_pop(1) [OF assms [unfolded sk_inv_def] n]
    cring_pop(2) [OF assms [unfolded sk_inv_def] n, of "sk_entries r" "?e\<lparr>e_valid := False\<rparr>"]
  have e: "entry_datagram ?e = (d, f)" using s p(2) by (simp add: sk_datagrams_def)
  then have t: "map (e_data ?e) [0..<(if e_len ?e > m then m else e_len ?e)] = take m d" "e_from ?e = f"
    by (auto simp: entry_datagram_def take_map)
  show "\<exists>r'. rx_ring_pop m r = Some ((take m d, f), r') \<and> sk_datagrams r' = ds \<and> sk_inv r'"
    using n p t s unfolding rx_ring_pop_def Let_def by (simp add: sk_datagrams_def sk_inv_def)
qed

end
