(* ===== verification/Net_State.thy ===== *)
theory Net_State
  imports Netbuf Net_Rings
begin

text \<open>
  The state of the network stack and its tables: devices and routing (\<open>net.c\<close>),
  the ARP cache (\<open>arp.c\<close>), the UDP bind table (\<open>udp.c\<close>), and the sockets with
  their port map (\<open>socket.c\<close>).  Addresses are the words in memory: an IPv4
  address is the 32-bit word whose lowest byte is its first octet, a MAC
  address the 48-bit word whose lowest byte is its first byte.  Devices,
  buffers and connections are named by index.

  The callbacks registered with UDP are those the sources register: the socket
  layer's, the resolver's and the DHCP client's.  \<open>net_hung\<close> is set where the
  code would loop forever.
\<close>

type_synonym mac_addr = "48 word"
type_synonym ipv4_addr = u32

definition IPV4 :: "u8 \<Rightarrow> u8 \<Rightarrow> u8 \<Rightarrow> u8 \<Rightarrow> ipv4_addr" where
  "IPV4 a b c d = le_word [a, b, c, d]"

abbreviation MAC_BROADCAST :: mac_addr where "MAC_BROADCAST \<equiv> - 1"
abbreviation MAC_ZERO :: mac_addr where "MAC_ZERO \<equiv> 0"
abbreviation IPV4_BROADCAST :: ipv4_addr where "IPV4_BROADCAST \<equiv> - 1"
abbreviation IPV4_ZERO :: ipv4_addr where "IPV4_ZERO \<equiv> 0"

definition mac_equal :: "mac_addr \<Rightarrow> mac_addr \<Rightarrow> bool" where
  "mac_equal a b \<longleftrightarrow> le_bytes 6 a ! 0 = le_bytes 6 b ! 0 \<and> le_bytes 6 a ! 1 = le_bytes 6 b ! 1 \<and>
     le_bytes 6 a ! 2 = le_bytes 6 b ! 2 \<and> le_bytes 6 a ! 3 = le_bytes 6 b ! 3 \<and>
     le_bytes 6 a ! 4 = le_bytes 6 b ! 4 \<and> le_bytes 6 a ! 5 = le_bytes 6 b ! 5"

definition ipv4_equal :: "ipv4_addr \<Rightarrow> ipv4_addr \<Rightarrow> bool" where
  "ipv4_equal a b \<longleftrightarrow> a = b"

section \<open>State\<close>

abbreviation NET_MAX_DEVICES :: nat where "NET_MAX_DEVICES \<equiv> 4"
abbreviation ARP_CACHE_SIZE :: nat where "ARP_CACHE_SIZE \<equiv> 32"
abbreviation UDP_MAX_BINDS :: nat where "UDP_MAX_BINDS \<equiv> 16"
abbreviation SOCKET_MAX :: nat where "SOCKET_MAX \<equiv> 32"
abbreviation TCP_RECV_BUF_SIZE :: nat where "TCP_RECV_BUF_SIZE \<equiv> 8192"

datatype driver = LO_OPS | E1000_OPS

record net_device =
  d_name :: string
  d_mac :: mac_addr
  d_ip :: ipv4_addr
  d_netmask :: ipv4_addr
  d_gateway :: ipv4_addr
  d_ops :: "driver option"
  irq_vector :: int
  irq_line :: u8
  tx_packets :: u64
  tx_bytes :: u64
  rx_packets :: u64
  rx_bytes :: u64
  tx_errors :: u64
  rx_errors :: u64
  link_up :: bool
  registered :: bool

datatype arp_state = ARP_STATE_FREE | ARP_STATE_PENDING | ARP_STATE_RESOLVED

record arp_entry =
  arp_ip :: ipv4_addr
  arp_mac :: mac_addr
  arp_state :: arp_state

datatype udp_cb = SOCKET_CB | DNS_CB | DHCP_CB

record udp_bind_entry =
  b_port :: u16
  b_cb :: udp_cb
  b_active :: bool

record socket =
  s_fd :: int
  s_domain :: int
  s_type :: int
  s_protocol :: int
  s_state :: nat
  s_local :: sockaddr_in
  s_remote :: sockaddr_in
  s_rx_ring :: socket_rx_ring
  non_blocking :: bool
  broadcast :: bool
  reuse_addr :: bool
  s_dev :: "nat option"

record port_map_entry =
  pm_port :: u16
  pm_sock :: nat
  pm_active :: bool

datatype tcp_state = TCP_STATE_CLOSED | TCP_STATE_SYN_SENT | TCP_STATE_ESTABLISHED | TCP_STATE_FIN_WAIT | TCP_STATE_TIME_WAIT

record tcp_conn =
  c_dev :: nat
  remote_ip :: ipv4_addr
  local_port :: u16
  remote_port :: u16
  snd_next :: u32
  rcv_next :: u32
  c_state :: tcp_state
  peer_fin :: bool
  recv_buf :: "u8 array"
  recv_len :: u32

record dhcp_state =
  got_offer :: bool
  got_ack :: bool
  offered_ip :: "u8 list"
  server_ip :: "u8 list"
  dhcp_mask :: "u8 list"
  dhcp_gw :: "u8 list"
  dhcp_dev :: "nat option"

record net =
  nbs :: nbpool
  devs :: "net_device array"
  registered_devices :: "nat array"
  device_count :: nat
  rx_ring :: net_ring
  tx_ring :: net_ring
  arp_table :: "arp_entry array"
  ip_id_counter :: u16
  bind_table :: "udp_bind_entry array"
  active_conn :: "nat option"
  conns :: "tcp_conn array"
  next_ephemeral_port :: u16
  socket_table :: "socket array"
  port_map :: "port_map_entry array"
  dns_got_reply :: bool
  dns_result :: ipv4_addr
  dhcp :: dhcp_state
  net_hung :: bool

definition upd_dev :: "nat \<Rightarrow> (net_device \<Rightarrow> net_device) \<Rightarrow> net \<Rightarrow> net" where
  "upd_dev d f s = s\<lparr>devs := (devs s)(d := f (devs s d))\<rparr>"

definition upd_nbs :: "(nbpool \<Rightarrow> nbpool) \<Rightarrow> net \<Rightarrow> net" where
  "upd_nbs f s = s\<lparr>nbs := f (nbs s)\<rparr>"

definition upd_sock :: "nat \<Rightarrow> (socket \<Rightarrow> socket) \<Rightarrow> net \<Rightarrow> net" where
  "upd_sock i f s = s\<lparr>socket_table := (socket_table s)(i := f (socket_table s i))\<rparr>"

definition upd_conn :: "nat \<Rightarrow> (tcp_conn \<Rightarrow> tcp_conn) \<Rightarrow> net \<Rightarrow> net" where
  "upd_conn i f s = s\<lparr>conns := (conns s)(i := f (conns s i))\<rparr>"

section \<open>Devices\<close>

definition net_device_register :: "nat \<Rightarrow> net \<Rightarrow> int \<times> net" where
  "net_device_register d s =
     (if device_count s \<ge> NET_MAX_DEVICES then (- 1, s)
      else
        let s1 = upd_dev d (\<lambda>x. x\<lparr>registered := True, irq_vector := 0, irq_line := 0, tx_packets := 0, tx_bytes := 0,
                   rx_packets := 0, rx_bytes := 0, tx_errors := 0, rx_errors := 0\<rparr>) s
        in (0, s1\<lparr>registered_devices := (registered_devices s1)(device_count s1 := d), device_count := device_count s1 + 1\<rparr>))"

definition net_device_get_by_name :: "string \<Rightarrow> net \<Rightarrow> nat option" where
  "net_device_get_by_name name s =
     (case first_slot (\<lambda>i. d_name (devs s (registered_devices s i)) = name) (device_count s) of
        None \<Rightarrow> None | Some i \<Rightarrow> Some (registered_devices s i))"

definition net_device_get_default :: "net \<Rightarrow> nat option" where
  "net_device_get_default s = (if device_count s > 0 then Some (registered_devices s 0) else None)"

definition net_device_get :: "int \<Rightarrow> net \<Rightarrow> nat option" where
  "net_device_get i s = (if i < 0 \<or> i \<ge> int (device_count s) then None else Some (registered_devices s (nat i)))"

definition net_device_set_ip :: "nat \<Rightarrow> ipv4_addr \<Rightarrow> ipv4_addr \<Rightarrow> ipv4_addr \<Rightarrow> net \<Rightarrow> net" where
  "net_device_set_ip d ip nm gw = upd_dev d (\<lambda>x. x\<lparr>d_ip := ip, d_netmask := nm, d_gateway := gw\<rparr>)"

definition net_device_find_by_ip :: "ipv4_addr \<Rightarrow> net \<Rightarrow> nat option" where
  "net_device_find_by_ip ip s =
     (case first_slot (\<lambda>i. ipv4_equal (d_ip (devs s (registered_devices s i))) ip) (device_count s) of
        None \<Rightarrow> None | Some i \<Rightarrow> Some (registered_devices s i))"

text \<open>The routing scan from device slot \<open>i\<close> with \<open>n\<close> slots left and the fallback found so far.\<close>

fun route_scan :: "ipv4_addr \<Rightarrow> net \<Rightarrow> nat \<Rightarrow> nat \<Rightarrow> nat option \<Rightarrow> nat option" where
  "route_scan dst s i 0 fallback = (case fallback of Some d \<Rightarrow> Some d | None \<Rightarrow> net_device_get_default s)"
| "route_scan dst s i (Suc n) fallback =
     (let d = registered_devices s i; dev = devs s d in
      if \<not> link_up dev then route_scan dst s (Suc i) n fallback
      else if dst AND d_netmask dev = d_ip dev AND d_netmask dev then Some d
      else route_scan dst s (Suc i) n (if \<not> ipv4_equal (d_gateway dev) IPV4_ZERO then Some d else fallback))"

definition net_device_route :: "ipv4_addr \<Rightarrow> net \<Rightarrow> nat option" where
  "net_device_route dst s = route_scan dst s 0 (device_count s) None"

section \<open>ARP cache\<close>

definition arp_init :: "net \<Rightarrow> net" where
  "arp_init s = s\<lparr>arp_table := (\<lambda>i. if i < ARP_CACHE_SIZE then (arp_table s i)\<lparr>arp_state := ARP_STATE_FREE\<rparr> else arp_table s i)\<rparr>"

definition arp_cache_lookup :: "ipv4_addr \<Rightarrow> net \<Rightarrow> mac_addr option" where
  "arp_cache_lookup ip s =
     (case first_slot (\<lambda>i. arp_state (arp_table s i) = ARP_STATE_RESOLVED \<and> ipv4_equal (arp_ip (arp_table s i)) ip) ARP_CACHE_SIZE of
        None \<Rightarrow> None | Some i \<Rightarrow> Some (arp_mac (arp_table s i)))"

definition arp_cache_update :: "ipv4_addr \<Rightarrow> mac_addr \<Rightarrow> net \<Rightarrow> net" where
  "arp_cache_update ip mac s =
     (case first_slot (\<lambda>i. arp_state (arp_table s i) \<noteq> ARP_STATE_FREE \<and> ipv4_equal (arp_ip (arp_table s i)) ip) ARP_CACHE_SIZE of
        Some i \<Rightarrow> s\<lparr>arp_table := (arp_table s)(i := (arp_table s i)\<lparr>arp_mac := mac, arp_state := ARP_STATE_RESOLVED\<rparr>)\<rparr>
      | None \<Rightarrow>
          (let i = (case first_slot (\<lambda>i. arp_state (arp_table s i) = ARP_STATE_FREE) ARP_CACHE_SIZE of None \<Rightarrow> 0 | Some i \<Rightarrow> i)
           in s\<lparr>arp_table := (arp_table s)(i := (arp_table s i)\<lparr>arp_ip := ip, arp_mac := mac, arp_state := ARP_STATE_RESOLVED\<rparr>)\<rparr>))"

section \<open>UDP bind table\<close>

definition udp_init :: "net \<Rightarrow> net" where
  "udp_init s = s\<lparr>bind_table := (\<lambda>i. if i < UDP_MAX_BINDS then (bind_table s i)\<lparr>b_active := False\<rparr> else bind_table s i)\<rparr>"

definition udp_find :: "u16 \<Rightarrow> net \<Rightarrow> nat option" where
  "udp_find port s = first_slot (\<lambda>i. b_active (bind_table s i) \<and> b_port (bind_table s i) = port) UDP_MAX_BINDS"

definition udp_bind :: "u16 \<Rightarrow> udp_cb \<Rightarrow> net \<Rightarrow> int \<times> net" where
  "udp_bind port cb s =
     (if udp_find port s \<noteq> None then (- 1, s)
      else case first_slot (\<lambda>i. \<not> b_active (bind_table s i)) UDP_MAX_BINDS of
        None \<Rightarrow> (- 1, s)
      | Some i \<Rightarrow> (0, s\<lparr>bind_table := (bind_table s)(i := (bind_table s i)\<lparr>b_port := port, b_cb := cb, b_active := True\<rparr>)\<rparr>))"

definition udp_unbind :: "u16 \<Rightarrow> net \<Rightarrow> int \<times> net" where
  "udp_unbind port s =
     (case udp_find port s of
        None \<Rightarrow> (- 1, s)
      | Some i \<Rightarrow> (0, s\<lparr>bind_table := (bind_table s)(i := (bind_table s i)\<lparr>b_active := False\<rparr>)\<rparr>))"

section \<open>Sockets\<close>

abbreviation AF_INET :: int where "AF_INET \<equiv> 2"
abbreviation SOCK_DGRAM :: int where "SOCK_DGRAM \<equiv> 2"
abbreviation SOCK_STREAM :: int where "SOCK_STREAM \<equiv> 1"
abbreviation IPPROTO_UDP :: int where "IPPROTO_UDP \<equiv> 17"
abbreviation IPPROTO_TCP :: int where "IPPROTO_TCP \<equiv> 6"
abbreviation SOCK_STATE_FREE :: nat where "SOCK_STATE_FREE \<equiv> 0"
abbreviation SOCK_STATE_CREATED :: nat where "SOCK_STATE_CREATED \<equiv> 1"
abbreviation SOCK_STATE_BOUND :: nat where "SOCK_STATE_BOUND \<equiv> 2"
abbreviation SOCK_STATE_CONNECTED :: nat where "SOCK_STATE_CONNECTED \<equiv> 3"
abbreviation SOCK_STATE_CLOSED :: nat where "SOCK_STATE_CLOSED \<equiv> 5"
abbreviation SOCK_ERR_INVAL :: int where "SOCK_ERR_INVAL \<equiv> - 1"
abbreviation SOCK_ERR_NOMEM :: int where "SOCK_ERR_NOMEM \<equiv> - 2"
abbreviation SOCK_ERR_ADDRINUSE :: int where "SOCK_ERR_ADDRINUSE \<equiv> - 3"
abbreviation SOCK_ERR_NOTBOUND :: int where "SOCK_ERR_NOTBOUND \<equiv> - 4"
abbreviation SOCK_ERR_AGAIN :: int where "SOCK_ERR_AGAIN \<equiv> - 5"
abbreviation SOCK_ERR_BADF :: int where "SOCK_ERR_BADF \<equiv> - 6"
abbreviation SOCK_ERR_NOSUPPORT :: int where "SOCK_ERR_NOSUPPORT \<equiv> - 7"

definition sockaddr_in_make :: "ipv4_addr \<Rightarrow> u16 \<Rightarrow> sockaddr_in" where
  "sockaddr_in_make ip port = \<lparr>sin_family = 2, sin_port = htons port, sin_addr = ip\<rparr>"

definition port_map_init :: "net \<Rightarrow> net" where
  "port_map_init s = s\<lparr>port_map := (\<lambda>i. if i < SOCKET_MAX then (port_map s i)\<lparr>pm_active := False\<rparr> else port_map s i)\<rparr>"

definition port_map_add :: "u16 \<Rightarrow> nat \<Rightarrow> net \<Rightarrow> int \<times> net" where
  "port_map_add port sk s =
     (case first_slot (\<lambda>i. \<not> pm_active (port_map s i)) SOCKET_MAX of
        None \<Rightarrow> (- 1, s)
      | Some i \<Rightarrow> (0, s\<lparr>port_map := (port_map s)(i := \<lparr>pm_port = port, pm_sock = sk, pm_active = True\<rparr>)\<rparr>))"

definition port_map_slot :: "u16 \<Rightarrow> net \<Rightarrow> nat option" where
  "port_map_slot port s = first_slot (\<lambda>i. pm_active (port_map s i) \<and> pm_port (port_map s i) = port) SOCKET_MAX"

definition port_map_remove :: "u16 \<Rightarrow> net \<Rightarrow> net" where
  "port_map_remove port s =
     (case port_map_slot port s of
        None \<Rightarrow> s
      | Some i \<Rightarrow> s\<lparr>port_map := (port_map s)(i := (port_map s i)\<lparr>pm_active := False\<rparr>)\<rparr>)"

definition port_map_find :: "u16 \<Rightarrow> net \<Rightarrow> nat option" where
  "port_map_find port s = (case port_map_slot port s of None \<Rightarrow> None | Some i \<Rightarrow> Some (pm_sock (port_map s i)))"

definition socket_udp_dispatch :: "ipv4_addr \<Rightarrow> u16 \<Rightarrow> u8 list \<Rightarrow> net \<Rightarrow> net" where
  "socket_udp_dispatch src_ip src_port data s =
     (case first_slot (\<lambda>i. pm_active (port_map s i) \<and> s_state (socket_table s (pm_sock (port_map s i))) \<ge> SOCK_STATE_BOUND) SOCKET_MAX of
        None \<Rightarrow> s
      | Some i \<Rightarrow>
          upd_sock (pm_sock (port_map s i))
            (\<lambda>x. x\<lparr>s_rx_ring := snd (rx_ring_push data (sockaddr_in_make src_ip src_port) (s_rx_ring x))\<rparr>) s)"

definition socket_init :: "net \<Rightarrow> net" where
  "socket_init s =
     port_map_init (s\<lparr>socket_table := (\<lambda>i. if i < SOCKET_MAX then (socket_table s i)\<lparr>s_fd := int i, s_state := SOCK_STATE_FREE\<rparr>
       else socket_table s i)\<rparr>)"

definition socket_get :: "int \<Rightarrow> net \<Rightarrow> nat option" where
  "socket_get fd s =
     (if fd < 0 \<or> fd \<ge> int SOCKET_MAX then None
      else if s_state (socket_table s (nat fd)) = SOCK_STATE_FREE then None else Some (nat fd))"

definition sock_create :: "int \<Rightarrow> int \<Rightarrow> int \<Rightarrow> net \<Rightarrow> int \<times> net" where
  "sock_create domain type protocol s =
     (if domain \<noteq> AF_INET then (SOCK_ERR_NOSUPPORT, s)
      else
        let protocol' = (if protocol = 0 then if type = SOCK_DGRAM then IPPROTO_UDP
                           else if type = SOCK_STREAM then IPPROTO_TCP else protocol else protocol) in
        if type \<noteq> SOCK_DGRAM \<or> protocol' \<noteq> IPPROTO_UDP then (SOCK_ERR_NOSUPPORT, s)
        else (case first_slot (\<lambda>i. s_state (socket_table s i) = SOCK_STATE_FREE) SOCKET_MAX of
          None \<Rightarrow> (SOCK_ERR_NOMEM, s)
        | Some i \<Rightarrow>
            (int i, upd_sock i (\<lambda>x. x\<lparr>s_fd := int i, s_domain := domain, s_type := type, s_protocol := protocol',
               s_state := SOCK_STATE_CREATED, non_blocking := False, broadcast := False, reuse_addr := False, s_dev := None,
               s_local := sockaddr_in_make IPV4_ZERO 0, s_remote := sockaddr_in_make IPV4_ZERO 0,
               s_rx_ring := sk_ring_init (s_rx_ring x)\<rparr>) s)))"

definition sock_bind :: "int \<Rightarrow> sockaddr_in option \<Rightarrow> net \<Rightarrow> int \<times> net" where
  "sock_bind fd addr s =
     (case socket_get fd s of
        None \<Rightarrow> (SOCK_ERR_BADF, s)
      | Some i \<Rightarrow>
          if s_state (socket_table s i) \<noteq> SOCK_STATE_CREATED then (SOCK_ERR_INVAL, s)
          else (case addr of
            None \<Rightarrow> (SOCK_ERR_INVAL, s)
          | Some a \<Rightarrow>
              if sin_family a \<noteq> 2 then (SOCK_ERR_INVAL, s)
              else
                let port = ntohs (sin_port a) in
                if port_map_find port s \<noteq> None then (SOCK_ERR_ADDRINUSE, s)
                else
                  let (r, s1) = udp_bind port SOCKET_CB s in
                  if r \<noteq> 0 then (SOCK_ERR_ADDRINUSE, s1)
                  else
                    let (r2, s2) = port_map_add port i s1 in
                    if r2 \<noteq> 0 then (SOCK_ERR_NOMEM, snd (udp_unbind port s2))
                    else (0, upd_sock i (\<lambda>x. x\<lparr>s_local := a, s_state := SOCK_STATE_BOUND\<rparr>) s2)))"

text \<open>A receive that finds no datagram on a blocking socket keeps waiting: the result is \<open>None\<close>.\<close>

definition sock_recvfrom :: "int \<Rightarrow> bool \<Rightarrow> u16 \<Rightarrow> net \<Rightarrow> (int \<times> u8 list \<times> sockaddr_in option) option \<times> net" where
  "sock_recvfrom fd has_buf maxlen s =
     (case socket_get fd s of
        None \<Rightarrow> (Some (SOCK_ERR_BADF, [], None), s)
      | Some i \<Rightarrow>
          if \<not> has_buf \<or> maxlen = 0 then (Some (SOCK_ERR_INVAL, [], None), s)
          else if s_state (socket_table s i) < SOCK_STATE_BOUND then (Some (SOCK_ERR_NOTBOUND, [], None), s)
          else (case rx_ring_pop (unat maxlen) (s_rx_ring (socket_table s i)) of
            Some ((data, from), r) \<Rightarrow>
              (Some (int (length data), data, Some from), upd_sock i (\<lambda>x. x\<lparr>s_rx_ring := r\<rparr>) s)
          | None \<Rightarrow>
              if s_state (socket_table s i) = SOCK_STATE_CLOSED \<or> s_state (socket_table s i) = SOCK_STATE_FREE
              then (Some (SOCK_ERR_BADF, [], None), s)
              else if non_blocking (socket_table s i) then (Some (SOCK_ERR_AGAIN, [], None), s)
              else (None, s)))"

definition sock_connect :: "int \<Rightarrow> sockaddr_in option \<Rightarrow> net \<Rightarrow> int \<times> net" where
  "sock_connect fd addr s =
     (case socket_get fd s of
        None \<Rightarrow> (SOCK_ERR_BADF, s)
      | Some i \<Rightarrow>
          (case addr of
             None \<Rightarrow> (SOCK_ERR_INVAL, s)
           | Some a \<Rightarrow>
               if sin_family a \<noteq> 2 then (SOCK_ERR_INVAL, s)
               else (0, upd_sock i (\<lambda>x. x\<lparr>s_remote := a,
                       s_state := (if s_state x = SOCK_STATE_CREATED \<or> s_state x = SOCK_STATE_BOUND
                                   then SOCK_STATE_CONNECTED else s_state x)\<rparr>) s)))"

definition sock_recv :: "int \<Rightarrow> bool \<Rightarrow> u16 \<Rightarrow> net \<Rightarrow> (int \<times> u8 list) option \<times> net" where
  "sock_recv fd has_buf maxlen s =
     (case sock_recvfrom fd has_buf maxlen s of (r, s') \<Rightarrow> (map_option (\<lambda>(n, d, _). (n, d)) r, s'))"

definition sock_close :: "int \<Rightarrow> net \<Rightarrow> int \<times> net" where
  "sock_close fd s =
     (case socket_get fd s of
        None \<Rightarrow> (SOCK_ERR_BADF, s)
      | Some i \<Rightarrow>
          let x = socket_table s i;
              port = ntohs (sin_port (s_local x));
              s1 = (if s_state x \<ge> SOCK_STATE_BOUND \<and> s_protocol x = IPPROTO_UDP
                    then port_map_remove port (snd (udp_unbind port s)) else s)
          in (0, upd_sock i (\<lambda>x. x\<lparr>s_rx_ring := sk_ring_init (s_rx_ring x), s_state := SOCK_STATE_FREE\<rparr>) s1))"

end
