(* ===== verification/Net_Stack.thy ===== *)
theory Net_Stack
  imports Net_State
begin

text \<open>
  The protocols: Ethernet, ARP, IPv4, ICMP, UDP and TCP on the packet buffers
  (\<open>ethernet.c\<close>, \<open>arp.c\<close>, \<open>ipv4.c\<close>, \<open>icmp.c\<close>, \<open>udp.c\<close>, \<open>tcp.c\<close>), the callbacks of the
  resolver and the DHCP client (\<open>dns.c\<close>, \<open>dhcp.c\<close>), and the loopback device
  (\<open>loopback.c\<close>).

  Sending goes through the operation table of the device.  The functions take
  that table as the parameter \<open>drv\<close>, as the code calls through \<open>dev->ops\<close>; the
  network card's driver stays a parameter.  The loopback driver hands a sent
  frame to the receive path before it returns, so sending can nest; \<open>dev_send\<close>
  bounds the nesting depth, and at depth 0 a send fails.
\<close>

record drv =
  drv_send :: "nat \<Rightarrow> nat \<Rightarrow> net \<Rightarrow> int \<times> net"
  drv_poll :: "nat \<Rightarrow> nat \<Rightarrow> net \<Rightarrow> int \<times> net"
  drv_start :: "nat \<Rightarrow> net \<Rightarrow> int \<times> net"
  drv_stop :: "nat \<Rightarrow> net \<Rightarrow> int \<times> net"

text \<open>The \<open>n\<close>-byte field at offset \<open>off\<close> of a packed struct.\<close>

definition field :: "u8 list \<Rightarrow> nat \<Rightarrow> nat \<Rightarrow> 'a::len word" where
  "field bs off n = le_word (take n (drop off bs))"

section \<open>Ethernet\<close>

abbreviation ETH_HEADER_LEN :: nat where "ETH_HEADER_LEN \<equiv> 14"
abbreviation ETHERTYPE_IPV4 :: u16 where "ETHERTYPE_IPV4 \<equiv> 0x0800"
abbreviation ETHERTYPE_ARP :: u16 where "ETHERTYPE_ARP \<equiv> 0x0806"

definition eth_header :: "mac_addr \<Rightarrow> mac_addr \<Rightarrow> u16 \<Rightarrow> u8 list" where
  "eth_header dst src ethertype = le_bytes 6 dst @ le_bytes 6 src @ le_bytes 2 (htons ethertype)"

definition data_offset :: "nat \<Rightarrow> net \<Rightarrow> u16" where
  "data_offset nb s = word_of_int (nb_data (netbuf_pool (nbs s) nb) - nb_buf (netbuf_pool (nbs s) nb))"

definition ethernet_send_frame :: "drv \<Rightarrow> nat \<Rightarrow> nat \<Rightarrow> mac_addr \<Rightarrow> u16 \<Rightarrow> net \<Rightarrow> int \<times> net" where
  "ethernet_send_frame drv dev nb dst ethertype s =
     (if d_ops (devs s dev) = None then (- 1, s)
      else
        let s1 = upd_nbs (push_bytes nb (eth_header dst (d_mac (devs s dev)) ethertype)) s;
            s2 = upd_nbs (upd_nb nb (\<lambda>b. b\<lparr>mac_offset := data_offset nb s1\<rparr>)) s1;
            (ret, s3) = drv_send drv dev nb s2
        in if ret = 0
           then (ret, upd_dev dev (\<lambda>d. d\<lparr>tx_packets := tx_packets d + 1,
                        tx_bytes := tx_bytes d + ucast (nb_len (netbuf_pool (nbs s3) nb))\<rparr>) s3)
           else (ret, upd_dev dev (\<lambda>d. d\<lparr>tx_errors := tx_errors d + 1\<rparr>) s3))"

section \<open>ARP\<close>

abbreviation ARP_HEADER_LEN :: nat where "ARP_HEADER_LEN \<equiv> 28"
abbreviation ARP_OP_REQUEST :: u16 where "ARP_OP_REQUEST \<equiv> 1"
abbreviation ARP_OP_REPLY :: u16 where "ARP_OP_REPLY \<equiv> 2"

definition arp_header :: "u16 \<Rightarrow> mac_addr \<Rightarrow> ipv4_addr \<Rightarrow> mac_addr \<Rightarrow> ipv4_addr \<Rightarrow> u8 list" where
  "arp_header oper smac sip tmac tip =
     le_bytes 2 (htons 1) @ le_bytes 2 (htons 0x0800) @ [6, 4] @ le_bytes 2 (htons oper) @
     le_bytes 6 smac @ le_bytes 4 sip @ le_bytes 6 tmac @ le_bytes 4 tip"

definition mark_pending :: "ipv4_addr \<Rightarrow> net \<Rightarrow> net" where
  "mark_pending ip s =
     (case first_slot (\<lambda>i. arp_state (arp_table s i) = ARP_STATE_FREE) ARP_CACHE_SIZE of
        None \<Rightarrow> s
      | Some i \<Rightarrow> s\<lparr>arp_table := (arp_table s)(i := (arp_table s i)\<lparr>arp_ip := ip, arp_mac := MAC_ZERO, arp_state := ARP_STATE_PENDING\<rparr>)\<rparr>)"

definition arp_send_request :: "drv \<Rightarrow> nat \<Rightarrow> ipv4_addr \<Rightarrow> net \<Rightarrow> int \<times> net" where
  "arp_send_request drv dev target_ip s =
     (case netbuf_alloc (nbs s) of
        None \<Rightarrow> (- 1, s)
      | Some (nb, p) \<Rightarrow>
          let s1 = s\<lparr>nbs := put_bytes nb (arp_header ARP_OP_REQUEST (d_mac (devs s dev)) (d_ip (devs s dev)) MAC_ZERO target_ip)
                       (netbuf_reserve nb NETBUF_HEADROOM p)\<rparr>;
              (ret, s2) = ethernet_send_frame drv dev nb MAC_BROADCAST ETHERTYPE_ARP (mark_pending target_ip s1)
          in (ret, upd_nbs (netbuf_free nb) s2))"

definition arp_resolve :: "drv \<Rightarrow> nat \<Rightarrow> ipv4_addr \<Rightarrow> net \<Rightarrow> mac_addr option \<times> net" where
  "arp_resolve drv dev ip s =
     (case arp_cache_lookup ip s of
        Some m \<Rightarrow> (Some m, s)
      | None \<Rightarrow> (None, snd (arp_send_request drv dev ip s)))"

definition arp_receive :: "drv \<Rightarrow> nat \<Rightarrow> nat \<Rightarrow> net \<Rightarrow> net" where
  "arp_receive drv dev nb s =
     (let bs = nb_bytes nb (nbs s) in
      if length bs < ARP_HEADER_LEN then s
      else if ntohs (field bs 0 2) \<noteq> 1 then s
      else if ntohs (field bs 2 2) \<noteq> 0x0800 then s
      else
        let smac = field bs 8 6; sip = field bs 14 4; tip = field bs 24 4;
            s1 = arp_cache_update sip smac s;
            oper = ntohs (field bs 6 2) in
        if oper = ARP_OP_REQUEST then
          if \<not> ipv4_equal tip (d_ip (devs s1 dev)) then s1
          else (case netbuf_alloc (nbs s1) of
            None \<Rightarrow> s1
          | Some (reply, p) \<Rightarrow>
              let s2 = s1\<lparr>nbs := put_bytes reply (arp_header ARP_OP_REPLY (d_mac (devs s1 dev)) (d_ip (devs s1 dev)) smac sip)
                            (netbuf_reserve reply NETBUF_HEADROOM p)\<rparr>
              in upd_nbs (netbuf_free reply) (snd (ethernet_send_frame drv dev reply smac ETHERTYPE_ARP s2)))
        else s1)"

section \<open>IPv4\<close>

abbreviation IPV4_HEADER_LEN :: nat where "IPV4_HEADER_LEN \<equiv> 20"
abbreviation IP_PROTO_ICMP :: u8 where "IP_PROTO_ICMP \<equiv> 1"
abbreviation IP_PROTO_TCP :: u8 where "IP_PROTO_TCP \<equiv> 6"
abbreviation IP_PROTO_UDP :: u8 where "IP_PROTO_UDP \<equiv> 17"

definition ipv4_header :: "u16 \<Rightarrow> u16 \<Rightarrow> u8 \<Rightarrow> u16 \<Rightarrow> ipv4_addr \<Rightarrow> ipv4_addr \<Rightarrow> u8 list" where
  "ipv4_header tot ident protocol checksum src dst =
     [0x45, 0] @ le_bytes 2 (htons tot) @ le_bytes 2 (htons ident) @ le_bytes 2 (htons 0x4000) @ [64, protocol] @
     le_bytes 2 checksum @ le_bytes 4 src @ le_bytes 4 dst"

definition next_hop :: "net_device \<Rightarrow> ipv4_addr \<Rightarrow> ipv4_addr" where
  "next_hop d dst =
     (let on_link = d_netmask d \<noteq> 0 \<and> dst AND d_netmask d = d_ip d AND d_netmask d
      in if \<not> on_link \<and> d_gateway d \<noteq> 0 then d_gateway d else dst)"

definition ipv4_send :: "drv \<Rightarrow> nat \<Rightarrow> nat \<Rightarrow> ipv4_addr \<Rightarrow> u8 \<Rightarrow> net \<Rightarrow> int \<times> net" where
  "ipv4_send drv dev nb dst protocol s =
     (let d = devs s dev;
          tot = 20 + nb_len (netbuf_pool (nbs s) nb);
          csum = net_checksum (ipv4_header tot (ip_id_counter s) protocol 0 (d_ip d) dst) 0;
          s1 = (upd_nbs (push_bytes nb (ipv4_header tot (ip_id_counter s) protocol csum (d_ip d) dst)) s)
                 \<lparr>ip_id_counter := ip_id_counter s + 1\<rparr>;
          s2 = upd_nbs (upd_nb nb (\<lambda>b. b\<lparr>net_offset := data_offset nb s1\<rparr>)) s1;
          subnet_bcast = d_ip d OR NOT (d_netmask d)
      in if ipv4_equal dst IPV4_BROADCAST \<or> ipv4_equal dst subnet_bcast
         then ethernet_send_frame drv dev nb MAC_BROADCAST ETHERTYPE_IPV4 s2
         else (case arp_resolve drv dev (next_hop d dst) s2 of
           (None, s3) \<Rightarrow> (- 1, s3)
         | (Some m, s3) \<Rightarrow> ethernet_send_frame drv dev nb m ETHERTYPE_IPV4 s3))"

section \<open>ICMP\<close>

abbreviation ICMP_HEADER_LEN :: nat where "ICMP_HEADER_LEN \<equiv> 8"

definition nb_addr :: "nat \<Rightarrow> nbpool \<Rightarrow> int" where
  "nb_addr nb p = nb_data (netbuf_pool p nb)"

definition icmp_receive :: "drv \<Rightarrow> nat \<Rightarrow> nat \<Rightarrow> ipv4_addr \<Rightarrow> net \<Rightarrow> net" where
  "icmp_receive drv dev nb src s =
     (let bs = nb_bytes nb (nbs s) in
      if length bs < ICMP_HEADER_LEN then s
      else if net_checksum bs 0 \<noteq> 0 then s
      else if bs ! 0 = 8 then
        (case netbuf_alloc (nbs s) of
           None \<Rightarrow> s
         | Some (reply, p) \<Rightarrow>
             let p1 = put_bytes reply bs (netbuf_reserve reply NETBUF_HEADROOM p);
                 p2 = store_bytes (nb_addr reply p1) [0, 0, 0, 0] p1;
                 csum = net_checksum (nb_bytes reply p2) 0;
                 p3 = store_bytes (nb_addr reply p2 + 2) (le_bytes 2 csum) p2
             in upd_nbs (netbuf_free reply) (snd (ipv4_send drv dev reply src IP_PROTO_ICMP (s\<lparr>nbs := p3\<rparr>))))
      else s)"

definition icmp_send_echo_request :: "drv \<Rightarrow> nat \<Rightarrow> ipv4_addr \<Rightarrow> u16 \<Rightarrow> u16 \<Rightarrow> u8 list \<Rightarrow> net \<Rightarrow> int \<times> net" where
  "icmp_send_echo_request drv dev dst ident seq data s =
     (case netbuf_alloc (nbs s) of
        None \<Rightarrow> (- 1, s)
      | Some (nb, p) \<Rightarrow>
          let p1 = put_bytes nb ([8, 0, 0, 0] @ le_bytes 2 (htons ident) @ le_bytes 2 (htons seq))
                     (netbuf_reserve nb NETBUF_HEADROOM p);
              p2 = put_bytes nb data p1;
              csum = net_checksum (nb_bytes nb p2) 0;
              p3 = store_bytes (nb_addr nb p1 + 2) (le_bytes 2 csum) p2;
              (ret, s1) = ipv4_send drv dev nb dst IP_PROTO_ICMP (s\<lparr>nbs := p3\<rparr>)
          in (ret, upd_nbs (netbuf_free nb) s1))"

section \<open>UDP\<close>

abbreviation UDP_HEADER_LEN :: nat where "UDP_HEADER_LEN \<equiv> 8"

definition udp_header :: "u16 \<Rightarrow> u16 \<Rightarrow> u16 \<Rightarrow> u16 \<Rightarrow> u8 list" where
  "udp_header src_port dst_port len checksum =
     le_bytes 2 (htons src_port) @ le_bytes 2 (htons dst_port) @ le_bytes 2 (htons len) @ le_bytes 2 checksum"

definition udp_pseudo_header :: "ipv4_addr \<Rightarrow> ipv4_addr \<Rightarrow> u16 \<Rightarrow> u8 list" where
  "udp_pseudo_header src dst len = le_bytes 4 src @ le_bytes 4 dst @ [0, 17] @ le_bytes 2 (htons len)"

definition udp_send :: "drv \<Rightarrow> nat \<Rightarrow> ipv4_addr \<Rightarrow> u16 \<Rightarrow> u16 \<Rightarrow> u8 list \<Rightarrow> net \<Rightarrow> int \<times> net" where
  "udp_send drv dev dst_ip src_port dst_port data s =
     (case netbuf_alloc (nbs s) of
        None \<Rightarrow> (- 1, s)
      | Some (nb, p) \<Rightarrow>
          let p1 = put_bytes nb data (netbuf_reserve nb NETBUF_HEADROOM p);
              udp_len = 8 + of_nat (length data);
              p2 = push_bytes nb (udp_header src_port dst_port udp_len 0) p1;
              pseudo = sum16 (udp_pseudo_header (d_ip (devs s dev)) dst_ip udp_len) 0;
              c = net_checksum (nb_bytes nb p2) pseudo;
              p3 = store_bytes (nb_addr nb p2 + 6) (le_bytes 2 (if c = 0 then 0xFFFF else c)) p2;
              s1 = s\<lparr>nbs := p3\<rparr>;
              s2 = upd_nbs (upd_nb nb (\<lambda>b. b\<lparr>transport_offset := data_offset nb s1\<rparr>)) s1;
              (ret, s3) = ipv4_send drv dev nb dst_ip IP_PROTO_UDP s2
          in (ret, upd_nbs (netbuf_free nb) s3))"

section \<open>TCP\<close>

abbreviation TCP_HEADER_LEN :: nat where "TCP_HEADER_LEN \<equiv> 20"
abbreviation TCP_FLAG_FIN :: u8 where "TCP_FLAG_FIN \<equiv> 0x01"
abbreviation TCP_FLAG_SYN :: u8 where "TCP_FLAG_SYN \<equiv> 0x02"
abbreviation TCP_FLAG_RST :: u8 where "TCP_FLAG_RST \<equiv> 0x04"
abbreviation TCP_FLAG_PSH :: u8 where "TCP_FLAG_PSH \<equiv> 0x08"
abbreviation TCP_FLAG_ACK :: u8 where "TCP_FLAG_ACK \<equiv> 0x10"
abbreviation TCP_EPHEMERAL_PORT :: u16 where "TCP_EPHEMERAL_PORT \<equiv> 49300"
abbreviation TCP_ISN :: u32 where "TCP_ISN \<equiv> 0xC0DE0000"

definition tcp_init :: "net \<Rightarrow> net" where
  "tcp_init s = s\<lparr>active_conn := None, next_ephemeral_port := TCP_EPHEMERAL_PORT\<rparr>"

fun oc_sum :: "u8 list \<Rightarrow> u32 \<Rightarrow> u32" where
  "oc_sum (a # b # p) acc = oc_sum p (acc + (ucast a OR push_bit 8 (ucast b)))"
| "oc_sum [a] acc = acc + ucast a"
| "oc_sum [] acc = acc"

definition oc_fold :: "u32 \<Rightarrow> u16" where
  "oc_fold acc = ucast (NOT (fold16 acc))"

definition tcp_checksum :: "ipv4_addr \<Rightarrow> ipv4_addr \<Rightarrow> u8 list \<Rightarrow> u16" where
  "tcp_checksum src dst tcp =
     (let n = of_nat (length tcp) :: u16;
          a1 = oc_sum (le_bytes 4 src) 0;
          a2 = oc_sum (le_bytes 4 dst) a1;
          a3 = oc_sum [0, 6, ucast (drop_bit 8 n), ucast n] a2
      in oc_fold (oc_sum tcp a3))"

definition tcp_header :: "u16 \<Rightarrow> u16 \<Rightarrow> u32 \<Rightarrow> u32 \<Rightarrow> u8 \<Rightarrow> u16 \<Rightarrow> u8 list" where
  "tcp_header src_port dst_port seq ack flags checksum =
     le_bytes 2 (htons src_port) @ le_bytes 2 (htons dst_port) @ le_bytes 4 (htonl seq) @
     le_bytes 4 (if flags AND TCP_FLAG_ACK \<noteq> 0 then htonl ack else 0) @ [0x50, flags] @
     le_bytes 2 (htons 8192) @ le_bytes 2 checksum @ [0, 0]"

definition tcp_send_segment :: "drv \<Rightarrow> nat \<Rightarrow> u32 \<Rightarrow> u32 \<Rightarrow> u8 \<Rightarrow> u8 list \<Rightarrow> net \<Rightarrow> int \<times> net" where
  "tcp_send_segment drv c seq ack flags payload s =
     (case netbuf_alloc (nbs s) of
        None \<Rightarrow> (- 1, s)
      | Some (nb, p) \<Rightarrow>
          let conn = conns s c;
              p1 = put_bytes nb payload (netbuf_reserve nb NETBUF_HEADROOM p);
              p2 = push_bytes nb (tcp_header (local_port conn) (remote_port conn) seq ack flags 0) p1;
              csum = tcp_checksum (d_ip (devs s (c_dev conn))) (remote_ip conn)
                       (load_bytes (nb_addr nb p2) (unat (20 + of_nat (length payload) :: u16)) p2);
              p3 = store_bytes (nb_addr nb p2 + 16) (le_bytes 2 csum) p2;
              (rc, s1) = ipv4_send drv (c_dev conn) nb (remote_ip conn) IP_PROTO_TCP (s\<lparr>nbs := p3\<rparr>)
          in (rc, upd_nbs (netbuf_free nb) s1))"

text \<open>The data and close handling of an established connection.\<close>

definition tcp_append :: "u8 list \<Rightarrow> tcp_conn \<Rightarrow> tcp_conn" where
  "tcp_append payload c =
     (let space = of_nat TCP_RECV_BUF_SIZE - recv_len c;
          copy = (if of_nat (length payload) > space then space else of_nat (length payload)) :: u32
      in c\<lparr>recv_buf := (\<lambda>i. if unat (recv_len c) \<le> i \<and> i < unat (recv_len c) + unat copy
                            then payload ! (i - unat (recv_len c)) else recv_buf c i),
           recv_len := recv_len c + copy, rcv_next := rcv_next c + of_nat (length payload)\<rparr>)"

definition tcp_data :: "drv \<Rightarrow> nat \<Rightarrow> u32 \<Rightarrow> u8 list \<Rightarrow> net \<Rightarrow> net" where
  "tcp_data drv c seg_seq payload s =
     (if payload \<noteq> [] \<and> seg_seq = rcv_next (conns s c) then
        let s1 = upd_conn c (tcp_append payload) s
        in snd (tcp_send_segment drv c (snd_next (conns s1 c)) (rcv_next (conns s1 c)) TCP_FLAG_ACK [] s1)
      else s)"

definition tcp_fin :: "drv \<Rightarrow> nat \<Rightarrow> u8 \<Rightarrow> net \<Rightarrow> net" where
  "tcp_fin drv c flags s =
     (if flags AND TCP_FLAG_FIN \<noteq> 0 then
        let s1 = upd_conn c (\<lambda>x. x\<lparr>rcv_next := rcv_next x + 1, peer_fin := True\<rparr>) s;
            s2 = snd (tcp_send_segment drv c (snd_next (conns s1 c)) (rcv_next (conns s1 c)) (TCP_FLAG_ACK OR TCP_FLAG_FIN) [] s1)
        in upd_conn c (\<lambda>x. x\<lparr>snd_next := snd_next x + 1, c_state := TCP_STATE_TIME_WAIT\<rparr>) s2
      else s)"

definition tcp_receive :: "drv \<Rightarrow> nat \<Rightarrow> net \<Rightarrow> net" where
  "tcp_receive drv nb s =
     (case active_conn s of
        None \<Rightarrow> s
      | Some c \<Rightarrow>
          let bs = nb_bytes nb (nbs s) in
          if length bs < TCP_HEADER_LEN then s
          else if ntohs (field bs 2 2) \<noteq> local_port (conns s c) then s
          else if ntohs (field bs 0 2) \<noteq> remote_port (conns s c) then s
          else
            let flags = bs ! 13; seg_seq = ntohl (field bs 4 4); seg_ack = ntohl (field bs 8 4);
                hdr_len = unat (drop_bit 4 (bs ! 12)) * 4;
                payload = drop hdr_len bs in
            if flags AND TCP_FLAG_RST \<noteq> 0 then upd_conn c (\<lambda>x. x\<lparr>c_state := TCP_STATE_CLOSED\<rparr>) s
            else (case c_state (conns s c) of
              TCP_STATE_SYN_SENT \<Rightarrow>
                if flags AND (TCP_FLAG_SYN OR TCP_FLAG_ACK) = TCP_FLAG_SYN OR TCP_FLAG_ACK then
                  if seg_ack \<noteq> snd_next (conns s c) then s
                  else
                    let s1 = upd_conn c (\<lambda>x. x\<lparr>rcv_next := seg_seq + 1\<rparr>) s;
                        s2 = snd (tcp_send_segment drv c (snd_next (conns s1 c)) (rcv_next (conns s1 c)) TCP_FLAG_ACK [] s1)
                    in upd_conn c (\<lambda>x. x\<lparr>c_state := TCP_STATE_ESTABLISHED\<rparr>) s2
                else s
            | TCP_STATE_ESTABLISHED \<Rightarrow> tcp_fin drv c flags (tcp_data drv c seg_seq payload s)
            | TCP_STATE_FIN_WAIT \<Rightarrow> tcp_fin drv c flags (tcp_data drv c seg_seq payload s)
            | _ \<Rightarrow> s))"

section \<open>Callbacks of the resolver and the DHCP client\<close>

text \<open>
  A datagram is passed as a pointer: a function on offsets, which also gives
  the bytes beyond its length that the code may read.
\<close>

partial_function (option) skip_loop :: "u8 array \<Rightarrow> u16 \<Rightarrow> u16 \<Rightarrow> u16 option" where
  "skip_loop msg msg_len pos =
     (if pos < msg_len then
        let c = msg (unat pos) in
        if c = 0 then Some (pos + 1)
        else if c AND 0xC0 = 0xC0 then Some (pos + 2)
        else skip_loop msg msg_len (pos + 1 + ucast c)
      else Some pos)"

definition skip_name :: "u8 array \<Rightarrow> u16 \<Rightarrow> u16 \<Rightarrow> u16 option" where
  "skip_name msg msg_len pos = map_option (\<lambda>e. e - pos) (skip_loop msg msg_len pos)"

definition be16 :: "u8 array \<Rightarrow> nat \<Rightarrow> u16" where
  "be16 data i = push_bit 8 (ucast (data i)) OR ucast (data (i + 1))"

primrec skip_questions :: "nat \<Rightarrow> u8 array \<Rightarrow> u16 \<Rightarrow> u16 \<Rightarrow> u16 option" where
  "skip_questions 0 data data_len pos = Some pos"
| "skip_questions (Suc q) data data_len pos =
     (if pos < data_len then
        (case skip_name data data_len pos of
           None \<Rightarrow> None
         | Some n \<Rightarrow> skip_questions q data data_len (pos + n + 4))
      else Some pos)"

text \<open>The first A record: \<open>None\<close> if the walk does not end, \<open>Some None\<close> if there is none.\<close>

primrec find_answer :: "nat \<Rightarrow> u8 array \<Rightarrow> u16 \<Rightarrow> u16 \<Rightarrow> ipv4_addr option option" where
  "find_answer 0 data data_len pos = Some None"
| "find_answer (Suc a) data data_len pos =
     (if pos < data_len then
        (case skip_name data data_len pos of
           None \<Rightarrow> None
         | Some n \<Rightarrow>
             let p = pos + n in
             if unat p + 10 > unat data_len then Some None
             else
               let i = unat p; rtype = be16 data i; rclass = be16 data (i + 2); rdlength = be16 data (i + 8); q = p + 10 in
               if rtype = 1 \<and> rclass = 1 \<and> rdlength = 4 \<and> unat q + 4 \<le> unat data_len
               then Some (Some (le_word (map data [unat q..<unat q + 4])))
               else find_answer a data data_len (q + rdlength))
      else Some None)"

definition dns_rx_callback :: "u16 \<Rightarrow> u8 array \<Rightarrow> u16 \<Rightarrow> net \<Rightarrow> net" where
  "dns_rx_callback src_port data data_len s =
     (if dns_got_reply s then s
      else if src_port \<noteq> 53 then s
      else if data_len < 12 then s
      else if be16 data 0 \<noteq> 0xAB12 then s
      else if data 2 AND 0x80 = 0 then s
      else if data 3 AND 0x0F \<noteq> 0 then s
      else if be16 data 6 = 0 then s
      else (case skip_questions (unat (be16 data 4)) data data_len 12 of
        None \<Rightarrow> s\<lparr>net_hung := True\<rparr>
      | Some pos \<Rightarrow>
          (case find_answer (unat (be16 data 6)) data data_len pos of
             None \<Rightarrow> s\<lparr>net_hung := True\<rparr>
           | Some None \<Rightarrow> s
           | Some (Some ip) \<Rightarrow> s\<lparr>dns_result := ip, dns_got_reply := True\<rparr>)))"

partial_function (option) dhcp_find_option :: "u8 array \<Rightarrow> u16 \<Rightarrow> u8 \<Rightarrow> u16 \<Rightarrow> nat option option" where
  "dhcp_find_option opts opts_len target i =
     (if i < opts_len then
        let code = opts (unat i); i1 = i + 1 in
        if code = 255 then Some None
        else if code = 0 then dhcp_find_option opts opts_len target i1
        else if i1 \<ge> opts_len then Some None
        else
          let len = opts (unat i1); i2 = i1 + 1 in
          if code = target then Some (Some (unat i2))
          else dhcp_find_option opts opts_len target (i2 + ucast len)
      else Some None)"

definition four :: "u8 array \<Rightarrow> nat \<Rightarrow> u8 list" where
  "four data i = [data i, data (i + 1), data (i + 2), data (i + 3)]"

definition dhcp_offer :: "u8 array \<Rightarrow> u8 array \<Rightarrow> nat option \<Rightarrow> net \<Rightarrow> net" where
  "dhcp_offer data opts srv s =
     s\<lparr>dhcp := (dhcp s)\<lparr>offered_ip := four data 16,
         server_ip := (case srv of Some i \<Rightarrow> four opts i | None \<Rightarrow> four data 20), got_offer := True\<rparr>\<rparr>"

definition dhcp_ack :: "u8 array \<Rightarrow> nat option \<Rightarrow> nat option \<Rightarrow> net \<Rightarrow> net" where
  "dhcp_ack opts msk gw s =
     (let h = dhcp s;
          h1 = (case msk of Some i \<Rightarrow> h\<lparr>dhcp_mask := four opts i\<rparr> | None \<Rightarrow> h);
          h2 = h1\<lparr>dhcp_gw := (case gw of Some i \<Rightarrow> four opts i | None \<Rightarrow> server_ip h1)\<rparr>;
          s1 = s\<lparr>dhcp := h2\<lparr>got_ack := True\<rparr>\<rparr>
      in (case dhcp_dev h2 of
            None \<Rightarrow> s1
          | Some d \<Rightarrow> net_device_set_ip d (le_word (offered_ip h2)) (le_word (dhcp_mask h2)) (le_word (dhcp_gw h2)) s1))"

definition dhcp_rx_callback :: "u16 \<Rightarrow> u8 array \<Rightarrow> u16 \<Rightarrow> net \<Rightarrow> net" where
  "dhcp_rx_callback src_port data data_len s =
     (if src_port \<noteq> 67 then s
      else if data_len < 241 then s
      else if four data 4 \<noteq> [0xDE, 0xAD, 0xBE, 0xEF] then s
      else if four data 236 \<noteq> [99, 130, 83, 99] then s
      else
        let opts = (\<lambda>i. data (240 + i)); opts_len = data_len - 240 in
        (case dhcp_find_option opts opts_len 53 0 of
           None \<Rightarrow> s\<lparr>net_hung := True\<rparr>
         | Some None \<Rightarrow> s
         | Some (Some i) \<Rightarrow>
             if opts i = 2 \<and> \<not> got_offer (dhcp s) then
               (case dhcp_find_option opts opts_len 54 0 of
                  None \<Rightarrow> s\<lparr>net_hung := True\<rparr> | Some srv \<Rightarrow> dhcp_offer data opts srv s)
             else if opts i = 5 \<and> \<not> got_ack (dhcp s) then
               (case (dhcp_find_option opts opts_len 1 0, dhcp_find_option opts opts_len 3 0) of
                  (Some msk, Some gw) \<Rightarrow> dhcp_ack opts msk gw s
                | _ \<Rightarrow> s\<lparr>net_hung := True\<rparr>)
             else s))"

section \<open>Receiving\<close>

definition udp_receive :: "nat \<Rightarrow> ipv4_addr \<Rightarrow> net \<Rightarrow> net" where
  "udp_receive nb src s =
     (let bs = nb_bytes nb (nbs s) in
      if length bs < UDP_HEADER_LEN then s
      else
        let sport = ntohs (field bs 0 2); dport = ntohs (field bs 2 2); ulen = ntohs (field bs 4 2) :: u16 in
        if unat ulen < UDP_HEADER_LEN \<or> unat ulen > length bs then s
        else
          let data = (\<lambda>i. netbuf_raw (nbs s) (nb_addr nb (nbs s) + 8 + int i)); data_len = ulen - 8 in
          (case udp_find dport s of
             None \<Rightarrow> s
           | Some i \<Rightarrow>
               (case b_cb (bind_table s i) of
                  SOCKET_CB \<Rightarrow> socket_udp_dispatch src sport (map data [0..<unat data_len]) s
                | DNS_CB \<Rightarrow> dns_rx_callback sport data data_len s
                | DHCP_CB \<Rightarrow> dhcp_rx_callback sport data data_len s)))"

definition ipv4_receive :: "drv \<Rightarrow> nat \<Rightarrow> nat \<Rightarrow> net \<Rightarrow> net" where
  "ipv4_receive drv dev nb s =
     (let bs = nb_bytes nb (nbs s) in
      if length bs < IPV4_HEADER_LEN then s
      else if drop_bit 4 (bs ! 0) AND 0x0F \<noteq> 4 then s
      else
        let ihl = unat (bs ! 0 AND 0x0F) * 4 in
        if ihl < IPV4_HEADER_LEN \<or> ihl > length bs then s
        else if net_checksum (take ihl bs) 0 \<noteq> 0 then upd_dev dev (\<lambda>d. d\<lparr>rx_errors := rx_errors d + 1\<rparr>) s
        else
          let src = field bs 12 4; dst = field bs 16 4 in
          if \<not> ipv4_equal dst (d_ip (devs s dev)) \<and> \<not> ipv4_equal dst IPV4_BROADCAST then s
          else
            let total_len = ntohs (field bs 2 2) :: u16;
                s1 = upd_nbs (upd_nb nb (\<lambda>b. b\<lparr>net_offset := data_offset nb s\<rparr>)) s;
                s2 = upd_nbs (netbuf_pull nb (of_nat ihl)) s1;
                payload_len = total_len - of_nat ihl;
                s3 = (if nb_len (netbuf_pool (nbs s2) nb) > payload_len
                      then upd_nbs (upd_nb nb (\<lambda>b. b\<lparr>nb_len := payload_len\<rparr>)) s2 else s2)
            in if bs ! 9 = IP_PROTO_ICMP then icmp_receive drv dev nb src s3
               else if bs ! 9 = IP_PROTO_UDP then udp_receive nb src s3
               else if bs ! 9 = IP_PROTO_TCP then tcp_receive drv nb s3
               else s3)"

definition ethernet_receive :: "drv \<Rightarrow> nat \<Rightarrow> nat \<Rightarrow> net \<Rightarrow> net" where
  "ethernet_receive drv dev nb s =
     (let bs = nb_bytes nb (nbs s) in
      if length bs < ETH_HEADER_LEN then upd_dev dev (\<lambda>d. d\<lparr>rx_errors := rx_errors d + 1\<rparr>) s
      else if \<not> mac_equal (field bs 0 6) (d_mac (devs s dev)) \<and> \<not> mac_equal (field bs 0 6) MAC_BROADCAST then s
      else
        let type = ntohs (field bs 12 2);
            s1 = upd_nbs (upd_nb nb (\<lambda>b. b\<lparr>mac_offset := data_offset nb s\<rparr>)) s;
            s2 = upd_nbs (netbuf_pull nb 14) s1;
            s3 = upd_dev dev (\<lambda>d. d\<lparr>rx_packets := rx_packets d + 1,
                   rx_bytes := rx_bytes d + ucast (nb_len (netbuf_pool (nbs s2) nb))\<rparr>) s2
        in if type = ETHERTYPE_ARP then arp_receive drv dev nb s3
           else if type = ETHERTYPE_IPV4 then ipv4_receive drv dev nb s3
           else s3)"

section \<open>Loopback\<close>

definition lo_send :: "drv \<Rightarrow> nat \<Rightarrow> nat \<Rightarrow> net \<Rightarrow> int \<times> net" where
  "lo_send drv dev nb s =
     (if nb_len (netbuf_pool (nbs s) nb) = 0 then (- 1, s)
      else case netbuf_alloc (nbs s) of
        None \<Rightarrow> (- 1, s)
      | Some (rx, p) \<Rightarrow>
          let p1 = upd_nb rx (\<lambda>b. b\<lparr>nb_dev := Some dev\<rparr>) (put_bytes rx (nb_bytes nb (nbs s)) p)
          in (0, upd_nbs (netbuf_free rx) (ethernet_receive drv dev rx (s\<lparr>nbs := p1\<rparr>))))"

definition lo_poll :: "nat \<Rightarrow> nat \<Rightarrow> net \<Rightarrow> int \<times> net" where
  "lo_poll dev nb s = (- 1, s)"

text \<open>The operation table of a device, with the network card's operations a parameter.\<close>

primrec dev_send :: "nat \<Rightarrow> drv \<Rightarrow> nat \<Rightarrow> nat \<Rightarrow> net \<Rightarrow> int \<times> net" where
  "dev_send 0 nic dev nb s = (- 1, s)"
| "dev_send (Suc n) nic dev nb s =
     (case d_ops (devs s dev) of
        None \<Rightarrow> (- 1, s)
      | Some LO_OPS \<Rightarrow> lo_send (nic\<lparr>drv_send := dev_send n nic\<rparr>) dev nb s
      | Some E1000_OPS \<Rightarrow> drv_send nic dev nb s)"

definition dev_poll :: "drv \<Rightarrow> nat \<Rightarrow> nat \<Rightarrow> net \<Rightarrow> int \<times> net" where
  "dev_poll nic dev nb s =
     (case d_ops (devs s dev) of
        None \<Rightarrow> (- 1, s) | Some LO_OPS \<Rightarrow> lo_poll dev nb s | Some E1000_OPS \<Rightarrow> drv_poll nic dev nb s)"

definition dev_ops :: "nat \<Rightarrow> drv \<Rightarrow> drv" where
  "dev_ops n nic = nic\<lparr>drv_send := dev_send n nic, drv_poll := dev_poll nic\<rparr>"

definition net_device_up :: "drv \<Rightarrow> nat \<Rightarrow> net \<Rightarrow> int \<times> net" where
  "net_device_up nic dev s =
     (if link_up (devs s dev) then (0, s)
      else
        let (ret, s1) = (case d_ops (devs s dev) of Some E1000_OPS \<Rightarrow> drv_start nic dev s | _ \<Rightarrow> (0, s)) in
        if ret \<noteq> 0 then (ret, s1) else (0, upd_dev dev (\<lambda>d. d\<lparr>link_up := True\<rparr>) s1))"

definition net_device_down :: "drv \<Rightarrow> nat \<Rightarrow> net \<Rightarrow> int \<times> net" where
  "net_device_down nic dev s =
     (if \<not> link_up (devs s dev) then (0, s)
      else
        let (ret, s1) = (case d_ops (devs s dev) of Some E1000_OPS \<Rightarrow> drv_stop nic dev s | _ \<Rightarrow> (0, s)) in
        if ret \<noteq> 0 then (ret, s1) else (0, upd_dev dev (\<lambda>d. d\<lparr>link_up := False\<rparr>) s1))"

definition loopback_init :: "drv \<Rightarrow> nat \<Rightarrow> net \<Rightarrow> net" where
  "loopback_init nic lo s =
     (let s1 = upd_dev lo (\<lambda>d. d\<lparr>d_name := ''lo'', d_mac := MAC_ZERO, d_ops := Some LO_OPS,
                 d_ip := IPV4 127 0 0 1, d_netmask := IPV4 255 0 0 0, d_gateway := IPV4_ZERO\<rparr>) s;
          s2 = snd (net_device_register lo s1);
          s3 = snd (net_device_up nic lo s2)
      in arp_cache_update (IPV4 127 0 0 1) MAC_ZERO s3)"

definition net_device_transmit :: "drv \<Rightarrow> nat \<Rightarrow> nat \<Rightarrow> net \<Rightarrow> int \<times> net" where
  "net_device_transmit drv dev nb s =
     (if \<not> link_up (devs s dev) \<or> d_ops (devs s dev) = None
      then (- 1, upd_dev dev (\<lambda>d. d\<lparr>tx_errors := tx_errors d + 1\<rparr>) s)
      else
        let (ret, s1) = drv_send drv dev nb s in
        if ret = 0
        then (ret, upd_dev dev (\<lambda>d. d\<lparr>tx_packets := tx_packets d + 1,
                     tx_bytes := tx_bytes d + ucast (nb_len (netbuf_pool (nbs s1) nb))\<rparr>) s1)
        else (ret, upd_dev dev (\<lambda>d. d\<lparr>tx_errors := tx_errors d + 1\<rparr>) s1))"

section \<open>Socket sends\<close>

definition sock_sendto :: "drv \<Rightarrow> int \<Rightarrow> u8 list option \<Rightarrow> sockaddr_in option \<Rightarrow> net \<Rightarrow> int \<times> net" where
  "sock_sendto drv fd buf dest s =
     (case socket_get fd s of
        None \<Rightarrow> (SOCK_ERR_BADF, s)
      | Some i \<Rightarrow>
          (case (buf, dest) of
             (Some data, Some a) \<Rightarrow>
               if data = [] \<or> sin_family a \<noteq> 2 then (SOCK_ERR_INVAL, s)
               else
                 (case (case s_dev (socket_table s i) of Some d \<Rightarrow> Some d | None \<Rightarrow> net_device_get_default s) of
                    None \<Rightarrow> (SOCK_ERR_INVAL, s)
                  | Some dev \<Rightarrow>
                      let auto = (s_state (socket_table s i) = SOCK_STATE_CREATED);
                          src_port = (if auto then 49152 + word_of_int (s_fd (socket_table s i))
                                      else ntohs (sin_port (s_local (socket_table s i))));
                          s1 = (if auto then upd_sock i (\<lambda>x. x\<lparr>s_local := sockaddr_in_make (d_ip (devs s dev)) src_port,
                                  s_state := SOCK_STATE_BOUND\<rparr>) s else s);
                          (ret, s2) = udp_send drv dev (sin_addr a) src_port (ntohs (sin_port a)) data s1
                      in (if ret = 0 then int (length data) else ret, s2))
           | _ \<Rightarrow> (SOCK_ERR_INVAL, s)))"

definition sock_send :: "drv \<Rightarrow> int \<Rightarrow> u8 list option \<Rightarrow> net \<Rightarrow> int \<times> net" where
  "sock_send drv fd buf s =
     (case socket_get fd s of
        None \<Rightarrow> (SOCK_ERR_BADF, s)
      | Some i \<Rightarrow>
          if s_state (socket_table s i) \<noteq> SOCK_STATE_CONNECTED then (SOCK_ERR_NOTBOUND, s)
          else sock_sendto drv fd buf (Some (s_remote (socket_table s i))) s)"

end
