(* ===== verification/Net_Client.thy ===== *)
theory Net_Client
  imports Net_Stack
begin

text \<open>
  The loops that drive the stack: the bottom half and the transmit queue
  (\<open>net_rx.c\<close>, \<open>net_tx.c\<close>), polling (\<open>net.c\<close>), and the clients that poll until an
  answer arrives: TCP connections (\<open>tcp.c\<close>), the resolver (\<open>dns.c\<close>), DHCP (\<open>dhcp.c\<close>)
  and the start of the stack.  A loop whose end depends on the device is a
  partial function; \<open>None\<close> means that it does not return.
\<close>

section \<open>Rings\<close>

definition net_rx_enqueue :: "nat \<Rightarrow> nat \<Rightarrow> net \<Rightarrow> int \<times> net" where
  "net_rx_enqueue dev nb s =
     (let (r, ring) = rx_ring_enqueue (Some dev, Some nb) (rx_ring s); s1 = s\<lparr>rx_ring := ring\<rparr>
      in if r = 0 then (0, s1) else (- 1, upd_dev dev (\<lambda>d. d\<lparr>rx_errors := rx_errors d + 1\<rparr>) s1))"

definition rx_deliver :: "drv \<Rightarrow> ring_entry \<Rightarrow> net \<Rightarrow> net" where
  "rx_deliver drv e s =
     (case e of
        (Some dev, Some nb) \<Rightarrow>
          let s1 = upd_nbs (netbuf_free nb) (ethernet_receive drv dev nb s)
          in s1\<lparr>rx_ring := (rx_ring s1)\<lparr>stat_processed := stat_processed (rx_ring s1) + 1\<rparr>\<rparr>
      | _ \<Rightarrow> s)"

partial_function (option) net_rx_loop :: "drv \<Rightarrow> int \<Rightarrow> net \<Rightarrow> (int \<times> net) option" where
  "net_rx_loop drv processed s =
     (case rx_ring_dequeue (rx_ring s) of
        None \<Rightarrow> Some (processed, s)
      | Some (e, ring) \<Rightarrow> net_rx_loop drv (processed + 1) (rx_deliver drv e (s\<lparr>rx_ring := ring\<rparr>)))"

definition net_rx_process :: "drv \<Rightarrow> net \<Rightarrow> (int \<times> net) option" where
  "net_rx_process drv s = net_rx_loop drv 0 s"

definition net_tx_enqueue :: "nat \<Rightarrow> nat \<Rightarrow> net \<Rightarrow> int \<times> net" where
  "net_tx_enqueue dev nb s =
     (let (r, ring) = tx_ring_enqueue (Some dev, Some nb) (tx_ring s); s1 = s\<lparr>tx_ring := ring\<rparr>
      in if r = 0 then (0, s1) else (- 1, upd_dev dev (\<lambda>d. d\<lparr>tx_errors := tx_errors d + 1\<rparr>) s1))"

definition tx_deliver :: "drv \<Rightarrow> ring_entry \<Rightarrow> net \<Rightarrow> net" where
  "tx_deliver drv e s =
     (case e of
        (Some dev, Some nb) \<Rightarrow>
          let s1 = upd_nbs (netbuf_free nb) (snd (net_device_transmit drv dev nb s))
          in s1\<lparr>tx_ring := (tx_ring s1)\<lparr>stat_processed := stat_processed (tx_ring s1) + 1\<rparr>\<rparr>
      | _ \<Rightarrow> s)"

partial_function (option) net_tx_loop :: "drv \<Rightarrow> int \<Rightarrow> net \<Rightarrow> (int \<times> net) option" where
  "net_tx_loop drv flushed s =
     (case tx_ring_dequeue (tx_ring s) of
        None \<Rightarrow> Some (flushed, s)
      | Some (e, ring) \<Rightarrow> net_tx_loop drv (flushed + 1) (tx_deliver drv e (s\<lparr>tx_ring := ring\<rparr>)))"

definition net_tx_flush :: "drv \<Rightarrow> net \<Rightarrow> (int \<times> net) option" where
  "net_tx_flush drv s = net_tx_loop drv 0 s"

section \<open>Polling\<close>

partial_function (option) poll_drain :: "drv \<Rightarrow> nat \<Rightarrow> nat \<Rightarrow> net \<Rightarrow> net option" where
  "poll_drain drv dev nb s =
     (let s1 = upd_nbs (\<lambda>p. upd_nb nb (\<lambda>b. b\<lparr>nb_dev := Some dev\<rparr>) (netbuf_reset nb p)) s;
          (r, s2) = drv_poll drv dev nb s1
      in if r \<noteq> 0 then Some s2 else poll_drain drv dev nb (ethernet_receive drv dev nb s2))"

primrec poll_devices :: "drv \<Rightarrow> nat \<Rightarrow> nat \<Rightarrow> nat \<Rightarrow> net \<Rightarrow> net option" where
  "poll_devices drv nb i 0 s = Some s"
| "poll_devices drv nb i (Suc n) s =
     (let dev = registered_devices s i in
      if \<not> link_up (devs s dev) \<or> d_ops (devs s dev) = None then poll_devices drv nb (Suc i) n s
      else Option.bind (poll_drain drv dev nb s) (poll_devices drv nb (Suc i) n))"

definition net_device_poll_all :: "drv \<Rightarrow> net \<Rightarrow> net option" where
  "net_device_poll_all drv s =
     (case netbuf_alloc (nbs s) of
        None \<Rightarrow> Some s
      | Some (nb, p) \<Rightarrow> map_option (upd_nbs (netbuf_free nb)) (poll_devices drv nb 0 (device_count s) (s\<lparr>nbs := p\<rparr>)))"

definition poll_network :: "drv \<Rightarrow> net \<Rightarrow> net option" where
  "poll_network drv s = Option.bind (net_device_poll_all drv s) (\<lambda>s1. map_option snd (net_rx_process drv s1))"

text \<open>\<open>n\<close> polls in a row.\<close>

primrec pump :: "drv \<Rightarrow> nat \<Rightarrow> net \<Rightarrow> net option" where
  "pump drv 0 s = Some s"
| "pump drv (Suc n) s = Option.bind (poll_network drv s) (pump drv n)"

text \<open>\<open>n\<close> attempts of a send, with polling between them.\<close>

primrec attempts :: "drv \<Rightarrow> (net \<Rightarrow> int \<times> net) \<Rightarrow> nat \<Rightarrow> net \<Rightarrow> (bool \<times> net) option" where
  "attempts drv snd_op 0 s = Some (False, s)"
| "attempts drv snd_op (Suc n) s =
     (let (rc, s1) = snd_op s in
      if rc = 0 then Some (True, s1) else Option.bind (pump drv 200000 s1) (attempts drv snd_op n))"

section \<open>TCP client\<close>

definition zero_conn :: tcp_conn where
  "zero_conn = \<lparr>c_dev = 0, remote_ip = 0, local_port = 0, remote_port = 0, snd_next = 0, rcv_next = 0,
     c_state = TCP_STATE_CLOSED, peer_fin = False, recv_buf = (\<lambda>_. 0), recv_len = 0\<rparr>"

definition tcp_open :: "nat \<Rightarrow> nat \<Rightarrow> ipv4_addr \<Rightarrow> u16 \<Rightarrow> net \<Rightarrow> net" where
  "tcp_open c dev dst_ip dst_port s =
     (let port = next_ephemeral_port s
      in s\<lparr>next_ephemeral_port := (if port \<ge> 49400 then TCP_EPHEMERAL_PORT else port + 1),
           conns := (conns s)(c := zero_conn\<lparr>c_dev := dev, remote_ip := dst_ip, local_port := port, remote_port := dst_port,
             snd_next := TCP_ISN, c_state := TCP_STATE_SYN_SENT\<rparr>), active_conn := Some c\<rparr>)"

text \<open>The wait for the answer to the SYN; the result says whether the connection is established.\<close>

primrec connect_wait :: "drv \<Rightarrow> nat \<Rightarrow> nat \<Rightarrow> net \<Rightarrow> (bool \<times> net) option" where
  "connect_wait drv c 0 s = Some (False, s)"
| "connect_wait drv c (Suc n) s =
     Option.bind (poll_network drv s) (\<lambda>s1.
       if c_state (conns s1 c) = TCP_STATE_ESTABLISHED then Some (True, s1)
       else if c_state (conns s1 c) = TCP_STATE_CLOSED then Some (False, s1)
       else
         let i = 80000000 - Suc n;
             s2 = (if i > 0 \<and> i mod 1000000 = 0 then snd (tcp_send_segment drv c TCP_ISN 0 TCP_FLAG_SYN [] s1) else s1)
         in connect_wait drv c n s2)"

definition tcp_abandon :: "nat \<Rightarrow> net \<Rightarrow> net" where
  "tcp_abandon c s = upd_conn c (\<lambda>x. x\<lparr>c_state := TCP_STATE_CLOSED\<rparr>) (s\<lparr>active_conn := None\<rparr>)"

definition tcp_connect :: "drv \<Rightarrow> nat \<Rightarrow> nat \<Rightarrow> ipv4_addr \<Rightarrow> u16 \<Rightarrow> net \<Rightarrow> (int \<times> net) option" where
  "tcp_connect drv c dev dst_ip dst_port s =
     Option.bind (attempts drv (\<lambda>s. tcp_send_segment drv c (snd_next (conns s c)) 0 TCP_FLAG_SYN [] s) 10
                    (tcp_open c dev dst_ip dst_port s))
       (\<lambda>(sent, s1).
          if \<not> sent then Some (- 1, tcp_abandon c s1)
          else Option.bind (connect_wait drv c 80000000 (upd_conn c (\<lambda>x. x\<lparr>snd_next := snd_next x + 1\<rparr>) s1))
            (\<lambda>(ok, s2). Some (if ok then (0, s2) else (- 1, tcp_abandon c s2))))"

definition tcp_write :: "drv \<Rightarrow> nat \<Rightarrow> u8 list option \<Rightarrow> net \<Rightarrow> int \<times> net" where
  "tcp_write drv c data s =
     (if c_state (conns s c) \<noteq> TCP_STATE_ESTABLISHED then (- 1, s)
      else case data of
        None \<Rightarrow> (0, s)
      | Some bs \<Rightarrow>
          if bs = [] then (0, s)
          else
            let (rc, s1) = tcp_send_segment drv c (snd_next (conns s c)) (rcv_next (conns s c)) (TCP_FLAG_PSH OR TCP_FLAG_ACK) bs s
            in (rc, if rc = 0 then upd_conn c (\<lambda>x. x\<lparr>snd_next := snd_next x + of_nat (length bs)\<rparr>) s1 else s1))"

primrec recv_wait :: "drv \<Rightarrow> nat \<Rightarrow> nat \<Rightarrow> net \<Rightarrow> net option" where
  "recv_wait drv c 0 s = Some s"
| "recv_wait drv c (Suc n) s =
     (if peer_fin (conns s c) then Some s
      else Option.bind (poll_network drv s) (\<lambda>s1.
        if c_state (conns s1 c) = TCP_STATE_CLOSED then Some s1 else recv_wait drv c n s1))"

definition tcp_recv_until_close :: "drv \<Rightarrow> nat \<Rightarrow> net \<Rightarrow> (int \<times> net) option" where
  "tcp_recv_until_close drv c s =
     map_option (\<lambda>s1. (sint (recv_len (conns s1 c)), s1)) (recv_wait drv c 200000000 s)"

primrec close_wait :: "drv \<Rightarrow> nat \<Rightarrow> nat \<Rightarrow> net \<Rightarrow> net option" where
  "close_wait drv c 0 s = Some s"
| "close_wait drv c (Suc n) s =
     (if c_state (conns s c) \<noteq> TCP_STATE_FIN_WAIT then Some s
      else Option.bind (poll_network drv s) (close_wait drv c n))"

definition tcp_close :: "drv \<Rightarrow> nat \<Rightarrow> net \<Rightarrow> net option" where
  "tcp_close drv c s =
     map_option (tcp_abandon c)
       (if c_state (conns s c) = TCP_STATE_ESTABLISHED then
          let s1 = snd (tcp_send_segment drv c (snd_next (conns s c)) (rcv_next (conns s c)) (TCP_FLAG_FIN OR TCP_FLAG_ACK) [] s)
          in close_wait drv c 2000000 (upd_conn c (\<lambda>x. x\<lparr>snd_next := snd_next x + 1, c_state := TCP_STATE_FIN_WAIT\<rparr>) s1)
        else Some s)"

section \<open>Resolver\<close>

text \<open>
  Names are strings without the terminating zero.  The length of a label is
  kept modulo \<open>65536\<close>, as the code's 16-bit counter does.
\<close>

definition label_len :: "string \<Rightarrow> nat" where
  "label_len host = length (takeWhile (\<lambda>c. c \<noteq> CHR ''.'') host) mod 65536"

definition skip_dot :: "string \<Rightarrow> string" where
  "skip_dot host = (case host of [] \<Rightarrow> [] | c # cs \<Rightarrow> if c = CHR ''.'' then cs else host)"

lemma skip_dot_le: "length (skip_dot h) \<le> length h"
  by (simp add: skip_dot_def split: list.split)

function encode_loop :: "string \<Rightarrow> nat \<Rightarrow> u8 list \<Rightarrow> u8 list option" where
  "encode_loop host maxlen out =
     (if host = [] then Some (out @ [0])
      else
        let n = label_len host in
        if n = 0 \<or> n > 63 then None
        else if length out + 1 + n + 1 > maxlen then None
        else encode_loop (skip_dot (drop n host)) maxlen (out @ [of_nat n] @ map of_char (take n host)))"
  by pat_completeness auto
termination
proof (relation "measure (\<lambda>(host, _). length host)")
  fix host :: string and maxlen :: nat and out :: "u8 list" and n
  assume h: "host \<noteq> []" "n = label_len host" "\<not> (n = 0 \<or> n > 63)"
  have "length (skip_dot (drop n host)) \<le> length host - n" using skip_dot_le [of "drop n host"] by simp
  moreover have "0 < length host" using h(1) by simp
  ultimately have "length (skip_dot (drop n host)) < length host" using h(3) by linarith
  then show "((skip_dot (drop n host), maxlen, out @ [of_nat n] @ map of_char (take n host)), (host, maxlen, out))
      \<in> measure (\<lambda>(host, _). length host)" by simp
qed simp

definition encode_name :: "string \<Rightarrow> nat \<Rightarrow> u8 list option" where
  "encode_name host maxlen = encode_loop host maxlen []"

definition is_digit :: "char \<Rightarrow> bool" where
  "is_digit c \<longleftrightarrow> 48 \<le> (of_char c :: nat) \<and> (of_char c :: nat) \<le> 57"

fun parse_num :: "string \<Rightarrow> u32 \<Rightarrow> u32 \<times> string" where
  "parse_num [] v = (v, [])"
| "parse_num (c # cs) v = (if is_digit c then parse_num cs (v * 10 + (of_char c - 48)) else (v, c # cs))"

primrec parse_octets :: "nat \<Rightarrow> string \<Rightarrow> u8 list \<Rightarrow> (u8 list \<times> string) option" where
  "parse_octets 0 s out = Some (out, s)"
| "parse_octets (Suc n) s out =
     (if s = [] \<or> \<not> is_digit (hd s) then None
      else
        let (v, t) = parse_num s 0 in
        if v > 255 then None
        else if n > 0 then
          (case t of [] \<Rightarrow> None | c # cs \<Rightarrow> if c \<noteq> CHR ''.'' then None else parse_octets n cs (out @ [ucast v]))
        else parse_octets n t (out @ [ucast v]))"

definition parse_dotted_ip :: "string \<Rightarrow> ipv4_addr option" where
  "parse_dotted_ip s =
     (case parse_octets 4 s [] of
        None \<Rightarrow> None
      | Some (out, t) \<Rightarrow> if t = [] \<or> hd t = CHR ''/'' then Some (le_word out) else None)"

definition dns_query :: "string \<Rightarrow> u8 list option" where
  "dns_query hostname =
     map_option (\<lambda>name. [0xAB, 0x12, 0x01, 0x00, 0x00, 0x01, 0x00, 0x00, 0x00, 0x00, 0x00, 0x00] @ name @ [0x00, 0x01, 0x00, 0x01])
       (encode_name hostname (512 - 12 - 4))"

abbreviation DNS_CLIENT_PORT :: u16 where "DNS_CLIENT_PORT \<equiv> 1053"

definition dns_resend :: "drv \<Rightarrow> nat \<Rightarrow> u8 list \<Rightarrow> nat \<Rightarrow> net \<Rightarrow> net" where
  "dns_resend drv dev pkt i s =
     (let server = (if i < 3000000 then IPV4 10 0 2 3 else IPV4 8 8 8 8) in
      if i \<in> {300000, 1000000, 3000000, 4500000} \<and> \<not> dns_got_reply s
      then snd (udp_send drv dev server DNS_CLIENT_PORT 53 pkt s) else s)"

primrec dns_wait :: "drv \<Rightarrow> nat \<Rightarrow> u8 list \<Rightarrow> nat \<Rightarrow> net \<Rightarrow> net option" where
  "dns_wait drv dev pkt 0 s = Some s"
| "dns_wait drv dev pkt (Suc n) s =
     (if dns_got_reply s then Some s
      else Option.bind (poll_network drv s) (\<lambda>s1. dns_wait drv dev pkt n (dns_resend drv dev pkt (6000000 - Suc n) s1)))"

definition dns_resolve :: "drv \<Rightarrow> nat \<Rightarrow> string \<Rightarrow> net \<Rightarrow> (ipv4_addr option \<times> net) option" where
  "dns_resolve drv dev hostname s =
     (case parse_dotted_ip hostname of
        Some ip \<Rightarrow> Some (Some ip, s)
      | None \<Rightarrow>
          (case dns_query hostname of
             None \<Rightarrow> Some (None, s)
           | Some pkt \<Rightarrow>
               let s1 = snd (udp_bind DNS_CLIENT_PORT DNS_CB (s\<lparr>dns_got_reply := False\<rparr>)) in
               Option.bind (attempts drv (udp_send drv dev (IPV4 10 0 2 3) DNS_CLIENT_PORT 53 pkt) 5 s1)
                 (\<lambda>(_, s2). map_option (\<lambda>s3.
                    let s4 = snd (udp_unbind DNS_CLIENT_PORT s3)
                    in (if dns_got_reply s4 then Some (dns_result s4) else None, s4))
                  (dns_wait drv dev pkt 6000000 s2))))"

section \<open>DHCP client\<close>

definition dhcp_build :: "mac_addr \<Rightarrow> u8 \<Rightarrow> (u8 list \<times> u8 list) option \<Rightarrow> u8 list" where
  "dhcp_build mac msg_type req =
     [1, 1, 6, 0] @ [0xDE, 0xAD, 0xBE, 0xEF] @ [0, 0] @ [0x80, 0] @ replicate 16 0 @ le_bytes 6 mac @ replicate 10 0 @
     replicate 64 0 @ replicate 128 0 @ [99, 130, 83, 99] @ [53, 1, msg_type] @
     (case req of
        Some (offered, server) \<Rightarrow> if msg_type = 3 then [50, 4] @ take 4 offered @ [54, 4] @ take 4 server else []
      | None \<Rightarrow> []) @ [255]"

primrec dhcp_wait :: "drv \<Rightarrow> (dhcp_state \<Rightarrow> bool) \<Rightarrow> nat \<Rightarrow> net \<Rightarrow> net option" where
  "dhcp_wait drv done_flag 0 s = Some s"
| "dhcp_wait drv done_flag (Suc n) s =
     (if done_flag (dhcp s) then Some s else Option.bind (poll_network drv s) (dhcp_wait drv done_flag n))"

definition dhcp_start :: "nat \<Rightarrow> net \<Rightarrow> net" where
  "dhcp_start dev s =
     snd (udp_bind 68 DHCP_CB (s\<lparr>dhcp := \<lparr>got_offer = False, got_ack = False, offered_ip = [0, 0, 0, 0],
       server_ip = [0, 0, 0, 0], dhcp_mask = [255, 255, 255, 0], dhcp_gw = [0, 0, 0, 0], dhcp_dev = Some dev\<rparr>\<rparr>))"

definition dhcp_discover :: "drv \<Rightarrow> nat \<Rightarrow> net \<Rightarrow> (int \<times> net) option" where
  "dhcp_discover drv dev s =
     (if \<not> link_up (devs s dev) then Some (- 1, s)
      else
        let s1 = dhcp_start dev s;
            s2 = snd (udp_send drv dev IPV4_BROADCAST 68 67 (dhcp_build (d_mac (devs s1 dev)) 1 None) s1) in
        Option.bind (dhcp_wait drv got_offer 2000000 s2) (\<lambda>s3.
          if \<not> got_offer (dhcp s3) then Some (- 1, snd (udp_unbind 68 s3))
          else
            let s4 = snd (udp_send drv dev IPV4_BROADCAST 68 67
                       (dhcp_build (d_mac (devs s3 dev)) 3 (Some (offered_ip (dhcp s3), server_ip (dhcp s3)))) s3) in
            map_option (\<lambda>s5. (if got_ack (dhcp s5) then 0 else - 1, snd (udp_unbind 68 s5)))
              (dhcp_wait drv got_ack 2000000 s4)))"

section \<open>Start of the stack\<close>

text \<open>\<open>e1000\<close> stands for the probe of the network card, which registers \<open>eth0\<close> if it finds one.\<close>

definition net_init :: "drv \<Rightarrow> (net \<Rightarrow> net) \<Rightarrow> nat \<Rightarrow> net \<Rightarrow> net option" where
  "net_init drv e1000 lo s =
     (let s1 = s\<lparr>rx_ring := net_rx_init (rx_ring s), tx_ring := net_tx_init (tx_ring s)\<rparr>;
          s2 = upd_nbs netbuf_pool_init s1;
          s3 = tcp_init (udp_init (arp_init s2));
          s4 = e1000 (socket_init (loopback_init drv lo s3))
      in (case net_device_get_by_name ''eth0'' s4 of
            None \<Rightarrow> Some s4
          | Some eth0 \<Rightarrow> map_option snd (dhcp_discover drv eth0 s4)))"

end
