(* ===== verification/Net_Frame.thy ===== *)
theory Net_Frame
  imports Net_Client
begin

text \<open>
  What the network operations leave alone.  The locale \<open>net_frame\<close> is a relation
  between states that holds across the elementary updates of the send path and
  across an allocation that is matched by a release; its lemmas say that then
  the relation holds across every send, for every driver whose own send keeps
  it.  \<open>net_frame_rx\<close> adds the updates of the receive path.

  The relation is instantiated with equality of the frame rings, equality of
  the TCP connections, and equality of the set of free buffers: no send and no
  receive leaks a buffer or frees one twice.
\<close>

section \<open>Relations kept by sends\<close>

locale net_frame =
  fixes R :: "net \<Rightarrow> net \<Rightarrow> bool"
  assumes R_refl: "R s s"
    and R_trans: "R s s1 \<Longrightarrow> R s1 s2 \<Longrightarrow> R s s2"
    and R_dev: "R s (upd_dev d f s)"
    and R_arp: "R s (s\<lparr>arp_table := t\<rparr>)"
    and R_id: "R s (s\<lparr>ip_id_counter := i\<rparr>)"
    and R_put: "R s (upd_nbs (put_bytes nb bs) s)"
    and R_push: "R s (upd_nbs (push_bytes nb bs) s)"
    and R_store: "R s (upd_nbs (store_bytes a bs) s)"
    and R_reserve: "R s (upd_nbs (netbuf_reserve nb n) s)"
    and R_pull: "R s (upd_nbs (netbuf_pull nb n) s)"
    and R_mac: "R s (upd_nbs (upd_nb nb (\<lambda>b. b\<lparr>mac_offset := v\<rparr>)) s)"
    and R_net: "R s (upd_nbs (upd_nb nb (\<lambda>b. b\<lparr>net_offset := v\<rparr>)) s)"
    and R_transport: "R s (upd_nbs (upd_nb nb (\<lambda>b. b\<lparr>transport_offset := v\<rparr>)) s)"
    and R_len: "R s (upd_nbs (upd_nb nb (\<lambda>b. b\<lparr>nb_len := v\<rparr>)) s)"
    and R_nb_dev: "R s (upd_nbs (upd_nb nb (\<lambda>b. b\<lparr>nb_dev := o1\<rparr>)) s)"
    and R_scope: "netbuf_alloc (nbs s) = Some (nb, p) \<Longrightarrow> R (s\<lparr>nbs := p\<rparr>) s1 \<Longrightarrow> R s (upd_nbs (netbuf_free nb) s1)"
begin

definition keeps :: "drv \<Rightarrow> bool" where
  "keeps drv \<longleftrightarrow> (\<forall>dev nb s. R s (snd (drv_send drv dev nb s)))"

lemma keeps_send: "keeps drv \<Longrightarrow> R s (snd (drv_send drv dev nb s))"
  by (simp add: keeps_def)

lemma after_dev: "R s s1 \<Longrightarrow> R s (upd_dev d f s1)"
  using R_trans R_dev by blast

lemma after_mac: "R s s1 \<Longrightarrow> R s (upd_nbs (upd_nb nb (\<lambda>b. b\<lparr>mac_offset := v\<rparr>)) s1)"
  using R_trans R_mac by blast

lemma ethernet_send_keeps:
  assumes "keeps drv"
  shows "R s (snd (ethernet_send_frame drv dev nb dst t s))"
proof -
  have "R s (snd (drv_send drv dev nb
      (upd_nbs (upd_nb nb (\<lambda>b. b\<lparr>mac_offset := v\<rparr>)) (upd_nbs (push_bytes nb h) s))))" for v h
    by (rule R_trans [OF after_mac [OF R_push] keeps_send [OF assms]])
  then show ?thesis
    by (auto simp: ethernet_send_frame_def Let_def R_refl intro!: after_dev split: prod.split) (metis snd_conv)+
qed

lemma nbs_upd_nbs: "upd_nbs f (s\<lparr>nbs := p\<rparr>) = s\<lparr>nbs := f p\<rparr>"
  by (simp add: upd_nbs_def)

lemma pool_steps:
  assumes "R s0 (s\<lparr>nbs := p\<rparr>)"
  shows "R s0 (s\<lparr>nbs := put_bytes nb bs p\<rparr>)" "R s0 (s\<lparr>nbs := push_bytes nb bs p\<rparr>)"
    "R s0 (s\<lparr>nbs := store_bytes a bs p\<rparr>)" "R s0 (s\<lparr>nbs := netbuf_reserve nb n p\<rparr>)"
    "R s0 (s\<lparr>nbs := upd_nb nb (\<lambda>b. b\<lparr>nb_dev := d\<rparr>) p\<rparr>)"
  by (rule R_trans [OF assms], rule R_put [of "s\<lparr>nbs := p\<rparr>", unfolded nbs_upd_nbs])
    (rule R_trans [OF assms], rule R_push [of "s\<lparr>nbs := p\<rparr>", unfolded nbs_upd_nbs],
     rule R_trans [OF assms], rule R_store [of "s\<lparr>nbs := p\<rparr>", unfolded nbs_upd_nbs],
     rule R_trans [OF assms], rule R_reserve [of "s\<lparr>nbs := p\<rparr>", unfolded nbs_upd_nbs],
     rule R_trans [OF assms], rule R_nb_dev [of "s\<lparr>nbs := p\<rparr>", unfolded nbs_upd_nbs])

lemma mark_pending_keeps: "R s (mark_pending ip s)"
  by (auto simp: mark_pending_def R_refl R_arp split: option.split)

lemma cache_update_keeps: "R s (arp_cache_update ip mac s)"
  by (auto simp: arp_cache_update_def Let_def R_refl R_arp split: option.split)

lemma arp_send_request_keeps:
  assumes "keeps drv"
  shows "R s (snd (arp_send_request drv dev ip s))"
proof (cases "netbuf_alloc (nbs s)")
  case (Some a)
  obtain nb p where a: "a = (nb, p)" by (cases a)
  let ?h = "arp_header ARP_OP_REQUEST (d_mac (devs s dev)) (d_ip (devs s dev)) MAC_ZERO ip"
  let ?s1 = "s\<lparr>nbs := put_bytes nb ?h (netbuf_reserve nb NETBUF_HEADROOM p)\<rparr>"
  have "R (s\<lparr>nbs := p\<rparr>) ?s1" by (intro pool_steps R_refl)
  then have "R (s\<lparr>nbs := p\<rparr>) (snd (ethernet_send_frame drv dev nb MAC_BROADCAST ETHERTYPE_ARP (mark_pending ip ?s1)))"
    using R_trans mark_pending_keeps ethernet_send_keeps [OF assms] by meson
  then show ?thesis using R_scope [OF Some [unfolded a]]
    by (simp add: arp_send_request_def Some a Let_def case_prod_beta)
qed (simp add: arp_send_request_def R_refl)

lemma arp_resolve_keeps: "keeps drv \<Longrightarrow> R s (snd (arp_resolve drv dev ip s))"
  by (auto simp: arp_resolve_def R_refl arp_send_request_keeps split: option.split)

lemma ipv4_send_keeps:
  assumes "keeps drv"
  shows "R s (snd (ipv4_send drv dev nb dst proto s))"
proof -
  have 1: "R s (upd_nbs (upd_nb nb (\<lambda>b. b\<lparr>net_offset := v\<rparr>)) ((upd_nbs (push_bytes nb h) s)\<lparr>ip_id_counter := i\<rparr>))" for v h i
    using R_trans R_push R_id R_net by meson
  note 2 = R_trans [OF 1 ethernet_send_keeps [OF assms]] R_trans [OF R_trans [OF 1 arp_resolve_keeps [OF assms]] ethernet_send_keeps [OF assms]]
    R_trans [OF 1 arp_resolve_keeps [OF assms]]
  show ?thesis unfolding ipv4_send_def Let_def
    by (auto intro: 2(1) split: option.split prod.split) (metis 2(2,3) snd_conv)+
qed

lemma udp_send_keeps:
  assumes "keeps drv"
  shows "R s (snd (udp_send drv dev ip sp dp data s))"
proof (cases "netbuf_alloc (nbs s)")
  case (Some a)
  obtain nb p where a: "a = (nb, p)" by (cases a)
  have 1: "R (s\<lparr>nbs := p\<rparr>) (s\<lparr>nbs := store_bytes x c (push_bytes nb h (put_bytes nb data (netbuf_reserve nb NETBUF_HEADROOM p)))\<rparr>)" for x c h
    by (intro pool_steps R_refl)
  have "R (s\<lparr>nbs := p\<rparr>) (snd (ipv4_send drv dev nb ip IP_PROTO_UDP (upd_nbs (upd_nb nb (\<lambda>b. b\<lparr>transport_offset := v\<rparr>))
      (s\<lparr>nbs := store_bytes x c (push_bytes nb h (put_bytes nb data (netbuf_reserve nb NETBUF_HEADROOM p)))\<rparr>))))" for v x c h
    using R_trans 1 R_transport ipv4_send_keeps [OF assms] by meson
  then show ?thesis using R_scope [OF Some [unfolded a]]
    by (simp add: udp_send_def Some a Let_def case_prod_beta)
qed (simp add: udp_send_def R_refl)

lemma tcp_send_segment_keeps:
  assumes "keeps drv"
  shows "R s (snd (tcp_send_segment drv c seq ack flags payload s))"
proof (cases "netbuf_alloc (nbs s)")
  case (Some a)
  obtain nb p where a: "a = (nb, p)" by (cases a)
  have 1: "R (s\<lparr>nbs := p\<rparr>) (s\<lparr>nbs := store_bytes x cs (push_bytes nb h (put_bytes nb payload (netbuf_reserve nb NETBUF_HEADROOM p)))\<rparr>)" for x cs h
    by (intro pool_steps R_refl)
  note 2 = R_trans [OF 1 ipv4_send_keeps [OF assms]]
  then show ?thesis using R_scope [OF Some [unfolded a]]
    by (simp add: tcp_send_segment_def Some a Let_def case_prod_beta)
qed (simp add: tcp_send_segment_def R_refl)

lemma icmp_receive_keeps:
  assumes "keeps drv"
  shows "R s (icmp_receive drv dev nb src s)"
proof (cases "netbuf_alloc (nbs s)")
  case (Some a)
  obtain r p where a: "a = (r, p)" by (cases a)
  have "R (s\<lparr>nbs := p\<rparr>) (s\<lparr>nbs := store_bytes x c (store_bytes y z (put_bytes r bs (netbuf_reserve r NETBUF_HEADROOM p)))\<rparr>)" for x c y z bs
    by (intro pool_steps R_refl)
  note R_scope [OF Some [unfolded a] R_trans [OF this ipv4_send_keeps [OF assms]]]
  then show ?thesis by (simp add: icmp_receive_def Some a Let_def R_refl)
qed (simp add: icmp_receive_def Let_def R_refl)

lemma arp_receive_keeps:
  assumes "keeps drv"
  shows "R s (arp_receive drv dev nb s)"
proof -
  have 1: "R s1 (case netbuf_alloc (nbs s1) of None \<Rightarrow> s1
     | Some (reply, p) \<Rightarrow> upd_nbs (netbuf_free reply) (snd (ethernet_send_frame drv dev reply m ETHERTYPE_ARP
         (s1\<lparr>nbs := put_bytes reply h (netbuf_reserve reply NETBUF_HEADROOM p)\<rparr>))))" for s1 m h
  proof (cases "netbuf_alloc (nbs s1)")
    case (Some a)
    obtain r p where a: "a = (r, p)" by (cases a)
    have "R (s1\<lparr>nbs := p\<rparr>) (s1\<lparr>nbs := put_bytes r h (netbuf_reserve r NETBUF_HEADROOM p)\<rparr>)"
      by (intro pool_steps R_refl)
    note R_scope [OF Some [unfolded a] R_trans [OF this ethernet_send_keeps [OF assms]]]
    then show ?thesis by (simp add: Some a)
  qed (simp add: R_refl)
  show ?thesis unfolding arp_receive_def Let_def
    by (simp add: R_refl cache_update_keeps R_trans [OF cache_update_keeps 1])
qed

end

section \<open>Relations kept by receives\<close>

locale net_frame_rx = net_frame +
  assumes R_conn: "R s (upd_conn c f s)"
    and R_sock: "R s (upd_sock i g s)"
    and R_dns: "R s (s\<lparr>dns_result := ip, dns_got_reply := b\<rparr>)"
    and R_dhcp: "R s (s\<lparr>dhcp := h\<rparr>)"
    and R_hung: "R s (s\<lparr>net_hung := b\<rparr>)"
begin

lemma tcp_receive_keeps:
  assumes "keeps drv"
  shows "R s (tcp_receive drv nb s)"
proof -
  note seg = tcp_send_segment_keeps [OF assms]
  have conn: "R s0 s1 \<Longrightarrow> R s0 (upd_conn c f s1)" for s0 s1 c f using R_trans R_conn by meson
  have step: "R s1 (snd (tcp_send_segment drv c q a fl pl (upd_conn c f s1)))" for s1 c q a fl pl f
    by (rule R_trans [OF R_conn seg])
  have d: "R s (tcp_data drv c q pl s)" for c q pl
    unfolding tcp_data_def Let_def by (simp add: R_refl step)
  have f: "R s1 (tcp_fin drv c fl s1)" for c fl s1
    unfolding tcp_fin_def Let_def by (simp add: R_refl conn [OF step])
  note df = R_trans [OF d f]
  show ?thesis unfolding tcp_receive_def Let_def
    by (simp add: R_refl R_conn df conn [OF step] split: option.split tcp_state.split)
qed

lemma udp_receive_keeps: "R s (udp_receive nb src s)"
proof -
  have "R s (dns_rx_callback p d n s)" for p d n
    by (simp add: dns_rx_callback_def R_refl R_dns R_hung split: option.split)
  moreover have "R s (dhcp_ack o1 m g s)" for o1 m g
    unfolding dhcp_ack_def Let_def net_device_set_ip_def by (auto intro: after_dev R_dhcp split: option.split)
  then have "R s (dhcp_rx_callback p d n s)" for p d n
    by (simp add: dhcp_rx_callback_def Let_def dhcp_offer_def R_refl R_hung R_dhcp split: option.split)
  moreover have "R s (socket_udp_dispatch i p d s)" for i p d
    by (simp add: socket_udp_dispatch_def R_refl R_sock split: option.split)
  ultimately show ?thesis unfolding udp_receive_def Let_def
    by (simp add: R_refl split: option.split udp_cb.split)
qed

lemma ipv4_receive_keeps:
  assumes "keeps drv"
  shows "R s (ipv4_receive drv dev nb s)"
proof -
  have 1: "R s (upd_nbs (netbuf_pull nb n) (upd_nbs (upd_nb nb (\<lambda>b. b\<lparr>net_offset := v\<rparr>)) s))" for n v
    by (rule R_trans [OF R_net R_pull])
  have 2: "R s (upd_nbs (upd_nb nb (\<lambda>b. b\<lparr>nb_len := l\<rparr>)) (upd_nbs (netbuf_pull nb n) (upd_nbs (upd_nb nb (\<lambda>b. b\<lparr>net_offset := v\<rparr>)) s)))" for n v l
    by (rule R_trans [OF 1 R_len])
  note k = icmp_receive_keeps [OF assms] udp_receive_keeps tcp_receive_keeps [OF assms]
  note k' = k [THEN R_trans [OF 1]] k [THEN R_trans [OF 2]]
  show ?thesis unfolding ipv4_receive_def Let_def by (simp add: R_refl R_dev 1 2 k')
qed

lemma ethernet_receive_keeps:
  assumes "keeps drv"
  shows "R s (ethernet_receive drv dev nb s)"
proof -
  have 1: "R s (upd_dev d f (upd_nbs (netbuf_pull nb n) (upd_nbs (upd_nb nb (\<lambda>b. b\<lparr>mac_offset := v\<rparr>)) s)))" for n v d f
    by (rule after_dev [OF R_trans [OF R_mac R_pull]])
  note k = arp_receive_keeps [OF assms] ipv4_receive_keeps [OF assms]
  note k' = k [THEN R_trans [OF 1]]
  show ?thesis unfolding ethernet_receive_def Let_def by (simp add: R_refl R_dev 1 k')
qed

lemma lo_send_keeps:
  assumes "keeps drv"
  shows "R s (snd (lo_send drv dev nb s))"
proof (cases "netbuf_alloc (nbs s)")
  case (Some a)
  obtain r p where a: "a = (r, p)" by (cases a)
  have "R (s\<lparr>nbs := p\<rparr>) (s\<lparr>nbs := upd_nb r (\<lambda>b. b\<lparr>nb_dev := Some dev\<rparr>) (put_bytes r bs p)\<rparr>)" for bs
    by (intro pool_steps R_refl)
  note R_scope [OF Some [unfolded a] R_trans [OF this ethernet_receive_keeps [OF assms]]]
  then show ?thesis by (simp add: lo_send_def Some a Let_def R_refl)
qed (simp add: lo_send_def R_refl)

text \<open>The operation table keeps the relation at every nesting depth if the network card does.\<close>

lemma dev_send_keeps: "keeps nic \<Longrightarrow> keeps (nic\<lparr>drv_send := dev_send n nic\<rparr>)"
proof (induction n)
  case 0
  then show ?case by (simp add: keeps_def R_refl)
next
  case (Suc n)
  then show ?case using lo_send_keeps
    by (auto simp: keeps_def R_refl split: option.split driver.split)
qed

lemma dev_ops_keeps: "keeps nic \<Longrightarrow> keeps (dev_ops n nic)"
  using dev_send_keeps [of nic n] by (simp add: keeps_def dev_ops_def)

lemma sock_sendto_keeps: "keeps drv \<Longrightarrow> R s (snd (sock_sendto drv fd buf dest s))"
  using R_trans [OF R_sock udp_send_keeps] udp_send_keeps
  by (simp add: sock_sendto_def Let_def R_refl case_prod_beta split: option.split)

lemma tcp_write_keeps: "keeps drv \<Longrightarrow> R s (snd (tcp_write drv c data s))"
  using R_trans [OF tcp_send_segment_keeps R_conn] tcp_send_segment_keeps
  by (simp add: tcp_write_def Let_def R_refl case_prod_beta split: option.split)

end

section \<open>The relations of this stack\<close>

definition same_pool :: "net \<Rightarrow> net \<Rightarrow> bool" where
  "same_pool s s' \<longleftrightarrow> (pool_inv (nbs s) \<longrightarrow> pool_inv (nbs s') \<and> free_bufs (nbs s') = free_bufs (nbs s))"

lemma free_path_cong:
  "netbuf_free_list p' = netbuf_free_list p \<Longrightarrow> (\<And>i. nb_next (netbuf_pool p' i) = nb_next (netbuf_pool p i)) \<Longrightarrow>
     free_path p' = free_path p"
  by (simp add: free_path_def fun_eq_iff)

lemma same_poolI:
  assumes "netbuf_free_list (nbs s') = netbuf_free_list (nbs s)"
    "\<And>i. nb_next (netbuf_pool (nbs s') i) = nb_next (netbuf_pool (nbs s) i)"
  shows "same_pool s s'"
  using free_path_cong [OF assms] by (simp add: same_pool_def pool_inv_def free_bufs_def)

lemma same_pool_scope:
  assumes a: "netbuf_alloc (nbs s) = Some (nb, p)" and r: "same_pool (s\<lparr>nbs := p\<rparr>) s1"
  shows "same_pool s (upd_nbs (netbuf_free nb) s1)"
proof -
  have "pool_inv (netbuf_free nb (nbs s1)) \<and> free_bufs (netbuf_free nb (nbs s1)) = free_bufs (nbs s)" if i: "pool_inv (nbs s)"
  proof -
    note al = nb_pool.alloc_some [OF i a]
    have 1: "pool_inv (nbs s1)" "free_bufs (nbs s1) = free_bufs (nbs s) - {nb}"
      using r al by (auto simp: same_pool_def)
    have "nb \<in> {..<NETBUF_POOL_SIZE}" "nb \<notin> free_bufs (nbs s1)" using al 1 nb_pool.avail_univ [OF i] by auto
    then show ?thesis using nb_pool.free_avail [OF 1(1)] 1 al by auto
  qed
  then show ?thesis by (simp add: same_pool_def upd_nbs_def)
qed

interpretation rx_frame: net_frame_rx "\<lambda>s s'. rx_ring s' = rx_ring s"
  by unfold_locales (auto simp: upd_dev_def upd_nbs_def upd_conn_def upd_sock_def)

interpretation tx_frame: net_frame_rx "\<lambda>s s'. tx_ring s' = tx_ring s"
  by unfold_locales (auto simp: upd_dev_def upd_nbs_def upd_conn_def upd_sock_def)

interpretation conn_frame: net_frame "\<lambda>s s'. conns s' = conns s \<and> active_conn s' = active_conn s"
  by unfold_locales (auto simp: upd_dev_def upd_nbs_def)

interpretation pool_frame: net_frame_rx same_pool
proof unfold_locales
  show "same_pool s s" for s by (simp add: same_pool_def)
  show "same_pool s s1 \<Longrightarrow> same_pool s1 s2 \<Longrightarrow> same_pool s s2" for s s1 s2 by (simp add: same_pool_def)
  show "netbuf_alloc (nbs s) = Some (nb, p) \<Longrightarrow> same_pool (s\<lparr>nbs := p\<rparr>) s1 \<Longrightarrow> same_pool s (upd_nbs (netbuf_free nb) s1)"
    for s nb p s1 by (rule same_pool_scope)
qed (rule same_poolI; auto simp: upd_dev_def upd_nbs_def upd_conn_def upd_sock_def put_bytes_def push_bytes_def netbuf_put_def
      netbuf_push_def netbuf_pull_def netbuf_reserve_def Let_def)+

end
