(* ===== verification/Net_Sample.thy ===== *)
theory Net_Sample
  imports Net_Client
begin

text \<open>
  A concrete state of the network stack, for evaluating the theorems: the
  zeroed statics of the program, then the first steps of \<open>net_init\<close> (\<open>net.c\<close>) with
  a network card that accepts every frame and never receives one.
\<close>

section \<open>A sample state\<close>

definition blank_dev :: net_device where
  "blank_dev = \<lparr>d_name = [], d_mac = 0, d_ip = 0, d_netmask = 0, d_gateway = 0, d_ops = None, irq_vector = 0, irq_line = 0,
     tx_packets = 0, tx_bytes = 0, rx_packets = 0, rx_bytes = 0, tx_errors = 0, rx_errors = 0, link_up = False, registered = False\<rparr>"

definition blank_addr :: sockaddr_in where
  "blank_addr = \<lparr>sin_family = 0, sin_port = 0, sin_addr = 0\<rparr>"

definition blank_sock :: socket where
  "blank_sock = \<lparr>s_fd = 0, s_domain = 0, s_type = 0, s_protocol = 0, s_state = 0, s_local = blank_addr, s_remote = blank_addr,
     s_rx_ring = \<lparr>sk_entries = (\<lambda>_. \<lparr>e_data = (\<lambda>_. 0), e_len = 0, e_from = blank_addr, e_valid = False\<rparr>),
                  sk_head = 0, sk_tail = 0, sk_count = 0\<rparr>,
     non_blocking = False, broadcast = False, reuse_addr = False, s_dev = None\<rparr>"

definition blank_ring :: net_ring where
  "blank_ring = \<lparr>ring_slots = (\<lambda>_. (None, None)), ring_head = 0, ring_tail = 0, ring_count = 0, stat_enqueued = 0,
     stat_processed = 0, stat_dropped = 0\<rparr>"

definition blank_pool :: nbpool where
  "blank_pool = \<lparr>netbuf_raw = (\<lambda>_. 0), netbuf_pool = (\<lambda>_. \<lparr>nb_buf = 0, nb_data = 0, nb_len = 0, nb_capacity = 0, mac_offset = 0,
     net_offset = 0, transport_offset = 0, nb_dev = None, in_use = False, nb_next = None\<rparr>), netbuf_free_list = None\<rparr>"

text \<open>The zeroed statics of the program, and the state after the first steps of \<open>net_init\<close>.\<close>

definition blank_net :: net where
  "blank_net = \<lparr>nbs = blank_pool, devs = (\<lambda>_. blank_dev), registered_devices = (\<lambda>_. 0), device_count = 0,
     rx_ring = blank_ring, tx_ring = blank_ring, arp_table = (\<lambda>_. \<lparr>arp_ip = 0, arp_mac = 0, arp_state = ARP_STATE_FREE\<rparr>),
     ip_id_counter = 0, bind_table = (\<lambda>_. \<lparr>b_port = 0, b_cb = SOCKET_CB, b_active = False\<rparr>), active_conn = None,
     conns = (\<lambda>_. zero_conn), next_ephemeral_port = 49300, socket_table = (\<lambda>_. blank_sock),
     port_map = (\<lambda>_. \<lparr>pm_port = 0, pm_sock = 0, pm_active = False\<rparr>), dns_got_reply = False, dns_result = 0,
     dhcp = \<lparr>got_offer = False, got_ack = False, offered_ip = [0, 0, 0, 0], server_ip = [0, 0, 0, 0],
       dhcp_mask = [255, 255, 255, 0], dhcp_gw = [0, 0, 0, 0], dhcp_dev = None\<rparr>, net_hung = False\<rparr>"

definition silent_card :: drv where
  "silent_card = \<lparr>drv_send = (\<lambda>dev nb s. (0, s)), drv_poll = (\<lambda>dev nb s. (- 1, s)), drv_start = (\<lambda>dev s. (0, s)),
     drv_stop = (\<lambda>dev s. (0, s))\<rparr>"

definition sample_net :: net where
  "sample_net = socket_init (loopback_init silent_card 0 (tcp_init (udp_init (arp_init (upd_nbs netbuf_pool_init blank_net)))))"

lemma init_views [simp]:
  "nbs (socket_init s) = nbs s" "nbs (tcp_init s) = nbs s" "nbs (udp_init s) = nbs s" "nbs (arp_init s) = nbs s"
  "nbs (arp_cache_update ip m s) = nbs s" "nbs (upd_dev d f s) = nbs s" "nbs (upd_nbs g s) = g (nbs s)"
  "nbs (snd (net_device_register d s)) = nbs s"
  "rx_ring (socket_init s) = rx_ring s" "rx_ring (tcp_init s) = rx_ring s" "rx_ring (udp_init s) = rx_ring s"
  "rx_ring (arp_init s) = rx_ring s" "rx_ring (arp_cache_update ip m s) = rx_ring s" "rx_ring (upd_dev d f s) = rx_ring s"
  "rx_ring (upd_nbs g s) = rx_ring s" "rx_ring (snd (net_device_register d s)) = rx_ring s"
  by (simp_all add: socket_init_def port_map_init_def tcp_init_def udp_init_def arp_init_def arp_cache_update_def
      net_device_register_def upd_dev_def upd_nbs_def Let_def split: option.split)

lemma sample_views: "nbs sample_net = netbuf_pool_init blank_pool" "rx_ring sample_net = blank_ring"
proof -
  have "nbs (snd (net_device_up silent_card d s)) = nbs s" "rx_ring (snd (net_device_up silent_card d s)) = rx_ring s" for d s
    by (simp_all add: net_device_up_def silent_card_def split: option.split driver.split)
  then have "nbs (loopback_init silent_card d s) = nbs s" "rx_ring (loopback_init silent_card d s) = rx_ring s" for d s
    by (simp_all add: loopback_init_def Let_def)
  then show "nbs sample_net = netbuf_pool_init blank_pool" "rx_ring sample_net = blank_ring"
    by (simp_all add: sample_net_def blank_net_def)
qed

end
