(* ===== verification/Net_Props.thy ===== *)
theory Net_Props
  imports Net_Frame Net_Sample
begin

text \<open>
  Properties of the network stack that rest on what its operations leave alone:
  buffers are never leaked, the bottom half ends and empties its ring, and the
  bytes a TCP connection hands to the application are a prefix of the stream.
\<close>

section \<open>Buffers\<close>

text \<open>C7: if the network card's driver neither takes nor releases packet buffers on balance, then no operation of the stack
  does: a datagram send, a TCP write and the receipt of a frame, with the loopback device nesting receives inside sends to any
  depth, leave the set of free buffers as it was.\<close>

theorem stack_leaks_no_buffer:
  assumes "pool_inv (nbs s)"
    and "\<And>dev nb s. pool_inv (nbs s) \<Longrightarrow> pool_inv (nbs (snd (drv_send nic dev nb s))) \<and>
           free_bufs (nbs (snd (drv_send nic dev nb s))) = free_bufs (nbs s)"
  shows "free_bufs (nbs (snd (sock_sendto (dev_ops n nic) fd buf dest s))) = free_bufs (nbs s) \<and>
         free_bufs (nbs (snd (tcp_write (dev_ops n nic) c data s))) = free_bufs (nbs s) \<and>
         free_bufs (nbs (ethernet_receive (dev_ops n nic) dev nb s)) = free_bufs (nbs s)"
proof -
  have "pool_frame.keeps nic" using assms(2) by (simp add: pool_frame.keeps_def same_pool_def)
  then have k: "pool_frame.keeps (dev_ops n nic)" by (rule pool_frame.dev_ops_keeps)
  then show ?thesis
    using pool_frame.sock_sendto_keeps [OF k, of s fd buf dest] pool_frame.tcp_write_keeps [OF k, of s c data]
      pool_frame.ethernet_receive_keeps [OF k, of s dev nb] assms(1)
    by (simp add: same_pool_def)
qed

section \<open>The bottom half\<close>

definition frame_entries :: "(nat \<times> nat) list \<Rightarrow> ring_entry list" where
  "frame_entries fs = map (\<lambda>(dev, nb). (Some dev, Some nb)) fs"

text \<open>The state of the ring and the pool while the frames \<open>fs\<close> wait: their buffers are distinct and none of them is free.\<close>

definition queued :: "(nat \<times> nat) list \<Rightarrow> nat set \<Rightarrow> net \<Rightarrow> bool" where
  "queued fs F s \<longleftrightarrow> rx_inv (rx_ring s) \<and> rx_contents (rx_ring s) = frame_entries fs \<and> pool_inv (nbs s) \<and>
     free_bufs (nbs s) = F \<and> distinct (map snd fs) \<and> set (map snd fs) \<subseteq> {..<NETBUF_POOL_SIZE} - F"

lemma rx_deliver_queued:
  assumes k: "rx_frame.keeps drv" "pool_frame.keeps drv" and q: "queued ((dev, nb) # fs) F s"
  shows "\<exists>ring. rx_ring_dequeue (rx_ring s) = Some ((Some dev, Some nb), ring) \<and>
    queued fs (insert nb F) (rx_deliver drv (Some dev, Some nb) (s\<lparr>rx_ring := ring\<rparr>))"
proof -
  have c: "rx_inv (rx_ring s)" "rx_contents (rx_ring s) = (Some dev, Some nb) # frame_entries fs"
    using q by (simp_all add: queued_def frame_entries_def)
  then obtain ring where r: "rx_ring_dequeue (rx_ring s) = Some ((Some dev, Some nb), ring)"
    "rx_contents ring = frame_entries fs" "rx_inv ring" using rx_fifo.get_cons by blast
  let ?s1 = "ethernet_receive drv dev nb (s\<lparr>rx_ring := ring\<rparr>)"
  have 1: "rx_ring ?s1 = ring" using rx_frame.ethernet_receive_keeps [OF k(1)] by simp
  have 2: "pool_inv (nbs ?s1)" "free_bufs (nbs ?s1) = F"
    using pool_frame.ethernet_receive_keeps [OF k(2), of "s\<lparr>rx_ring := ring\<rparr>" dev nb] q by (simp_all add: same_pool_def queued_def)
  have "nb \<in> {..<NETBUF_POOL_SIZE}" "nb \<notin> F" using q by (auto simp: queued_def)
  then have "pool_inv (netbuf_free nb (nbs ?s1))" "free_bufs (netbuf_free nb (nbs ?s1)) = insert nb F"
    using nb_pool.free_avail [OF 2(1)] 2(2) by auto
  then have "queued fs (insert nb F) (rx_deliver drv (Some dev, Some nb) (s\<lparr>rx_ring := ring\<rparr>))"
    using q r(2,3) by (auto simp: queued_def rx_deliver_def Let_def 1 rx_contents_def rx_inv_def)
  with r(1) show ?thesis by blast
qed

lemma net_rx_loop_drains:
  assumes "rx_frame.keeps drv" "pool_frame.keeps drv" "queued fs F s"
  shows "\<exists>s'. net_rx_loop drv n s = Some (n + int (length fs), s') \<and> queued [] (F \<union> set (map snd fs)) s'"
  using assms(3)
proof (induction fs arbitrary: F s n)
  case Nil
  then have "rx_ring_dequeue (rx_ring s) = None" using rx_fifo.get_empty by (simp add: queued_def frame_entries_def)
  then show ?case using Nil by (simp add: net_rx_loop.simps [of drv n s])
next
  case (Cons f fs)
  obtain dev nb where f: "f = (dev, nb)" by (cases f)
  obtain ring where r: "rx_ring_dequeue (rx_ring s) = Some ((Some dev, Some nb), ring)"
    "queued fs (insert nb F) (rx_deliver drv (Some dev, Some nb) (s\<lparr>rx_ring := ring\<rparr>))"
    using rx_deliver_queued [OF assms(1,2)] Cons.prems f by blast
  show ?case using Cons.IH [OF r(2), of "n + 1"] r(1) by (simp add: net_rx_loop.simps [of drv n s] f ac_simps)
qed

text \<open>C17: the bottom half ends.  If the ring holds some frames whose buffers are distinct and not free, and the driver's send
  keeps the ring and the set of free buffers, then processing the ring returns the number of frames, leaves the ring empty, and
  has released exactly the buffers of the frames.\<close>

theorem rx_process_drains:
  assumes "queued fs F s"
    and "\<And>dev nb s. rx_ring (snd (drv_send drv dev nb s)) = rx_ring s"
    and "\<And>dev nb s. pool_inv (nbs s) \<Longrightarrow> pool_inv (nbs (snd (drv_send drv dev nb s))) \<and>
           free_bufs (nbs (snd (drv_send drv dev nb s))) = free_bufs (nbs s)"
  shows "\<exists>s'. net_rx_process drv s = Some (int (length fs), s') \<and> rx_contents (rx_ring s') = [] \<and>
     free_bufs (nbs s') = F \<union> set (map snd fs)"
proof -
  have "rx_frame.keeps drv" "pool_frame.keeps drv"
    using assms(2,3) by (simp_all add: rx_frame.keeps_def pool_frame.keeps_def same_pool_def)
  from net_rx_loop_drains [OF this assms(1), of 0] show ?thesis
    by (auto simp: net_rx_process_def queued_def frame_entries_def)
qed

definition queued_net :: net where
  "queued_net = (case netbuf_alloc (nbs sample_net) of
     Some (nb, p) \<Rightarrow> snd (net_rx_enqueue 0 nb (sample_net\<lparr>nbs := p\<rparr>)) | None \<Rightarrow> sample_net)"

lemma queued_net: "queued [(0, 0)] ({..<64} - {0}) queued_net"
proof -
  have f: "netbuf_free_list (nbs sample_net) = Some 0"
    using pool_init_free_path [of blank_pool] by (simp add: sample_views(1) free_path_def upt_conv_Cons del: upt_Suc)
  then obtain p where p: "netbuf_alloc (nbs sample_net) = Some (0, p)" by (simp add: netbuf_alloc_def)
  have i: "pool_inv p" "free_bufs p = {..<64} - {0}"
    using nb_pool.alloc_some [OF _ p] pool_init_inv [of blank_pool] by (simp_all add: sample_views(1))
  have q: "queued_net = sample_net\<lparr>nbs := p, rx_ring := rx_put (Some 0, Some 0) blank_ring\<rparr>"
    by (simp add: queued_net_def p net_rx_enqueue_def Let_def rx_put_def sample_views(2) rx_ring_enqueue_def blank_ring_def)
  have b: "rx_inv blank_ring" "rx_contents blank_ring = []"
    by (simp_all add: rx_inv_def rx_contents_def blank_ring_def cring_inv_def ring_contents_def)
  then have "rx_contents (rx_put (Some 0, Some 0) blank_ring) = [(Some 0, Some 0)]" "rx_inv (rx_put (Some 0, Some 0) blank_ring)"
    using rx_fifo.put_contents [OF b(1)] rx_fifo.put_inv [OF b(1)] by simp_all
  then show ?thesis using i by (simp add: queued_def frame_entries_def q)
qed

theorem rx_process_drains_witness:
  "\<exists>s'. net_rx_process silent_card queued_net = Some (1, s') \<and> rx_contents (rx_ring s') = [] \<and> free_bufs (nbs s') = {..<64}"
proof -
  have "{..<64} - {0} \<union> set (map snd [(0::nat, 0::nat)]) = {..<64}" by auto
  moreover have "\<exists>s'. net_rx_process silent_card queued_net = Some (int (length [(0::nat, 0::nat)]), s') \<and>
      rx_contents (rx_ring s') = [] \<and> free_bufs (nbs s') = {..<64} - {0} \<union> set (map snd [(0::nat, 0::nat)])"
    by (rule rx_process_drains [OF queued_net]) (simp_all add: silent_card_def)
  ultimately show ?thesis by simp
qed

section \<open>The TCP stream\<close>

definition received :: "tcp_conn \<Rightarrow> u8 list" where
  "received c = map (recv_buf c) [0..<unat (recv_len c)]"

text \<open>The reference: the bytes of the segments that arrive in order, from sequence number \<open>nxt\<close> on.\<close>

primrec in_order :: "(u32 \<times> u8 list) list \<Rightarrow> u32 \<Rightarrow> u8 list" where
  "in_order [] nxt = []"
| "in_order (x # xs) nxt =
     (if snd x \<noteq> [] \<and> fst x = nxt then snd x @ in_order xs (nxt + of_nat (length (snd x))) else in_order xs nxt)"

primrec tcp_segments :: "drv \<Rightarrow> nat \<Rightarrow> (u32 \<times> u8 list) list \<Rightarrow> net \<Rightarrow> net" where
  "tcp_segments drv c [] s = s"
| "tcp_segments drv c (x # xs) s = tcp_segments drv c xs (tcp_data drv c (fst x) (snd x) s)"

lemma tcp_append_spec:
  assumes "unat (recv_len c) \<le> TCP_RECV_BUF_SIZE" "length d < 65536"
  shows "received (tcp_append d c) = take TCP_RECV_BUF_SIZE (received c @ d)" "unat (recv_len (tcp_append d c)) \<le> TCP_RECV_BUF_SIZE"
    "rcv_next (tcp_append d c) = rcv_next c + of_nat (length d)"
proof -
  define m where "m = min (length d) (TCP_RECV_BUF_SIZE - unat (recv_len c))"
  have u: "unat (of_nat (length d) :: u32) = length d" using assms(2) by (simp add: unat_of_nat take_bit_nat_eq_self)
  have "recv_len c \<le> 8192" using assms(1) by (simp add: word_le_nat_alt)
  then have sp: "unat (8192 - recv_len c) = 8192 - unat (recv_len c)" by (simp add: unat_sub)
  let ?copy = "if of_nat (length d) > 8192 - recv_len c then 8192 - recv_len c else of_nat (length d) :: u32"
  have cp: "unat ?copy = m" using u sp by (simp add: m_def word_less_nat_alt min_def)
  have l: "unat (recv_len c + ?copy) = unat (recv_len c) + m"
    using cp assms(1) by (subst unat_add_lem [THEN iffD1]) (simp_all add: m_def)
  have a: "tcp_append d c = c\<lparr>recv_buf := (\<lambda>i. if unat (recv_len c) \<le> i \<and> i < unat (recv_len c) + m
                            then d ! (i - unat (recv_len c)) else recv_buf c i),
           recv_len := recv_len c + ?copy, rcv_next := rcv_next c + of_nat (length d)\<rparr>"
    unfolding tcp_append_def Let_def cp [symmetric] by simp
  show "unat (recv_len (tcp_append d c)) \<le> TCP_RECV_BUF_SIZE" using l assms(1) by (simp add: a m_def)
  show "rcv_next (tcp_append d c) = rcv_next c + of_nat (length d)" by (simp add: a)
  show "received (tcp_append d c) = take TCP_RECV_BUF_SIZE (received c @ d)"
    using l assms(1) by (intro nth_equalityI) (auto simp: received_def a m_def nth_append)
qed

lemma tcp_data_conn:
  assumes "\<And>dev nb s. conns (snd (drv_send drv dev nb s)) = conns s \<and> active_conn (snd (drv_send drv dev nb s)) = active_conn s"
  shows "conns (tcp_data drv c q d s) c =
    (if d \<noteq> [] \<and> q = rcv_next (conns s c) then tcp_append d (conns s c) else conns s c)"
proof -
  have "conn_frame.keeps drv" using assms by (simp add: conn_frame.keeps_def)
  from conn_frame.tcp_send_segment_keeps [OF this] show ?thesis
    by (simp add: tcp_data_def Let_def upd_conn_def)
qed

text \<open>C8: whatever segments arrive, in whatever order and with whatever repetitions, the receive buffer holds the first 8192
  bytes of what it held before followed by the payloads that came in order, and the next expected sequence number has advanced
  by the length of those payloads.  The driver's send must leave the connections alone.\<close>

theorem tcp_stream_prefix:
  assumes "\<And>dev nb s. conns (snd (drv_send drv dev nb s)) = conns s \<and> active_conn (snd (drv_send drv dev nb s)) = active_conn s"
    and "unat (recv_len (conns s c)) \<le> TCP_RECV_BUF_SIZE" and "\<forall>x \<in> set segs. length (snd x) < 65536"
  shows "received (conns (tcp_segments drv c segs s) c) =
           take TCP_RECV_BUF_SIZE (received (conns s c) @ in_order segs (rcv_next (conns s c))) \<and>
         rcv_next (conns (tcp_segments drv c segs s) c) =
           rcv_next (conns s c) + of_nat (length (in_order segs (rcv_next (conns s c))))"
  using assms(2,3)
proof (induction segs arbitrary: s)
  case Nil
  then show ?case by (simp add: received_def)
next
  case (Cons x xs)
  note d = tcp_data_conn [OF assms(1), of c "fst x" "snd x" s]
  show ?case
  proof (cases "snd x \<noteq> [] \<and> fst x = rcv_next (conns s c)")
    case True
    note a = tcp_append_spec [OF Cons.prems(1), of "snd x"]
    have "take 8192 (take 8192 (u @ v) @ w) = take 8192 (u @ v @ w)" for u v w :: "u8 list"
      by (simp add: min_def)
    then show ?thesis using Cons.IH [of "tcp_data drv c (fst x) (snd x) s"] Cons.prems True d a by simp
  next
    case False
    then show ?thesis using Cons.IH [of "tcp_data drv c (fst x) (snd x) s"] Cons.prems d by auto
  qed
qed

theorem tcp_stream_prefix_witness:
  "received (conns (tcp_segments silent_card 0 [(0, [1, 2]), (0, [9]), (2, [3])] blank_net) 0) = [1, 2, 3] \<and>
   rcv_next (conns (tcp_segments silent_card 0 [(0, [1, 2]), (0, [9]), (2, [3])] blank_net) 0) = 3"
proof -
  have "conns blank_net 0 = zero_conn" by (simp add: blank_net_def)
  then have c: "received (conns blank_net 0) = []" "rcv_next (conns blank_net 0) = 0" "unat (recv_len (conns blank_net 0)) \<le> 8192"
    by (simp_all add: received_def zero_conn_def)
  show ?thesis
    using tcp_stream_prefix [OF _ c(3), of silent_card "[(0, [1, 2]), (0, [9]), (2, [3])]"] by (simp add: silent_card_def c)
qed

end
