(* ===== verification/Net_Tables.thy ===== *)
theory Net_Tables
  imports Net_Frame Net_Sample
begin

text \<open>
  The tables of the stack: what the ARP cache returns after an update
  (\<open>arp.c\<close>), and that the socket calls keep the UDP bind table and the port map
  of the sockets consistent with each other (\<open>udp.c\<close>, \<open>socket.c\<close>).
\<close>

section \<open>ARP cache\<close>

definition arp_live :: "ipv4_addr \<Rightarrow> net \<Rightarrow> nat \<Rightarrow> bool" where
  "arp_live ip s i \<longleftrightarrow> arp_state (arp_table s i) \<noteq> ARP_STATE_FREE \<and> arp_ip (arp_table s i) = ip"

text \<open>An update fills one slot; before it no slot holds the address, and a live slot of another address is taken only if no
  slot is free.\<close>

lemma arp_update_slot:
  "\<exists>k < ARP_CACHE_SIZE. arp_cache_update ip mac s =
      s\<lparr>arp_table := (arp_table s)(k := (arp_table s k)\<lparr>arp_ip := ip, arp_mac := mac, arp_state := ARP_STATE_RESOLVED\<rparr>)\<rparr> \<and>
    (\<forall>j < k. \<not> arp_live ip s j) \<and>
    (arp_state (arp_table s k) = ARP_STATE_FREE \<or> arp_live ip s k \<or>
     (\<forall>j < ARP_CACHE_SIZE. arp_state (arp_table s j) \<noteq> ARP_STATE_FREE \<and> \<not> arp_live ip s j))"
proof (cases "first_slot (arp_live ip s) ARP_CACHE_SIZE")
  case (Some i)
  then have i: "i < 32" "arp_live ip s i" "\<forall>j<i. \<not> arp_live ip s j" by (simp_all add: first_slot_eq_Some)
  have "(arp_table s i)\<lparr>arp_mac := mac, arp_state := ARP_STATE_RESOLVED\<rparr> =
      (arp_table s i)\<lparr>arp_ip := ip, arp_mac := mac, arp_state := ARP_STATE_RESOLVED\<rparr>"
    using i(2) by (simp add: arp_live_def)
  moreover have "arp_cache_update ip mac s =
      s\<lparr>arp_table := (arp_table s)(i := (arp_table s i)\<lparr>arp_mac := mac, arp_state := ARP_STATE_RESOLVED\<rparr>)\<rparr>"
    using Some by (simp add: arp_cache_update_def ipv4_equal_def arp_live_def [abs_def])
  ultimately show ?thesis using i by (intro exI [of _ i]) (simp add: i)
next
  case None
  then have n: "\<forall>j<32. \<not> arp_live ip s j" by (simp add: first_slot_None_iff)
  let ?F = "first_slot (\<lambda>i. arp_state (arp_table s i) = ARP_STATE_FREE) ARP_CACHE_SIZE"
  let ?k = "case ?F of None \<Rightarrow> 0 | Some i \<Rightarrow> i"
  have u: "arp_cache_update ip mac s =
      s\<lparr>arp_table := (arp_table s)(?k := (arp_table s ?k)\<lparr>arp_ip := ip, arp_mac := mac, arp_state := ARP_STATE_RESOLVED\<rparr>)\<rparr>"
    using None by (simp add: arp_cache_update_def ipv4_equal_def arp_live_def [abs_def] Let_def)
  have k: "?k < 32" "arp_state (arp_table s ?k) = ARP_STATE_FREE \<or> (\<forall>j<32. arp_state (arp_table s j) \<noteq> ARP_STATE_FREE)"
    using first_slot_SomeD [of _ 32] first_slot_None_iff [of _ 32, THEN iffD1] by (auto split: option.split)
  show ?thesis by (rule exI [of _ ?k]) (use u k n in auto)
qed

text \<open>After the cache has been told the hardware address of an IP address, looking the IP address up gives that hardware
  address, and the answers for other addresses are unchanged unless the cache was full.\<close>

theorem arp_lookup_after_update:
  shows "arp_cache_lookup ip (arp_cache_update ip mac s) = Some mac \<and>
    (ip' \<noteq> ip \<and> (\<exists>i < ARP_CACHE_SIZE. arp_state (arp_table s i) = ARP_STATE_FREE \<or> arp_live ip s i) \<longrightarrow>
     arp_cache_lookup ip' (arp_cache_update ip mac s) = arp_cache_lookup ip' s)"
proof -
  obtain k where k: "k < 32" "\<forall>j<k. \<not> arp_live ip s j"
    and u: "arp_cache_update ip mac s =
      s\<lparr>arp_table := (arp_table s)(k := (arp_table s k)\<lparr>arp_ip := ip, arp_mac := mac, arp_state := ARP_STATE_RESOLVED\<rparr>)\<rparr>"
    and l: "arp_state (arp_table s k) = ARP_STATE_FREE \<or> arp_live ip s k \<or>
     (\<forall>j<32. arp_state (arp_table s j) \<noteq> ARP_STATE_FREE \<and> \<not> arp_live ip s j)"
    using arp_update_slot [of ip mac s] by blast
  let ?hit = "\<lambda>a t i. arp_state (t i) = ARP_STATE_RESOLVED \<and> arp_ip (t i) = a"
  let ?t = "(arp_table s)(k := (arp_table s k)\<lparr>arp_ip := ip, arp_mac := mac, arp_state := ARP_STATE_RESOLVED\<rparr>)"
  have "first_slot (?hit ip ?t) 32 = Some k"
    using k by (auto simp: first_slot_eq_Some arp_live_def)
  then have 1: "arp_cache_lookup ip (arp_cache_update ip mac s) = Some mac"
    by (simp add: u arp_cache_lookup_def ipv4_equal_def)
  have "arp_cache_lookup ip' (arp_cache_update ip mac s) = arp_cache_lookup ip' s"
    if "ip' \<noteq> ip" "\<exists>i<32. arp_state (arp_table s i) = ARP_STATE_FREE \<or> arp_live ip s i"
  proof -
    have "\<not> ?hit ip' (arp_table s) k" using l that by (auto simp: arp_live_def)
    then have h: "?hit ip' ?t = ?hit ip' (arp_table s)" using that(1) by (auto simp: fun_eq_iff)
    have "?t i = arp_table s i" if "first_slot (?hit ip' (arp_table s)) 32 = Some i" for i
      using that \<open>\<not> ?hit ip' (arp_table s) k\<close> by (auto simp: first_slot_eq_Some)
    with h show ?thesis unfolding u arp_cache_lookup_def ipv4_equal_def by (auto split: option.split)
  qed
  with 1 show ?thesis by blast
qed

theorem arp_lookup_after_update_witness:
  "arp_cache_lookup 7 (arp_cache_update 7 42 blank_net) = Some 42 \<and>
   arp_cache_lookup 8 (arp_cache_update 7 42 blank_net) = arp_cache_lookup 8 blank_net"
proof -
  have "arp_state (arp_table blank_net 0) = ARP_STATE_FREE" by (simp add: blank_net_def)
  then have "\<exists>i < ARP_CACHE_SIZE. arp_state (arp_table blank_net i) = ARP_STATE_FREE \<or> arp_live 7 blank_net i"
    by (intro exI [of _ 0]) simp
  with arp_lookup_after_update [of 7 42 blank_net 8] show ?thesis by simp
qed

section \<open>Port tables\<close>

definition bound :: "u16 \<Rightarrow> net \<Rightarrow> nat \<Rightarrow> bool" where
  "bound p s i \<longleftrightarrow> i < UDP_MAX_BINDS \<and> b_active (bind_table s i) \<and> b_port (bind_table s i) = p"

definition mapped :: "u16 \<Rightarrow> net \<Rightarrow> nat \<Rightarrow> bool" where
  "mapped p s i \<longleftrightarrow> i < SOCKET_MAX \<and> pm_active (port_map s i) \<and> pm_port (port_map s i) = p"

text \<open>Every port is bound at most once and mapped at most once, and it is mapped exactly if it is bound to the socket layer.\<close>

definition ports_ok :: "net \<Rightarrow> bool" where
  "ports_ok s \<longleftrightarrow> (\<forall>p i j. bound p s i \<and> bound p s j \<longrightarrow> i = j) \<and> (\<forall>p i j. mapped p s i \<and> mapped p s j \<longrightarrow> i = j) \<and>
     (\<forall>p. (\<exists>i. mapped p s i) \<longleftrightarrow> (\<exists>i. bound p s i \<and> b_cb (bind_table s i) = SOCKET_CB))"

interpretation port_frame: net_frame_rx "\<lambda>s s'. bind_table s' = bind_table s \<and> port_map s' = port_map s"
  by unfold_locales (auto simp: upd_dev_def upd_nbs_def upd_conn_def upd_sock_def)

lemma ports_ok_cong: "bind_table s' = bind_table s \<Longrightarrow> port_map s' = port_map s \<Longrightarrow> ports_ok s' = ports_ok s"
  by (simp add: ports_ok_def bound_def mapped_def)

lemma bound_find: "udp_find p s = None \<longleftrightarrow> \<not> (\<exists>i. bound p s i)" "udp_find p s = Some i \<Longrightarrow> bound p s i"
  by (auto simp: udp_find_def bound_def first_slot_None_iff dest: first_slot_SomeD)

lemma mapped_find: "port_map_slot p s = None \<longleftrightarrow> \<not> (\<exists>i. mapped p s i)" "port_map_slot p s = Some i \<Longrightarrow> mapped p s i"
  by (auto simp: port_map_slot_def mapped_def first_slot_None_iff dest: first_slot_SomeD)

definition bind_at :: "nat \<Rightarrow> u16 \<Rightarrow> udp_cb \<Rightarrow> net \<Rightarrow> net" where
  "bind_at i p cb s = s\<lparr>bind_table := (bind_table s)(i := (bind_table s i)\<lparr>b_port := p, b_cb := cb, b_active := True\<rparr>)\<rparr>"

definition map_at :: "nat \<Rightarrow> u16 \<Rightarrow> nat \<Rightarrow> net \<Rightarrow> net" where
  "map_at i p sk s = s\<lparr>port_map := (port_map s)(i := \<lparr>pm_port = p, pm_sock = sk, pm_active = True\<rparr>)\<rparr>"

lemma ports_ok_bind:
  assumes "ports_ok s" "\<not> (\<exists>i. bound p s i)" "i < UDP_MAX_BINDS" "\<not> b_active (bind_table s i)" "j < SOCKET_MAX" "\<not> pm_active (port_map s j)"
  shows "ports_ok (map_at j p sk (bind_at i p SOCKET_CB s))"
proof -
  let ?s = "map_at j p sk (bind_at i p SOCKET_CB s)"
  have b: "bound q ?s k \<longleftrightarrow> (if k = i then q = p else bound q s k)" for q k
    using assms(3) by (auto simp: bound_def map_at_def bind_at_def)
  have m: "mapped q ?s k \<longleftrightarrow> (if k = j then q = p else mapped q s k)" for q k
    using assms(5) by (auto simp: mapped_def map_at_def bind_at_def)
  have cb: "b_cb (bind_table ?s k) = (if k = i then SOCKET_CB else b_cb (bind_table s k))" for k
    by (simp add: map_at_def bind_at_def)
  have free: "\<not> bound q s i" "\<not> mapped q s j" for q using assms(4,6) by (simp_all add: bound_def mapped_def)
  have nm: "\<not> mapped p s k" for k using assms(1,2) by (auto simp: ports_ok_def)
  have u: "\<And>q k l. bound q s k \<Longrightarrow> bound q s l \<Longrightarrow> k = l" "\<And>q k l. mapped q s k \<Longrightarrow> mapped q s l \<Longrightarrow> k = l"
    and e: "\<And>q. (\<exists>k. mapped q s k) \<longleftrightarrow> (\<exists>k. bound q s k \<and> b_cb (bind_table s k) = SOCKET_CB)"
    using assms(1) by (auto simp: ports_ok_def)
  show ?thesis unfolding ports_ok_def
  proof (intro conjI allI impI)
    fix q k l assume "bound q ?s k \<and> bound q ?s l"
    then show "k = l" using u(1) assms(2) unfolding b by (auto split: if_splits)
  next
    fix q k l assume "mapped q ?s k \<and> mapped q ?s l"
    then show "k = l" using u(2) nm unfolding m by (auto split: if_splits)
  next
    fix q
    have "(\<exists>k. mapped q ?s k) \<longleftrightarrow> q = p \<or> (\<exists>k. mapped q s k)" unfolding m using free(2) by metis
    moreover have "(\<exists>k. bound q ?s k \<and> b_cb (bind_table ?s k) = SOCKET_CB) \<longleftrightarrow>
        q = p \<or> (\<exists>k. bound q s k \<and> b_cb (bind_table s k) = SOCKET_CB)" unfolding b cb using free(1) by metis
    ultimately show "(\<exists>k. mapped q ?s k) \<longleftrightarrow> (\<exists>k. bound q ?s k \<and> b_cb (bind_table ?s k) = SOCKET_CB)" using e by simp
  qed
qed

lemma table_frames [simp]: "bind_table (port_map_remove p s) = bind_table s" "port_map (snd (udp_unbind p s)) = port_map s"
  by (simp_all add: port_map_remove_def udp_unbind_def split: option.split)

lemma ports_ok_release:
  assumes "ports_ok s"
  shows "ports_ok (port_map_remove p (snd (udp_unbind p s)))"
proof -
  let ?s = "port_map_remove p (snd (udp_unbind p s))"
  have u: "\<And>q k l. bound q s k \<Longrightarrow> bound q s l \<Longrightarrow> k = l" "\<And>q k l. mapped q s k \<Longrightarrow> mapped q s l \<Longrightarrow> k = l"
    and e: "\<And>q. (\<exists>k. mapped q s k) \<longleftrightarrow> (\<exists>k. bound q s k \<and> b_cb (bind_table s k) = SOCKET_CB)"
    using assms by (auto simp: ports_ok_def)
  have b: "bound q ?s k \<longleftrightarrow> q \<noteq> p \<and> bound q s k" for q k
  proof (cases "udp_find p s")
    case None
    have "bound q ?s k = bound q s k" by (simp add: bound_def udp_unbind_def None)
    then show ?thesis using bound_find(1) [of p s] None by blast
  next
    case (Some i)
    have bi: "bound p s i" by (rule bound_find(2) [OF Some])
    then have nk: "k \<noteq> i \<Longrightarrow> \<not> bound p s k" using u(1) by blast
    show ?thesis
    proof (cases "k = i")
      case True
      then show ?thesis using bi by (auto simp: bound_def udp_unbind_def Some)
    next
      case False
      then have "bound q ?s k = bound q s k" by (simp add: bound_def udp_unbind_def Some)
      with nk [OF False] show ?thesis by blast
    qed
  qed
  have cb: "b_cb (bind_table ?s k) = b_cb (bind_table s k)" for k by (simp add: udp_unbind_def split: option.split)
  have slot: "port_map_slot p (snd (udp_unbind p s)) = port_map_slot p s" by (simp add: port_map_slot_def)
  have m: "mapped q ?s k \<longleftrightarrow> q \<noteq> p \<and> mapped q s k" for q k
  proof (cases "port_map_slot p s")
    case None
    have "mapped q ?s k = mapped q s k" by (simp add: mapped_def port_map_remove_def slot None)
    then show ?thesis using mapped_find(1) [of p s] None by blast
  next
    case (Some i)
    have mi: "mapped p s i" by (rule mapped_find(2) [OF Some])
    then have nk: "k \<noteq> i \<Longrightarrow> \<not> mapped p s k" using u(2) by blast
    show ?thesis
    proof (cases "k = i")
      case True
      then show ?thesis using mi by (auto simp: mapped_def port_map_remove_def slot Some)
    next
      case False
      then have "mapped q ?s k = mapped q s k" by (simp add: mapped_def port_map_remove_def slot Some)
      with nk [OF False] show ?thesis by blast
    qed
  qed
  show ?thesis unfolding ports_ok_def b m cb using u e by blast
qed

text \<open>What a bind does to the tables: nothing, or it fills a slot of each, or the port map is full and the binding is undone.\<close>

definition undone_at :: "nat \<Rightarrow> u16 \<Rightarrow> net \<Rightarrow> net" where
  "undone_at i p s = s\<lparr>bind_table := (bind_table s)(i := (bind_table s i)\<lparr>b_port := p, b_cb := SOCKET_CB, b_active := False\<rparr>)\<rparr>"

definition bind_tail :: "u16 \<Rightarrow> nat \<Rightarrow> (socket \<Rightarrow> socket) \<Rightarrow> net \<Rightarrow> net" where
  "bind_tail p sk g s = (let (r, s1) = udp_bind p SOCKET_CB s in
     if r \<noteq> 0 then s1 else let (r2, s2) = port_map_add p sk s1 in
     if r2 \<noteq> 0 then snd (udp_unbind p s2) else upd_sock sk g s2)"

lemma unbind_bind_at:
  assumes "i < UDP_MAX_BINDS" "\<not> (\<exists>k. bound p s k)"
  shows "snd (udp_unbind p (bind_at i p SOCKET_CB s)) = undone_at i p s"
proof -
  let ?s = "bind_at i p SOCKET_CB s"
  have "bound p ?s k \<longleftrightarrow> k = i" for k using assms by (auto simp: bound_def bind_at_def)
  then have "udp_find p ?s = Some i" using bound_find [of p ?s] by (metis not_None_eq)
  then show ?thesis by (simp add: udp_unbind_def bind_at_def undone_at_def)
qed

lemma bind_tail_cases:
  obtains (failed) "bind_tail p sk g s = s"
  | (full) i where "\<not> b_active (bind_table s i)" "bind_tail p sk g s = undone_at i p s"
  | (installed) i j where "\<not> (\<exists>i. bound p s i)" "i < UDP_MAX_BINDS" "\<not> b_active (bind_table s i)" "j < SOCKET_MAX"
      "\<not> pm_active (port_map s j)" "bind_tail p sk g s = upd_sock sk g (map_at j p sk (bind_at i p SOCKET_CB s))"
proof (cases "udp_find p s \<noteq> None \<or> first_slot (\<lambda>i. \<not> b_active (bind_table s i)) UDP_MAX_BINDS = None")
  case True
  then have "udp_bind p SOCKET_CB s = (- 1, s)" by (auto simp: udp_bind_def)
  then show thesis using failed by (simp add: bind_tail_def Let_def)
next
  case False
  then obtain i where i: "first_slot (\<lambda>i. \<not> b_active (bind_table s i)) UDP_MAX_BINDS = Some i" "udp_find p s = None" by auto
  then have u: "udp_bind p SOCKET_CB s = (0, bind_at i p SOCKET_CB s)" by (simp add: udp_bind_def bind_at_def)
  have i': "i < UDP_MAX_BINDS" "\<not> b_active (bind_table s i)" using first_slot_SomeD [OF i(1)] by auto
  have nb: "\<not> (\<exists>i. bound p s i)" using bound_find(1) i(2) by blast
  have pm: "port_map (bind_at i p SOCKET_CB s) = port_map s" by (simp add: bind_at_def)
  show thesis
  proof (cases "first_slot (\<lambda>i. \<not> pm_active (port_map s i)) SOCKET_MAX")
    case None
    then have "bind_tail p sk g s = undone_at i p s"
      using u unbind_bind_at [OF i'(1) nb] by (simp add: bind_tail_def Let_def port_map_add_def pm)
    with i'(2) show thesis by (rule full)
  next
    case (Some j)
    then have "bind_tail p sk g s = upd_sock sk g (map_at j p sk (bind_at i p SOCKET_CB s))"
      using u by (simp add: bind_tail_def Let_def port_map_add_def pm map_at_def)
    then show thesis using installed [OF nb i'] first_slot_SomeD [OF Some] by blast
  qed
qed

lemma ports_ok_undone:
  assumes "ports_ok s" "\<not> b_active (bind_table s i)"
  shows "ports_ok (undone_at i p s)"
proof -
  let ?s = "undone_at i p s"
  have e: "mapped q ?s k = mapped q s k" "bound q ?s k = bound q s k"
    "(bound q s k \<and> b_cb (bind_table ?s k) = SOCKET_CB) = (bound q s k \<and> b_cb (bind_table s k) = SOCKET_CB)" for q k
    using assms(2) by (auto simp: mapped_def bound_def undone_at_def)
  show ?thesis using assms(1) unfolding ports_ok_def e by blast
qed

lemma bind_tail_ok: "ports_ok s \<Longrightarrow> ports_ok (bind_tail p sk g s)"
proof (cases p sk g s rule: bind_tail_cases)
  case (installed i j)
  moreover assume "ports_ok s"
  ultimately show ?thesis using ports_ok_bind [of s p i j sk] ports_ok_cong [of "upd_sock sk g x" x for x]
    by (simp add: upd_sock_def)
qed (simp_all add: ports_ok_undone)

lemma sock_bind_ok:
  assumes "ports_ok s"
  shows "ports_ok (snd (sock_bind fd addr s))"
proof -
  have "snd (sock_bind fd addr s) = s \<or> (\<exists>p sk g. snd (sock_bind fd addr s) = bind_tail p sk g s)"
  proof (cases "socket_get fd s = None \<or> addr = None")
    case False
    then obtain i a where ia: "socket_get fd s = Some i" "addr = Some a" by auto
    have "snd (sock_bind fd addr s) = s \<or> snd (sock_bind fd addr s) =
        bind_tail (ntohs (sin_port a)) i (\<lambda>x. x\<lparr>s_local := a, s_state := SOCK_STATE_BOUND\<rparr>) s"
      by (simp add: sock_bind_def bind_tail_def Let_def case_prod_beta ia)
    then show ?thesis by blast
  qed (auto simp: sock_bind_def split: option.split)
  then show ?thesis using assms bind_tail_ok by metis
qed

lemma sock_calls_ok:
  assumes "ports_ok s"
  shows "ports_ok (snd (sock_create d t pr s))" "ports_ok (snd (sock_connect fd addr s))" "ports_ok (snd (sock_recvfrom fd hb m s))"
    "ports_ok (snd (sock_close fd s))"
proof -
  have u: "ports_ok (upd_sock i g s) = ports_ok s" for i g s by (rule ports_ok_cong) (simp_all add: upd_sock_def)
  show "ports_ok (snd (sock_create d t pr s))" "ports_ok (snd (sock_connect fd addr s))" "ports_ok (snd (sock_recvfrom fd hb m s))"
    using assms unfolding sock_create_def sock_connect_def sock_recvfrom_def Let_def by (simp_all add: u split: option.split)
  show "ports_ok (snd (sock_close fd s))"
    using assms ports_ok_release [OF assms] by (auto simp: sock_close_def Let_def u split: option.split)
qed

text \<open>The states reached by socket calls and received frames.\<close>

inductive sock_reach :: "drv \<Rightarrow> net \<Rightarrow> net \<Rightarrow> bool" for drv s0 where
  start: "sock_reach drv s0 s0"
| create: "sock_reach drv s0 s \<Longrightarrow> sock_reach drv s0 (snd (sock_create d t p s))"
| bind: "sock_reach drv s0 s \<Longrightarrow> sock_reach drv s0 (snd (sock_bind fd a s))"
| connect: "sock_reach drv s0 s \<Longrightarrow> sock_reach drv s0 (snd (sock_connect fd a s))"
| sendto: "sock_reach drv s0 s \<Longrightarrow> sock_reach drv s0 (snd (sock_sendto drv fd buf a s))"
| recvfrom: "sock_reach drv s0 s \<Longrightarrow> sock_reach drv s0 (snd (sock_recvfrom fd hb m s))"
| close: "sock_reach drv s0 s \<Longrightarrow> sock_reach drv s0 (snd (sock_close fd s))"
| frame: "sock_reach drv s0 s \<Longrightarrow> sock_reach drv s0 (ethernet_receive drv dev nb s)"

text \<open>C16: the socket tables are well formed.  From the start of the stack on, in every state reached by socket calls and received
  frames, no port is bound twice, no port is mapped to two sockets, and a port is mapped to a socket exactly if the UDP layer
  passes its datagrams to the sockets.\<close>

theorem socket_ports_well_formed:
  assumes "sock_reach drv (socket_init (udp_init s0)) s"
    and "\<And>dev nb s. bind_table (snd (drv_send drv dev nb s)) = bind_table s \<and> port_map (snd (drv_send drv dev nb s)) = port_map s"
  shows "ports_ok s"
proof -
  have k: "port_frame.keeps drv" using assms(2) by (simp add: port_frame.keeps_def)
  show ?thesis using assms(1)
  proof induction
    case start
    then show ?case by (simp add: ports_ok_def bound_def mapped_def socket_init_def port_map_init_def udp_init_def)
  next
    case (sendto s fd buf a)
    then show ?case using port_frame.sock_sendto_keeps [OF k] ports_ok_cong by blast
  next
    case (frame s dev nb)
    then show ?case using port_frame.ethernet_receive_keeps [OF k] ports_ok_cong by blast
  qed (simp_all add: sock_calls_ok sock_bind_ok)
qed

theorem socket_ports_well_formed_witness:
  "ports_ok (snd (sock_bind 0 (Some (sockaddr_in_make 0 7)) (snd (sock_create 2 2 0 (socket_init (udp_init blank_net))))))"
proof -
  have "sock_reach silent_card (socket_init (udp_init blank_net))
      (snd (sock_bind 0 (Some (sockaddr_in_make 0 7)) (snd (sock_create 2 2 0 (socket_init (udp_init blank_net))))))"
    by (rule sock_reach.bind, rule sock_reach.create, rule sock_reach.start)
  then show ?thesis by (rule socket_ports_well_formed) (simp add: silent_card_def)
qed

end
