(* ===== verification/Net_Loopback.thy ===== *)
theory Net_Loopback
  imports Net_Props
begin

text \<open>
  Headers and checksums across the layers: the TCP checksum is the Internet
  checksum of pseudo-header and segment (\<open>tcp.c\<close>, \<open>checksum.h\<close>), and a datagram that
  a socket sends to the loopback address passes through UDP, IPv4, Ethernet, the
  loopback device and back up to the socket that is bound to the port
  (\<open>socket.c\<close>, \<open>udp.c\<close>, \<open>ipv4.c\<close>, \<open>ethernet.c\<close>, \<open>loopback.c\<close>).
\<close>

section \<open>Header fields\<close>

lemma field_append: "length xs \<le> off \<Longrightarrow> field (xs @ ys) off n = field ys (off - length xs) n"
  by (simp add: field_def)

lemma field_Cons: "0 < off \<Longrightarrow> field (a # ys) off n = field ys (off - 1) n"
  by (cases off) (simp_all add: field_def)

lemma field_here: "LENGTH('a::len) \<le> 8 * n \<Longrightarrow> field (le_bytes n (w :: 'a word) @ ys) 0 n = w"
  by (simp add: field_def le_word_bytes)

lemma field_end: "LENGTH('a::len) \<le> 8 * n \<Longrightarrow> field (le_bytes n (w :: 'a word)) 0 n = w"
  using field_here [of n w "[]"] by simp

lemmas field_simps' = field_append field_Cons field_here field_end

section \<open>Checksums\<close>

lemma oc_sum_sum16: "oc_sum p acc = sum16 p acc"
  by (induction p acc rule: oc_sum.induct) simp_all

lemma oc_fold_checksum: "oc_fold (sum16 p i) = net_checksum p i"
  by (simp add: oc_fold_def net_checksum_def)

definition tcp_pseudo_header :: "ipv4_addr \<Rightarrow> ipv4_addr \<Rightarrow> u16 \<Rightarrow> u8 list" where
  "tcp_pseudo_header src dst n = le_bytes 4 src @ le_bytes 4 dst @ [0, 6] @ le_bytes 2 (htons n)"

lemma le_bytes_htons: "le_bytes 2 (htons n) = [ucast (drop_bit 8 n), ucast n]"
proof -
  have "(ucast (drop_bit 8 (htons n)) :: u8) = ucast n" "(ucast (htons n) :: u8) = ucast (drop_bit 8 n)"
    unfolding htons_def by (rule bit_word_eqI, auto simp: bit_simps)+
  then show ?thesis by (simp add: le_bytes_def upt_rec [of _ 2] numeral_2_eq_2)
qed

lemma tcp_checksum_reference:
  "tcp_checksum src dst seg = net_checksum (tcp_pseudo_header src dst (of_nat (length seg)) @ seg) 0"
proof -
  have "sum16 (tcp_pseudo_header src dst n @ seg) 0 =
      sum16 seg (sum16 [0, 6, ucast (drop_bit 8 n), ucast n] (sum16 (le_bytes 4 dst) (sum16 (le_bytes 4 src) 0)))" for n
    unfolding tcp_pseudo_header_def le_bytes_htons append_assoc by (simp add: sum16_append)
  then show ?thesis
    unfolding tcp_checksum_def Let_def oc_sum_sum16 oc_fold_checksum by (simp add: net_checksum_def)
qed

lemma nsum16_small: "length xs \<le> 65535 \<Longrightarrow> nsum16 xs \<le> 65535 * 32768"
  using nsum16_bound [of xs] by (rule order_trans) simp

lemma tcp_header_split:
  "\<exists>pre. even (length pre) \<and> length pre = 16 \<and>
     (\<forall>c. tcp_header sp dp seq ack fl c = pre @ le_bytes 2 c @ [0, 0])"
  unfolding tcp_header_def by (rule exI [of _ "le_bytes 2 (htons sp) @ le_bytes 2 (htons dp) @ le_bytes 4 (htonl seq) @
     le_bytes 4 (if fl AND TCP_FLAG_ACK \<noteq> 0 then htonl ack else 0) @ [0x50, fl] @ le_bytes 2 (htons 8192)"]) simp

text \<open>C31: the TCP checksum is the Internet checksum of the pseudo-header followed by the segment, and a segment that carries it
  verifies: the checksum over pseudo-header and finished segment is zero.\<close>

theorem tcp_checksum_verifies:
  assumes "length payload \<le> 65515"
  shows "tcp_checksum src dst (tcp_header sp dp seq ack fl 0 @ payload) =
           net_checksum (tcp_pseudo_header src dst (of_nat (20 + length payload)) @ tcp_header sp dp seq ack fl 0 @ payload) 0 \<and>
         net_checksum (tcp_pseudo_header src dst (of_nat (20 + length payload)) @
           tcp_header sp dp seq ack fl (tcp_checksum src dst (tcp_header sp dp seq ack fl 0 @ payload)) @ payload) 0 = 0"
proof -
  obtain pre where pre: "even (length pre)" "length pre = 16" "\<And>c. tcp_header sp dp seq ack fl c = pre @ le_bytes 2 c @ [0, 0]"
    using tcp_header_split [of sp dp seq ack fl] by blast
  let ?ps = "tcp_pseudo_header src dst (of_nat (20 + length payload))"
  have l: "length (tcp_header sp dp seq ack fl 0 @ payload) = 20 + length payload" by (simp add: pre)
  have r: "tcp_checksum src dst (tcp_header sp dp seq ack fl 0 @ payload) = net_checksum (?ps @ tcp_header sp dp seq ack fl 0 @ payload) 0"
    unfolding tcp_checksum_reference l ..
  have z: "le_bytes 2 (0 :: u16) = [0, 0]" by (simp add: le_bytes_def upt_rec [of _ 2] numeral_2_eq_2)
  have "even (length (?ps @ pre))" by (simp add: tcp_pseudo_header_def pre)
  moreover have "unat (0 :: u32) + nsum16 (?ps @ pre) + nsum16 ([0, 0] @ payload) + 65535 < 2 ^ 32"
    using nsum16_small [of "?ps @ pre"] nsum16_small [of "[0, 0] @ payload"] assms by (simp add: tcp_pseudo_header_def pre)
  ultimately have "net_checksum ((?ps @ pre) @ le_bytes 2 (net_checksum ((?ps @ pre) @ [0, 0] @ [0, 0] @ payload) 0) @ [0, 0] @ payload) 0 = 0"
    by (rule checksum_field_verifies)
  with r show ?thesis by (simp add: pre z)
qed

theorem tcp_checksum_verifies_witness:
  "net_checksum (tcp_pseudo_header 1 2 (of_nat 22) @
     tcp_header 3 4 5 6 16 (tcp_checksum 1 2 (tcp_header 3 4 5 6 16 0 @ [7, 8])) @ [7, 8]) 0 = 0"
  using tcp_checksum_verifies [of "[7, 8]" 1 2 3 4 5 6 16, THEN conjunct2] by simp

section \<open>Receiving\<close>

lemma nb_bytes_raw: "nb_bytes nb p = xs @ ys \<Longrightarrow> map (\<lambda>i. netbuf_raw p (nb_addr nb p + int (length xs) + int i)) [0..<length ys] = ys"
proof -
  assume a: "nb_bytes nb p = xs @ ys"
  then have l: "unat (nb_len (netbuf_pool p nb)) = length xs + length ys" using length_nb_bytes [of nb p] by simp
  have "load_bytes (nb_data (netbuf_pool p nb)) (length xs) p @ load_bytes (nb_data (netbuf_pool p nb) + int (length xs)) (length ys) p = xs @ ys"
    using a unfolding nb_bytes_def l load_append .
  then show ?thesis by (simp add: load_bytes_def nb_addr_def ac_simps)
qed

lemma udp_receive_socket:
  assumes b: "nb_bytes nb (nbs s) = udp_header sp dp (8 + of_nat (length data)) c @ data" and l: "length data \<le> 1500"
    and f: "udp_find dp s = Some j" "b_cb (bind_table s j) = SOCKET_CB"
  shows "udp_receive nb src s = socket_udp_dispatch src sp data s"
proof -
  let ?h = "udp_header sp dp (8 + of_nat (length data)) c"
  have h: "length ?h = 8" by (simp add: udp_header_def)
  have u: "unat (8 + of_nat (length data) :: u16) = 8 + length data" "unat (of_nat (length data) :: u16) = length data"
    using l unat_add_u16 [of 8 "length data"] by (simp_all add: unat_of_nat_u16)
  have fs: "field (?h @ data) 0 2 = htons sp" "field (?h @ data) 2 2 = htons dp" "field (?h @ data) 4 2 = htons (8 + of_nat (length data))"
    by (simp_all add: udp_header_def field_simps')
  have d: "map (\<lambda>i. netbuf_raw (nbs s) (nb_addr nb (nbs s) + 8 + int i)) [0..<length data] = data"
    using nb_bytes_raw [OF b] h by simp
  show ?thesis unfolding udp_receive_def b Let_def fs ntohs_htons f by (simp add: h u d f)
qed

lemma ipv4_header_split:
  "\<exists>pre post. even (length pre) \<and> length pre = 10 \<and> length post = 8 \<and>
     (\<forall>c. ipv4_header tot ident proto c src dst = pre @ le_bytes 2 c @ post)"
  unfolding ipv4_header_def
  by (rule exI [of _ "[0x45, 0] @ le_bytes 2 (htons tot) @ le_bytes 2 (htons ident) @ le_bytes 2 (htons 0x4000) @ [64, proto]"],
      rule exI [of _ "le_bytes 4 src @ le_bytes 4 dst"]) simp

lemma ipv4_header_verifies:
  "net_checksum (ipv4_header tot ident proto (net_checksum (ipv4_header tot ident proto 0 src dst) 0) src dst) 0 = 0"
proof -
  obtain pre post where p: "even (length pre)" "length pre = 10" "length post = 8"
    "\<And>c. ipv4_header tot ident proto c src dst = pre @ le_bytes 2 c @ post"
    using ipv4_header_split [of tot ident proto src dst] by blast
  have z: "le_bytes 2 (0 :: u16) = [0, 0]" by (simp add: le_bytes_def upt_rec [of _ 2] numeral_2_eq_2)
  have "unat (0 :: u32) + nsum16 pre + nsum16 post + 65535 < 2 ^ 32"
    using nsum16_small [of pre] nsum16_small [of post] p by simp
  from checksum_field_verifies [OF p(1) this] show ?thesis by (simp add: p(4) z)
qed

lemma ipv4_receive_udp:
  assumes b: "nb_bytes nb (nbs s) =
      ipv4_header tot ident 17 (net_checksum (ipv4_header tot ident 17 0 src dst) 0) src dst @ pl"
    and t: "tot = 20 + of_nat (length pl)" "length pl \<le> 2000" and d: "dst = d_ip (devs s dev)"
  shows "\<exists>p. ipv4_receive drv dev nb s = udp_receive nb src (s\<lparr>nbs := p\<rparr>) \<and> nb_bytes nb p = pl"
proof -
  let ?c = "net_checksum (ipv4_header tot ident 17 0 src dst) 0"
  let ?h = "ipv4_header tot ident 17 ?c src dst"
  have h: "length ?h = 20" by (simp add: ipv4_header_def)
  have fs: "(?h @ pl) ! 0 = 0x45" "(?h @ pl) ! 9 = 17" "field (?h @ pl) 12 4 = src" "field (?h @ pl) 16 4 = dst"
    "field (?h @ pl) 2 2 = htons tot"
    by (simp_all add: ipv4_header_def field_simps' nth_append nth_Cons')
  define p1 where "p1 = netbuf_pull nb 20 (upd_nb nb (\<lambda>b. b\<lparr>net_offset := data_offset nb s\<rparr>) (nbs s))"
  have "nb_bytes nb (upd_nb nb (\<lambda>b. b\<lparr>net_offset := v\<rparr>) (nbs s)) = nb_bytes nb (nbs s)" for v
    by (simp add: nb_bytes_def)
  then have p1: "nb_bytes nb p1 = pl" using h by (simp add: p1_def pull_bytes b)
  then have len: "unat (nb_len (netbuf_pool p1 nb)) = length pl" using length_nb_bytes [of nb p1] by simp
  have "unat (tot - 20) = length pl" using t by (simp add: unat_of_nat_u16)
  then have ng: "\<not> nb_len (netbuf_pool p1 nb) > tot - 20" using len by (simp add: word_less_nat_alt)
  have v: "drop_bit 4 (0x45 :: u8) AND 0x0F = 4" "unat ((0x45 :: u8) AND 0x0F) * 4 = 20" by simp_all
  have "net_checksum (take 20 (?h @ pl)) 0 = 0" using ipv4_header_verifies [of tot ident 17 src dst] h by simp
  then have "ipv4_receive drv dev nb s = udp_receive nb src (s\<lparr>nbs := p1\<rparr>)"
    unfolding ipv4_receive_def b Let_def fs v ntohs_htons using h ng
    by (simp add: ipv4_equal_def d upd_nbs_def p1_def data_offset_def)
  with p1 show ?thesis by blast
qed

lemma ethernet_receive_ipv4:
  assumes b: "nb_bytes nb (nbs s) = eth_header (d_mac (devs s dev)) src 0x0800 @ pl"
  shows "\<exists>p f. ethernet_receive drv dev nb s = ipv4_receive drv dev nb (upd_dev dev f (s\<lparr>nbs := p\<rparr>)) \<and>
    nb_bytes nb p = pl \<and> (\<forall>x. d_ip (f x) = d_ip x)"
proof -
  let ?h = "eth_header (d_mac (devs s dev)) src 0x0800"
  have h: "length ?h = 14" by (simp add: eth_header_def)
  have fs: "field (?h @ pl) 0 6 = d_mac (devs s dev)" "field (?h @ pl) 12 2 = htons 0x0800"
    by (simp_all add: eth_header_def field_simps')
  define p1 where "p1 = netbuf_pull nb 14 (upd_nb nb (\<lambda>b. b\<lparr>mac_offset := data_offset nb s\<rparr>) (nbs s))"
  have "nb_bytes nb (upd_nb nb (\<lambda>b. b\<lparr>mac_offset := v\<rparr>) (nbs s)) = nb_bytes nb (nbs s)" for v
    by (simp add: nb_bytes_def)
  then have p1: "nb_bytes nb p1 = pl" using h by (simp add: p1_def pull_bytes b)
  let ?f = "\<lambda>d. d\<lparr>rx_packets := rx_packets d + 1, rx_bytes := rx_bytes d + ucast (nb_len (netbuf_pool p1 nb))\<rparr>"
  have "ethernet_receive drv dev nb s = ipv4_receive drv dev nb (upd_dev dev ?f (s\<lparr>nbs := p1\<rparr>))"
    unfolding ethernet_receive_def b Let_def fs ntohs_htons using h
    by (simp add: mac_equal_def upd_nbs_def p1_def)
  with p1 show ?thesis by (intro exI [of _ p1] exI [of _ ?f]) simp
qed

text \<open>What a datagram leaves behind: the tables that select the receiver are those of \<open>s\<close>, the sockets those after the dispatch.\<close>

definition dispatched :: "ipv4_addr \<Rightarrow> u16 \<Rightarrow> u8 list \<Rightarrow> net \<Rightarrow> net \<Rightarrow> bool" where
  "dispatched src sp data s s' \<longleftrightarrow> socket_table s' = socket_table (socket_udp_dispatch src sp data s)"

lemma dispatch_cong:
  "port_map s' = port_map s \<Longrightarrow> socket_table s' = socket_table s \<Longrightarrow>
     socket_table (socket_udp_dispatch src sp data s') = socket_table (socket_udp_dispatch src sp data s)"
  by (simp add: socket_udp_dispatch_def upd_sock_def split: option.split)

lemma udp_find_cong: "bind_table s' = bind_table s \<Longrightarrow> udp_find p s' = udp_find p s"
  by (simp add: udp_find_def)

definition udp_frame :: "net_device \<Rightarrow> u16 \<Rightarrow> ipv4_addr \<Rightarrow> u16 \<Rightarrow> u16 \<Rightarrow> u16 \<Rightarrow> u8 list \<Rightarrow> u8 list" where
  "udp_frame d ident dst sp dp c data =
     (let tot = 20 + of_nat (8 + length data);
          ip = ipv4_header tot ident 17 (net_checksum (ipv4_header tot ident 17 0 (d_ip d) dst) 0) (d_ip d) dst
      in eth_header (d_mac d) (d_mac d) 0x0800 @ ip @ udp_header sp dp (8 + of_nat (length data)) c @ data)"

lemma receive_udp_frame:
  assumes b: "nb_bytes nb (nbs s) = udp_frame (devs s dev) ident (d_ip (devs s dev)) sp dp c data" and l: "length data \<le> 1500"
    and f: "udp_find dp s = Some j" "b_cb (bind_table s j) = SOCKET_CB"
  shows "dispatched (d_ip (devs s dev)) sp data s (ethernet_receive drv dev nb s)"
proof -
  let ?ip = "d_ip (devs s dev)"
  define tot :: u16 where "tot = 20 + of_nat (8 + length data)"
  let ?u = "udp_header sp dp (8 + of_nat (length data)) c @ data"
  let ?h = "ipv4_header tot ident 17 (net_checksum (ipv4_header tot ident 17 0 ?ip ?ip) 0) ?ip ?ip"
  obtain p g where 1: "ethernet_receive drv dev nb s = ipv4_receive drv dev nb (upd_dev dev g (s\<lparr>nbs := p\<rparr>))"
      "nb_bytes nb p = ?h @ ?u" "\<forall>x. d_ip (g x) = d_ip x"
    using ethernet_receive_ipv4 [OF b [unfolded udp_frame_def Let_def]] unfolding tot_def by blast
  let ?s1 = "upd_dev dev g (s\<lparr>nbs := p\<rparr>)"
  have "nb_bytes nb (nbs ?s1) = ?h @ ?u" "?ip = d_ip (devs ?s1 dev)" "tot = 20 + of_nat (length ?u)" "length ?u \<le> 2000"
    using 1 l by (simp_all add: upd_dev_def tot_def udp_header_def)
  then obtain q where 2: "ipv4_receive drv dev nb ?s1 = udp_receive nb ?ip (?s1\<lparr>nbs := q\<rparr>)" "nb_bytes nb q = ?u"
    using ipv4_receive_udp [of nb ?s1 tot ident ?ip ?ip ?u dev drv] by blast
  let ?s2 = "?s1\<lparr>nbs := q\<rparr>"
  have t: "bind_table ?s2 = bind_table s" "port_map ?s2 = port_map s" "socket_table ?s2 = socket_table s" by (simp_all add: upd_dev_def)
  then have "udp_receive nb ?ip ?s2 = socket_udp_dispatch ?ip sp data ?s2"
    using udp_receive_socket [of nb ?s2 sp dp data c j] 2(2) l f udp_find_cong [OF t(1)] by simp
  then show ?thesis using 1(1) 2(1) dispatch_cong [OF t(2,3)] by (simp add: dispatched_def)
qed

section \<open>Sending over the loopback device\<close>

text \<open>The state before a datagram of \<open>data\<close> to port \<open>dp\<close>: at least \<open>k\<close> buffers are free and the port belongs to the sockets.\<close>

definition lo_ready :: "nat \<Rightarrow> nat \<Rightarrow> u16 \<Rightarrow> net \<Rightarrow> bool" where
  "lo_ready k dev dp s \<longleftrightarrow> pool_inv (nbs s) \<and> k \<le> card (free_bufs (nbs s)) \<and> d_ops (devs s dev) = Some LO_OPS \<and>
     (\<exists>j. udp_find dp s = Some j \<and> b_cb (bind_table s j) = SOCKET_CB)"

text \<open>The loopback device is configured: it has a unicast address of its own subnet that resolves to its hardware address.\<close>

definition lo_configured :: "nat \<Rightarrow> net \<Rightarrow> bool" where
  "lo_configured dev s \<longleftrightarrow> d_netmask (devs s dev) \<noteq> 0 \<and> d_ip (devs s dev) \<noteq> IPV4_BROADCAST \<and>
     d_ip (devs s dev) \<noteq> d_ip (devs s dev) OR NOT (d_netmask (devs s dev)) \<and>
     arp_cache_lookup (d_ip (devs s dev)) s = Some (d_mac (devs s dev))"

lemma free_card_finite: "finite (free_bufs p)"
  by (rule finite_subset [of _ "{..<NETBUF_POOL_SIZE}"]) (auto simp: free_bufs_def free_path_def)

lemma alloc_some:
  assumes "pool_inv p" "1 \<le> card (free_bufs p)"
  obtains nb p' where "netbuf_alloc p = Some (nb, p')" "nb_bytes nb p' = []" "pool_inv p'" "card (free_bufs p') = card (free_bufs p) - 1"
    "nb_len (netbuf_pool p' nb) = 0"
proof -
  have "netbuf_alloc p \<noteq> None" using nb_pool.alloc_none [OF assms(1)] assms(2) by fastforce
  then obtain nb p' where a: "netbuf_alloc p = Some (nb, p')" by auto
  have "nb_len (netbuf_pool p' nb) = 0" using a by (auto simp: netbuf_alloc_def split: option.splits)
  moreover then have "nb_bytes nb p' = []" by (simp add: nb_bytes_def load_bytes_def)
  moreover have "pool_inv p'" "card (free_bufs p') = card (free_bufs p) - 1"
    using nb_pool.alloc_some [OF assms(1) a] free_card_finite [of p] by (auto simp: card_Diff_singleton)
  ultimately show thesis using that a by blast
qed

lemma dispatched_free: "dispatched src sp data s s' \<Longrightarrow> dispatched src sp data s (upd_nbs g s')"
  "dispatched src sp data s s' \<Longrightarrow> dispatched src sp data s (upd_dev d f s')"
  by (simp_all add: dispatched_def upd_nbs_def upd_dev_def)

lemma dispatched_cong:
  "port_map s1 = port_map s \<Longrightarrow> socket_table s1 = socket_table s \<Longrightarrow> dispatched src sp data s1 s' = dispatched src sp data s s'"
  using dispatch_cong [of s1 s] by (simp add: dispatched_def)

lemma lo_send_dispatches:
  assumes b: "nb_bytes nb (nbs s) = udp_frame (devs s dev) ident (d_ip (devs s dev)) sp dp c data" and l: "length data \<le> 1500"
    and r: "lo_ready 1 dev dp s"
  shows "fst (lo_send drv dev nb s) = 0 \<and> dispatched (d_ip (devs s dev)) sp data s (snd (lo_send drv dev nb s))"
proof -
  have "pool_inv (nbs s)" "1 \<le> card (free_bufs (nbs s))" using r by (simp_all add: lo_ready_def)
  then obtain rx p where a: "netbuf_alloc (nbs s) = Some (rx, p)" "nb_bytes rx p = []" "nb_len (netbuf_pool p rx) = 0"
    by (rule alloc_some)
  let ?fr = "udp_frame (devs s dev) ident (d_ip (devs s dev)) sp dp c data"
  let ?p1 = "upd_nb rx (\<lambda>b. b\<lparr>nb_dev := Some dev\<rparr>) (put_bytes rx ?fr p)"
  have len: "length ?fr = 42 + length data" by (simp add: udp_frame_def Let_def eth_header_def ipv4_header_def udp_header_def)
  then have n: "nb_len (netbuf_pool (nbs s) nb) \<noteq> 0" using length_nb_bytes [of nb "nbs s"] b by auto
  have "nb_bytes rx (put_bytes rx ?fr p) = ?fr" using put_bytes [of p rx ?fr] a len l by simp
  then have b1: "nb_bytes rx (nbs (s\<lparr>nbs := ?p1\<rparr>)) = ?fr" by (simp add: nb_bytes_def)
  obtain j where j: "udp_find dp s = Some j" "b_cb (bind_table s j) = SOCKET_CB" using r by (auto simp: lo_ready_def)
  have d: "dispatched (d_ip (devs s dev)) sp data s (ethernet_receive drv dev rx (s\<lparr>nbs := ?p1\<rparr>))"
    using receive_udp_frame [of rx "s\<lparr>nbs := ?p1\<rparr>" dev ident sp dp c data j drv] b1 l j
    by (simp add: udp_find_def dispatched_cong [of "s\<lparr>nbs := ?p1\<rparr>" s])
  show ?thesis using n a b dispatched_free(1) [OF d] by (simp add: lo_send_def)
qed

lemma ethernet_send_dispatches:
  assumes b: "eth_header (d_mac (devs s dev)) (d_mac (devs s dev)) 0x0800 @ nb_bytes nb (nbs s) =
      udp_frame (devs s dev) ident (d_ip (devs s dev)) sp dp c data" and l: "length data \<le> 1500"
    and r: "lo_ready 1 dev dp s"
  shows "fst (ethernet_send_frame (dev_ops (Suc n) nic) dev nb (d_mac (devs s dev)) 0x0800 s) = 0 \<and>
    dispatched (d_ip (devs s dev)) sp data s (snd (ethernet_send_frame (dev_ops (Suc n) nic) dev nb (d_mac (devs s dev)) 0x0800 s))"
proof -
  let ?h = "eth_header (d_mac (devs s dev)) (d_mac (devs s dev)) 0x0800"
  let ?s1 = "upd_nbs (push_bytes nb ?h) s"
  let ?s2 = "upd_nbs (upd_nb nb (\<lambda>b. b\<lparr>mac_offset := data_offset nb ?s1\<rparr>)) ?s1"
  have f: "devs ?s2 = devs s" "port_map ?s2 = port_map s" "socket_table ?s2 = socket_table s" "bind_table ?s2 = bind_table s"
    by (simp_all add: upd_nbs_def)
  have "length (?h @ nb_bytes nb (nbs s)) = 42 + length data"
    using b by (simp add: udp_frame_def Let_def eth_header_def ipv4_header_def udp_header_def)
  then have "nb_bytes nb (push_bytes nb ?h (nbs s)) = ?h @ nb_bytes nb (nbs s)"
    using l by (intro push_bytes) (simp add: eth_header_def)
  then have b2: "nb_bytes nb (nbs ?s2) = udp_frame (devs ?s2 dev) ident (d_ip (devs ?s2 dev)) sp dp c data"
    using b by (simp add: upd_nbs_def nb_bytes_def)
  have "same_pool s ?s2" using pool_frame.R_push pool_frame.R_mac pool_frame.R_trans by blast
  then have r2: "lo_ready 1 dev dp ?s2" using r f by (simp add: lo_ready_def same_pool_def udp_find_def)
  note d = lo_send_dispatches [OF b2 l r2, of "nic\<lparr>drv_send := dev_send n nic\<rparr>"]
  have ds: "drv_send (dev_ops (Suc n) nic) dev nb ?s2 = lo_send (nic\<lparr>drv_send := dev_send n nic\<rparr>) dev nb ?s2"
    using r2 by (simp add: dev_ops_def lo_ready_def)
  obtain ret s3 where 3: "lo_send (nic\<lparr>drv_send := dev_send n nic\<rparr>) dev nb ?s2 = (ret, s3)" by fastforce
  show ?thesis using d r unfolding ethernet_send_frame_def Let_def ds 3
    by (simp add: lo_ready_def dispatched_free f dispatched_cong [OF f(2,3)])
qed

lemma unat_id: "of_nat (unat w) = w" for w :: "'a::len word"
  by simp

lemma arp_lookup_cong: "arp_table s' = arp_table s \<Longrightarrow> arp_cache_lookup ip s' = arp_cache_lookup ip s"
  by (simp add: arp_cache_lookup_def split: option.split)

lemma ipv4_send_dispatches:
  assumes b: "nb_bytes nb (nbs s) = udp_header sp dp (8 + of_nat (length data)) c @ data" and l: "length data \<le> 1500"
    and r: "lo_ready 1 dev dp s" and cf: "lo_configured dev s"
  shows "fst (ipv4_send (dev_ops (Suc n) nic) dev nb (d_ip (devs s dev)) 17 s) = 0 \<and>
    dispatched (d_ip (devs s dev)) sp data s (snd (ipv4_send (dev_ops (Suc n) nic) dev nb (d_ip (devs s dev)) 17 s))"
proof -
  let ?d = "devs s dev"
  have len: "length (nb_bytes nb (nbs s)) = 8 + length data" by (simp add: b udp_header_def)
  then have nl: "nb_len (netbuf_pool (nbs s) nb) = of_nat (8 + length data)"
    unfolding length_nb_bytes by (metis unat_id)
  define tot :: u16 where "tot = 20 + of_nat (8 + length data)"
  let ?h = "ipv4_header tot (ip_id_counter s) 17 (net_checksum (ipv4_header tot (ip_id_counter s) 17 0 (d_ip ?d) (d_ip ?d)) 0) (d_ip ?d) (d_ip ?d)"
  let ?s1 = "(upd_nbs (push_bytes nb ?h) s)\<lparr>ip_id_counter := ip_id_counter s + 1\<rparr>"
  define s2 where "s2 = upd_nbs (upd_nb nb (\<lambda>b. b\<lparr>net_offset := data_offset nb ?s1\<rparr>)) ?s1"
  have f: "devs s2 = devs s" "port_map s2 = port_map s" "socket_table s2 = socket_table s" "bind_table s2 = bind_table s"
    "arp_table s2 = arp_table s" by (simp_all add: s2_def upd_nbs_def)
  have "nb_bytes nb (push_bytes nb ?h (nbs s)) = ?h @ nb_bytes nb (nbs s)"
    using l len by (intro push_bytes) (simp add: ipv4_header_def)
  then have "nb_bytes nb (nbs s2) = ?h @ udp_header sp dp (8 + of_nat (length data)) c @ data"
    using b by (simp add: s2_def upd_nbs_def nb_bytes_def)
  then have b2: "eth_header (d_mac (devs s2 dev)) (d_mac (devs s2 dev)) 0x0800 @ nb_bytes nb (nbs s2) =
      udp_frame (devs s2 dev) (ip_id_counter s) (d_ip (devs s2 dev)) sp dp c data"
    unfolding f by (simp add: udp_frame_def Let_def tot_def)
  have "same_pool s s2" unfolding s2_def using pool_frame.R_push pool_frame.R_id pool_frame.R_net pool_frame.R_trans by meson
  then have r2: "lo_ready 1 dev dp s2" using r f by (simp add: lo_ready_def same_pool_def udp_find_def)
  have "next_hop ?d (d_ip ?d) = d_ip ?d" using cf by (simp add: next_hop_def lo_configured_def)
  then have a: "arp_resolve (dev_ops (Suc n) nic) dev (next_hop ?d (d_ip ?d)) s2 = (Some (d_mac ?d), s2)"
    using cf arp_lookup_cong [OF f(5)] by (simp add: arp_resolve_def lo_configured_def)
  have "ipv4_send (dev_ops (Suc n) nic) dev nb (d_ip ?d) 17 s =
      (if ipv4_equal (d_ip ?d) IPV4_BROADCAST \<or> ipv4_equal (d_ip ?d) (d_ip ?d OR NOT (d_netmask ?d))
       then ethernet_send_frame (dev_ops (Suc n) nic) dev nb MAC_BROADCAST ETHERTYPE_IPV4 s2
       else case arp_resolve (dev_ops (Suc n) nic) dev (next_hop ?d (d_ip ?d)) s2 of (None, s3) \<Rightarrow> (- 1, s3)
         | (Some m, s3) \<Rightarrow> ethernet_send_frame (dev_ops (Suc n) nic) dev nb m ETHERTYPE_IPV4 s3)"
    unfolding ipv4_send_def Let_def nl tot_def [symmetric] s2_def ..
  also have "\<dots> = ethernet_send_frame (dev_ops (Suc n) nic) dev nb (d_mac (devs s2 dev)) 0x0800 s2"
    using cf unfolding a f(1) by (simp add: ipv4_equal_def lo_configured_def)
  finally show ?thesis using ethernet_send_dispatches [OF b2 l r2, of n nic] unfolding f(1) dispatched_cong [OF f(2,3)] by simp
qed

lemma store_patch:
  assumes "nb_bytes nb p = xs @ old @ ys" "length new = length old"
  shows "nb_bytes nb (store_bytes (nb_addr nb p + int (length xs)) new p) = xs @ new @ ys"
proof -
  let ?a = "nb_data (netbuf_pool p nb)" let ?m = "length xs" let ?k = "length old"
  have l: "unat (nb_len (netbuf_pool p nb)) = ?m + (?k + length ys)" using assms(1) length_nb_bytes [of nb p] by simp
  have s: "load_bytes ?a (?m + (?k + length ys)) q =
      load_bytes ?a ?m q @ load_bytes (?a + int ?m) ?k q @ load_bytes (?a + int ?m + int ?k) (length ys) q" for q
    unfolding load_append ..
  have "load_bytes ?a ?m p @ load_bytes (?a + int ?m) ?k p @ load_bytes (?a + int ?m + int ?k) (length ys) p = xs @ old @ ys"
    using assms(1) unfolding nb_bytes_def l s .
  then have "load_bytes ?a ?m p = xs" "load_bytes (?a + int ?m + int ?k) (length ys) p = ys" by simp_all
  then show ?thesis using load_store_same [of "?a + int ?m" new p] assms(2)
    unfolding nb_bytes_def store_simps l s nb_addr_def by (simp add: load_store_other)
qed

lemma udp_send_dispatches:
  assumes l: "length data \<le> 1500" and r: "lo_ready 2 dev dp s" and cf: "lo_configured dev s"
  shows "fst (udp_send (dev_ops (Suc n) nic) dev (d_ip (devs s dev)) sp dp data s) = 0 \<and>
    dispatched (d_ip (devs s dev)) sp data s (snd (udp_send (dev_ops (Suc n) nic) dev (d_ip (devs s dev)) sp dp data s))"
proof -
  have "pool_inv (nbs s)" "1 \<le> card (free_bufs (nbs s))" using r by (simp_all add: lo_ready_def)
  then obtain nb p where a: "netbuf_alloc (nbs s) = Some (nb, p)" "nb_bytes nb p = []" "nb_len (netbuf_pool p nb) = 0"
      "pool_inv p" "card (free_bufs p) = card (free_bufs (nbs s)) - 1"
    by (rule alloc_some)
  let ?len = "8 + of_nat (length data) :: u16"
  let ?p1 = "put_bytes nb data (netbuf_reserve nb NETBUF_HEADROOM p)"
  let ?p2 = "push_bytes nb (udp_header sp dp ?len 0) ?p1"
  let ?c0 = "net_checksum (nb_bytes nb ?p2) (sum16 (udp_pseudo_header (d_ip (devs s dev)) (d_ip (devs s dev)) ?len) 0)"
  define c where "c = (if ?c0 = 0 then 0xFFFF else ?c0)"
  let ?p3 = "store_bytes (nb_addr nb ?p2 + 6) (le_bytes 2 c) ?p2"
  let ?s1 = "s\<lparr>nbs := ?p3\<rparr>"
  define s2 where "s2 = upd_nbs (upd_nb nb (\<lambda>b. b\<lparr>transport_offset := data_offset nb ?s1\<rparr>)) ?s1"
  have f: "devs s2 = devs s" "port_map s2 = port_map s" "socket_table s2 = socket_table s" "bind_table s2 = bind_table s"
    "arp_table s2 = arp_table s" by (simp_all add: s2_def upd_nbs_def)
  have h: "udp_header sp dp ?len x = (le_bytes 2 (htons sp) @ le_bytes 2 (htons dp) @ le_bytes 2 (htons ?len)) @ le_bytes 2 x" for x
    by (simp add: udp_header_def)
  have "nb_bytes nb (netbuf_reserve nb NETBUF_HEADROOM p) = []" "nb_len (netbuf_pool (netbuf_reserve nb NETBUF_HEADROOM p) nb) = 0"
    using a(3) by (simp_all add: nb_bytes_def load_bytes_def netbuf_reserve_def)
  then have "nb_bytes nb ?p1 = data" using put_bytes [of "netbuf_reserve nb NETBUF_HEADROOM p" nb data] l by simp
  then have "nb_bytes nb ?p2 = udp_header sp dp ?len 0 @ data"
    using l length_nb_bytes [of nb ?p1] by (subst push_bytes) (simp_all add: udp_header_def)
  then have "nb_bytes nb ?p3 = udp_header sp dp ?len c @ data"
    using store_patch [of nb ?p2 "le_bytes 2 (htons sp) @ le_bytes 2 (htons dp) @ le_bytes 2 (htons ?len)" "le_bytes 2 (0::u16)" data "le_bytes 2 c"]
    by (simp add: h)
  then have b: "nb_bytes nb (nbs s2) = udp_header sp dp ?len c @ data" by (simp add: s2_def upd_nbs_def nb_bytes_def)
  have "same_pool (s\<lparr>nbs := p\<rparr>) ?s1" by (intro pool_frame.pool_steps pool_frame.R_refl)
  then have "same_pool (s\<lparr>nbs := p\<rparr>) s2" unfolding s2_def by (rule pool_frame.R_trans [OF _ pool_frame.R_transport])
  moreover have "1 \<le> card (free_bufs p)" using r a(5) unfolding lo_ready_def by linarith
  ultimately have "lo_ready 1 dev dp s2" using r f a(4) by (simp add: lo_ready_def same_pool_def udp_find_def)
  moreover have "lo_configured dev s2" using cf f arp_lookup_cong [OF f(5)] by (simp add: lo_configured_def)
  ultimately have d: "fst (ipv4_send (dev_ops (Suc n) nic) dev nb (d_ip (devs s dev)) 17 s2) = 0 \<and>
    dispatched (d_ip (devs s dev)) sp data s (snd (ipv4_send (dev_ops (Suc n) nic) dev nb (d_ip (devs s dev)) 17 s2))"
    using ipv4_send_dispatches [OF b l, of dev n nic] unfolding f(1) dispatched_cong [OF f(2,3)] by simp
  have "udp_send (dev_ops (Suc n) nic) dev (d_ip (devs s dev)) sp dp data s =
      (case ipv4_send (dev_ops (Suc n) nic) dev nb (d_ip (devs s dev)) 17 s2 of (ret, s3) \<Rightarrow> (ret, upd_nbs (netbuf_free nb) s3))"
    unfolding udp_send_def a(1) option.case prod.case Let_def s2_def c_def ..
  with d show ?thesis by (simp add: case_prod_beta dispatched_free)
qed

text \<open>The receiver of a datagram: the first mapped socket that is bound, which must be the owner of the port.\<close>

definition first_bound :: "net \<Rightarrow> nat option" where
  "first_bound s = first_slot (\<lambda>i. pm_active (port_map s i) \<and> s_state (socket_table s (pm_sock (port_map s i))) \<ge> SOCK_STATE_BOUND) SOCKET_MAX"

lemma dispatched_ring:
  assumes "dispatched src sp data s s'" "first_bound s = Some k" "pm_sock (port_map s k) = r"
  shows "s_rx_ring (socket_table s' r) = snd (rx_ring_push data (sockaddr_in_make src sp) (s_rx_ring (socket_table s r)))"
  using assms by (simp add: dispatched_def socket_udp_dispatch_def first_bound_def upd_sock_def)

text \<open>C3: a datagram sent to the own address goes all the way.  On a configured loopback device with two free buffers, if a bound
  socket sends up to 1472 bytes to the device's address and to a port of the sockets, the call returns the number of bytes, and the
  first bound socket finds exactly those bytes, with the sender's address and port, at the end of its queue.\<close>

theorem loopback_delivers:
  assumes "socket_get fd s = Some i" "s_dev (socket_table s i) = None" "s_state (socket_table s i) \<ge> SOCK_STATE_BOUND"
    and "net_device_get_default s = Some dev" "lo_configured dev s" "lo_ready 2 dev dp s"
    and "data \<noteq> []" "length data \<le> 1472" "first_bound s = Some k" "pm_sock (port_map s k) = r"
    and "sk_inv (s_rx_ring (socket_table s r))" "length (sk_datagrams (s_rx_ring (socket_table s r))) < 16"
  shows "case sock_sendto (dev_ops (Suc n) nic) fd (Some data) (Some (sockaddr_in_make (d_ip (devs s dev)) dp)) s of
    (ret, s') \<Rightarrow> ret = int (length data) \<and>
      sk_datagrams (s_rx_ring (socket_table s' r)) = sk_datagrams (s_rx_ring (socket_table s r)) @
        [(data, sockaddr_in_make (d_ip (devs s dev)) (ntohs (sin_port (s_local (socket_table s i)))))]"
proof -
  let ?sp = "ntohs (sin_port (s_local (socket_table s i)))"
  have l: "length data \<le> 1500" using assms(8) by simp
  note d = udp_send_dispatches [OF l assms(6,5), of n nic ?sp]
  obtain s' where s': "udp_send (dev_ops (Suc n) nic) dev (d_ip (devs s dev)) ?sp dp data s = (0, s')"
    "dispatched (d_ip (devs s dev)) ?sp data s s'" using d by (metis fst_conv prod.collapse snd_conv)
  have "sk_datagrams (s_rx_ring (socket_table s' r)) =
      sk_datagrams (s_rx_ring (socket_table s r)) @ [(take 1500 data, sockaddr_in_make (d_ip (devs s dev)) ?sp)]"
    unfolding dispatched_ring [OF s'(2) assms(9,10)] using rx_ring_push_spec(2) [OF assms(11)] assms(12) by simp
  moreover have "sock_sendto (dev_ops (Suc n) nic) fd (Some data) (Some (sockaddr_in_make (d_ip (devs s dev)) dp)) s = (int (length data), s')"
    using assms(1-4,7) s'(1) by (simp add: sock_sendto_def sockaddr_in_make_def Let_def)
  ultimately show ?thesis using l by simp
qed

text \<open>A sample: the loopback device is up, and sockets 0 and 1 are bound to the ports 7 and 8.\<close>

definition bound_sock :: "int \<Rightarrow> u16 \<Rightarrow> socket" where
  "bound_sock fd port = blank_sock\<lparr>s_fd := fd, s_state := SOCK_STATE_BOUND, s_local := sockaddr_in_make 0 port\<rparr>"

definition lo_dev :: net_device where
  "lo_dev = blank_dev\<lparr>d_name := ''lo'', d_ops := Some LO_OPS, d_ip := 0x0100007F, d_netmask := 0xFF, link_up := True\<rparr>"

definition two_sockets :: net where
  "two_sockets = blank_net\<lparr>nbs := netbuf_pool_init blank_pool, devs := (\<lambda>_. lo_dev), device_count := 1,
     arp_table := (arp_table blank_net)(0 := \<lparr>arp_ip = 0x0100007F, arp_mac = 0, arp_state = ARP_STATE_RESOLVED\<rparr>),
     bind_table := (bind_table blank_net)(0 := \<lparr>b_port = 7, b_cb = SOCKET_CB, b_active = True\<rparr>,
       1 := \<lparr>b_port = 8, b_cb = SOCKET_CB, b_active = True\<rparr>),
     port_map := (port_map blank_net)(0 := \<lparr>pm_port = 7, pm_sock = 0, pm_active = True\<rparr>,
       1 := \<lparr>pm_port = 8, pm_sock = 1, pm_active = True\<rparr>),
     socket_table := (socket_table blank_net)(0 := bound_sock 0 7, 1 := bound_sock 1 8)\<rparr>"

lemma two_sockets_fields:
  "nbs two_sockets = netbuf_pool_init blank_pool" "devs two_sockets = (\<lambda>_. lo_dev)" "device_count two_sockets = 1"
  "registered_devices two_sockets = (\<lambda>_. 0)"
  "arp_table two_sockets 0 = \<lparr>arp_ip = 0x0100007F, arp_mac = 0, arp_state = ARP_STATE_RESOLVED\<rparr>"
  "bind_table two_sockets 0 = \<lparr>b_port = 7, b_cb = SOCKET_CB, b_active = True\<rparr>"
  "bind_table two_sockets (Suc 0) = \<lparr>b_port = 8, b_cb = SOCKET_CB, b_active = True\<rparr>"
  "port_map two_sockets 0 = \<lparr>pm_port = 7, pm_sock = 0, pm_active = True\<rparr>"
  "port_map two_sockets (Suc 0) = \<lparr>pm_port = 8, pm_sock = 1, pm_active = True\<rparr>"
  "socket_table two_sockets 0 = bound_sock 0 7" "socket_table two_sockets (Suc 0) = bound_sock 1 8"
  by (simp_all add: two_sockets_def blank_net_def)

lemma bound_sock_fields:
  "s_dev (bound_sock fd p) = None" "s_state (bound_sock fd p) = SOCK_STATE_BOUND" "sk_inv (s_rx_ring (bound_sock fd p))"
  "sk_datagrams (s_rx_ring (bound_sock fd p)) = []" "ntohs (sin_port (s_local (bound_sock fd p))) = p"
  by (simp_all add: bound_sock_def blank_sock_def sk_inv_def cring_inv_def sk_datagrams_def ring_contents_def sockaddr_in_make_def)

lemma two_sockets_facts:
  "socket_get 0 two_sockets = Some 0" "s_dev (socket_table two_sockets 0) = None" "s_state (socket_table two_sockets 0) \<ge> SOCK_STATE_BOUND"
  "net_device_get_default two_sockets = Some 0" "first_bound two_sockets = Some 0"
  "pm_sock (port_map two_sockets 0) = 0" "sk_inv (s_rx_ring (socket_table two_sockets 0))"
  "sk_datagrams (s_rx_ring (socket_table two_sockets 0)) = []" "udp_find 7 two_sockets = Some 0" "udp_find 8 two_sockets = Some 1"
  "d_ip (devs two_sockets 0) = 0x0100007F" "ntohs (sin_port (s_local (socket_table two_sockets 0))) = 7"
  by (simp_all add: two_sockets_fields bound_sock_fields socket_get_def net_device_get_default_def first_bound_def first_slot_eq_Some
      udp_find_def lo_dev_def)

lemma two_sockets_owner: "port_map_find 8 two_sockets = Some 1"
proof -
  have "port_map_slot 8 two_sockets = Some 1" by (simp add: port_map_slot_def first_slot_eq_Some two_sockets_fields)
  then show ?thesis by (simp add: port_map_find_def two_sockets_fields)
qed

lemma two_sockets_configured: "lo_configured 0 two_sockets"
proof -
  have "first_slot (\<lambda>i. arp_state (arp_table two_sockets i) = ARP_STATE_RESOLVED \<and> ipv4_equal (arp_ip (arp_table two_sockets i)) 0x0100007F)
      ARP_CACHE_SIZE = Some 0" by (simp add: first_slot_eq_Some two_sockets_fields ipv4_equal_def)
  then have "arp_cache_lookup 0x0100007F two_sockets = Some 0" by (simp add: arp_cache_lookup_def two_sockets_fields)
  then show ?thesis by (simp add: lo_configured_def two_sockets_fields lo_dev_def blank_dev_def)
qed

lemma two_sockets_ready: "lo_ready 2 0 7 two_sockets" "lo_ready 2 0 8 two_sockets"
proof -
  have "pool_inv (nbs two_sockets)" "free_bufs (nbs two_sockets) = {..<64}" using pool_init_inv [of blank_pool]
    by (simp_all add: two_sockets_fields)
  then show "lo_ready 2 0 7 two_sockets" "lo_ready 2 0 8 two_sockets"
    by (simp_all add: lo_ready_def two_sockets_facts two_sockets_fields lo_dev_def)
qed

theorem loopback_delivers_witness:
  "case sock_sendto (dev_ops 5 silent_card) 0 (Some [1, 2, 3]) (Some (sockaddr_in_make 0x0100007F 7)) two_sockets of
    (ret, s') \<Rightarrow> ret = 3 \<and> sk_datagrams (s_rx_ring (socket_table s' 0)) = [([1, 2, 3], sockaddr_in_make 0x0100007F 7)]"
proof -
  have "length (sk_datagrams (s_rx_ring (socket_table two_sockets 0))) < 16" by (simp only: two_sockets_facts(8) list.size)
  from loopback_delivers [OF two_sockets_facts(1-4) two_sockets_configured two_sockets_ready(1) _ _ two_sockets_facts(5-7) this, of "[1, 2, 3]" 4 silent_card]
  show ?thesis unfolding two_sockets_facts by simp
qed

text \<open>The same send, which takes two buffers on its way, gives both of them back.\<close>

theorem stack_leaks_no_buffer_witness:
  "free_bufs (nbs (snd (sock_sendto (dev_ops 5 silent_card) 0 (Some [1, 2, 3]) (Some (sockaddr_in_make 0x0100007F 7)) two_sockets)))
     = {..<64} \<and>
   free_bufs (nbs (snd (tcp_write (dev_ops 5 silent_card) 0 (Some [1]) two_sockets))) = {..<64} \<and>
   free_bufs (nbs (ethernet_receive (dev_ops 5 silent_card) 0 3 two_sockets)) = {..<64}"
proof -
  have p: "pool_inv (nbs two_sockets)" "free_bufs (nbs two_sockets) = {..<64}"
    using pool_init_inv [of blank_pool] by (simp_all add: two_sockets_fields)
  have c: "pool_inv (nbs (snd (drv_send silent_card dev nb s))) \<and>
      free_bufs (nbs (snd (drv_send silent_card dev nb s))) = free_bufs (nbs s)" if "pool_inv (nbs s)" for dev nb s
    using that by (simp add: silent_card_def)
  show ?thesis unfolding p(2) [symmetric] by (rule stack_leaks_no_buffer [OF p(1) c])
qed

text \<open>C34: the port of a datagram does not select the socket.  If the port of a received datagram belongs to one socket but another
  bound socket comes first in the port map, the datagram is queued at that other socket, and the owner of the port gets nothing.\<close>

theorem datagram_misdelivered:
  assumes "nb_bytes nb (nbs s) = udp_header sp dp (8 + of_nat (length data)) c @ data" "length data \<le> 1500"
    and "udp_find dp s = Some j" "b_cb (bind_table s j) = SOCKET_CB"
    and "port_map_find dp s = Some owner" "first_bound s = Some k" "pm_sock (port_map s k) = other" "owner \<noteq> other"
  shows "socket_table (udp_receive nb src s) owner = socket_table s owner \<and>
    s_rx_ring (socket_table (udp_receive nb src s) other) =
      snd (rx_ring_push data (sockaddr_in_make src sp) (s_rx_ring (socket_table s other)))"
proof -
  have "udp_receive nb src s = socket_udp_dispatch src sp data s" by (rule udp_receive_socket [OF assms(1-4)])
  then show ?thesis using assms(6-8) by (simp add: socket_udp_dispatch_def first_bound_def upd_sock_def)
qed

lemma port_find_cong: "port_map s' = port_map s \<Longrightarrow> port_map_find p s' = port_map_find p s"
  by (simp add: port_map_find_def port_map_slot_def split: option.split)

definition second_addressed :: net where
  "second_addressed = two_sockets\<lparr>nbs := put_bytes 0 (udp_header 5 8 11 0 @ [1, 2, 3]) blank_pool\<rparr>"

theorem datagram_misdelivered_witness:
  "socket_table (udp_receive 0 9 second_addressed) 1 = socket_table second_addressed 1 \<and>
   sk_datagrams (s_rx_ring (socket_table (udp_receive 0 9 second_addressed) 0)) = [([1, 2, 3], sockaddr_in_make 9 5)]"
proof -
  let ?s = second_addressed
  have "nb_bytes 0 blank_pool = []" "nb_len (netbuf_pool blank_pool 0) = 0" by (simp_all add: nb_bytes_def load_bytes_def blank_pool_def)
  then have b: "nb_bytes 0 (nbs ?s) = udp_header 5 8 (8 + of_nat (length [1, 2, 3 :: u8])) 0 @ [1, 2, 3]"
    using put_bytes [of blank_pool 0 "udp_header 5 8 11 0 @ [1, 2, 3]"] by (simp add: second_addressed_def udp_header_def)
  have e: "port_map ?s = port_map two_sockets" "bind_table ?s = bind_table two_sockets" "socket_table ?s = socket_table two_sockets"
    by (simp_all add: second_addressed_def)
  have f: "udp_find 8 ?s = Some 1" "port_map_find 8 ?s = Some 1" "first_bound ?s = Some 0"
    using two_sockets_facts(5,10) two_sockets_owner port_find_cong [OF e(1)] udp_find_cong [OF e(2)]
    by (simp_all add: first_bound_def e)
  have "socket_table (udp_receive 0 9 ?s) 1 = socket_table ?s 1 \<and> s_rx_ring (socket_table (udp_receive 0 9 ?s) 0) =
      snd (rx_ring_push [1, 2, 3] (sockaddr_in_make 9 5) (s_rx_ring (socket_table ?s 0)))"
    by (rule datagram_misdelivered [OF b _ f(1) _ f(2,3)]) (simp_all add: e two_sockets_fields)
  then show ?thesis
    using rx_ring_push_spec(2) [OF two_sockets_facts(7), of "[1, 2, 3]" "sockaddr_in_make 9 5"] two_sockets_facts(8) by (simp add: e)
qed

end
