(* ===== verification/Net_Parsers.thy ===== *)
theory Net_Parsers
  imports Net_Client
begin

text \<open>
  The parsers of the resolver and the DHCP client (\<open>dns.c\<close>, \<open>dhcp.c\<close>): they end on every
  datagram the packet buffers can hold, a query name fits its buffer and is
  skipped exactly by the answer parser, and what the parser of numeric
  addresses accepts.
\<close>

section \<open>Termination\<close>

lemma unat_skip: "unat p + 1 + unat c < 65536 \<Longrightarrow> unat (p + 1 + ucast c) = unat p + 1 + unat c" for p :: u16 and c :: u8
proof -
  assume a: "unat p + 1 + unat c < 65536"
  have "unat (ucast c :: u16) = unat c" using unat_less_exp [of c] by (simp add: unsigned_ucast_eq take_bit_nat_eq_self)
  with a show ?thesis by (simp add: unat_word_ariths)
qed

lemma skip_loop_ends:
  assumes "unat len \<le> 65279"
  shows "\<exists>e. skip_loop msg len pos = Some e"
proof (induction "65536 - unat pos" arbitrary: pos rule: less_induct)
  case less
  let ?c = "msg (unat pos)"
  show ?case
  proof (cases "pos < len \<and> ?c \<noteq> 0 \<and> ?c AND 0xC0 \<noteq> 0xC0")
    case True
    have "unat pos < 65279" using True assms by (simp add: word_less_nat_alt)
    then have u: "unat (pos + 1 + ucast ?c) = unat pos + 1 + unat ?c" using unat_less_exp [of ?c] by (intro unat_skip) simp
    then have "65536 - unat (pos + 1 + ucast ?c) < 65536 - unat pos" using unat_less_exp [of pos] by simp
    from less [OF this] show ?thesis using True by (simp add: skip_loop.simps [of msg len pos] Let_def)
  next
    case False
    then show ?thesis by (auto simp: skip_loop.simps [of msg len pos] Let_def)
  qed
qed

lemma skip_name_ends: "unat len \<le> 65279 \<Longrightarrow> \<exists>n. skip_name msg len pos = Some n"
  using skip_loop_ends [of len msg pos] by (auto simp: skip_name_def)

lemma skip_questions_ends: "unat len \<le> 65279 \<Longrightarrow> \<exists>p. skip_questions q data len pos = Some p"
proof (induction q arbitrary: pos)
  case (Suc q)
  then show ?case using skip_name_ends [of len data pos] by auto
qed simp

lemma find_answer_ends: "unat len \<le> 65279 \<Longrightarrow> \<exists>r. find_answer a data len pos = Some r"
proof (induction a arbitrary: pos)
  case (Suc a)
  then show ?case using skip_name_ends [of len data pos] by (auto simp: Let_def)
qed simp

lemma dhcp_find_option_ends:
  assumes "unat len \<le> 65279"
  shows "\<exists>r. dhcp_find_option opts len target i = Some r"
proof (induction "65536 - unat i" arbitrary: i rule: less_induct)
  case less
  show ?case
  proof (cases "i < len")
    case True
    then have i: "unat i < 65279" using assms by (simp add: word_less_nat_alt)
    have 1: "unat (i + 1) = unat i + 1" using i by (simp add: unat_word_ariths)
    have 2: "unat (i + 1 + 1 + ucast l) = unat i + 2 + unat l" for l :: u8
      using unat_skip [of "i + 1" l] 1 i unat_less_exp [of l] by simp
    have "65536 - unat (i + 1) < 65536 - unat i" "65536 - unat (i + 1 + 1 + ucast l) < 65536 - unat i" for l :: u8
      using 1 2 [of l] i by simp_all
    from less [OF this(1)] less [OF this(2)] show ?thesis
      using True by (auto simp: dhcp_find_option.simps [of opts len target i] Let_def)
  next
    case False
    then show ?thesis by (simp add: dhcp_find_option.simps [of opts len target i])
  qed
qed

lemma ex_some: "\<exists>y. x = Some y \<Longrightarrow> x \<noteq> None"
  by auto

text \<open>C32: the callbacks of the resolver and the DHCP client return on every datagram of at most 65279 bytes, whatever it holds;
  the packet buffers hold 2048.\<close>

theorem udp_callbacks_return:
  assumes "unat len \<le> 65279"
  shows "net_hung (dns_rx_callback port data len s) = net_hung s \<and> net_hung (dhcp_rx_callback port data len s) = net_hung s"
proof
  show "net_hung (dns_rx_callback port data len s) = net_hung s"
    by (simp add: dns_rx_callback_def skip_questions_ends [OF assms, THEN ex_some] find_answer_ends [OF assms, THEN ex_some]
        split: option.split)
  have l: "unat (len - 240) \<le> 65279" if "\<not> len < 241"
  proof -
    have "(240 :: u16) \<le> len" using that by (simp add: word_le_nat_alt word_less_nat_alt)
    then show ?thesis using assms by (simp add: unat_sub)
  qed
  show "net_hung (dhcp_rx_callback port data len s) = net_hung s"
  proof (cases "len < 241")
    case False
    have h: "net_hung (dhcp_ack o1 m g s) = net_hung s" "net_hung (dhcp_offer d o1 m s) = net_hung s" for o1 m g d
      by (auto simp: dhcp_ack_def dhcp_offer_def Let_def net_device_set_ip_def upd_dev_def split: option.split)
    have n: "dhcp_find_option (\<lambda>i. data (240 + i)) (len - 240) t 0 \<noteq> None" for t
      by (rule dhcp_find_option_ends [OF l [OF False], THEN ex_some])
    show ?thesis by (simp add: dhcp_rx_callback_def Let_def h n split: option.split)
  qed (simp add: dhcp_rx_callback_def)
qed

theorem udp_callbacks_return_witness:
  "unat (300 :: u16) \<le> 65279 \<and> (\<forall>s :: net. net_hung (dns_rx_callback 53 (\<lambda>i. 0xC0) 300 s) = net_hung s) \<and>
   (\<forall>s :: net. net_hung (dhcp_rx_callback 68 (\<lambda>i. 0x35) 300 s) = net_hung s)"
  using udp_callbacks_return [of 300 53 "\<lambda>i. 0xC0"] udp_callbacks_return [of 300 68 "\<lambda>i. 0x35"] by simp

section \<open>Names\<close>

text \<open>The encoding as a list of labels.\<close>

primrec name_bytes :: "string list \<Rightarrow> u8 list" where
  "name_bytes [] = [0]"
| "name_bytes (l # ls) = of_nat (length l) # map of_char l @ name_bytes ls"

definition labels_ok :: "string list \<Rightarrow> bool" where
  "labels_ok ls \<longleftrightarrow> (\<forall>l \<in> set ls. 0 < length l \<and> length l \<le> 63)"

declare encode_loop.simps [simp del]

lemma encode_loop_shape:
  "encode_loop host m out = Some bs \<Longrightarrow> out \<noteq> [] \<longrightarrow> length out + 1 \<le> m \<Longrightarrow>
     \<exists>ls. bs = out @ name_bytes ls \<and> labels_ok ls \<and> (1 \<le> m \<longrightarrow> length bs \<le> m)"
proof (induction host m out rule: encode_loop.induct)
  case (1 host m out)
  show ?case
  proof (cases "host = []")
    case True
    then show ?thesis using 1(2,3) by (intro exI [of _ "[]"]) (cases out; auto simp: labels_ok_def encode_loop.simps [of "[]"])
  next
    case False
    define n where "n = label_len host"
    have n: "\<not> (n = 0 \<or> 63 < n)" "length out + 1 + n + 1 \<le> m"
      and e: "encode_loop (skip_dot (drop n host)) m (out @ [of_nat n] @ map of_char (take n host)) = Some bs"
      using 1(2) False unfolding encode_loop.simps [of host m out] n_def Let_def by (auto simp: not_less split: if_splits)
    have "n \<le> length (takeWhile (\<lambda>c. c \<noteq> CHR ''.'') host)" by (simp add: n_def label_len_def)
    then have l: "length (take n host) = n" using length_takeWhile_le [of "\<lambda>c. c \<noteq> CHR ''.''" host] by simp
    obtain ls where "bs = (out @ [of_nat n] @ map of_char (take n host)) @ name_bytes ls" "labels_ok ls" "1 \<le> m \<longrightarrow> length bs \<le> m"
      using 1(1) [OF False n_def n(1) _ e] n l by (auto simp: not_less)
    then show ?thesis using n l False by (intro exI [of _ "take n host # ls"]) (simp add: labels_ok_def)
  qed
qed

lemma encode_name_shape:
  "encode_name host m = Some bs \<Longrightarrow> \<exists>ls. bs = name_bytes ls \<and> labels_ok ls \<and> (1 \<le> m \<longrightarrow> length bs \<le> m)"
  using encode_loop_shape [of host m "[]" bs] by (simp add: encode_name_def)

text \<open>C33: the query built for any host name fits the 512-byte packet buffer of the resolver.\<close>

theorem dns_query_fits:
  assumes "dns_query host = Some pkt"
  shows "length pkt \<le> 512"
proof -
  obtain name where "encode_name host 496 = Some name" "length pkt = 16 + length name"
    using assms by (auto simp: dns_query_def)
  with encode_name_shape [of host 496 name] show ?thesis by auto
qed

lemma encode_sample: "encode_name ''a.bc'' 496 = Some [1, 97, 2, 98, 99, 0]"
  by (simp add: encode_name_def encode_loop.simps label_len_def skip_dot_def)

theorem dns_query_fits_witness: "\<exists>pkt. dns_query ''a.bc'' = Some pkt \<and> length pkt \<le> 512"
proof -
  obtain pkt where "dns_query ''a.bc'' = Some pkt" by (simp add: dns_query_def encode_sample)
  with dns_query_fits [OF this] show ?thesis by blast
qed

lemma label_byte:
  assumes "0 < n" "n \<le> 63"
  shows "unat (of_nat n :: u8) = n" "(of_nat n :: u8) \<noteq> 0" "(of_nat n :: u8) AND 0xC0 \<noteq> 0xC0"
proof -
  show u: "unat (of_nat n :: u8) = n" using assms by (simp add: unat_of_nat take_bit_nat_eq_self)
  then show "(of_nat n :: u8) \<noteq> 0" using assms by auto
  have "\<not> bit (of_nat n :: u8) 7" using assms by (simp add: bit_of_nat_iff bit_nat_def)
  moreover have "bit (0xC0 :: u8) 7" by (simp add: bit_iff_odd)
  ultimately show "(of_nat n :: u8) AND 0xC0 \<noteq> 0xC0" by (metis bit_and_iff)
qed

lemma skip_loop_name:
  assumes "labels_ok ls" "unat pos + length (name_bytes ls) \<le> unat len"
    "\<And>i. i < length (name_bytes ls) \<Longrightarrow> msg (unat pos + i) = name_bytes ls ! i"
  shows "skip_loop msg len pos = Some (pos + of_nat (length (name_bytes ls)))"
  using assms
proof (induction ls arbitrary: pos)
  case Nil
  then have "pos < len" "msg (unat pos) = 0" by (auto simp: word_less_nat_alt)
  then show ?case by (simp add: skip_loop.simps [of msg len pos] Let_def)
next
  case (Cons l ls)
  let ?c = "of_nat (length l) :: u8"
  have l: "0 < length l" "length l \<le> 63" using Cons.prems(1) by (auto simp: labels_ok_def)
  note b = label_byte [OF l]
  have m: "msg (unat pos) = ?c" using Cons.prems(3) [of 0] by simp
  have p: "pos < len" using Cons.prems(2) by (simp add: word_less_nat_alt)
  have "unat len < 65536" using unat_less_exp [of len] by simp
  then have u: "unat (pos + 1 + ucast ?c) = unat pos + 1 + length l"
    using Cons.prems(2) b(1) by (subst unat_skip) simp_all
  have "skip_loop msg len (pos + 1 + ucast ?c) = Some (pos + 1 + ucast ?c + of_nat (length (name_bytes ls)))"
  proof (rule Cons.IH)
    show "labels_ok ls" using Cons.prems(1) by (simp add: labels_ok_def)
    show "unat (pos + 1 + ucast ?c) + length (name_bytes ls) \<le> unat len" using Cons.prems(2) u by simp
    fix i assume "i < length (name_bytes ls)"
    then show "msg (unat (pos + 1 + ucast ?c) + i) = name_bytes ls ! i"
      using Cons.prems(3) [of "1 + length l + i"] u by (simp add: nth_append ac_simps)
  qed
  moreover have "(ucast ?c :: u16) = of_nat (length l)"
    using b(1) l by (simp add: word_unat_eq_iff unsigned_ucast_eq unat_of_nat take_bit_nat_eq_self)
  ultimately show ?case using m p b by (simp add: skip_loop.simps [of msg len pos] Let_def ac_simps)
qed

text \<open>The answer parser skips a name exactly: wherever a message holds the encoding of a host name, skipping a name there
  consumes the length of the encoding.\<close>

theorem skip_name_encode_name:
  assumes "encode_name host m = Some bs" "unat pos + length bs \<le> unat len"
    and "\<forall>i < length bs. msg (unat pos + i) = bs ! i"
  shows "skip_name msg len pos = Some (of_nat (length bs))"
proof -
  obtain ls where "bs = name_bytes ls" "labels_ok ls" using encode_name_shape [OF assms(1)] by blast
  with assms(2,3) skip_loop_name [of ls pos len msg] show ?thesis by (simp add: skip_name_def)
qed

theorem skip_name_encode_name_witness: "skip_name (\<lambda>i. (7 # [1, 97, 2, 98, 99, 0] @ [5]) ! i) 8 1 = Some 6"
proof -
  have "\<forall>i < length bs. (7 # bs @ [5]) ! (unat (1 :: u16) + i) = bs ! i" for bs :: "u8 list" by (simp add: nth_append)
  from skip_name_encode_name [OF encode_sample _ this, of 8] show ?thesis by simp
qed

section \<open>Numeric addresses\<close>

definition dec_step :: "nat \<Rightarrow> char \<Rightarrow> nat" where
  "dec_step n c = n * 10 + (of_char c - 48)"

text \<open>The number a string of digits denotes.\<close>

definition dec_val :: "string \<Rightarrow> nat" where
  "dec_val ds = foldl dec_step 0 ds"

definition numeral_ok :: "string \<Rightarrow> bool" where
  "numeral_ok ds \<longleftrightarrow> ds \<noteq> [] \<and> list_all is_digit ds \<and> dec_val ds mod 2 ^ 32 \<le> 255"

lemma parse_num_digits:
  assumes "list_all is_digit ds" "rest = [] \<or> \<not> is_digit (hd rest)"
  shows "parse_num (ds @ rest) (of_nat n) = (of_nat (foldl dec_step n ds), rest)"
  using assms(1)
proof (induction ds arbitrary: n)
  case Nil
  then show ?case using assms(2) by (cases rest) auto
next
  case (Cons c ds)
  have c: "is_digit c" using Cons.prems by simp
  have "(of_nat (of_char c) :: u32) = of_char c" by (cases c) (simp add: of_bool_def)
  then have "(of_nat (of_char c - 48) :: u32) = of_char c - 48" using c by (simp add: is_digit_def)
  then have s: "of_nat n * 10 + (of_char c - 48) = (of_nat (dec_step n c) :: u32)" by (simp add: dec_step_def)
  show ?case using Cons.IH [of "dec_step n c"] Cons.prems c by (simp add: s [simplified])
qed

lemma parse_octet:
  assumes "numeral_ok ds" "rest = [] \<or> \<not> is_digit (hd rest)"
  shows "parse_num (ds @ rest) 0 = (of_nat (dec_val ds), rest)" "\<not> (of_nat (dec_val ds) :: u32) > 255"
    "(ucast (of_nat (dec_val ds) :: u32) :: u8) = of_nat (dec_val ds mod 2 ^ 32)" "ds @ rest \<noteq> []" "is_digit (hd (ds @ rest))"
proof -
  let ?v = "of_nat (dec_val ds) :: u32"
  show "parse_num (ds @ rest) 0 = (?v, rest)"
    using parse_num_digits [of ds rest 0] assms by (simp add: numeral_ok_def dec_val_def)
  have u: "unat ?v = dec_val ds mod 2 ^ 32" by (simp add: unat_of_nat take_bit_eq_mod)
  then show "\<not> ?v > 255" using assms(1) by (simp add: numeral_ok_def word_less_nat_alt)
  show "(ucast ?v :: u8) = of_nat (dec_val ds mod 2 ^ 32)" unfolding u [symmetric] by simp
  show "ds @ rest \<noteq> []" "is_digit (hd (ds @ rest))" using assms(1) by (cases ds; simp add: numeral_ok_def)+
qed

text \<open>The parser of numeric addresses takes four decimal numbers and keeps each only modulo \<open>2 ^ 32\<close> before it checks that
  it is at most 255, so it accepts numbers far above 255.\<close>

theorem parse_dotted_ip_wraps:
  assumes "numeral_ok a" "numeral_ok b" "numeral_ok c" "numeral_ok d"
  shows "parse_dotted_ip (a @ ''.'' @ b @ ''.'' @ c @ ''.'' @ d) =
    Some (IPV4 (of_nat (dec_val a mod 2 ^ 32)) (of_nat (dec_val b mod 2 ^ 32)) (of_nat (dec_val c mod 2 ^ 32))
            (of_nat (dec_val d mod 2 ^ 32)))"
proof -
  have four_Suc: "(4 :: nat) = Suc (Suc (Suc (Suc 0)))" by simp
  have dot: "\<not> is_digit (CHR ''.'')" by (simp add: is_digit_def)
  have step: "parse_octets (Suc (Suc n)) (ds @ CHR ''.'' # rest) out = parse_octets (Suc n) rest (out @ [of_nat (dec_val ds mod 2 ^ 32)])"
    if "numeral_ok ds" for n ds rest out
  proof -
    have r: "CHR ''.'' # rest = [] \<or> \<not> is_digit (hd (CHR ''.'' # rest))" using dot by simp
    note p = parse_octet [OF that r]
    show ?thesis
      unfolding parse_octets.simps(2) [of "Suc n"] Let_def p(1) p(3) [symmetric] using p(2,4,5) by (simp del: parse_octets.simps)
  qed
  have last: "parse_octets (Suc 0) ds out = Some (out @ [of_nat (dec_val ds mod 2 ^ 32)], [])" if "numeral_ok ds" for ds out
    using parse_octet [OF that, of "[]"] by (simp add: Let_def)
  have "parse_octets 4 (a @ ''.'' @ b @ ''.'' @ c @ ''.'' @ d) [] =
      Some ([of_nat (dec_val a mod 2 ^ 32), of_nat (dec_val b mod 2 ^ 32), of_nat (dec_val c mod 2 ^ 32),
        of_nat (dec_val d mod 2 ^ 32)], [])"
    unfolding four_Suc by (simp only: step [OF assms(1)] step [OF assms(2)] step [OF assms(3)] last [OF assms(4)] append.simps)
  then show ?thesis by (simp add: parse_dotted_ip_def IPV4_def)
qed

theorem parse_dotted_ip_wraps_witness: "parse_dotted_ip ''4294967297.0.0.1'' = Some (IPV4 1 0 0 1)"
proof -
  have "numeral_ok ''4294967297''" "numeral_ok ''0''" "numeral_ok ''1''"
    "dec_val ''4294967297'' = 4294967297" "dec_val ''0'' = 0" "dec_val ''1'' = 1"
    by (simp_all add: numeral_ok_def dec_val_def dec_step_def is_digit_def)
  with parse_dotted_ip_wraps [of "''4294967297''" "''0''" "''0''" "''1''"] show ?thesis by simp
qed

end
