(* ===== verification/Block_Cache.thy ===== *)
theory Block_Cache
  imports Frame_Alloc
begin

text \<open>
  The block device layer (\<open>block_device.c\<close>): the buffer cache with its hash
  chains, its doubly linked LRU list and its free list, the byte-level
  \<open>block_read\<close> and \<open>block_write\<close>, the device registry and the RAM block
  device.  Buffer heads are indices into \<open>buffer_pool\<close>, devices are addresses
  with \<open>0\<close> for NULL, and the page of a buffer is the array \<open>bh_data\<close> held in
  its head.  The operation tables of the drivers are the parameter \<open>T\<close>, and
  they act on a backing store of any type; \<open>ramblock_ops\<close> is the table of the
  RAM device.  The operations run under the cache lock, so they are atomic
  steps here.
\<close>

section \<open>Data\<close>

abbreviation BLOCK_SIZE :: nat where "BLOCK_SIZE \<equiv> 4096"
abbreviation BUFFER_CACHE_SIZE :: nat where "BUFFER_CACHE_SIZE \<equiv> 64"
abbreviation BUFFER_HASH_SIZE :: nat where "BUFFER_HASH_SIZE \<equiv> 32"
abbreviation MAX_BLOCK_DEVICES :: nat where "MAX_BLOCK_DEVICES \<equiv> 16"

abbreviation BUF_VALID :: u32 where "BUF_VALID \<equiv> 1"
abbreviation BUF_DIRTY :: u32 where "BUF_DIRTY \<equiv> 2"
abbreviation BUF_BUSY :: u32 where "BUF_BUSY \<equiv> 4"
abbreviation BUF_PINNED :: u32 where "BUF_PINNED \<equiv> 8"

record bdev =
  bd_name :: string
  bd_block_size :: u32
  bd_total_blocks :: nat
  bd_ops :: "nat option"
  bd_private :: u64
  bd_flags :: int
  bd_ref_count :: u32

record 'm blkops =
  bo_read :: "(bdev \<Rightarrow> nat \<Rightarrow> u8 array \<Rightarrow> 'm \<Rightarrow> int \<times> u8 array \<times> 'm) option"
  bo_write :: "(bdev \<Rightarrow> nat \<Rightarrow> u8 array \<Rightarrow> 'm \<Rightarrow> int \<times> 'm) option"
  bo_sync :: "(bdev \<Rightarrow> 'm \<Rightarrow> int \<times> 'm) option"
  bo_get_size :: "(bdev \<Rightarrow> 'm \<Rightarrow> nat) option"

record buffer_head =
  bh_dev :: u64
  bh_block :: nat
  bh_data :: "u8 array"
  bh_flags :: u32
  bh_ref :: u32
  bh_hash_next :: "nat option"
  bh_lru_prev :: "nat option"
  bh_lru_next :: "nat option"

record buffer_cache_stats =
  cs_hits :: u64
  cs_misses :: u64
  cs_reads :: u64
  cs_writes :: u64
  cs_syncs :: u64
  cs_cached :: u32
  cs_dirty :: u32

record 'm bcache =
  buffer_pool :: "buffer_head array"
  buffer_hash :: "nat option array"
  lru_head :: "nat option"
  lru_tail :: "nat option"
  free_buffers :: "nat option"
  cache_stats :: buffer_cache_stats
  bdevs :: "u64 \<Rightarrow> bdev"
  registered_devices :: "u64 array"
  num_devices :: nat
  block_initialized :: bool
  bstore :: 'm

type_synonym 'm drivers = "nat \<Rightarrow> 'm blkops"

text \<open>The driver's function behind \<open>dev->ops->read_block\<close>, if there is one, and so on.\<close>

definition dev_rd :: "'m drivers \<Rightarrow> bdev \<Rightarrow> (bdev \<Rightarrow> nat \<Rightarrow> u8 array \<Rightarrow> 'm \<Rightarrow> int \<times> u8 array \<times> 'm) option" where
  "dev_rd T dv = Option.bind (bd_ops dv) (\<lambda>t. bo_read (T t))"

definition dev_wr :: "'m drivers \<Rightarrow> bdev \<Rightarrow> (bdev \<Rightarrow> nat \<Rightarrow> u8 array \<Rightarrow> 'm \<Rightarrow> int \<times> 'm) option" where
  "dev_wr T dv = Option.bind (bd_ops dv) (\<lambda>t. bo_write (T t))"

definition dev_sy :: "'m drivers \<Rightarrow> bdev \<Rightarrow> (bdev \<Rightarrow> 'm \<Rightarrow> int \<times> 'm) option" where
  "dev_sy T dv = Option.bind (bd_ops dv) (\<lambda>t. bo_sync (T t))"

definition upd_bh :: "nat \<Rightarrow> (buffer_head \<Rightarrow> buffer_head) \<Rightarrow> 'm bcache \<Rightarrow> 'm bcache" where
  "upd_bh i f s = s\<lparr>buffer_pool := (buffer_pool s)(i := f (buffer_pool s i))\<rparr>"

definition upd_stats :: "(buffer_cache_stats \<Rightarrow> buffer_cache_stats) \<Rightarrow> 'm bcache \<Rightarrow> 'm bcache" where
  "upd_stats f s = s\<lparr>cache_stats := f (cache_stats s)\<rparr>"

text \<open>\<open>memcpy\<close> between two distinct arrays: \<open>n\<close> bytes of \<open>src\<close> from \<open>j\<close> on to \<open>dst\<close> at \<open>i\<close>.\<close>

definition copy_into :: "u8 array \<Rightarrow> nat \<Rightarrow> u8 array \<Rightarrow> nat \<Rightarrow> nat \<Rightarrow> u8 array" where
  "copy_into dst i src j n = (\<lambda>k. if i \<le> k \<and> k < i + n then src (j + (k - i)) else dst k)"

section \<open>Hash table and LRU list\<close>

definition buffer_hash_func :: "u64 \<Rightarrow> nat \<Rightarrow> nat" where
  "buffer_hash_func dev bn =
     (let h = dev XOR of_nat bn;
          h = h XOR drop_bit 16 h;
          h = h * 0x85ebca6b;
          h = h XOR drop_bit 13 h
      in unat (h AND 31))"

definition lru_remove :: "nat \<Rightarrow> 'm bcache \<Rightarrow> 'm bcache" where
  "lru_remove bh s =
     (let prv = bh_lru_prev (buffer_pool s bh);
          nxt = bh_lru_next (buffer_pool s bh);
          s = (case prv of Some p \<Rightarrow> upd_bh p (\<lambda>b. b\<lparr>bh_lru_next := nxt\<rparr>) s
                         | None \<Rightarrow> s\<lparr>lru_head := nxt\<rparr>);
          s = (case nxt of Some n \<Rightarrow> upd_bh n (\<lambda>b. b\<lparr>bh_lru_prev := prv\<rparr>) s
                         | None \<Rightarrow> s\<lparr>lru_tail := prv\<rparr>)
      in upd_bh bh (\<lambda>b. b\<lparr>bh_lru_prev := None, bh_lru_next := None\<rparr>) s)"

definition lru_add_front :: "nat \<Rightarrow> 'm bcache \<Rightarrow> 'm bcache" where
  "lru_add_front bh s =
     (let s = upd_bh bh (\<lambda>b. b\<lparr>bh_lru_prev := None, bh_lru_next := lru_head s\<rparr>) s;
          s = (case lru_head s of Some h \<Rightarrow> upd_bh h (\<lambda>b. b\<lparr>bh_lru_prev := Some bh\<rparr>) s
                                | None \<Rightarrow> s\<lparr>lru_tail := Some bh\<rparr>)
      in s\<lparr>lru_head := Some bh\<rparr>)"

definition lru_touch :: "nat \<Rightarrow> 'm bcache \<Rightarrow> 'm bcache" where
  "lru_touch bh s = (if lru_head s = Some bh then s else lru_add_front bh (lru_remove bh s))"

definition buffer_find :: "u64 \<Rightarrow> nat \<Rightarrow> 'm bcache \<Rightarrow> nat option" where
  "buffer_find dev bn s =
     chase BUFFER_CACHE_SIZE
       (\<lambda>b. bh_dev (buffer_pool s b) = dev \<and> bh_block (buffer_pool s b) = bn)
       (\<lambda>b. bh_hash_next (buffer_pool s b)) (buffer_hash s (buffer_hash_func dev bn))"

definition buffer_hash_add :: "nat \<Rightarrow> 'm bcache \<Rightarrow> 'm bcache" where
  "buffer_hash_add bh s =
     (let h = buffer_hash_func (bh_dev (buffer_pool s bh)) (bh_block (buffer_pool s bh));
          s = upd_bh bh (\<lambda>b. b\<lparr>bh_hash_next := buffer_hash s h\<rparr>) s
      in s\<lparr>buffer_hash := (buffer_hash s)(h := Some bh)\<rparr>)"

text \<open>The cell that \<open>pp\<close> points to: a bucket of the table or a buffer's \<open>hash_next\<close>.\<close>

datatype hcell = Bucket nat | Next_of nat

fun hcell_get :: "hcell \<Rightarrow> 'm bcache \<Rightarrow> nat option" where
  "hcell_get (Bucket h) s = buffer_hash s h"
| "hcell_get (Next_of b) s = bh_hash_next (buffer_pool s b)"

fun hcell_set :: "hcell \<Rightarrow> nat option \<Rightarrow> 'm bcache \<Rightarrow> 'm bcache" where
  "hcell_set (Bucket h) v s = s\<lparr>buffer_hash := (buffer_hash s)(h := v)\<rparr>"
| "hcell_set (Next_of b) v s = upd_bh b (\<lambda>b. b\<lparr>bh_hash_next := v\<rparr>) s"

primrec hash_unlink :: "nat \<Rightarrow> hcell \<Rightarrow> nat \<Rightarrow> 'm bcache \<Rightarrow> 'm bcache" where
  "hash_unlink 0 pp bh s = s"
| "hash_unlink (Suc n) pp bh s =
     (case hcell_get pp s of
        None \<Rightarrow> s
      | Some q \<Rightarrow>
          if q = bh
          then upd_bh bh (\<lambda>b. b\<lparr>bh_hash_next := None\<rparr>)
                 (hcell_set pp (bh_hash_next (buffer_pool s bh)) s)
          else hash_unlink n (Next_of q) bh s)"

definition buffer_hash_remove :: "nat \<Rightarrow> 'm bcache \<Rightarrow> 'm bcache" where
  "buffer_hash_remove bh s =
     hash_unlink BUFFER_CACHE_SIZE
       (Bucket (buffer_hash_func (bh_dev (buffer_pool s bh)) (bh_block (buffer_pool s bh)))) bh s"

section \<open>Buffer cache operations\<close>

definition buffer_sync_internal :: "'m drivers \<Rightarrow> nat \<Rightarrow> 'm bcache \<Rightarrow> int \<times> 'm bcache" where
  "buffer_sync_internal T bh s =
     (let b = buffer_pool s bh; dv = bdevs s (bh_dev b) in
      if bh_dev b = 0 \<or> bh_flags b AND BUF_DIRTY = 0 then (0, s)
      else (case dev_wr T dv of
              None \<Rightarrow> (- 1, s)
            | Some wr \<Rightarrow>
                (let (r, m) = wr dv (bh_block b) (bh_data b) (bstore s);
                     s = s\<lparr>bstore := m\<rparr>
                 in if r = 0
                    then (r, upd_stats (\<lambda>c. c\<lparr>cs_writes := cs_writes c + 1, cs_dirty := cs_dirty c - 1,
                                              cs_syncs := cs_syncs c + 1\<rparr>)
                              (upd_bh bh (\<lambda>b. b\<lparr>bh_flags := bh_flags b AND NOT BUF_DIRTY\<rparr>) s))
                    else (r, s))))"

definition evictable :: "buffer_head \<Rightarrow> bool" where
  "evictable b \<longleftrightarrow> bh_flags b AND (BUF_BUSY OR BUF_PINNED) = 0 \<and> bh_ref b = 0"

definition buffer_alloc :: "'m drivers \<Rightarrow> 'm bcache \<Rightarrow> nat option \<times> 'm bcache" where
  "buffer_alloc T s =
     (case free_buffers s of
        Some bh \<Rightarrow>
          (Some bh, upd_bh bh (\<lambda>b. b\<lparr>bh_hash_next := None\<rparr>)
                      (s\<lparr>free_buffers := bh_hash_next (buffer_pool s bh)\<rparr>))
      | None \<Rightarrow>
          (case chase BUFFER_CACHE_SIZE (\<lambda>b. evictable (buffer_pool s b))
                  (\<lambda>b. bh_lru_prev (buffer_pool s b)) (lru_tail s) of
             None \<Rightarrow> (None, s)
           | Some bh \<Rightarrow>
               (let s = (if bh_flags (buffer_pool s bh) AND BUF_DIRTY \<noteq> 0
                         then snd (buffer_sync_internal T bh s) else s);
                    s = lru_remove bh (buffer_hash_remove bh s);
                    s = upd_bh bh (\<lambda>b. b\<lparr>bh_dev := 0, bh_block := 0, bh_flags := 0\<rparr>) s
                in (Some bh, upd_stats (\<lambda>c. c\<lparr>cs_cached := cs_cached c - 1\<rparr>) s))))"

text \<open>The body of \<open>buffer_cache_init\<close>'s loop for the buffers \<open>i, ..., i + k - 1\<close>; no frame ends it.\<close>

primrec init_buffers :: "nat \<Rightarrow> nat \<Rightarrow> pfa \<Rightarrow> 'm bcache \<Rightarrow> bool \<times> pfa \<times> 'm bcache" where
  "init_buffers i 0 f s = (True, f, s)"
| "init_buffers i (Suc k) f s =
     (let (frame, f) = pfa_alloc_frame f in
      if frame = 0 then (False, f, s)
      else init_buffers (Suc i) k f
             (upd_bh i (\<lambda>b. b\<lparr>bh_dev := 0, bh_block := 0, bh_flags := 0, bh_ref := 0,
                bh_hash_next := (if i < BUFFER_CACHE_SIZE - 1 then Some (i + 1) else None),
                bh_lru_prev := None, bh_lru_next := None\<rparr>) s))"

definition zero_stats :: buffer_cache_stats where
  "zero_stats = \<lparr>cs_hits = 0, cs_misses = 0, cs_reads = 0, cs_writes = 0, cs_syncs = 0, cs_cached = 0, cs_dirty = 0\<rparr>"

definition buffer_cache_init :: "pfa \<Rightarrow> 'm bcache \<Rightarrow> pfa \<times> 'm bcache" where
  "buffer_cache_init f s =
     (let (ok, f, s) = init_buffers 0 BUFFER_CACHE_SIZE f s in
      if \<not> ok then (f, s)
      else (f, s\<lparr>free_buffers := Some 0,
                 buffer_hash := (\<lambda>h. if h < BUFFER_HASH_SIZE then None else buffer_hash s h),
                 cache_stats := zero_stats\<rparr>))"

text \<open>The device and block of a fresh buffer, with its first reference.\<close>

definition setup_buffer :: "nat \<Rightarrow> u64 \<Rightarrow> nat \<Rightarrow> u32 \<Rightarrow> 'm bcache \<Rightarrow> 'm bcache" where
  "setup_buffer bh dev bn fl s =
     upd_bh bh (\<lambda>b. b\<lparr>bh_dev := dev, bh_block := bn, bh_ref := 1, bh_flags := fl\<rparr>) s"

definition buffer_get :: "'m drivers \<Rightarrow> u64 \<Rightarrow> nat \<Rightarrow> 'm bcache \<Rightarrow> nat option \<times> 'm bcache" where
  "buffer_get T dev bn s =
     (case (if dev = 0 then None else dev_rd T (bdevs s dev)) of
        None \<Rightarrow> (None, s)
      | Some rd \<Rightarrow>
          (case buffer_find dev bn s of
             Some bh \<Rightarrow>
               (let s = upd_bh bh (\<lambda>b. b\<lparr>bh_ref := bh_ref b + 1, bh_flags := bh_flags b OR BUF_BUSY\<rparr>) s;
                    s = lru_touch bh s
                in (Some bh, upd_stats (\<lambda>c. c\<lparr>cs_hits := cs_hits c + 1\<rparr>) s))
           | None \<Rightarrow>
               (case buffer_alloc T (upd_stats (\<lambda>c. c\<lparr>cs_misses := cs_misses c + 1\<rparr>) s) of
                  (None, s) \<Rightarrow> (None, s)
                | (Some bh, s) \<Rightarrow>
                    (let s = setup_buffer bh dev bn BUF_BUSY s;
                         (r, dat, m) = rd (bdevs s dev) bn (bh_data (buffer_pool s bh)) (bstore s);
                         s = upd_bh bh (\<lambda>b. b\<lparr>bh_data := dat\<rparr>) (s\<lparr>bstore := m\<rparr>)
                     in if r \<noteq> 0
                        then (None, (upd_bh bh (\<lambda>b. b\<lparr>bh_hash_next := free_buffers s\<rparr>) s)
                                      \<lparr>free_buffers := Some bh\<rparr>)
                        else (let s = upd_bh bh (\<lambda>b. b\<lparr>bh_flags := bh_flags b OR BUF_VALID\<rparr>) s;
                                  s = upd_stats (\<lambda>c. c\<lparr>cs_reads := cs_reads c + 1, cs_cached := cs_cached c + 1\<rparr>) s
                              in (Some bh, lru_add_front bh (buffer_hash_add bh s)))))))"

definition buffer_get_new :: "'m drivers \<Rightarrow> u64 \<Rightarrow> nat \<Rightarrow> 'm bcache \<Rightarrow> nat option \<times> 'm bcache" where
  "buffer_get_new T dev bn s =
     (if dev = 0 then (None, s)
      else (case buffer_find dev bn s of
              Some bh \<Rightarrow>
                (let s = upd_bh bh (\<lambda>b. b\<lparr>bh_ref := bh_ref b + 1, bh_flags := bh_flags b OR BUF_BUSY\<rparr>) s;
                     s = lru_touch bh s
                 in (Some bh, upd_bh bh (\<lambda>b. b\<lparr>bh_flags := bh_flags b OR BUF_VALID\<rparr>) s))
            | None \<Rightarrow>
                (case buffer_alloc T s of
                   (None, s) \<Rightarrow> (None, s)
                 | (Some bh, s) \<Rightarrow>
                     (let s = setup_buffer bh dev bn (BUF_BUSY OR BUF_VALID) s;
                          s = upd_stats (\<lambda>c. c\<lparr>cs_cached := cs_cached c + 1\<rparr>) s
                      in (Some bh, lru_add_front bh (buffer_hash_add bh s))))))"

definition buffer_release :: "nat \<Rightarrow> 'm bcache \<Rightarrow> 'm bcache" where
  "buffer_release bh s =
     upd_bh bh (\<lambda>b. b\<lparr>bh_ref := (if bh_ref b > 0 then bh_ref b - 1 else bh_ref b),
                       bh_flags := bh_flags b AND NOT BUF_BUSY\<rparr>) s"

definition buffer_mark_dirty :: "nat \<Rightarrow> 'm bcache \<Rightarrow> 'm bcache" where
  "buffer_mark_dirty bh s =
     (if bh_flags (buffer_pool s bh) AND BUF_DIRTY = 0
      then upd_stats (\<lambda>c. c\<lparr>cs_dirty := cs_dirty c + 1\<rparr>)
             (upd_bh bh (\<lambda>b. b\<lparr>bh_flags := bh_flags b OR BUF_DIRTY\<rparr>) s)
      else s)"

definition buffer_sync :: "'m drivers \<Rightarrow> nat \<Rightarrow> 'm bcache \<Rightarrow> int \<times> 'm bcache" where
  "buffer_sync T bh s =
     (if bh_dev (buffer_pool s bh) = 0 \<or> bh_flags (buffer_pool s bh) AND BUF_DIRTY = 0 then (0, s)
      else buffer_sync_internal T bh s)"

primrec sync_loop :: "'m drivers \<Rightarrow> u64 \<Rightarrow> nat \<Rightarrow> nat \<Rightarrow> int \<Rightarrow> 'm bcache \<Rightarrow> int \<times> 'm bcache" where
  "sync_loop T dev i 0 errors s = (errors, s)"
| "sync_loop T dev i (Suc k) errors s =
     (let b = buffer_pool s i in
      if bh_flags b AND BUF_DIRTY \<noteq> 0 \<and> (dev = 0 \<or> bh_dev b = dev)
      then (let (r, s) = buffer_sync_internal T i s
            in sync_loop T dev (Suc i) k (if r \<noteq> 0 then errors + 1 else errors) s)
      else sync_loop T dev (Suc i) k errors s)"

definition buffer_sync_all :: "'m drivers \<Rightarrow> u64 \<Rightarrow> 'm bcache \<Rightarrow> int \<times> 'm bcache" where
  "buffer_sync_all T dev s =
     (let (errors, s) = sync_loop T dev 0 BUFFER_CACHE_SIZE 0 s;
          s = (case (if dev = 0 then None else dev_sy T (bdevs s dev)) of
                 None \<Rightarrow> s
               | Some sy \<Rightarrow> s\<lparr>bstore := snd (sy (bdevs s dev) (bstore s))\<rparr>)
      in (if errors > 0 then - 1 else 0, s))"

definition invalidate_one :: "'m drivers \<Rightarrow> u64 \<Rightarrow> nat \<Rightarrow> 'm bcache \<Rightarrow> 'm bcache" where
  "invalidate_one T dev i s =
     (if bh_dev (buffer_pool s i) = dev
      then (let s = (if bh_flags (buffer_pool s i) AND BUF_DIRTY \<noteq> 0
                     then snd (buffer_sync_internal T i s) else s);
                s = buffer_hash_remove i s;
                s = (if bh_lru_prev (buffer_pool s i) \<noteq> None \<or> bh_lru_next (buffer_pool s i) \<noteq> None
                        \<or> lru_head s = Some i
                     then lru_remove i s else s);
                s = upd_bh i (\<lambda>b. b\<lparr>bh_dev := 0, bh_block := 0, bh_flags := 0, bh_ref := 0,
                                     bh_hash_next := free_buffers s\<rparr>) s
            in upd_stats (\<lambda>c. c\<lparr>cs_cached := cs_cached c - 1\<rparr>) (s\<lparr>free_buffers := Some i\<rparr>))
      else s)"

definition buffer_invalidate :: "'m drivers \<Rightarrow> u64 \<Rightarrow> 'm bcache \<Rightarrow> 'm bcache" where
  "buffer_invalidate T dev s = fold (invalidate_one T dev) [0..<BUFFER_CACHE_SIZE] s"

section \<open>Byte-level input and output\<close>

text \<open>
  The loops of \<open>block_read\<close> and \<open>block_write\<close> after \<open>n\<close> bytes, at block \<open>bn\<close>
  and offset \<open>off\<close> in it.  Every round after the first starts at offset 0 and
  copies at least one byte.
\<close>

definition chunk :: "nat \<Rightarrow> nat \<Rightarrow> nat \<Rightarrow> nat" where
  "chunk off sz n = (let to_copy = BLOCK_SIZE - off in if to_copy > sz - n then sz - n else to_copy)"

function block_read_loop ::
  "'m drivers \<Rightarrow> u64 \<Rightarrow> nat \<Rightarrow> nat \<Rightarrow> nat \<Rightarrow> nat \<Rightarrow> u8 array \<Rightarrow> 'm bcache \<Rightarrow> int \<times> u8 array \<times> 'm bcache" where
  "block_read_loop T dev sz bn off n dst s =
     (if n < sz then
        if bn \<ge> bd_total_blocks (bdevs s dev) then (int n, dst, s)
        else (case buffer_get T dev bn s of
                (None, s) \<Rightarrow> (if n > 0 then int n else - 1, dst, s)
              | (Some bh, s) \<Rightarrow>
                  block_read_loop T dev sz (Suc bn) 0 (n + chunk off sz n)
                    (copy_into dst n (bh_data (buffer_pool s bh)) off (chunk off sz n))
                    (buffer_release bh s))
      else (int n, dst, s))"
  by pat_completeness auto
termination
  by (relation "measure (\<lambda>(T, dev, sz, bn, off, n, dst, s). (sz - n) + (if off \<ge> BLOCK_SIZE then 1 else 0))")
     (auto simp: chunk_def Let_def)

declare block_read_loop.simps [simp del]

definition block_read ::
  "'m drivers \<Rightarrow> u64 \<Rightarrow> nat \<Rightarrow> u8 array option \<Rightarrow> nat \<Rightarrow> 'm bcache \<Rightarrow> int \<times> u8 array option \<times> 'm bcache" where
  "block_read T dev offset buffer sz s =
     (case buffer of
        None \<Rightarrow> (- 1, None, s)
      | Some dst \<Rightarrow>
          if dev = 0 \<or> sz = 0 then (- 1, Some dst, s)
          else (let (r, dst, s) = block_read_loop T dev sz (offset div BLOCK_SIZE) (offset mod BLOCK_SIZE) 0 dst s
                in (r, Some dst, s)))"

function block_write_loop ::
  "'m drivers \<Rightarrow> u64 \<Rightarrow> nat \<Rightarrow> u8 array \<Rightarrow> nat \<Rightarrow> nat \<Rightarrow> nat \<Rightarrow> 'm bcache \<Rightarrow> int \<times> 'm bcache" where
  "block_write_loop T dev sz src bn off n s =
     (if n < sz then
        if bn \<ge> bd_total_blocks (bdevs s dev) then (int n, s)
        else (case (if off = 0 \<and> sz - n \<ge> BLOCK_SIZE then buffer_get_new T dev bn s else buffer_get T dev bn s) of
                (None, s) \<Rightarrow> (if n > 0 then int n else - 1, s)
              | (Some bh, s) \<Rightarrow>
                  block_write_loop T dev sz src (Suc bn) 0 (n + chunk off sz n)
                    (buffer_release bh
                      (buffer_mark_dirty bh
                        (upd_bh bh (\<lambda>b. b\<lparr>bh_data := copy_into (bh_data b) off src n (chunk off sz n)\<rparr>) s))))
      else (int n, s))"
  by pat_completeness auto
termination
  by (relation "measure (\<lambda>(T, dev, sz, src, bn, off, n, s). (sz - n) + (if off \<ge> BLOCK_SIZE then 1 else 0))")
     (auto simp: chunk_def Let_def)

declare block_write_loop.simps [simp del]

definition block_write ::
  "'m drivers \<Rightarrow> u64 \<Rightarrow> nat \<Rightarrow> u8 array option \<Rightarrow> nat \<Rightarrow> 'm bcache \<Rightarrow> int \<times> 'm bcache" where
  "block_write T dev offset buffer sz s =
     (case buffer of
        None \<Rightarrow> (- 1, s)
      | Some src \<Rightarrow>
          if dev = 0 \<or> sz = 0 then (- 1, s)
          else block_write_loop T dev sz src (offset div BLOCK_SIZE) (offset mod BLOCK_SIZE) 0 s)"

section \<open>Device registry\<close>

definition block_device_init :: "pfa \<Rightarrow> 'm bcache \<Rightarrow> pfa \<times> 'm bcache" where
  "block_device_init f s =
     (if block_initialized s then (f, s)
      else (let s = s\<lparr>registered_devices := (\<lambda>i. if i < MAX_BLOCK_DEVICES then 0 else registered_devices s i),
                      num_devices := 0\<rparr>;
                (f, s) = buffer_cache_init f s
            in (f, s\<lparr>block_initialized := True\<rparr>)))"

text \<open>The slot of the first registered device with the given name.\<close>

definition name_slot :: "string \<Rightarrow> 'm bcache \<Rightarrow> nat option" where
  "name_slot nm s =
     first_slot (\<lambda>i. registered_devices s i \<noteq> 0 \<and> bd_name (bdevs s (registered_devices s i)) = nm) (num_devices s)"

definition upd_bdev :: "u64 \<Rightarrow> (bdev \<Rightarrow> bdev) \<Rightarrow> 'm bcache \<Rightarrow> 'm bcache" where
  "upd_bdev dev f s = s\<lparr>bdevs := (bdevs s)(dev := f (bdevs s dev))\<rparr>"

definition block_device_register :: "u64 \<Rightarrow> 'm bcache \<Rightarrow> int \<times> 'm bcache" where
  "block_device_register dev s =
     (if dev = 0 \<or> bd_ops (bdevs s dev) = None then (- 1, s)
      else if num_devices s \<ge> MAX_BLOCK_DEVICES then (- 1, s)
      else if name_slot (bd_name (bdevs s dev)) s \<noteq> None then (- 1, s)
      else (0, upd_bdev dev (\<lambda>d. d\<lparr>bd_ref_count := 1\<rparr>)
                 (s\<lparr>registered_devices := (registered_devices s)(num_devices s := dev),
                    num_devices := num_devices s + 1\<rparr>)))"

definition block_device_unregister :: "'m drivers \<Rightarrow> u64 \<Rightarrow> 'm bcache \<Rightarrow> int \<times> 'm bcache" where
  "block_device_unregister T dev s =
     (if dev = 0 then (- 1, s)
      else (case first_slot (\<lambda>i. registered_devices s i = dev) (num_devices s) of
              None \<Rightarrow> (- 1, s)
            | Some i \<Rightarrow>
                (0, buffer_invalidate T dev
                      (s\<lparr>registered_devices :=
                           (\<lambda>j. if j = num_devices s - 1 then 0
                                else if i \<le> j \<and> j < num_devices s - 1 then registered_devices s (j + 1)
                                else registered_devices s j),
                         num_devices := num_devices s - 1\<rparr>))))"

definition block_device_get :: "string \<Rightarrow> 'm bcache \<Rightarrow> u64 \<times> 'm bcache" where
  "block_device_get nm s =
     (case name_slot nm s of
        None \<Rightarrow> (0, s)
      | Some i \<Rightarrow> (registered_devices s i,
                   upd_bdev (registered_devices s i) (\<lambda>d. d\<lparr>bd_ref_count := bd_ref_count d + 1\<rparr>) s))"

definition block_device_put :: "u64 \<Rightarrow> 'm bcache \<Rightarrow> 'm bcache" where
  "block_device_put dev s =
     (if dev = 0 then s
      else upd_bdev dev (\<lambda>d. d\<lparr>bd_ref_count := (if bd_ref_count d > 0 then bd_ref_count d - 1 else bd_ref_count d)\<rparr>) s)"

end
