(* ===== verification/Block_Lists.thy ===== *)
theory Block_Lists
  imports Block_Cache
begin

text \<open>
  The three linked structures of the buffer cache: the doubly linked LRU list,
  the hash chains and the free list.  Each is related to the list of buffers
  it holds, each list operation is shown to act on those lists, and to leave
  the other structures and the buffers' contents alone.
\<close>

section \<open>Which fields the list operations touch\<close>

named_theorems bh_frame

lemma upd_bh_simps [simp]:
  "buffer_pool (upd_bh i f s) = (buffer_pool s)(i := f (buffer_pool s i))"
  "buffer_hash (upd_bh i f s) = buffer_hash s" "lru_head (upd_bh i f s) = lru_head s"
  "lru_tail (upd_bh i f s) = lru_tail s" "free_buffers (upd_bh i f s) = free_buffers s"
  "bdevs (upd_bh i f s) = bdevs s" "bstore (upd_bh i f s) = bstore s"
  by (simp_all add: upd_bh_def)

lemma upd_stats_simps [simp]:
  "buffer_pool (upd_stats f s) = buffer_pool s"
  "buffer_hash (upd_stats f s) = buffer_hash s" "lru_head (upd_stats f s) = lru_head s"
  "lru_tail (upd_stats f s) = lru_tail s" "free_buffers (upd_stats f s) = free_buffers s"
  "bdevs (upd_stats f s) = bdevs s" "bstore (upd_stats f s) = bstore s"
  by (simp_all add: upd_stats_def)

lemma lru_remove_frame [bh_frame]:
  "bh_dev (buffer_pool (lru_remove b s) i) = bh_dev (buffer_pool s i)"
  "bh_block (buffer_pool (lru_remove b s) i) = bh_block (buffer_pool s i)"
  "bh_data (buffer_pool (lru_remove b s) i) = bh_data (buffer_pool s i)"
  "bh_flags (buffer_pool (lru_remove b s) i) = bh_flags (buffer_pool s i)"
  "bh_ref (buffer_pool (lru_remove b s) i) = bh_ref (buffer_pool s i)"
  "bh_hash_next (buffer_pool (lru_remove b s) i) = bh_hash_next (buffer_pool s i)"
  "buffer_hash (lru_remove b s) = buffer_hash s" "free_buffers (lru_remove b s) = free_buffers s"
  "bdevs (lru_remove b s) = bdevs s" "bstore (lru_remove b s) = bstore s"
  by (simp_all add: lru_remove_def Let_def split: option.split)

lemma lru_add_front_frame [bh_frame]:
  "bh_dev (buffer_pool (lru_add_front b s) i) = bh_dev (buffer_pool s i)"
  "bh_block (buffer_pool (lru_add_front b s) i) = bh_block (buffer_pool s i)"
  "bh_data (buffer_pool (lru_add_front b s) i) = bh_data (buffer_pool s i)"
  "bh_flags (buffer_pool (lru_add_front b s) i) = bh_flags (buffer_pool s i)"
  "bh_ref (buffer_pool (lru_add_front b s) i) = bh_ref (buffer_pool s i)"
  "bh_hash_next (buffer_pool (lru_add_front b s) i) = bh_hash_next (buffer_pool s i)"
  "buffer_hash (lru_add_front b s) = buffer_hash s" "free_buffers (lru_add_front b s) = free_buffers s"
  "bdevs (lru_add_front b s) = bdevs s" "bstore (lru_add_front b s) = bstore s"
  by (simp_all add: lru_add_front_def Let_def split: option.split)

lemma lru_touch_frame [bh_frame]:
  "bh_dev (buffer_pool (lru_touch b s) i) = bh_dev (buffer_pool s i)"
  "bh_block (buffer_pool (lru_touch b s) i) = bh_block (buffer_pool s i)"
  "bh_data (buffer_pool (lru_touch b s) i) = bh_data (buffer_pool s i)"
  "bh_flags (buffer_pool (lru_touch b s) i) = bh_flags (buffer_pool s i)"
  "bh_ref (buffer_pool (lru_touch b s) i) = bh_ref (buffer_pool s i)"
  "bh_hash_next (buffer_pool (lru_touch b s) i) = bh_hash_next (buffer_pool s i)"
  "buffer_hash (lru_touch b s) = buffer_hash s" "free_buffers (lru_touch b s) = free_buffers s"
  "bdevs (lru_touch b s) = bdevs s" "bstore (lru_touch b s) = bstore s"
  by (simp_all add: lru_touch_def bh_frame)

lemma hcell_set_frame [simp]:
  "bh_dev (buffer_pool (hcell_set pp v s) i) = bh_dev (buffer_pool s i)"
  "bh_block (buffer_pool (hcell_set pp v s) i) = bh_block (buffer_pool s i)"
  "bh_data (buffer_pool (hcell_set pp v s) i) = bh_data (buffer_pool s i)"
  "bh_flags (buffer_pool (hcell_set pp v s) i) = bh_flags (buffer_pool s i)"
  "bh_ref (buffer_pool (hcell_set pp v s) i) = bh_ref (buffer_pool s i)"
  "bh_lru_prev (buffer_pool (hcell_set pp v s) i) = bh_lru_prev (buffer_pool s i)"
  "bh_lru_next (buffer_pool (hcell_set pp v s) i) = bh_lru_next (buffer_pool s i)"
  "lru_head (hcell_set pp v s) = lru_head s" "lru_tail (hcell_set pp v s) = lru_tail s"
  "free_buffers (hcell_set pp v s) = free_buffers s"
  "bdevs (hcell_set pp v s) = bdevs s" "bstore (hcell_set pp v s) = bstore s"
  by (cases pp; simp)+

lemma hash_unlink_cases:
  "hash_unlink n pp b s = s \<or>
   (\<exists>q v. hash_unlink n pp b s = upd_bh b (\<lambda>b. b\<lparr>bh_hash_next := None\<rparr>) (hcell_set q v s))"
  by (induction n arbitrary: pp) (auto split: option.split)

lemma hash_unlink_frame [bh_frame]:
  "bh_dev (buffer_pool (hash_unlink n pp b s) i) = bh_dev (buffer_pool s i)"
  "bh_block (buffer_pool (hash_unlink n pp b s) i) = bh_block (buffer_pool s i)"
  "bh_data (buffer_pool (hash_unlink n pp b s) i) = bh_data (buffer_pool s i)"
  "bh_flags (buffer_pool (hash_unlink n pp b s) i) = bh_flags (buffer_pool s i)"
  "bh_ref (buffer_pool (hash_unlink n pp b s) i) = bh_ref (buffer_pool s i)"
  "bh_lru_prev (buffer_pool (hash_unlink n pp b s) i) = bh_lru_prev (buffer_pool s i)"
  "bh_lru_next (buffer_pool (hash_unlink n pp b s) i) = bh_lru_next (buffer_pool s i)"
  "lru_head (hash_unlink n pp b s) = lru_head s" "lru_tail (hash_unlink n pp b s) = lru_tail s"
  "free_buffers (hash_unlink n pp b s) = free_buffers s"
  "bdevs (hash_unlink n pp b s) = bdevs s" "bstore (hash_unlink n pp b s) = bstore s"
  using hash_unlink_cases [of n pp b s] by auto

text \<open>In the other direction, \<open>buffer_hash_add\<close> touches one \<open>hash_next\<close> and one bucket.\<close>

lemma buffer_hash_add_eq:
  "buffer_hash_add b s =
     (let h = buffer_hash_func (bh_dev (buffer_pool s b)) (bh_block (buffer_pool s b)) in
      (upd_bh b (\<lambda>x. x\<lparr>bh_hash_next := buffer_hash s h\<rparr>) s)\<lparr>buffer_hash := (buffer_hash s)(h := Some b)\<rparr>)"
  by (simp add: buffer_hash_add_def Let_def)

section \<open>The LRU list\<close>

definition lru_ok :: "'m bcache \<Rightarrow> nat list \<Rightarrow> bool" where
  "lru_ok s xs \<longleftrightarrow> distinct xs \<and> path (\<lambda>b. bh_lru_next (buffer_pool s b)) (lru_head s) xs \<and>
     path (\<lambda>b. bh_lru_prev (buffer_pool s b)) (lru_tail s) (rev xs)"

lemma lru_ok_cong:
  assumes "lru_ok s xs" "lru_head t = lru_head s" "lru_tail t = lru_tail s"
    "\<And>b. b \<in> set xs \<Longrightarrow> bh_lru_next (buffer_pool t b) = bh_lru_next (buffer_pool s b)"
    "\<And>b. b \<in> set xs \<Longrightarrow> bh_lru_prev (buffer_pool t b) = bh_lru_prev (buffer_pool s b)"
  shows "lru_ok t xs"
  using assms path_cong [of xs "\<lambda>b. bh_lru_next (buffer_pool t b)" "\<lambda>b. bh_lru_next (buffer_pool s b)"]
    path_cong [of "rev xs" "\<lambda>b. bh_lru_prev (buffer_pool t b)" "\<lambda>b. bh_lru_prev (buffer_pool s b)"]
  by (simp add: lru_ok_def)

lemma lru_remove_links:
  "lru_head (lru_remove b s) = (if bh_lru_prev (buffer_pool s b) = None then bh_lru_next (buffer_pool s b) else lru_head s)"
  "lru_tail (lru_remove b s) = (if bh_lru_next (buffer_pool s b) = None then bh_lru_prev (buffer_pool s b) else lru_tail s)"
  "bh_lru_next (buffer_pool (lru_remove b s) i) =
     (if i = b then None else if bh_lru_prev (buffer_pool s b) = Some i then bh_lru_next (buffer_pool s b) else bh_lru_next (buffer_pool s i))"
  "bh_lru_prev (buffer_pool (lru_remove b s) i) =
     (if i = b then None else if bh_lru_next (buffer_pool s b) = Some i then bh_lru_prev (buffer_pool s b) else bh_lru_prev (buffer_pool s i))"
  by (auto simp: lru_remove_def Let_def split: option.split)

lemma lru_neighbours:
  assumes "lru_ok s (ys @ b # zs)"
  shows "bh_lru_next (buffer_pool s b) = (if zs = [] then None else Some (hd zs))"
    and "bh_lru_prev (buffer_pool s b) = (if ys = [] then None else Some (last ys))"
proof -
  have "path (\<lambda>b. bh_lru_next (buffer_pool s b)) (bh_lru_next (buffer_pool s b)) zs"
    using assms path_append_mid by (fastforce simp: lru_ok_def)
  then show "bh_lru_next (buffer_pool s b) = (if zs = [] then None else Some (hd zs))" by (cases zs) auto
  have "path (\<lambda>b. bh_lru_prev (buffer_pool s b)) (bh_lru_prev (buffer_pool s b)) (rev ys)"
    using assms path_append_mid [of _ _ "rev zs" b "rev ys"] by (fastforce simp: lru_ok_def)
  then show "bh_lru_prev (buffer_pool s b) = (if ys = [] then None else Some (last ys))"
    by (cases ys rule: rev_cases) auto
qed

lemma lru_ok_remove:
  assumes "lru_ok s (ys @ b # zs)"
  shows "lru_ok (lru_remove b s) (ys @ zs)"
proof -
  note nb = lru_neighbours [OF assms]
  let ?f = "\<lambda>b. bh_lru_next (buffer_pool s b)" and ?g = "\<lambda>b. bh_lru_prev (buffer_pool s b)"
  have d: "distinct (ys @ b # zs)" "distinct (rev zs @ b # rev ys)" "b \<notin> set ys" "b \<notin> set zs"
    and p: "path ?f (lru_head s) (ys @ b # zs)" "path ?g (lru_tail s) (rev zs @ b # rev ys)"
    using assms by (auto simp: lru_ok_def)
  have "path (\<lambda>i. bh_lru_next (buffer_pool (lru_remove b s) i)) (lru_head (lru_remove b s)) (ys @ zs)"
    using path_remove [OF p(1) d(1)] d(3,4) nb
    by (subst path_cong [of _ _ "if ys = [] then ?f else ?f(last ys := ?f b)"]) (auto simp: lru_remove_links)
  moreover have "path (\<lambda>i. bh_lru_prev (buffer_pool (lru_remove b s) i)) (lru_tail (lru_remove b s)) (rev zs @ rev ys)"
    using path_remove [OF p(2) d(2)] d(3,4) nb
    by (subst path_cong [of _ _ "if zs = [] then ?g else ?g(hd zs := ?g b)"]) (auto simp: lru_remove_links last_rev)
  ultimately show ?thesis using d(1) by (simp add: lru_ok_def)
qed

lemma path_extend:
  "path f p (ys @ [a]) \<Longrightarrow> a \<notin> set ys \<Longrightarrow> b \<notin> set (ys @ [a]) \<Longrightarrow> path (f(a := Some b, b := None)) p (ys @ [a, b])"
  by (induction ys arbitrary: p) auto

lemma lru_add_front_links:
  "lru_head (lru_add_front b s) = Some b"
  "lru_tail (lru_add_front b s) = (if lru_head s = None then Some b else lru_tail s)"
  "lru_head s \<noteq> Some b \<Longrightarrow> bh_lru_next (buffer_pool (lru_add_front b s) i) =
     (if i = b then lru_head s else bh_lru_next (buffer_pool s i))"
  "lru_head s \<noteq> Some b \<Longrightarrow> bh_lru_prev (buffer_pool (lru_add_front b s) i) =
     (if i = b then None else if lru_head s = Some i then Some b else bh_lru_prev (buffer_pool s i))"
  by (auto simp: lru_add_front_def Let_def split: option.split)

lemma lru_ok_add:
  assumes "lru_ok s xs" "b \<notin> set xs"
  shows "lru_ok (lru_add_front b s) (b # xs)"
proof -
  let ?f = "\<lambda>b. bh_lru_next (buffer_pool s b)" and ?g = "\<lambda>b. bh_lru_prev (buffer_pool s b)"
  have hd: "lru_head s = (case xs of [] \<Rightarrow> None | x # _ \<Rightarrow> Some x)"
    using assms(1) path_start by (fastforce simp: lru_ok_def)
  then have nb: "lru_head s \<noteq> Some b" using assms(2) by (auto split: list.splits)
  have "path (\<lambda>i. bh_lru_next (buffer_pool (lru_add_front b s) i)) (lru_head s) xs"
    using assms by (subst path_cong [of _ _ ?f]) (auto simp: lru_add_front_links nb lru_ok_def)
  moreover have "path (\<lambda>i. bh_lru_prev (buffer_pool (lru_add_front b s) i)) (lru_tail (lru_add_front b s)) (rev xs @ [b])"
  proof (cases xs)
    case Nil
    then show ?thesis using hd nb by (simp add: lru_add_front_links)
  next
    case (Cons a as)
    then have "path ?g (lru_tail s) (rev as @ [a])" "a \<notin> set as" "b \<notin> set (rev as @ [a])"
      using assms by (auto simp: lru_ok_def)
    then have "path (?g(a := Some b, b := None)) (lru_tail s) (rev as @ [a, b])"
      using path_extend [of ?g "lru_tail s" "rev as" a b] by simp
    moreover have "(\<lambda>i. bh_lru_prev (buffer_pool (lru_add_front b s) i)) = ?g(a := Some b, b := None)"
      using hd nb Cons by (auto simp: lru_add_front_links fun_eq_iff)
    ultimately show ?thesis using hd Cons by (simp add: lru_add_front_links)
  qed
  ultimately show ?thesis using assms nb by (simp add: lru_ok_def lru_add_front_links)
qed

lemma lru_ok_touch:
  assumes "lru_ok s xs" "b \<in> set xs"
  shows "lru_ok (lru_touch b s) (b # remove1 b xs)"
proof -
  obtain ys zs where xs: "xs = ys @ b # zs" "b \<notin> set ys" using split_list_first [OF assms(2)] by blast
  have d: "b \<notin> set zs" using assms(1) xs by (simp add: lru_ok_def)
  have r: "remove1 b xs = ys @ zs" using xs by (simp add: remove1_append)
  show ?thesis
  proof (cases "lru_head s = Some b")
    case True
    then have "ys = []" using assms(1) xs path_start [of _ "lru_head s" xs] by (cases ys) (auto simp: lru_ok_def)
    then show ?thesis using assms(1) xs True by (simp add: lru_touch_def)
  next
    case False
    have "lru_ok (lru_add_front b (lru_remove b s)) (b # ys @ zs)"
      by (rule lru_ok_add [OF lru_ok_remove]) (use assms(1) xs d in auto)
    then show ?thesis using False r by (simp add: lru_touch_def)
  qed
qed

section \<open>The hash chains\<close>

lemma buffer_hash_func_less [simp]: "buffer_hash_func d n < BUFFER_HASH_SIZE"
proof -
  have "unat (w AND 31) < 32" for w :: u64
    using word_and_le1 [of w 31] by (simp add: word_le_nat_alt and.commute)
  then show ?thesis by (simp add: buffer_hash_func_def Let_def)
qed

abbreviation hash_of :: "'m bcache \<Rightarrow> nat \<Rightarrow> nat" where
  "hash_of s b \<equiv> buffer_hash_func (bh_dev (buffer_pool s b)) (bh_block (buffer_pool s b))"

definition hash_ok :: "'m bcache \<Rightarrow> (nat \<Rightarrow> nat list) \<Rightarrow> bool" where
  "hash_ok s ch \<longleftrightarrow> (\<forall>h<BUFFER_HASH_SIZE. path (\<lambda>b. bh_hash_next (buffer_pool s b)) (buffer_hash s h) (ch h) \<and>
     distinct (ch h) \<and> (\<forall>b\<in>set (ch h). hash_of s b = h))"

lemma hash_okD:
  assumes "hash_ok s ch" "h < BUFFER_HASH_SIZE"
  shows "path (\<lambda>b. bh_hash_next (buffer_pool s b)) (buffer_hash s h) (ch h)" "distinct (ch h)"
    "b \<in> set (ch h) \<Longrightarrow> hash_of s b = h"
  using assms by (simp_all add: hash_ok_def)

definition chained :: "(nat \<Rightarrow> nat list) \<Rightarrow> nat set" where
  "chained ch = (\<Union>h<BUFFER_HASH_SIZE. set (ch h))"

lemma hash_ok_cong:
  assumes "hash_ok s ch" "\<And>h. h < BUFFER_HASH_SIZE \<Longrightarrow> buffer_hash t h = buffer_hash s h"
    "\<And>b. b \<in> chained ch \<Longrightarrow> bh_hash_next (buffer_pool t b) = bh_hash_next (buffer_pool s b)"
    "\<And>b. b \<in> chained ch \<Longrightarrow> bh_dev (buffer_pool t b) = bh_dev (buffer_pool s b)"
    "\<And>b. b \<in> chained ch \<Longrightarrow> bh_block (buffer_pool t b) = bh_block (buffer_pool s b)"
  shows "hash_ok t ch"
  unfolding hash_ok_def
proof (intro allI impI)
  fix h assume h: "h < BUFFER_HASH_SIZE"
  then have c: "b \<in> set (ch h) \<Longrightarrow> b \<in> chained ch" for b by (auto simp: chained_def)
  have "path (\<lambda>b. bh_hash_next (buffer_pool t b)) (buffer_hash t h) (ch h)"
    using assms(1,2) h path_cong [of "ch h" "\<lambda>b. bh_hash_next (buffer_pool t b)" "\<lambda>b. bh_hash_next (buffer_pool s b)"] assms(3) c
    by (simp add: hash_ok_def)
  then show "path (\<lambda>b. bh_hash_next (buffer_pool t b)) (buffer_hash t h) (ch h) \<and> distinct (ch h) \<and>
      (\<forall>b\<in>set (ch h). hash_of t b = h)"
    using assms(1,4,5) h c by (simp add: hash_ok_def)
qed

lemma chained_hash: "hash_ok s ch \<Longrightarrow> b \<in> chained ch \<Longrightarrow> b \<in> set (ch (hash_of s b))"
  by (auto simp: hash_ok_def chained_def)

lemma hash_ok_add:
  assumes "hash_ok s ch" "b \<notin> chained ch"
  shows "hash_ok (buffer_hash_add b s) (ch(hash_of s b := b # ch (hash_of s b)))"
  unfolding hash_ok_def
proof (intro allI impI)
  fix h assume h: "h < BUFFER_HASH_SIZE"
  let ?t = "buffer_hash_add b s" and ?c = "ch(hash_of s b := b # ch (hash_of s b))"
  have nb: "b \<notin> set (ch h)" using assms(2) h by (auto simp: chained_def)
  have "path (\<lambda>x. bh_hash_next (buffer_pool ?t x)) (buffer_hash s h) (ch h)"
    using assms(1) h nb
    by (subst path_cong [of _ _ "\<lambda>x. bh_hash_next (buffer_pool s x)"]) (auto simp: hash_ok_def buffer_hash_add_eq Let_def)
  then show "path (\<lambda>x. bh_hash_next (buffer_pool ?t x)) (buffer_hash ?t h) (?c h) \<and> distinct (?c h) \<and>
      (\<forall>x\<in>set (?c h). hash_of ?t x = h)"
    using assms(1) h nb by (auto simp: hash_ok_def buffer_hash_add_eq Let_def)
qed

lemma in_chained: "x \<in> chained ch \<longleftrightarrow> (\<exists>h<BUFFER_HASH_SIZE. x \<in> set (ch h))"
  by (auto simp: chained_def)

lemma chain_length:
  assumes "hash_ok s ch" "chained ch \<subseteq> {..<BUFFER_CACHE_SIZE}" "h < BUFFER_HASH_SIZE"
  shows "length (ch h) \<le> BUFFER_CACHE_SIZE"
proof -
  have "set (ch h) \<subseteq> {..<BUFFER_CACHE_SIZE}" using assms(2,3) in_chained by blast
  then show ?thesis
    using card_mono [of "{..<BUFFER_CACHE_SIZE}" "set (ch h)"] distinct_card [OF hash_okD(2) [OF assms(1,3)]] by simp
qed

lemma chained_upd:
  "k < BUFFER_HASH_SIZE \<Longrightarrow> chained (ch(k := l)) = set l \<union> {x. \<exists>h<BUFFER_HASH_SIZE. h \<noteq> k \<and> x \<in> set (ch h)}"
  by (auto simp: in_chained split: if_splits)

lemma chained_split: "k < BUFFER_HASH_SIZE \<Longrightarrow> chained ch = set (ch k) \<union> {x. \<exists>h<BUFFER_HASH_SIZE. h \<noteq> k \<and> x \<in> set (ch h)}"
  using chained_upd [of k ch "ch k"] by simp

lemma chained_add: "chained (ch(hash_of s b := b # ch (hash_of s b))) = insert b (chained ch)"
  by (simp add: chained_upd chained_split [of "hash_of s b" ch])

text \<open>Removal: the loop stops at the cell that points to the buffer.\<close>

lemma hash_unlink_found:
  "path (\<lambda>x. bh_hash_next (buffer_pool s x)) (hcell_get pp s) (ys @ b # zs) \<Longrightarrow> b \<notin> set ys \<Longrightarrow> length ys < n \<Longrightarrow>
   hash_unlink n pp b s = upd_bh b (\<lambda>x. x\<lparr>bh_hash_next := None\<rparr>)
     (hcell_set (if ys = [] then pp else Next_of (last ys)) (bh_hash_next (buffer_pool s b)) s)"
proof (induction ys arbitrary: pp n)
  case Nil
  then show ?case by (cases n) auto
next
  case (Cons y ys)
  then obtain n' where n: "n = Suc n'" by (cases n) auto
  have y: "hcell_get pp s = Some y" "y \<noteq> b" using Cons.prems by auto
  have "hash_unlink n pp b s = hash_unlink n' (Next_of y) b s" using y by (simp add: n)
  also have "\<dots> = upd_bh b (\<lambda>x. x\<lparr>bh_hash_next := None\<rparr>)
     (hcell_set (if ys = [] then Next_of y else Next_of (last ys)) (bh_hash_next (buffer_pool s b)) s)"
    by (rule Cons.IH) (use Cons.prems(1) in \<open>simp\<close>, use Cons.prems(2,3) n in \<open>simp_all\<close>)
  also have "(if ys = [] then Next_of y else Next_of (last ys)) = Next_of (last (y # ys))" by simp
  finally show ?case by simp
qed

lemma buffer_hash_remove_links:
  assumes "hash_ok s ch" "ch (hash_of s b) = ys @ b # zs" "length ys < BUFFER_CACHE_SIZE"
  shows "bh_hash_next (buffer_pool (buffer_hash_remove b s) x) =
           (if x = b then None else if ys \<noteq> [] \<and> x = last ys then bh_hash_next (buffer_pool s b)
            else bh_hash_next (buffer_pool s x))"
    and "buffer_hash (buffer_hash_remove b s) h =
           (if ys = [] \<and> h = hash_of s b then bh_hash_next (buffer_pool s b) else buffer_hash s h)"
proof -
  have p: "path (\<lambda>x. bh_hash_next (buffer_pool s x)) (hcell_get (Bucket (hash_of s b)) s) (ys @ b # zs)"
    and "distinct (ys @ b # zs)"
    using hash_okD(1,2) [OF assms(1), of "hash_of s b"]
    unfolding assms(2) by simp_all
  then have "b \<notin> set ys" by simp
  note u = hash_unlink_found [OF p this assms(3)]
  show "bh_hash_next (buffer_pool (buffer_hash_remove b s) x) =
           (if x = b then None else if ys \<noteq> [] \<and> x = last ys then bh_hash_next (buffer_pool s b)
            else bh_hash_next (buffer_pool s x))"
    and "buffer_hash (buffer_hash_remove b s) h =
           (if ys = [] \<and> h = hash_of s b then bh_hash_next (buffer_pool s b) else buffer_hash s h)"
    unfolding buffer_hash_remove_def u by auto
qed

lemmas buffer_hash_remove_frame [bh_frame] =
  hash_unlink_frame [of BUFFER_CACHE_SIZE "Bucket (hash_of s b)" b s for s b, folded buffer_hash_remove_def]

lemma hash_ok_remove:
  assumes ok: "hash_ok s ch" and b: "b \<in> chained ch" and small: "chained ch \<subseteq> {..<BUFFER_CACHE_SIZE}"
  shows "hash_ok (buffer_hash_remove b s) (ch(hash_of s b := remove1 b (ch (hash_of s b))))"
    and "x \<notin> chained ch \<Longrightarrow> bh_hash_next (buffer_pool (buffer_hash_remove b s) x) = bh_hash_next (buffer_pool s x)"
proof -
  let ?h = "hash_of s b" and ?t = "buffer_hash_remove b s" and ?f = "\<lambda>x. bh_hash_next (buffer_pool s x)"
  obtain ys zs where c: "ch ?h = ys @ b # zs" "b \<notin> set ys"
    using split_list_first [OF chained_hash [OF ok b]] by blast
  have d: "distinct (ys @ b # zs)" and p: "path (\<lambda>x. bh_hash_next (buffer_pool s x)) (buffer_hash s ?h) (ys @ b # zs)"
    using hash_okD(1,2) [OF ok, of ?h]
    unfolding c(1) by simp_all
  have l: "length ys < BUFFER_CACHE_SIZE" using chain_length [OF ok small, of ?h] c(1) by simp
  note links = buffer_hash_remove_links [OF ok c(1) l]
  have r: "remove1 b (ch ?h) = ys @ zs" using c by (simp add: remove1_append)
  have last: "ys \<noteq> [] \<Longrightarrow> last ys \<in> set (ch ?h)" using c by simp
  show "hash_ok ?t (ch(?h := remove1 b (ch ?h)))"
    unfolding hash_ok_def
  proof (intro allI impI)
    fix h assume h: "h < BUFFER_HASH_SIZE"
    show "path (\<lambda>x. bh_hash_next (buffer_pool ?t x)) (buffer_hash ?t h) ((ch(?h := remove1 b (ch ?h))) h) \<and>
      distinct ((ch(?h := remove1 b (ch ?h))) h) \<and> (\<forall>x\<in>set ((ch(?h := remove1 b (ch ?h))) h). hash_of ?t x = h)"
    proof (cases "h = ?h")
      case True
      have "path (\<lambda>x. bh_hash_next (buffer_pool ?t x)) (buffer_hash ?t ?h) (ys @ zs)"
      proof (subst path_cong [of _ _ "if ys = [] then ?f else ?f(last ys := ?f b)"])
        show "path (if ys = [] then ?f else ?f(last ys := ?f b)) (buffer_hash ?t ?h) (ys @ zs)"
          using path_remove [OF p d] by (simp only: links simp_thms if_cancel cong: if_cong)
      next
        fix a assume "a \<in> set (ys @ zs)"
        then have "a \<noteq> b" using c(2) d by auto
        then show "bh_hash_next (buffer_pool ?t a) = (if ys = [] then ?f else ?f(last ys := ?f b)) a"
          by (simp add: links)
      qed
      moreover have "hash_of ?t x = ?h" if "x \<in> set (ys @ zs)" for x
        using that hash_okD(3) [OF ok, of ?h x] c(1) by (auto simp: bh_frame)
      ultimately show ?thesis using True d r by simp
    next
      case False
      then have "last ys \<notin> set (ch h) \<or> ys = []" "b \<notin> set (ch h)"
        using hash_okD(3) [OF ok h, of b] hash_okD(3) [OF ok h, of "last ys"] last
          hash_okD(3) [OF ok, of ?h "last ys"] by auto
      then have "path (\<lambda>x. bh_hash_next (buffer_pool ?t x)) (buffer_hash s h) (ch h)"
        using hash_okD(1) [OF ok h] by (subst path_cong [of _ _ "\<lambda>x. bh_hash_next (buffer_pool s x)"]) (auto simp: links)
      then show ?thesis using False hash_okD(2,3) [OF ok h] by (simp add: links bh_frame)
    qed
  qed
  show "bh_hash_next (buffer_pool ?t x) = bh_hash_next (buffer_pool s x)" if "x \<notin> chained ch"
  proof -
    have "x \<noteq> b" "x \<notin> set (ch ?h)" using that b in_chained [of x ch] by auto
    then show ?thesis using last by (auto simp: links)
  qed
qed

lemma chained_remove:
  assumes "hash_ok s ch" "b \<in> chained ch"
  shows "chained (ch(hash_of s b := remove1 b (ch (hash_of s b)))) = chained ch - {b}"
proof -
  have "distinct (ch (hash_of s b))" "h < BUFFER_HASH_SIZE \<Longrightarrow> b \<in> set (ch h) \<Longrightarrow> h = hash_of s b" for h
    using assms by (auto simp: hash_ok_def)
  then show ?thesis by (auto simp: chained_upd chained_split [of "hash_of s b" ch])
qed

lemma buffer_find_chain:
  assumes ok: "hash_ok s ch" and small: "chained ch \<subseteq> {..<BUFFER_CACHE_SIZE}"
  shows "buffer_find d n s = find (\<lambda>b. bh_dev (buffer_pool s b) = d \<and> bh_block (buffer_pool s b) = n) (ch (buffer_hash_func d n))"
proof -
  let ?h = "buffer_hash_func d n"
  show ?thesis
    unfolding buffer_find_def by (rule chase_path [OF hash_okD(1) [OF ok] chain_length [OF ok small]]) simp_all
qed

end
