(* ===== verification/Block_Refine.thy ===== *)
theory Block_Refine
  imports Block_Lists
begin

text \<open>
  The buffer cache over a backing store: a store promises that a block read
  returns the block's content and that a block write changes that content
  only (the locale \<open>block_store\<close>).  Over such a store the cache keeps its lists
  well formed and its clean buffers equal to the store, and the blocks seen
  through the cache (\<open>bview\<close>) change by writes alone, whatever is evicted.
\<close>

section \<open>The contract of a backing store\<close>

text \<open>
  A store's devices are told apart by their \<open>private_data\<close>: which devices it
  serves, its invariant, the number of blocks and the bytes behind each
  \<open>private_data\<close>.
\<close>

record 'm store_spec =
  st_own :: "bdev \<Rightarrow> bool"
  st_inv :: "'m \<Rightarrow> bool"
  st_cap :: "'m \<Rightarrow> u64 \<Rightarrow> nat"
  st_content :: "'m \<Rightarrow> u64 \<Rightarrow> nat \<Rightarrow> u8 array"

locale block_store =
  fixes T :: "'m drivers" and S :: "'m store_spec"
  assumes read_law:
    "st_inv S m \<Longrightarrow> st_own S dv \<Longrightarrow> n < st_cap S m (bd_private dv) \<Longrightarrow>
     \<exists>rd buf' m'. dev_rd T dv = Some rd \<and> rd dv n buf m = (0, buf', m') \<and> st_inv S m' \<and>
       st_cap S m' = st_cap S m \<and> st_content S m' = st_content S m \<and>
       (\<forall>i<BLOCK_SIZE. buf' i = st_content S m (bd_private dv) n i)"
    and write_law:
    "st_inv S mw \<Longrightarrow> st_own S dw \<Longrightarrow> nw < st_cap S mw (bd_private dw) \<Longrightarrow>
     \<exists>wr m'. dev_wr T dw = Some wr \<and> wr dw nw bufw mw = (0, m') \<and> st_inv S m' \<and>
       st_cap S m' = st_cap S mw \<and>
       (\<forall>p k i. i < BLOCK_SIZE \<longrightarrow> st_content S m' p k i =
          (if p = bd_private dw \<and> k = nw then bufw i else st_content S mw p k i))"
    and sync_law:
    "st_inv S my \<Longrightarrow> st_own S dy \<Longrightarrow> dev_sy T dy = Some sy \<Longrightarrow>
     st_inv S (snd (sy dy my)) \<and> st_cap S (snd (sy dy my)) = st_cap S my \<and>
     st_content S (snd (sy dy my)) = st_content S my"

section \<open>The invariant of the cache\<close>

text \<open>\<open>BUF_DIRTY\<close> is bit 1 of the flags.\<close>

abbreviation dirty :: "'m bcache \<Rightarrow> nat \<Rightarrow> bool" where
  "dirty s b \<equiv> bit (bh_flags (buffer_pool s b)) (Suc 0)"

definition free_ok :: "'m bcache \<Rightarrow> nat list \<Rightarrow> bool" where
  "free_ok s fs \<longleftrightarrow> distinct fs \<and> path (\<lambda>b. bh_hash_next (buffer_pool s b)) (free_buffers s) fs \<and>
     (\<forall>b\<in>set fs. bh_dev (buffer_pool s b) = 0)"

text \<open>Every buffer is cached (in the LRU list and a hash chain), free, or in \<open>B\<close>, in the hands of an operation.\<close>

definition lists_ok :: "'m bcache \<Rightarrow> nat set \<Rightarrow> nat list \<Rightarrow> (nat \<Rightarrow> nat list) \<Rightarrow> nat list \<Rightarrow> bool" where
  "lists_ok s B xs ch fs \<longleftrightarrow> lru_ok s xs \<and> hash_ok s ch \<and> free_ok s fs \<and> chained ch = set xs \<and>
     set fs \<inter> set xs = {} \<and> B \<inter> (set fs \<union> set xs) = {} \<and> B \<union> set fs \<union> set xs = {..<BUFFER_CACHE_SIZE}"

definition devs_ok :: "'m store_spec \<Rightarrow> u64 set \<Rightarrow> 'm bcache \<Rightarrow> bool" where
  "devs_ok S D s \<longleftrightarrow> 0 \<notin> D \<and> st_inv S (bstore s) \<and> inj_on (\<lambda>d. bd_private (bdevs s d)) D \<and>
     (\<forall>d\<in>D. st_own S (bdevs s d) \<and> bd_total_blocks (bdevs s d) \<le> st_cap S (bstore s) (bd_private (bdevs s d)))"

abbreviation stored :: "'m store_spec \<Rightarrow> 'm bcache \<Rightarrow> u64 \<Rightarrow> nat \<Rightarrow> u8 array" where
  "stored S s d n \<equiv> st_content S (bstore s) (bd_private (bdevs s d)) n"

text \<open>The cached blocks are distinct blocks of the devices \<open>D\<close>; the clean ones outside \<open>E\<close> agree with the store.\<close>

definition blocks_ok :: "'m store_spec \<Rightarrow> u64 set \<Rightarrow> 'm bcache \<Rightarrow> nat set \<Rightarrow> nat list \<Rightarrow> bool" where
  "blocks_ok S D s E xs \<longleftrightarrow>
     inj_on (\<lambda>b. (bh_dev (buffer_pool s b), bh_block (buffer_pool s b))) (set xs) \<and>
     (\<forall>b\<in>set xs. bh_dev (buffer_pool s b) \<in> D \<and>
        bh_block (buffer_pool s b) < st_cap S (bstore s) (bd_private (bdevs s (bh_dev (buffer_pool s b)))) \<and>
        (\<not> dirty s b \<and> b \<notin> E \<longrightarrow> (\<forall>i<BLOCK_SIZE. bh_data (buffer_pool s b) i =
           stored S s (bh_dev (buffer_pool s b)) (bh_block (buffer_pool s b)) i)))"

definition cache_ok ::
  "'m store_spec \<Rightarrow> u64 set \<Rightarrow> 'm bcache \<Rightarrow> nat set \<Rightarrow> nat set \<Rightarrow> nat list \<Rightarrow> (nat \<Rightarrow> nat list) \<Rightarrow> nat list \<Rightarrow> bool" where
  "cache_ok S D s E B xs ch fs \<longleftrightarrow> lists_ok s B xs ch fs \<and> devs_ok S D s \<and> blocks_ok S D s E xs"

text \<open>A block as it is seen through the cache.\<close>

definition bview :: "'m store_spec \<Rightarrow> 'm bcache \<Rightarrow> u64 \<Rightarrow> nat \<Rightarrow> u8 array" where
  "bview S s d n = (case buffer_find d n s of Some b \<Rightarrow> bh_data (buffer_pool s b) | None \<Rightarrow> stored S s d n)"

definition same_view :: "'m store_spec \<Rightarrow> u64 set \<Rightarrow> 'm bcache \<Rightarrow> 'm bcache \<Rightarrow> bool" where
  "same_view S D s t \<longleftrightarrow> (\<forall>d\<in>D. \<forall>n. \<forall>i<BLOCK_SIZE. bview S t d n i = bview S s d n i)"

lemma find_cached:
  assumes "cache_ok S D s E B xs ch fs"
  shows "buffer_find d n s = Some b \<longleftrightarrow>
    b \<in> set xs \<and> bh_dev (buffer_pool s b) = d \<and> bh_block (buffer_pool s b) = n"
proof -
  have h: "hash_ok s ch" and c: "chained ch = set xs" and sm: "chained ch \<subseteq> {..<BUFFER_CACHE_SIZE}"
    using assms by (auto simp: cache_ok_def lists_ok_def)
  have inj: "inj_on (\<lambda>b. (bh_dev (buffer_pool s b), bh_block (buffer_pool s b))) (set xs)"
    using assms by (simp add: cache_ok_def blocks_ok_def)
  let ?P = "\<lambda>b. bh_dev (buffer_pool s b) = d \<and> bh_block (buffer_pool s b) = n"
  let ?c = "ch (buffer_hash_func d n)"
  have sub: "set ?c \<subseteq> set xs" using c in_chained by (metis buffer_hash_func_less subsetI)
  show ?thesis
  proof
    assume "buffer_find d n s = Some b"
    then have "find ?P ?c = Some b" using buffer_find_chain [OF h sm] by simp
    then show "b \<in> set xs \<and> ?P b" using find_SomeD [of ?P ?c b] sub by auto
  next
    assume b: "b \<in> set xs \<and> ?P b"
    then have "b \<in> set ?c" using chained_hash [OF h] c by auto
    then obtain b' where f: "find ?P ?c = Some b'" using b by (cases "find ?P ?c") (auto simp: find_None_iff)
    then have "b' = b" using find_SomeD [OF f] sub b inj by (auto simp: inj_on_def)
    then show "buffer_find d n s = Some b" using f buffer_find_chain [OF h sm] by simp
  qed
qed

lemma find_uncached:
  assumes "cache_ok S D s E B xs ch fs"
  shows "buffer_find d n s = None \<longleftrightarrow>
    (\<forall>b\<in>set xs. \<not> (bh_dev (buffer_pool s b) = d \<and> bh_block (buffer_pool s b) = n))"
  using find_cached [OF assms, of d n] by (cases "buffer_find d n s") auto

lemma bview_cached:
  "cache_ok S D s E B xs ch fs \<Longrightarrow> b \<in> set xs \<Longrightarrow>
   bview S s (bh_dev (buffer_pool s b)) (bh_block (buffer_pool s b)) = bh_data (buffer_pool s b)"
  using find_cached [of S D s E B xs ch fs "bh_dev (buffer_pool s b)" "bh_block (buffer_pool s b)" b]
  by (simp add: bview_def)

section \<open>Operations that leave the lists alone\<close>

lemma buf_flag_tests [simp]:
  fixes f :: u32
  shows "f AND BUF_DIRTY = 0 \<longleftrightarrow> \<not> bit f (Suc 0)"
    and "f AND 12 = 0 \<longleftrightarrow> \<not> bit f 2 \<and> \<not> bit f 3"
proof -
  have "f AND 2 = 0 \<longleftrightarrow> \<not> bit f (Suc 0)"
    using and_exp_eq_0_iff_not_bit [of f 1] by simp
  then show "f AND BUF_DIRTY = 0 \<longleftrightarrow> \<not> bit f (Suc 0)" .
  have "a AND (b OR c) = (a AND b) OR (a AND c)" for a b c :: u32
    by (rule bit_word_eqI) (auto simp: bit_and_iff bit_or_iff)
  from this [of f 4 8] have "f AND 12 = 0 \<longleftrightarrow> f AND 4 = 0 \<and> f AND 8 = 0" by (simp add: or_eq_0_iff)
  then show "f AND 12 = 0 \<longleftrightarrow> \<not> bit f 2 \<and> \<not> bit f 3"
    using and_exp_eq_0_iff_not_bit [of f 2] and_exp_eq_0_iff_not_bit [of f 3] by simp
qed

text \<open>The masks \<open>NOT BUF_DIRTY\<close> and \<open>NOT BUF_BUSY\<close> are the numerals \<open>- 3\<close> and \<open>- 5\<close>.\<close>

lemma buf_flag_bits [simp]:
  fixes f :: u32
  shows "bit (f OR BUF_BUSY) (Suc 0) = bit f (Suc 0)" "bit (f OR BUF_VALID) (Suc 0) = bit f (Suc 0)" "bit (f OR BUF_DIRTY) (Suc 0)"
    "bit (f AND - 5) (Suc 0) = bit f (Suc 0)" "\<not> bit (f AND - 3) (Suc 0)" "\<not> bit (5 :: u32) (Suc 0)"
    "\<not> bit (f AND - 5) 2" "bit (f AND - 5) 3 = bit f 3"
    "bit (f OR BUF_BUSY) 3 = bit f 3" "bit (f OR BUF_VALID) 3 = bit f 3" "bit (f OR BUF_DIRTY) 3 = bit f 3"
    "bit (f AND - 3) 2 = bit f 2" "bit (f AND - 3) 3 = bit f 3"
    "bit (f OR BUF_VALID) 2 = bit f 2" "bit (f OR BUF_DIRTY) 2 = bit f 2"
    "\<not> bit BUF_BUSY (Suc 0)" "\<not> bit BUF_BUSY 3" "\<not> bit (5 :: u32) 3"
  by (simp_all add: bit_simps)

lemma evictable_iff: "evictable b \<longleftrightarrow> \<not> bit (bh_flags b) 2 \<and> \<not> bit (bh_flags b) 3 \<and> bh_ref b = 0"
  by (simp add: evictable_def)

text \<open>Two states with the same lists.\<close>

definition same_links :: "'m bcache \<Rightarrow> 'm bcache \<Rightarrow> bool" where
  "same_links s t \<longleftrightarrow>
     (\<forall>b. bh_dev (buffer_pool t b) = bh_dev (buffer_pool s b) \<and> bh_block (buffer_pool t b) = bh_block (buffer_pool s b) \<and>
        bh_hash_next (buffer_pool t b) = bh_hash_next (buffer_pool s b) \<and>
        bh_lru_prev (buffer_pool t b) = bh_lru_prev (buffer_pool s b) \<and>
        bh_lru_next (buffer_pool t b) = bh_lru_next (buffer_pool s b)) \<and>
     buffer_hash t = buffer_hash s \<and> lru_head t = lru_head s \<and> lru_tail t = lru_tail s \<and>
     free_buffers t = free_buffers s"

lemma same_links_lists: "same_links s t \<Longrightarrow> lists_ok t B xs ch fs = lists_ok s B xs ch fs"
  by (simp add: same_links_def lists_ok_def lru_ok_def hash_ok_def free_ok_def)

lemma same_links_find: "same_links s t \<Longrightarrow> buffer_find d n t = buffer_find d n s"
  by (simp add: same_links_def buffer_find_def)

lemma cache_ok_same:
  assumes "cache_ok S D s E B xs ch fs" "same_links s t" "bdevs t = bdevs s" "bstore t = bstore s"
    "\<And>b. b \<in> set xs \<Longrightarrow> bh_data (buffer_pool t b) = bh_data (buffer_pool s b)"
    "\<And>b. b \<in> set xs \<Longrightarrow> b \<notin> E \<Longrightarrow> dirty s b \<Longrightarrow> dirty t b"
  shows "cache_ok S D t E B xs ch fs" "bview S t = bview S s"
proof -
  have "blocks_ok S D t E xs" using assms unfolding cache_ok_def blocks_ok_def same_links_def by simp blast
  then show ok: "cache_ok S D t E B xs ch fs"
    using assms same_links_lists [OF assms(2)] by (simp add: cache_ok_def devs_ok_def)
  show "bview S t = bview S s"
  proof (intro ext)
    fix d n i
    note f = same_links_find [OF assms(2)]
    show "bview S t d n i = bview S s d n i"
      using find_cached [OF assms(1), of d n, THEN iffD1] assms(3-5)
      by (cases "buffer_find d n s") (simp_all add: bview_def f)
  qed
qed

context block_store
begin

text \<open>Writing a cached buffer back makes it clean and changes no block seen through the cache.\<close>

lemma sync_ok:
  assumes ok: "cache_ok S D s E B xs ch fs" and b: "b \<in> set xs" "b \<notin> E"
  shows "\<exists>t. buffer_sync_internal T b s = (0, t) \<and> cache_ok S D t E B xs ch fs \<and> same_links s t \<and>
    same_view S D s t \<and> \<not> dirty t b \<and> bdevs t = bdevs s \<and> st_cap S (bstore t) = st_cap S (bstore s) \<and>
    (\<forall>x. bh_data (buffer_pool t x) = bh_data (buffer_pool s x)) \<and>
    (\<forall>x. evictable (buffer_pool t x) = evictable (buffer_pool s x)) \<and>
    (\<forall>x. dirty t x = (dirty s x \<and> x \<noteq> b))"
proof (cases "dirty s b")
  case False
  then show ?thesis using ok by (auto simp: buffer_sync_internal_def same_links_def same_view_def)
next
  case True
  let ?d = "bh_dev (buffer_pool s b)" and ?n = "bh_block (buffer_pool s b)"
  let ?dv = "bdevs s ?d"
  have dv: "?d \<in> D" "?d \<noteq> 0" "?n < st_cap S (bstore s) (bd_private ?dv)" "st_inv S (bstore s)" "st_own S ?dv"
    and inj: "inj_on (\<lambda>d. bd_private (bdevs s d)) D"
    and inj': "inj_on (\<lambda>b. (bh_dev (buffer_pool s b), bh_block (buffer_pool s b))) (set xs)"
    using ok b by (auto simp: cache_ok_def blocks_ok_def devs_ok_def)
  obtain wr m where wr: "dev_wr T ?dv = Some wr" "wr ?dv ?n (bh_data (buffer_pool s b)) (bstore s) = (0, m)"
    and m: "st_inv S m" "st_cap S m = st_cap S (bstore s)"
    and c: "\<And>p k i. i < BLOCK_SIZE \<Longrightarrow> st_content S m p k i =
       (if p = bd_private ?dv \<and> k = ?n then bh_data (buffer_pool s b) i else st_content S (bstore s) p k i)"
    using write_law [OF dv(4,5,3), of "bh_data (buffer_pool s b)"] by blast
  define t where "t = snd (buffer_sync_internal T b s)"
  have st: "buffer_sync_internal T b s = (0, t)" "bstore t = m" "bdevs t = bdevs s"
    "bh_data (buffer_pool t x) = bh_data (buffer_pool s x)" "same_links s t"
    "evictable (buffer_pool t x) = evictable (buffer_pool s x)" "dirty t x = (dirty s x \<and> x \<noteq> b)" for x
    using True wr dv(2) by (auto simp: t_def buffer_sync_internal_def Let_def same_links_def evictable_iff)
  have cd: "i < BLOCK_SIZE \<Longrightarrow> d \<in> D \<Longrightarrow> stored S t d n i =
      (if d = ?d \<and> n = ?n then bh_data (buffer_pool s b) i else stored S s d n i)" for d n i
    using inj dv(1) by (auto simp: st c inj_on_def)
  have "blocks_ok S D t E xs"
    using ok b inj' cd unfolding cache_ok_def blocks_ok_def by (auto simp: st m same_links_def [THEN iffD1, OF st(5)] inj_on_def)
  then have "cache_ok S D t E B xs ch fs"
    using ok same_links_lists [OF st(5)] by (simp add: cache_ok_def devs_ok_def st m)
  moreover have "bview S t d n i = bview S s d n i" if "d \<in> D" "i < BLOCK_SIZE" for d n i
    using find_cached [OF ok, of ?d ?n b] b cd [OF that(2,1)]
    by (cases "buffer_find d n s") (auto simp: bview_def st(4) same_links_find [OF st(5)])
  ultimately show ?thesis using st m unfolding same_view_def by blast
qed

end

section \<open>Taking a buffer out of the cache and putting one in\<close>

lemma free_ok_cong:
  assumes "free_ok s fs" "free_buffers t = free_buffers s"
    "\<And>b. b \<in> set fs \<Longrightarrow> bh_hash_next (buffer_pool t b) = bh_hash_next (buffer_pool s b)"
    "\<And>b. b \<in> set fs \<Longrightarrow> bh_dev (buffer_pool t b) = bh_dev (buffer_pool s b)"
  shows "free_ok t fs"
  using assms path_cong [of fs "\<lambda>b. bh_hash_next (buffer_pool t b)" "\<lambda>b. bh_hash_next (buffer_pool s b)"]
  by (simp add: free_ok_def)

lemma uncache_lists:
  assumes ok: "lists_ok s B xs ch fs" and b: "b \<in> set xs"
    and t: "\<And>x. x \<noteq> b \<Longrightarrow> buffer_pool t x = buffer_pool (lru_remove b (buffer_hash_remove b s)) x"
    "buffer_hash t = buffer_hash (lru_remove b (buffer_hash_remove b s))" "free_buffers t = free_buffers s"
    "lru_head t = lru_head (lru_remove b (buffer_hash_remove b s))" "lru_tail t = lru_tail (lru_remove b (buffer_hash_remove b s))"
  shows "lists_ok t (insert b B) (remove1 b xs) (ch(hash_of s b := remove1 b (ch (hash_of s b)))) fs"
proof -
  let ?u = "buffer_hash_remove b s" and ?ch = "ch(hash_of s b := remove1 b (ch (hash_of s b)))"
  have l: "lru_ok s xs" and h: "hash_ok s ch" and f: "free_ok s fs" and c: "chained ch = set xs"
    and fx: "set fs \<inter> set xs = {}" and bc: "b \<in> chained ch" and sm: "chained ch \<subseteq> {..<BUFFER_CACHE_SIZE}"
    and all: "B \<inter> (set fs \<union> set xs) = {}" "B \<union> set fs \<union> set xs = {..<BUFFER_CACHE_SIZE}"
    using ok b by (auto simp: lists_ok_def)
  obtain ys zs where xs: "xs = ys @ b # zs" "b \<notin> set ys" using split_list_first [OF b] by blast
  have d: "distinct xs" using l by (simp add: lru_ok_def)
  have r: "remove1 b xs = ys @ zs" "b \<notin> set (ys @ zs)" using xs d by (auto simp: remove1_append)
  have "lru_ok ?u (ys @ b # zs)" using l xs by (simp add: lru_ok_def bh_frame)
  have sx: "set (ys @ zs) = set xs - {b}" using xs d by auto
  from lru_ok_remove [OF \<open>lru_ok ?u (ys @ b # zs)\<close>] have "lru_ok t (ys @ zs)"
    by (rule lru_ok_cong) (use t in \<open>simp_all add: sx del: set_append\<close>)
  moreover have ch: "chained ?ch = set xs - {b}" using chained_remove [OF h bc] c by simp
  have "hash_ok t ?ch"
    by (rule hash_ok_cong [OF hash_ok_remove(1) [OF h bc sm]]) (use t ch in \<open>auto simp: bh_frame\<close>)
  moreover have "free_ok t fs"
  proof (rule free_ok_cong [OF f])
    fix x assume "x \<in> set fs"
    then have "x \<notin> chained ch" "x \<noteq> b" using fx c b by auto
    then show "bh_hash_next (buffer_pool t x) = bh_hash_next (buffer_pool s x)"
      "bh_dev (buffer_pool t x) = bh_dev (buffer_pool s x)"
      using hash_ok_remove(2) [OF h bc sm] t(1) by (simp_all add: bh_frame)
  qed (simp add: t)
  ultimately show ?thesis using ch fx all b r(1) sx by (auto simp: lists_ok_def simp del: set_append)
qed

lemma uncache_ok:
  assumes ok: "cache_ok S D s E B xs ch fs" and b: "b \<in> set xs" "b \<notin> E" "\<not> dirty s b"
    and t: "\<And>x. x \<noteq> b \<Longrightarrow> buffer_pool t x = buffer_pool (lru_remove b (buffer_hash_remove b s)) x"
    "buffer_hash t = buffer_hash (lru_remove b (buffer_hash_remove b s))" "free_buffers t = free_buffers s"
    "lru_head t = lru_head (lru_remove b (buffer_hash_remove b s))" "lru_tail t = lru_tail (lru_remove b (buffer_hash_remove b s))"
    "bdevs t = bdevs s" "bstore t = bstore s"
  shows "cache_ok S D t E (insert b B) (remove1 b xs) (ch(hash_of s b := remove1 b (ch (hash_of s b)))) fs"
    and "same_view S D s t"
proof -
  let ?ch = "ch(hash_of s b := remove1 b (ch (hash_of s b)))"
  have "lists_ok t (insert b B) (remove1 b xs) ?ch fs"
    using uncache_lists [OF _ b(1) t(1-5)] ok by (auto simp: cache_ok_def)
  moreover have sx: "set (remove1 b xs) = set xs - {b}"
    using ok by (simp add: cache_ok_def lists_ok_def lru_ok_def)
  moreover have "blocks_ok S D t E (remove1 b xs)"
    using ok unfolding cache_ok_def blocks_ok_def sx by (simp add: t bh_frame inj_on_def)
  ultimately show ok': "cache_ok S D t E (insert b B) (remove1 b xs) ?ch fs"
    using ok by (simp add: cache_ok_def devs_ok_def t)
  show "same_view S D s t"
    unfolding same_view_def
  proof (intro ballI allI impI)
    fix d n i assume i: "d \<in> D" "i < BLOCK_SIZE"
    show "bview S t d n i = bview S s d n i"
    proof (cases "buffer_find d n s")
      case None
      then have "buffer_find d n t = None"
        unfolding find_uncached [OF ok] find_uncached [OF ok'] sx by (simp add: t bh_frame)
      then show ?thesis using None by (simp add: bview_def t)
    next
      case (Some c)
      note c = Some [unfolded find_cached [OF ok]]
      show ?thesis
      proof (cases "c = b")
        case True
        then have "buffer_find d n t = None"
          using c ok unfolding find_uncached [OF ok'] sx cache_ok_def blocks_ok_def by (auto simp: t bh_frame inj_on_def)
        then show ?thesis using Some ok b c True i(2) by (auto simp: bview_def t cache_ok_def blocks_ok_def)
      next
        case False
        then have "buffer_find d n t = Some c" unfolding find_cached [OF ok'] sx using c by (simp add: t bh_frame)
        then show ?thesis using Some False by (simp add: bview_def t bh_frame)
      qed
    qed
  qed
qed

lemma insert_ok:
  assumes ok: "cache_ok S D s E {b} xs ch fs"
    and dv: "bh_dev (buffer_pool s b) = d" "bh_block (buffer_pool s b) = n" "d \<in> D"
      "n < st_cap S (bstore s) (bd_private (bdevs s d))" "buffer_find d n s = None"
  defines "t \<equiv> lru_add_front b (buffer_hash_add b s)"
  shows "cache_ok S D t (insert b E) {} (b # xs) (ch(hash_of s b := b # ch (hash_of s b))) fs"
    and "bview S t = (bview S s)(d := (bview S s d)(n := bh_data (buffer_pool s b)))"
proof -
  let ?u = "buffer_hash_add b s" and ?ch = "ch(hash_of s b := b # ch (hash_of s b))"
  have l: "lru_ok s xs" and h: "hash_ok s ch" and f: "free_ok s fs" and c: "chained ch = set xs"
    and nb: "b \<notin> set xs" "b \<notin> set fs"
    using ok by (auto simp: cache_ok_def lists_ok_def)
  have ua: "x \<noteq> b \<Longrightarrow> buffer_pool ?u x = buffer_pool s x" for x by (simp add: buffer_hash_add_eq Let_def)
  have u: "bh_dev (buffer_pool ?u x) = bh_dev (buffer_pool s x)" "bh_block (buffer_pool ?u x) = bh_block (buffer_pool s x)"
    "bh_data (buffer_pool ?u x) = bh_data (buffer_pool s x)" "bh_flags (buffer_pool ?u x) = bh_flags (buffer_pool s x)"
    "free_buffers ?u = free_buffers s" "bdevs ?u = bdevs s" "bstore ?u = bstore s" "lru_head ?u = lru_head s" "lru_tail ?u = lru_tail s" for x
    by (simp_all add: buffer_hash_add_eq Let_def)
  have nx: "x \<in> set xs \<Longrightarrow> x \<noteq> b" "x \<in> set fs \<Longrightarrow> x \<noteq> b" for x using nb by auto
  have "lru_ok ?u xs" by (rule lru_ok_cong [OF l]) (simp_all add: u ua nx)
  then have "lru_ok t (b # xs)" unfolding t_def using nb(1) by (rule lru_ok_add)
  moreover have "hash_ok t ?ch"
    by (rule hash_ok_cong [OF hash_ok_add [OF h]]) (use nb c in \<open>auto simp: t_def bh_frame\<close>)
  moreover have "free_ok t fs"
    by (rule free_ok_cong [OF f]) (simp_all add: t_def bh_frame u ua nx)
  ultimately have "lists_ok t {} (b # xs) ?ch fs"
    using ok chained_add c by (auto simp: lists_ok_def cache_ok_def)
  moreover have "blocks_ok S D t (insert b E) (b # xs)"
    using ok dv(3,4) dv(5) [unfolded find_uncached [OF ok]] nb unfolding cache_ok_def blocks_ok_def
    by (auto simp: t_def bh_frame u dv(1,2) inj_on_def)
  ultimately show ok': "cache_ok S D t (insert b E) {} (b # xs) ?ch fs"
    using ok by (simp add: cache_ok_def devs_ok_def t_def bh_frame u)
  have tb: "bdevs t = bdevs s" "bstore t = bstore s" "bh_data (buffer_pool t x) = bh_data (buffer_pool s x)" for x
    by (simp_all add: t_def bh_frame u)
  have ft: "buffer_find d' n' t = (if d' = d \<and> n' = n then Some b else buffer_find d' n' s)" for d' n'
  proof (cases "d' = d \<and> n' = n")
    case True
    then show ?thesis using dv find_cached [OF ok', of d n b] by (simp add: t_def bh_frame u)
  next
    case False
    then have "buffer_find d' n' t = Some x \<longleftrightarrow> buffer_find d' n' s = Some x" for x
      unfolding find_cached [OF ok'] find_cached [OF ok] using dv by (auto simp: t_def bh_frame u)
    then show ?thesis using False by (metis option.exhaust)
  qed
  show "bview S t = (bview S s)(d := (bview S s d)(n := bh_data (buffer_pool s b)))"
    by (intro ext) (simp add: bview_def ft tb split: option.split)
qed

section \<open>Allocation and lookup\<close>

text \<open>Between two operations of the block layer no buffer is referenced, busy or pinned.\<close>

definition idle :: "'m bcache \<Rightarrow> bool" where
  "idle s \<longleftrightarrow> (\<forall>b<BUFFER_CACHE_SIZE. evictable (buffer_pool s b))"

definition keys :: "'m bcache \<Rightarrow> nat list \<Rightarrow> (u64 \<times> nat) list" where
  "keys s xs = map (\<lambda>b. (bh_dev (buffer_pool s b), bh_block (buffer_pool s b))) xs"

text \<open>The least-recently-used policy on the list of cached blocks, most recent first.\<close>

definition lru_step :: "u64 \<times> nat \<Rightarrow> (u64 \<times> nat) list \<Rightarrow> (u64 \<times> nat) list" where
  "lru_step k ks =
     (if k \<in> set ks then k # remove1 k ks
      else k # (if length ks = BUFFER_CACHE_SIZE then butlast ks else ks))"

lemma keys_cong: "(\<And>b. b \<in> set xs \<Longrightarrow> bh_dev (buffer_pool t b) = bh_dev (buffer_pool s b) \<and>
    bh_block (buffer_pool t b) = bh_block (buffer_pool s b)) \<Longrightarrow> keys t xs = keys s xs"
  by (simp add: keys_def)

lemma length_keys [simp]: "length (keys s xs) = length xs"
  by (simp add: keys_def)

lemma keys_find: "cache_ok S D s E B xs ch fs \<Longrightarrow> (d, n) \<in> set (keys s xs) \<longleftrightarrow> buffer_find d n s \<noteq> None"
  by (auto simp: keys_def find_cached)

lemma remove1_map_inj: "inj_on f (set xs) \<Longrightarrow> x \<in> set xs \<Longrightarrow> map f (remove1 x xs) = remove1 (f x) (map f xs)"
  by (induction xs) (auto simp: inj_on_def)

lemma remove1_last: "distinct xs \<Longrightarrow> xs \<noteq> [] \<Longrightarrow> remove1 (last xs) xs = butlast xs"
  by (cases xs rule: rev_cases) (auto simp: remove1_append)

lemma cache_ok_lengths: "cache_ok S D s E {} xs ch fs \<Longrightarrow> length xs + length fs = BUFFER_CACHE_SIZE"
proof -
  assume ok: "cache_ok S D s E {} xs ch fs"
  then have "distinct (xs @ fs)" "set (xs @ fs) = {..<BUFFER_CACHE_SIZE}"
    by (auto simp: cache_ok_def lists_ok_def lru_ok_def free_ok_def)
  then show ?thesis using distinct_card [of "xs @ fs"] by simp
qed

lemma same_view_refl [simp]: "same_view S D s s"
  by (simp add: same_view_def)

lemma same_view_trans: "same_view S D s t \<Longrightarrow> same_view S D t u \<Longrightarrow> same_view S D s u"
  by (simp add: same_view_def)

lemma cache_ok_bound: "cache_ok S D s E B xs ch fs \<Longrightarrow> b \<in> set xs \<Longrightarrow> b < BUFFER_CACHE_SIZE"
  by (auto simp: cache_ok_def lists_ok_def)

lemma take_free_ok:
  assumes ok: "cache_ok S D s {} {} xs ch (b # fs)"
  defines "t \<equiv> upd_bh b (\<lambda>x. x\<lparr>bh_hash_next := None\<rparr>) (s\<lparr>free_buffers := bh_hash_next (buffer_pool s b)\<rparr>)"
  shows "cache_ok S D t {} {b} xs ch fs" "bview S t = bview S s"
proof -
  have nb: "b \<notin> set xs" "b \<notin> set fs" "b \<notin> chained ch" and p: "free_ok s (b # fs)" and c: "chained ch = set xs"
    and l: "lru_ok s xs" and h: "hash_ok s ch"
    using ok by (auto simp: cache_ok_def lists_ok_def free_ok_def)
  have u: "bh_dev (buffer_pool t x) = bh_dev (buffer_pool s x)" "bh_block (buffer_pool t x) = bh_block (buffer_pool s x)"
    "bh_data (buffer_pool t x) = bh_data (buffer_pool s x)" "bh_flags (buffer_pool t x) = bh_flags (buffer_pool s x)"
    "bdevs t = bdevs s" "bstore t = bstore s" for x
    by (simp_all add: t_def)
  have "lru_ok t xs" by (rule lru_ok_cong [OF l]) (auto simp: t_def)
  moreover have "hash_ok t ch" by (rule hash_ok_cong [OF h]) (use nb in \<open>auto simp: t_def\<close>)
  moreover have "free_ok t fs"
    using p nb(2) path_outside [of b fs "\<lambda>x. bh_hash_next (buffer_pool s x)" None] unfolding free_ok_def
    by (auto simp: t_def fun_upd_def if_distrib cong: if_cong)
  ultimately have "lists_ok t {b} xs ch fs" using ok nb by (auto simp: cache_ok_def lists_ok_def)
  moreover have "blocks_ok S D t {} xs"
    using ok unfolding cache_ok_def blocks_ok_def by (simp add: u)
  ultimately show ok': "cache_ok S D t {} {b} xs ch fs" using ok by (simp add: cache_ok_def devs_ok_def u)
  have "buffer_find d n t = Some x \<longleftrightarrow> buffer_find d n s = Some x" for d n x
    unfolding find_cached [OF ok'] find_cached [OF ok] by (simp add: u)
  then have "buffer_find d n t = buffer_find d n s" for d n by (metis option.exhaust)
  then show "bview S t = bview S s" by (intro ext) (simp add: bview_def u split: option.split)
qed

lemma touch_ok:
  assumes ok: "cache_ok S D s E B xs ch fs" and b: "b \<in> set xs"
  shows "cache_ok S D (lru_touch b s) E B (b # remove1 b xs) ch fs" "bview S (lru_touch b s) = bview S s"
proof -
  have sx: "set (b # remove1 b xs) = set xs" using ok b by (auto simp: cache_ok_def lists_ok_def lru_ok_def)
  have "hash_ok (lru_touch b s) ch" using ok by (simp add: cache_ok_def lists_ok_def hash_ok_def bh_frame)
  moreover have "lru_ok (lru_touch b s) (b # remove1 b xs)"
    by (rule lru_ok_touch [OF _ b]) (use ok in \<open>simp add: cache_ok_def lists_ok_def\<close>)
  moreover have "free_ok (lru_touch b s) fs" using ok by (simp add: cache_ok_def lists_ok_def free_ok_def bh_frame)
  moreover have "blocks_ok S D (lru_touch b s) E (b # remove1 b xs)"
    using ok unfolding cache_ok_def blocks_ok_def sx by (simp add: bh_frame)
  ultimately show "cache_ok S D (lru_touch b s) E B (b # remove1 b xs) ch fs"
    using ok unfolding cache_ok_def lists_ok_def sx by (simp add: devs_ok_def bh_frame)
  show "bview S (lru_touch b s) = bview S s"
    by (simp add: bview_def buffer_find_def bh_frame fun_eq_iff split: option.split)
qed

end
