(* ===== verification/Block_Ops.thy ===== *)
theory Block_Ops
  imports Block_Refine
begin

text \<open>
  The operations of the buffer cache over a backing store that keeps the
  contract \<open>block_store\<close>: allocation with eviction, lookup, overwriting,
  synchronisation and invalidation keep the invariant and the blocks seen
  through the cache.
\<close>

section \<open>Allocation\<close>

lemma find_all: "(\<And>x. x \<in> set xs \<Longrightarrow> P x) \<Longrightarrow> xs \<noteq> [] \<Longrightarrow> find P xs = Some (hd xs)"
  by (cases xs) auto

text \<open>When no buffer is free, the victim is the last of the LRU list.\<close>

lemma alloc_victim:
  assumes ok: "cache_ok S D s {} {} xs ch []" and i: "idle s"
  shows "xs \<noteq> []" "free_buffers s = None"
    "chase BUFFER_CACHE_SIZE (\<lambda>b. evictable (buffer_pool s b)) (\<lambda>b. bh_lru_prev (buffer_pool s b)) (lru_tail s) = Some (last xs)"
proof -
  show ne: "xs \<noteq> []" using cache_ok_lengths [OF ok] by auto
  show "free_buffers s = None" using ok by (auto simp: cache_ok_def lists_ok_def free_ok_def)
  have p: "path (\<lambda>b. bh_lru_prev (buffer_pool s b)) (lru_tail s) (rev xs)"
    using ok by (simp add: cache_ok_def lists_ok_def lru_ok_def)
  have "length (rev xs) \<le> BUFFER_CACHE_SIZE" using cache_ok_lengths [OF ok] by simp
  moreover have "find (\<lambda>b. evictable (buffer_pool s b)) (rev xs) = Some (hd (rev xs))"
    by (rule find_all) (use i cache_ok_bound [OF ok] ne in \<open>auto simp: idle_def\<close>)
  ultimately show "chase BUFFER_CACHE_SIZE (\<lambda>b. evictable (buffer_pool s b)) (\<lambda>b. bh_lru_prev (buffer_pool s b)) (lru_tail s) = Some (last xs)"
    using chase_path [OF p] by (simp add: hd_rev)
qed

definition alloc_post ::
  "'m store_spec \<Rightarrow> u64 set \<Rightarrow> 'm bcache \<Rightarrow> nat \<Rightarrow> 'm bcache \<Rightarrow> nat list \<Rightarrow> (nat \<Rightarrow> nat list) \<Rightarrow> nat list \<Rightarrow> bool" where
  "alloc_post S D s b t xs ch fs \<longleftrightarrow> cache_ok S D t {} {b} xs ch fs \<and> same_view S D s t \<and> bdevs t = bdevs s \<and>
     st_cap S (bstore t) = st_cap S (bstore s) \<and> idle t \<and> keys t xs = keys s xs"

context block_store
begin

lemma evict_ok:
  assumes ok: "cache_ok S D s {} {} xs ch []" and i: "idle s"
  shows "\<exists>b t ch'. buffer_alloc T s = (Some b, t) \<and> alloc_post S D s b t (butlast xs) ch' []"
proof -
  note v = alloc_victim [OF ok i]
  let ?b = "last xs"
  have b: "?b \<in> set xs" using v(1) by simp
  obtain u where u: "buffer_sync_internal T ?b s = (0, u)" "cache_ok S D u {} {} xs ch []" "same_links s u"
    "same_view S D s u" "\<not> dirty u ?b" "bdevs u = bdevs s" "st_cap S (bstore u) = st_cap S (bstore s)"
    "\<And>x. evictable (buffer_pool u x) = evictable (buffer_pool s x)"
    using sync_ok [OF ok b] by auto
  define t where "t = snd (buffer_alloc T s)"
  let ?r = "lru_remove ?b (buffer_hash_remove ?b u)"
  have clean: "(if bh_flags (buffer_pool s ?b) AND BUF_DIRTY \<noteq> 0 then snd (buffer_sync_internal T ?b s) else s) = u"
    using u(1) by (auto simp: buffer_sync_internal_def)
  have al: "buffer_alloc T s = (Some ?b, upd_stats (\<lambda>c. c\<lparr>cs_cached := cs_cached c - 1\<rparr>)
      (upd_bh ?b (\<lambda>b. b\<lparr>bh_dev := 0, bh_block := 0, bh_flags := 0\<rparr>) ?r))"
    unfolding buffer_alloc_def v(2,3) option.case clean Let_def ..
  then have t: "buffer_alloc T s = (Some ?b, t)"
    and tu: "x \<noteq> ?b \<Longrightarrow> buffer_pool t x = buffer_pool ?r x" "buffer_hash t = buffer_hash ?r" "free_buffers t = free_buffers u"
      "lru_head t = lru_head ?r" "lru_tail t = lru_tail ?r" "bdevs t = bdevs u" "bstore t = bstore u" for x
    by (simp_all add: t_def bh_frame)
  have bl: "remove1 ?b xs = butlast xs"
    using remove1_last v(1) ok by (auto simp: cache_ok_def lists_ok_def lru_ok_def)
  have nb: "x \<in> set (butlast xs) \<Longrightarrow> x \<noteq> ?b" for x
    using bl ok by (auto simp: cache_ok_def lists_ok_def lru_ok_def dest!: arg_cong [of _ _ set])
  note un = uncache_ok [OF u(2) b _ u(5) tu, simplified]
  have "keys t (butlast xs) = keys s (butlast xs)"
    by (rule keys_cong) (use u(3) nb tu(1) in \<open>simp add: bh_frame same_links_def\<close>)
  moreover have "idle t"
    using i u(8) tu(1) al t by (auto simp: idle_def evictable_iff bh_frame)
  ultimately have "alloc_post S D s ?b t (butlast xs) (ch(hash_of u ?b := remove1 ?b (ch (hash_of u ?b)))) []"
    using un same_view_trans [OF u(4)] u(6,7) tu(6,7) unfolding alloc_post_def bl by simp
  then show ?thesis using t by blast
qed

lemma alloc_ok:
  assumes ok: "cache_ok S D s {} {} xs ch fs" and i: "idle s"
  shows "\<exists>b t ch' fs'. buffer_alloc T s = (Some b, t) \<and> alloc_post S D s b t (if fs = [] then butlast xs else xs) ch' fs'"
proof (cases fs)
  case Nil
  then show ?thesis using evict_ok [of D s xs ch] ok i by auto
next
  case (Cons b fs')
  define t where "t = upd_bh b (\<lambda>x. x\<lparr>bh_hash_next := None\<rparr>) (s\<lparr>free_buffers := bh_hash_next (buffer_pool s b)\<rparr>)"
  have "free_buffers s = Some b" using ok Cons by (simp add: cache_ok_def lists_ok_def free_ok_def)
  then have t: "buffer_alloc T s = (Some b, t)" by (simp add: buffer_alloc_def t_def)
  have "keys t xs = keys s xs" by (rule keys_cong) (simp add: t_def)
  then have "alloc_post S D s b t xs ch fs'"
    using take_free_ok [of S D s xs ch b fs', folded t_def] ok i unfolding Cons
    by (auto simp: alloc_post_def same_view_def idle_def evictable_iff t_def)
  then show ?thesis using t Cons by auto
qed

end

section \<open>Lookup\<close>

text \<open>A buffer in hand may be changed at will.\<close>

lemma hand_ok:
  assumes ok: "cache_ok S D t E {b} xs ch fs"
    and v: "\<And>x. x \<noteq> b \<Longrightarrow> buffer_pool v x = buffer_pool t x" "buffer_hash v = buffer_hash t" "free_buffers v = free_buffers t"
      "lru_head v = lru_head t" "lru_tail v = lru_tail t" "bdevs v = bdevs t"
      "st_inv S (bstore v)" "st_cap S (bstore v) = st_cap S (bstore t)" "st_content S (bstore v) = st_content S (bstore t)"
  shows "cache_ok S D v E {b} xs ch fs" "bview S v = bview S t"
proof -
  have nb: "x \<in> set xs \<Longrightarrow> x \<noteq> b" "x \<in> set fs \<Longrightarrow> x \<noteq> b" for x
    using ok by (auto simp: cache_ok_def lists_ok_def)
  have l: "lru_ok t xs" and h: "hash_ok t ch" and f: "free_ok t fs" and c: "chained ch = set xs"
    using ok by (auto simp: cache_ok_def lists_ok_def)
  have "lru_ok v xs" by (rule lru_ok_cong [OF l]) (simp_all add: v nb)
  moreover have "hash_ok v ch" by (rule hash_ok_cong [OF h]) (simp_all add: v nb c)
  moreover have "free_ok v fs" by (rule free_ok_cong [OF f]) (simp_all add: v nb)
  moreover have "blocks_ok S D v E xs"
    using ok unfolding cache_ok_def blocks_ok_def inj_on_def by (simp add: v nb)
  ultimately show ok': "cache_ok S D v E {b} xs ch fs"
    using ok by (simp add: cache_ok_def lists_ok_def devs_ok_def v)
  have "buffer_find d n v = Some x \<longleftrightarrow> buffer_find d n t = Some x" for d n x
    unfolding find_cached [OF ok'] find_cached [OF ok] using nb by (metis v(1))
  then have ff: "buffer_find d n v = buffer_find d n t" for d n by (metis option.exhaust)
  show "bview S v = bview S t"
  proof (intro ext)
    fix d n i
    show "bview S v d n i = bview S t d n i"
      using find_cached [OF ok, of d n, THEN iffD1] nb
      by (cases "buffer_find d n t") (simp_all add: bview_def ff v)
  qed
qed

definition get_post ::
  "'m store_spec \<Rightarrow> u64 set \<Rightarrow> 'm bcache \<Rightarrow> u64 \<Rightarrow> nat \<Rightarrow> nat \<Rightarrow> 'm bcache \<Rightarrow> nat set \<Rightarrow> nat list \<Rightarrow> (nat \<Rightarrow> nat list) \<Rightarrow> nat list \<Rightarrow> bool" where
  "get_post S D s d n b t E xs ch fs \<longleftrightarrow> cache_ok S D t E {} xs ch fs \<and> b \<in> set xs \<and>
     bh_dev (buffer_pool t b) = d \<and> bh_block (buffer_pool t b) = n \<and> bdevs t = bdevs s \<and>
     st_cap S (bstore t) = st_cap S (bstore s) \<and> bh_ref (buffer_pool t b) = 1 \<and> \<not> bit (bh_flags (buffer_pool t b)) 3 \<and>
     (\<forall>x<BUFFER_CACHE_SIZE. x \<noteq> b \<longrightarrow> evictable (buffer_pool t x))"

lemma get_hit:
  assumes ok: "cache_ok S D s {} {} xs ch fs" and i: "idle s" and f: "buffer_find d n s = Some b"
  defines "t \<equiv> lru_touch b (upd_bh b (\<lambda>b. b\<lparr>bh_ref := bh_ref b + 1, bh_flags := bh_flags b OR BUF_BUSY\<rparr>) s)"
  shows "get_post S D s d n b t {} (b # remove1 b xs) ch fs" "bview S t = bview S s"
    "keys t (b # remove1 b xs) = lru_step (d, n) (keys s xs)"
proof -
  let ?u = "upd_bh b (\<lambda>b. b\<lparr>bh_ref := bh_ref b + 1, bh_flags := bh_flags b OR BUF_BUSY\<rparr>) s"
  have b: "b \<in> set xs" "bh_dev (buffer_pool s b) = d" "bh_block (buffer_pool s b) = n"
    using f unfolding find_cached [OF ok] by auto
  have "same_links s ?u" by (auto simp: same_links_def)
  note u = cache_ok_same [OF ok this]
  have u': "cache_ok S D ?u {} {} xs ch fs" by (rule u(1)) auto
  have uv: "bview S ?u = bview S s" by (rule u(2)) auto
  note tch = touch_ok [OF u' b(1), folded t_def]
  have ev: "evictable (buffer_pool s x)" if "x < BUFFER_CACHE_SIZE" for x using i that by (simp add: idle_def)
  have inj: "inj_on (\<lambda>b. (bh_dev (buffer_pool s b), bh_block (buffer_pool s b))) (set xs)"
    using ok by (simp add: cache_ok_def blocks_ok_def)
  show "get_post S D s d n b t {} (b # remove1 b xs) ch fs"
    using tch(1) b ev ev [OF cache_ok_bound [OF ok b(1)]]
    by (auto simp: get_post_def t_def bh_frame evictable_iff)
  show "bview S t = bview S s" using tch(2) uv by simp
  have "keys t (b # remove1 b xs) = keys s (b # remove1 b xs)" by (rule keys_cong) (simp add: t_def bh_frame)
  also have "\<dots> = (d, n) # remove1 (d, n) (keys s xs)"
    using remove1_map_inj [OF inj b(1)] b by (simp add: keys_def)
  finally show "keys t (b # remove1 b xs) = lru_step (d, n) (keys s xs)"
    using keys_find [OF ok, of d n] f by (simp add: lru_step_def)
qed

lemma get_fill:
  assumes ok: "cache_ok S D s {} {} xs ch fs" and new: "buffer_find d n s = None"
    and al: "alloc_post S D s b t (if fs = [] then butlast xs else xs) ch' fs'"
    and d: "d \<in> D" "n < st_cap S (bstore s) (bd_private (bdevs s d))"
    and v: "\<And>x. x \<noteq> b \<Longrightarrow> buffer_pool v x = buffer_pool t x" "buffer_hash v = buffer_hash t" "free_buffers v = free_buffers t"
      "lru_head v = lru_head t" "lru_tail v = lru_tail t" "bdevs v = bdevs t"
      "st_inv S (bstore v)" "st_cap S (bstore v) = st_cap S (bstore t)" "st_content S (bstore v) = st_content S (bstore t)"
    and vb: "bh_dev (buffer_pool v b) = d" "bh_block (buffer_pool v b) = n" "bh_ref (buffer_pool v b) = 1"
      "\<not> bit (bh_flags (buffer_pool v b)) 3"
  defines "w \<equiv> lru_add_front b (buffer_hash_add b v)"
  defines "ys \<equiv> b # (if fs = [] then butlast xs else xs)"
  shows "\<exists>ch''. get_post S D s d n b w {b} ys ch'' fs'"
    and "bview S w = (bview S t)(d := (bview S t d)(n := bh_data (buffer_pool v b)))"
    and "keys w ys = lru_step (d, n) (keys s xs)"
proof -
  let ?xs = "if fs = [] then butlast xs else xs"
  have at: "cache_ok S D t {} {b} ?xs ch' fs'" "bdevs t = bdevs s" "st_cap S (bstore t) = st_cap S (bstore s)" "idle t"
    "keys t ?xs = keys s ?xs" using al by (auto simp: alloc_post_def)
  note vo = hand_ok [OF at(1) v]
  have nb: "x \<in> set ?xs \<Longrightarrow> x \<noteq> b" for x using at(1) by (auto simp: cache_ok_def lists_ok_def)
  have kv: "keys v ?xs = keys s ?xs" using at(5) keys_cong [of ?xs v t] v(1) nb by simp
  have "(d, n) \<notin> set (keys s xs)" using new keys_find [OF ok, of d n] by simp
  then have nk: "(d, n) \<notin> set (keys s ?xs)" by (auto simp: keys_def dest: in_set_butlastD)
  then have fv: "buffer_find d n v = None" using keys_find [OF vo(1), of d n] kv by simp
  have wf: "bh_dev (buffer_pool w x) = bh_dev (buffer_pool v x)" "bh_block (buffer_pool w x) = bh_block (buffer_pool v x)"
    "bh_ref (buffer_pool w x) = bh_ref (buffer_pool v x)" "bh_flags (buffer_pool w x) = bh_flags (buffer_pool v x)"
    "bdevs w = bdevs v" "bstore w = bstore v" for x
    by (simp_all add: w_def bh_frame buffer_hash_add_eq Let_def)
  note ins = insert_ok [OF vo(1) vb(1,2) d(1) _ fv, folded w_def]
  have io: "cache_ok S D w {b} {} (b # ?xs) (ch'(hash_of v b := b # ch' (hash_of v b))) fs'"
    and iv: "bview S w = (bview S v)(d := (bview S v d)(n := bh_data (buffer_pool v b)))"
    using ins d v at by simp_all
  then show "\<exists>ch''. get_post S D s d n b w {b} ys ch'' fs'"
    using vb at v unfolding get_post_def ys_def by (auto simp: wf idle_def evictable_iff)
  show "bview S w = (bview S t)(d := (bview S t d)(n := bh_data (buffer_pool v b)))"
    using iv vo(2) by simp
  have "fs = [] \<longleftrightarrow> length xs = BUFFER_CACHE_SIZE" using cache_ok_lengths [OF ok] by auto
  then have "(d, n) # keys s ?xs = lru_step (d, n) (keys s xs)"
    using \<open>(d, n) \<notin> set (keys s xs)\<close> by (simp add: lru_step_def) (simp add: keys_def map_butlast)
  moreover have "keys w ys = (d, n) # keys v ?xs" by (simp add: keys_def ys_def wf vb)
  ultimately show "keys w ys = lru_step (d, n) (keys s xs)" using kv by simp
qed

lemma stats_ok [simp]:
  "cache_ok S D (upd_stats f s) E B xs ch fs = cache_ok S D s E B xs ch fs" "bview S (upd_stats f s) = bview S s"
  "idle (upd_stats f s) = idle s" "keys (upd_stats f s) xs = keys s xs"
  "buffer_find d n (upd_stats f s) = buffer_find d n s"
  by (simp_all add: cache_ok_def lists_ok_def lru_ok_def hash_ok_def free_ok_def devs_ok_def blocks_ok_def
      bview_def idle_def keys_def buffer_find_def fun_eq_iff split: option.split)

text \<open>An exempt buffer that is dirty, or equal to the store, needs no exemption.\<close>

lemma settle:
  assumes "cache_ok S D t {b} B xs ch fs"
    "dirty t b \<or> (\<forall>i<BLOCK_SIZE. bh_data (buffer_pool t b) i =
       stored S t (bh_dev (buffer_pool t b)) (bh_block (buffer_pool t b)) i)"
  shows "cache_ok S D t {} B xs ch fs"
  using assms unfolding cache_ok_def blocks_ok_def by auto

lemma stored_uncached: "buffer_find d n s = None \<Longrightarrow> bview S s d n = stored S s d n"
  by (simp add: bview_def)

context block_store
begin

lemma get_miss:
  assumes ok: "cache_ok S D s {} {} xs ch fs" and i: "idle s" and d: "d \<in> D" "n < st_cap S (bstore s) (bd_private (bdevs s d))"
    and new: "buffer_find d n s = None"
  shows "\<exists>b t ys ch' fs'. buffer_get T d n s = (Some b, t) \<and> get_post S D s d n b t {} ys ch' fs' \<and> same_view S D s t \<and>
    keys t ys = lru_step (d, n) (keys s xs)"
proof -
  define s0 where "s0 = upd_stats (\<lambda>c. c\<lparr>cs_misses := cs_misses c + 1\<rparr>) s"
  have s0: "cache_ok S D s0 {} {} xs ch fs" "idle s0" "buffer_find d n s0 = None" "bview S s0 = bview S s"
    "bdevs s0 = bdevs s" "bstore s0 = bstore s" "keys s0 xs = keys s xs"
    using ok i new by (simp_all add: s0_def)
  obtain b t ch' fs' where al: "buffer_alloc T s0 = (Some b, t)"
    and ap: "alloc_post S D s0 b t (if fs = [] then butlast xs else xs) ch' fs'"
    using alloc_ok [OF s0(1,2)] by blast
  have t: "cache_ok S D t {} {b} (if fs = [] then butlast xs else xs) ch' fs'" "bdevs t = bdevs s"
    "st_cap S (bstore t) = st_cap S (bstore s)" "same_view S D s0 t" "idle t"
    using ap by (auto simp: alloc_post_def s0)
  have dv: "d \<noteq> 0" "st_own S (bdevs s d)" "st_inv S (bstore t)"
    using ok t(1) d by (auto simp: cache_ok_def devs_ok_def)
  obtain rd buf m where rd: "dev_rd T (bdevs s d) = Some rd" "rd (bdevs s d) n (bh_data (buffer_pool t b)) (bstore t) = (0, buf, m)"
    and m: "st_inv S m" "st_cap S m = st_cap S (bstore t)" "st_content S m = st_content S (bstore t)"
    and buf: "\<And>i. i < BLOCK_SIZE \<Longrightarrow> buf i = st_content S (bstore t) (bd_private (bdevs s d)) n i"
    using read_law [OF dv(3,2), of n "bh_data (buffer_pool t b)"] d(2) t(3) by auto
  define v where "v = upd_stats (\<lambda>c. c\<lparr>cs_reads := cs_reads c + 1, cs_cached := cs_cached c + 1\<rparr>)
     (upd_bh b (\<lambda>b. b\<lparr>bh_flags := bh_flags b OR BUF_VALID\<rparr>)
       (upd_bh b (\<lambda>b. b\<lparr>bh_data := buf\<rparr>) ((setup_buffer b d n BUF_BUSY t)\<lparr>bstore := m\<rparr>)))"
  define w where "w = lru_add_front b (buffer_hash_add b v)"
  have w: "buffer_get T d n s = (Some b, w)"
    unfolding buffer_get_def w_def v_def using new rd dv(1) al by (simp add: s0_def [symmetric] setup_buffer_def t(2) Let_def)
  note fill = get_fill [OF s0(1,3) ap d(1), of v, folded w_def]
  have f: "\<exists>ch''. get_post S D s0 d n b w {b} (b # (if fs = [] then butlast xs else xs)) ch'' fs'"
    "bview S w = (bview S t)(d := (bview S t d)(n := bh_data (buffer_pool v b)))"
    "keys w (b # (if fs = [] then butlast xs else xs)) = lru_step (d, n) (keys s0 xs)"
    using d(2) m t by (intro fill; simp add: v_def setup_buffer_def s0 buf_flag_bits)+
  obtain ch'' where g: "get_post S D s d n b w {b} (b # (if fs = [] then butlast xs else xs)) ch'' fs'"
    using f(1) by (auto simp: get_post_def s0)
  have wb: "bh_data (buffer_pool w b) = buf" "bstore w = m" "bdevs w = bdevs s"
    by (simp_all add: w_def v_def bh_frame buffer_hash_add_eq Let_def setup_buffer_def t)
  have "get_post S D s d n b w {} (b # (if fs = [] then butlast xs else xs)) ch'' fs'"
    using g settle [of S D w b "{}"] buf wb m(3) by (simp add: get_post_def)
  moreover have "same_view S D s w"
  proof -
    have "buffer_find d n t = None"
      using keys_find [OF t(1), of d n] keys_find [OF s0(1), of d n] s0(3) ap
      by (auto simp: alloc_post_def keys_def dest: in_set_butlastD split: if_splits)
    then have "buf i = bview S t d n i" if "i < BLOCK_SIZE" for i
      using buf [OF that] by (simp add: stored_uncached t(2))
    then show ?thesis using t(4) f(2) s0(4) by (auto simp: same_view_def v_def)
  qed
  ultimately show ?thesis using w f(3) s0(7) by metis
qed

lemma get_ok:
  assumes ok: "cache_ok S D s {} {} xs ch fs" and i: "idle s" and d: "d \<in> D" "n < st_cap S (bstore s) (bd_private (bdevs s d))"
  shows "\<exists>b t ys ch' fs'. buffer_get T d n s = (Some b, t) \<and> get_post S D s d n b t {} ys ch' fs' \<and> same_view S D s t \<and>
    keys t ys = lru_step (d, n) (keys s xs)"
proof (cases "buffer_find d n s")
  case None
  then show ?thesis using get_miss [OF ok i d] by blast
next
  case (Some b)
  have dv: "d \<noteq> 0" "st_own S (bdevs s d)" "st_inv S (bstore s)"
    using ok d by (auto simp: cache_ok_def devs_ok_def)
  obtain rd where rd: "dev_rd T (bdevs s d) = Some rd" using read_law [OF dv(3,2) d(2)] by blast
  define t where "t = snd (buffer_get T d n s)"
  have t: "buffer_get T d n s = (Some b, t)"
    and tt: "t = upd_stats (\<lambda>c. c\<lparr>cs_hits := cs_hits c + 1\<rparr>)
      (lru_touch b (upd_bh b (\<lambda>b. b\<lparr>bh_ref := bh_ref b + 1, bh_flags := bh_flags b OR BUF_BUSY\<rparr>) s))"
    unfolding t_def buffer_get_def using Some rd dv(1) by (simp_all add: Let_def)
  have "get_post S D s d n b t {} (b # remove1 b xs) ch fs" "same_view S D s t"
    "keys t (b # remove1 b xs) = lru_step (d, n) (keys s xs)"
    using get_hit [OF ok i Some] unfolding tt by (simp_all add: get_post_def same_view_def)
  then show ?thesis using t by blast
qed

end

section \<open>Overwriting and releasing\<close>

definition view_except :: "'m store_spec \<Rightarrow> u64 set \<Rightarrow> u64 \<Rightarrow> nat \<Rightarrow> 'm bcache \<Rightarrow> 'm bcache \<Rightarrow> bool" where
  "view_except S D d n s t \<longleftrightarrow>
     (\<forall>d'\<in>D. \<forall>n'. \<forall>i<BLOCK_SIZE. (d', n') \<noteq> (d, n) \<longrightarrow> bview S t d' n' i = bview S s d' n' i)"

lemma get_post_weaken: "get_post S D s d n b t {} xs ch fs \<Longrightarrow> get_post S D s d n b t {b} xs ch fs"
  unfolding get_post_def cache_ok_def blocks_ok_def by auto

lemma same_view_except: "same_view S D s t \<Longrightarrow> view_except S D d n s t"
  by (simp add: same_view_def view_except_def)

context block_store
begin

lemma get_new_ok:
  assumes ok: "cache_ok S D s {} {} xs ch fs" and i: "idle s" and d: "d \<in> D" "n < st_cap S (bstore s) (bd_private (bdevs s d))"
  shows "\<exists>b t ys ch' fs'. buffer_get_new T d n s = (Some b, t) \<and> get_post S D s d n b t {b} ys ch' fs' \<and>
    view_except S D d n s t \<and> keys t ys = lru_step (d, n) (keys s xs)"
proof (cases "buffer_find d n s")
  case (Some b)
  let ?t = "lru_touch b (upd_bh b (\<lambda>b. b\<lparr>bh_ref := bh_ref b + 1, bh_flags := bh_flags b OR BUF_BUSY\<rparr>) s)"
  define t where "t = upd_bh b (\<lambda>b. b\<lparr>bh_flags := bh_flags b OR BUF_VALID\<rparr>) ?t"
  have t: "buffer_get_new T d n s = (Some b, t)"
    unfolding buffer_get_new_def t_def using Some ok d by (auto simp: cache_ok_def devs_ok_def Let_def)
  note hit = get_hit [OF ok i Some]
  have l: "same_links ?t t" by (auto simp: same_links_def t_def)
  have c: "cache_ok S D ?t {} {} (b # remove1 b xs) ch fs" using hit(1) by (simp add: get_post_def)
  have "cache_ok S D t {} {} (b # remove1 b xs) ch fs" by (rule cache_ok_same(1) [OF c l]) (auto simp: t_def)
  then have "get_post S D s d n b t {} (b # remove1 b xs) ch fs"
    using hit(1) by (auto simp: get_post_def t_def evictable_iff)
  moreover have "bview S t = bview S ?t" by (rule cache_ok_same(2) [OF c l]) (auto simp: t_def)
  then have "bview S t = bview S s" using hit(2) by simp
  moreover have "keys t (b # remove1 b xs) = lru_step (d, n) (keys s xs)"
    using hit(3) keys_cong [of "b # remove1 b xs" t ?t] by (simp add: t_def)
  moreover have "view_except S D d n s t" using \<open>bview S t = bview S s\<close> by (simp add: view_except_def)
  ultimately show ?thesis using t get_post_weaken by blast
next
  case None
  obtain b t ch' fs' where al: "buffer_alloc T s = (Some b, t)"
    and ap: "alloc_post S D s b t (if fs = [] then butlast xs else xs) ch' fs'"
    using alloc_ok [OF ok i] by blast
  have t: "bdevs t = bdevs s" "st_cap S (bstore t) = st_cap S (bstore s)" "same_view S D s t" "st_inv S (bstore t)"
    using ap by (auto simp: alloc_post_def cache_ok_def devs_ok_def)
  define v where "v = upd_stats (\<lambda>c. c\<lparr>cs_cached := cs_cached c + 1\<rparr>) (setup_buffer b d n (BUF_BUSY OR BUF_VALID) t)"
  define w where "w = lru_add_front b (buffer_hash_add b v)"
  have w: "buffer_get_new T d n s = (Some b, w)"
    unfolding buffer_get_new_def w_def v_def using None ok d al by (auto simp: cache_ok_def devs_ok_def Let_def)
  note fill = get_fill [OF ok None ap d(1), of v, folded w_def]
  have f: "\<exists>ch''. get_post S D s d n b w {b} (b # (if fs = [] then butlast xs else xs)) ch'' fs'"
    "bview S w = (bview S t)(d := (bview S t d)(n := bh_data (buffer_pool v b)))"
    "keys w (b # (if fs = [] then butlast xs else xs)) = lru_step (d, n) (keys s xs)"
    using d(2) t by (intro fill; simp add: v_def setup_buffer_def)+
  have "view_except S D d n s w" using t(3) unfolding view_except_def same_view_def f(2) by auto
  then show ?thesis using w f by blast
qed

end

text \<open>The states between two operations.\<close>

definition cache_inv :: "'m store_spec \<Rightarrow> u64 set \<Rightarrow> 'm bcache \<Rightarrow> bool" where
  "cache_inv S D s \<longleftrightarrow> idle s \<and> (\<exists>xs ch fs. cache_ok S D s {} {} xs ch fs)"

text \<open>What no operation on the cached devices changes.\<close>

definition same_devs :: "'m store_spec \<Rightarrow> 'm bcache \<Rightarrow> 'm bcache \<Rightarrow> bool" where
  "same_devs S s t \<longleftrightarrow> bdevs t = bdevs s \<and> st_cap S (bstore t) = st_cap S (bstore s)"

lemma release_ok:
  assumes g: "get_post S D s d n b t {} xs ch fs"
  shows "cache_inv S D (buffer_release b t)" "bview S (buffer_release b t) = bview S t" "same_devs S s (buffer_release b t)"
    "keys (buffer_release b t) xs = keys t xs" "cache_ok S D (buffer_release b t) {} {} xs ch fs"
proof -
  have l: "same_links t (buffer_release b t)" by (auto simp: same_links_def buffer_release_def)
  have c: "cache_ok S D t {} {} xs ch fs" using g by (simp add: get_post_def)
  show ok: "cache_ok S D (buffer_release b t) {} {} xs ch fs"
    by (rule cache_ok_same(1) [OF c l]) (auto simp: buffer_release_def)
  show "bview S (buffer_release b t) = bview S t"
    by (rule cache_ok_same(2) [OF c l]) (auto simp: buffer_release_def)
  have "idle (buffer_release b t)" using g by (auto simp: get_post_def idle_def evictable_iff buffer_release_def)
  then show "cache_inv S D (buffer_release b t)" using ok by (auto simp: cache_inv_def)
  show "same_devs S s (buffer_release b t)" using g by (simp add: same_devs_def get_post_def buffer_release_def)
  show "keys (buffer_release b t) xs = keys t xs" by (rule keys_cong) (simp add: buffer_release_def)
qed

lemma overwrite_ok:
  fixes f :: "u8 array \<Rightarrow> u8 array"
  assumes g: "get_post S D s d n b t {b} xs ch fs"
  defines "u \<equiv> buffer_release b (buffer_mark_dirty b (upd_bh b (\<lambda>x. x\<lparr>bh_data := f (bh_data x)\<rparr>) t))"
  shows "cache_inv S D u" "same_devs S s u" "bview S u = (bview S t)(d := (bview S t d)(n := f (bview S t d n)))"
proof -
  let ?v = "buffer_mark_dirty b (upd_bh b (\<lambda>x. x\<lparr>bh_data := f (bh_data x)\<rparr>) t)"
  have c: "cache_ok S D t {b} {} xs ch fs" and b: "b \<in> set xs" "bh_dev (buffer_pool t b) = d" "bh_block (buffer_pool t b) = n"
    using g by (auto simp: get_post_def)
  have l: "same_links t ?v" by (auto simp: same_links_def buffer_mark_dirty_def)
  have o: "x \<noteq> b \<Longrightarrow> buffer_pool ?v x = buffer_pool t x" "bh_data (buffer_pool ?v b) = f (bh_data (buffer_pool t b))"
    "dirty ?v x \<longleftrightarrow> x = b \<or> dirty t x" "bdevs ?v = bdevs t" "bstore ?v = bstore t" for x
    by (auto simp: buffer_mark_dirty_def)
  have "blocks_ok S D ?v {b} xs"
    using c l unfolding cache_ok_def blocks_ok_def same_links_def by (simp add: o)
  then have "cache_ok S D ?v {b} {} xs ch fs"
    using c same_links_lists [OF l] by (simp add: cache_ok_def devs_ok_def o)
  then have cv: "cache_ok S D ?v {} {} xs ch fs" by (rule settle) (simp add: o)
  have "get_post S D s d n b ?v {} xs ch fs"
    using g cv o by (auto simp: get_post_def buffer_mark_dirty_def)
  note r = release_ok [OF this, folded u_def]
  show "cache_inv S D u" "same_devs S s u" by (rule r)+
  have ff: "buffer_find d' n' ?v = buffer_find d' n' t" for d' n' by (rule same_links_find [OF l])
  have fb: "buffer_find d n t = Some b" using b unfolding find_cached [OF c] by simp
  have "bview S ?v d' n' = (if d' = d \<and> n' = n then f (bview S t d n) else bview S t d' n')" for d' n'
  proof (cases "d' = d \<and> n' = n")
    case False
    then have "buffer_find d' n' t \<noteq> Some b" using b unfolding find_cached [OF c] by auto
    then show ?thesis using False by (cases "buffer_find d' n' t") (auto simp: bview_def ff o)
  qed (use fb in \<open>simp add: bview_def ff o\<close>)
  then show "bview S u = (bview S t)(d := (bview S t d)(n := f (bview S t d n)))"
    unfolding r(2) by (intro ext) simp
qed

section \<open>Synchronisation\<close>

context block_store
begin

lemma sync_loop_ok:
  assumes "cache_ok S D s {} {} xs ch fs" "i + k \<le> BUFFER_CACHE_SIZE"
  shows "\<exists>t. sync_loop T dev i k e s = (e, t) \<and> cache_ok S D t {} {} xs ch fs \<and> same_links s t \<and> same_view S D s t \<and>
    same_devs S s t \<and> (\<forall>x. evictable (buffer_pool t x) = evictable (buffer_pool s x)) \<and>
    (\<forall>x. dirty t x \<longrightarrow> dirty s x) \<and>
    (\<forall>x\<in>set xs. i \<le> x \<and> x < i + k \<and> (dev = 0 \<or> bh_dev (buffer_pool s x) = dev) \<longrightarrow> \<not> dirty t x)"
  using assms
proof (induction k arbitrary: i s)
  case 0
  then show ?case by (auto simp: same_links_def same_devs_def)
next
  case (Suc k)
  let ?c = "bh_flags (buffer_pool s i) AND BUF_DIRTY \<noteq> 0 \<and> (dev = 0 \<or> bh_dev (buffer_pool s i) = dev)"
  have "i \<in> set xs \<or> i \<in> set fs" using Suc.prems by (auto simp: cache_ok_def lists_ok_def)
  moreover have "i \<in> set fs \<Longrightarrow> buffer_sync_internal T i s = (0, s)"
    using Suc.prems(1) by (auto simp: cache_ok_def lists_ok_def free_ok_def buffer_sync_internal_def Let_def)
  ultimately obtain u where u: "?c \<Longrightarrow> buffer_sync_internal T i s = (0, u)" "\<not> ?c \<Longrightarrow> u = s"
    "cache_ok S D u {} {} xs ch fs" "same_links s u" "same_view S D s u" "same_devs S s u"
    "\<And>x. evictable (buffer_pool u x) = evictable (buffer_pool s x)" "\<And>x. dirty u x \<Longrightarrow> dirty s x"
    "i \<in> set xs \<Longrightarrow> dev = 0 \<or> bh_dev (buffer_pool s i) = dev \<Longrightarrow> \<not> dirty u i"
  proof (cases "i \<in> set xs \<and> ?c")
    case True
    then show ?thesis using sync_ok [OF Suc.prems(1), of i] that by (force simp: same_devs_def)
  next
    case False
    then show ?thesis
      using that [of s] Suc.prems(1) \<open>i \<in> set xs \<or> i \<in> set fs\<close> \<open>i \<in> set fs \<Longrightarrow> _\<close>
      by (auto simp: same_links_def same_devs_def)
  qed
  have step: "sync_loop T dev i (Suc k) e s = sync_loop T dev (Suc i) k e u"
    using u(1,2) by (cases ?c) (auto simp: Let_def)
  obtain t where t: "sync_loop T dev (Suc i) k e u = (e, t)" "cache_ok S D t {} {} xs ch fs" "same_links u t"
    "same_view S D u t" "same_devs S u t" "\<And>x. evictable (buffer_pool t x) = evictable (buffer_pool u x)"
    "\<And>x. dirty t x \<Longrightarrow> dirty u x"
    "\<And>x. x \<in> set xs \<Longrightarrow> Suc i \<le> x \<and> x < Suc i + k \<and> (dev = 0 \<or> bh_dev (buffer_pool u x) = dev) \<Longrightarrow> \<not> dirty t x"
    using Suc.IH [OF u(3), of "Suc i"] Suc.prems(2) by auto
  have dv: "bh_dev (buffer_pool u x) = bh_dev (buffer_pool s x)" for x using u(4) by (simp add: same_links_def)
  have "\<not> dirty t x" if "x \<in> set xs" "i \<le> x" "x < i + Suc k" "dev = 0 \<or> bh_dev (buffer_pool s x) = dev" for x
    using that u(9) t(7) [of x] t(8) [of x] dv by (cases "x = i") auto
  moreover have "same_links s t" using u(4) t(3) by (simp add: same_links_def)
  moreover have "same_devs S s t" using u(6) t(5) by (simp add: same_devs_def)
  ultimately show ?case
    using step t(1,2,6) u(7,8) t(7) same_view_trans [OF u(5) t(4)] by auto
qed

end

end
