(* ===== verification/Block_Io.thy ===== *)
theory Block_Io
  imports Block_Ops
begin

text \<open>
  The block layer as a client sees it: over a backing store that keeps its
  contract, every cached device is a flat array of bytes.  \<open>block_read\<close> returns
  a slice of it, \<open>block_write\<close> replaces one, \<open>buffer_sync_all\<close> and
  \<open>buffer_invalidate\<close> change nothing of it, and after \<open>buffer_sync_all\<close> the
  store itself holds it.
\<close>

section \<open>Synchronising and invalidating a device\<close>

lemma inv_clean_stored:
  assumes ok: "cache_ok S D t {} {} xs ch fs" and c: "\<And>x. x \<in> set xs \<Longrightarrow> bh_dev (buffer_pool t x) = d \<Longrightarrow> \<not> dirty t x"
    and i: "i < BLOCK_SIZE"
  shows "bview S t d n i = stored S t d n i"
proof (cases "buffer_find d n t")
  case (Some b)
  then have "b \<in> set xs" "bh_dev (buffer_pool t b) = d" "bh_block (buffer_pool t b) = n" unfolding find_cached [OF ok] by auto
  then show ?thesis using ok c i Some unfolding cache_ok_def blocks_ok_def by (auto simp: bview_def)
qed (simp add: bview_def)

lemma put_free_ok:
  assumes ok: "cache_ok S D s E {b} xs ch fs" and b: "b < BUFFER_CACHE_SIZE"
    and t: "\<And>x. x \<noteq> b \<Longrightarrow> buffer_pool t x = buffer_pool s x" "buffer_hash t = buffer_hash s" "free_buffers t = Some b"
      "lru_head t = lru_head s" "lru_tail t = lru_tail s" "bdevs t = bdevs s" "bstore t = bstore s"
      "bh_hash_next (buffer_pool t b) = free_buffers s" "bh_dev (buffer_pool t b) = 0"
  shows "cache_ok S D t E {} xs ch (b # fs)" "bview S t = bview S s"
proof -
  let ?v = "t\<lparr>free_buffers := free_buffers s\<rparr>"
  have st: "st_inv S (bstore s)" using ok by (simp add: cache_ok_def devs_ok_def)
  have v: "cache_ok S D ?v E {b} xs ch fs" and bv: "bview S ?v = bview S s"
    by (rule hand_ok [OF ok]; simp add: t st)+
  have "free_ok t (b # fs)"
    using v ok by (auto simp: cache_ok_def lists_ok_def free_ok_def t)
  then show "cache_ok S D t E {} xs ch (b # fs)"
    using v b by (auto simp: cache_ok_def lists_ok_def lru_ok_def hash_ok_def devs_ok_def blocks_ok_def)
  have "bview S ?v d n i = bview S t d n i" for d n i by (simp add: bview_def buffer_find_def split: option.split)
  then show "bview S t = bview S s" using bv by (auto simp: fun_eq_iff)
qed

lemma listed_linked:
  assumes "lru_ok s xs" "b \<in> set xs"
  shows "bh_lru_prev (buffer_pool s b) \<noteq> None \<or> bh_lru_next (buffer_pool s b) \<noteq> None \<or> lru_head s = Some b"
proof -
  obtain ys zs where "xs = ys @ b # zs" using split_list [OF assms(2)] by blast
  then show ?thesis using assms lru_neighbours [of s ys b zs] by (cases ys) (auto simp: lru_ok_def)
qed

context block_store
begin

lemma sync_all_ok:
  assumes inv: "cache_inv S D s" and d: "d \<in> D"
  shows "\<exists>t. buffer_sync_all T d s = (0, t) \<and> cache_inv S D t \<and> same_view S D s t \<and> same_devs S s t \<and>
    (\<forall>n. \<forall>i<BLOCK_SIZE. stored S t d n i = bview S s d n i)"
proof -
  obtain xs ch fs where ok: "cache_ok S D s {} {} xs ch fs" and idl: "idle s" using inv by (auto simp: cache_inv_def)
  obtain u where u: "sync_loop T d 0 BUFFER_CACHE_SIZE 0 s = (0, u)" "cache_ok S D u {} {} xs ch fs" "same_links s u"
    "same_view S D s u" "same_devs S s u" "\<And>x. evictable (buffer_pool u x) = evictable (buffer_pool s x)"
    "\<And>x. x \<in> set xs \<Longrightarrow> x < BUFFER_CACHE_SIZE \<Longrightarrow> bh_dev (buffer_pool s x) = d \<Longrightarrow> \<not> dirty u x"
    using sync_loop_ok [OF ok, of 0 BUFFER_CACHE_SIZE d 0] by auto
  define m where "m = (case dev_sy T (bdevs u d) of None \<Rightarrow> bstore u | Some sy \<Rightarrow> snd (sy (bdevs u d) (bstore u)))"
  have dv: "d \<noteq> 0" "st_own S (bdevs u d)" "st_inv S (bstore u)" using u(2) d by (auto simp: cache_ok_def devs_ok_def)
  have m: "st_inv S m" "st_cap S m = st_cap S (bstore u)" "st_content S m = st_content S (bstore u)"
    using sync_law [OF dv(3,2)] dv(3) by (auto simp: m_def split: option.split)
  let ?t = "u\<lparr>bstore := m\<rparr>"
  have ret: "buffer_sync_all T d s = (0, ?t)"
    using u(1) dv(1) by (auto simp: buffer_sync_all_def m_def split: option.split)
  have ok': "cache_ok S D ?t {} {} xs ch fs"
    using u(2) m by (simp add: cache_ok_def lists_ok_def lru_ok_def hash_ok_def free_ok_def devs_ok_def blocks_ok_def)
  have bv: "bview S ?t d' n i = bview S u d' n i" for d' n i
    using m(3) by (simp add: bview_def buffer_find_def split: option.split)
  have "idle ?t" using idl u(6) by (simp add: idle_def)
  then have "cache_inv S D ?t" using ok' by (auto simp: cache_inv_def)
  moreover have "same_view S D s ?t" using u(4) by (simp add: same_view_def bv)
  moreover have "same_devs S s ?t" using u(5) m(2) by (simp add: same_devs_def)
  moreover have "stored S ?t d n i = bview S s d n i" if "i < BLOCK_SIZE" for n i
  proof -
    have "bview S u d n i = stored S u d n i"
      by (rule inv_clean_stored [OF u(2) _ that])
         (use u(3,7) cache_ok_bound [OF u(2)] in \<open>simp add: same_links_def\<close>)
    then show ?thesis using u(4) d that m(3) by (simp add: same_view_def)
  qed
  ultimately show ?thesis using ret by blast
qed

lemma invalidate_one_ok:
  assumes inv: "cache_inv S D s" and d: "d \<in> D" and i: "i < BUFFER_CACHE_SIZE"
  shows "cache_inv S D (invalidate_one T d i s) \<and> same_view S D s (invalidate_one T d i s) \<and>
    same_devs S s (invalidate_one T d i s)"
proof (cases "bh_dev (buffer_pool s i) = d")
  case False
  then show ?thesis using inv by (simp add: invalidate_one_def same_devs_def)
next
  case True
  obtain xs ch fs where ok: "cache_ok S D s {} {} xs ch fs" and idl: "idle s" using inv by (auto simp: cache_inv_def)
  have d0: "d \<noteq> 0" using ok d by (auto simp: cache_ok_def devs_ok_def)
  have ix: "i \<in> set xs"
    using ok i True d0 unfolding cache_ok_def lists_ok_def free_ok_def by (metis Un_iff empty_iff lessThan_iff)
  obtain u where u: "buffer_sync_internal T i s = (0, u)" "cache_ok S D u {} {} xs ch fs"
    "same_view S D s u" "\<not> dirty u i" "bdevs u = bdevs s" "st_cap S (bstore u) = st_cap S (bstore s)"
    "\<And>x. evictable (buffer_pool u x) = evictable (buffer_pool s x)"
    using sync_ok [OF ok ix] by auto
  have clean: "(if bh_flags (buffer_pool s i) AND BUF_DIRTY \<noteq> 0 then snd (buffer_sync_internal T i s) else s) = u"
    using u(1) by (auto simp: buffer_sync_internal_def)
  let ?h = "buffer_hash_remove i u"
  let ?r = "lru_remove i ?h"
  have "lru_ok ?h xs" using u(2) by (simp add: cache_ok_def lists_ok_def lru_ok_def bh_frame)
  note lnk = listed_linked [OF this ix]
  define t where "t = invalidate_one T d i s"
  have tt: "t = upd_stats (\<lambda>c. c\<lparr>cs_cached := cs_cached c - 1\<rparr>)
      ((upd_bh i (\<lambda>b. b\<lparr>bh_dev := 0, bh_block := 0, bh_flags := 0, bh_ref := 0, bh_hash_next := free_buffers ?r\<rparr>) ?r)
        \<lparr>free_buffers := Some i\<rparr>)"
    unfolding t_def invalidate_one_def using True lnk by (simp only: clean Let_def if_True simp_thms)
  note un = uncache_ok [OF u(2) ix _ u(4), of ?r, simplified bh_frame, simplified]
  note pf = put_free_ok [OF un(1) i, of t]
  have p: "cache_ok S D t {} {} (remove1 i xs) (ch(hash_of u i := remove1 i (ch (hash_of u i)))) (i # fs)"
    "bview S t = bview S ?r" by (rule pf; simp add: tt bh_frame)+
  have "idle t" using idl u(7) by (auto simp: idle_def tt evictable_iff bh_frame)
  then have "cache_inv S D t" using p(1) by (auto simp: cache_inv_def)
  moreover have "same_view S D s t" using same_view_trans [OF u(3) un(2)] p(2) by (simp add: same_view_def)
  moreover have "same_devs S s t" using u(5,6) by (simp add: same_devs_def tt bh_frame)
  ultimately show ?thesis unfolding t_def by blast
qed

lemma invalidate_ok:
  assumes "cache_inv S D s" "d \<in> D"
  shows "cache_inv S D (buffer_invalidate T d s) \<and> same_view S D s (buffer_invalidate T d s) \<and>
    same_devs S s (buffer_invalidate T d s)"
proof -
  have "cache_inv S D (fold (invalidate_one T d) is s) \<and> same_view S D s (fold (invalidate_one T d) is s) \<and>
    same_devs S s (fold (invalidate_one T d) is s)" if "set is \<subseteq> {..<BUFFER_CACHE_SIZE}" for "is"
    using assms(1) that
  proof (induction "is" arbitrary: s)
    case (Cons i "is")
    have "i < BUFFER_CACHE_SIZE" using Cons.prems by auto
    from invalidate_one_ok [OF Cons.prems(1) assms(2) this] Cons.IH [of "invalidate_one T d i s"] Cons.prems(2)
    show ?case by (auto simp: same_devs_def intro: same_view_trans)
  qed (simp add: same_devs_def)
  then show ?thesis unfolding buffer_invalidate_def by (simp only: set_upt atLeast0LessThan subset_refl)
qed

end

section \<open>A cached device is a flat array of bytes\<close>

definition fview :: "'m store_spec \<Rightarrow> 'm bcache \<Rightarrow> u64 \<Rightarrow> u8 array" where
  "fview S s d p = bview S s d (p div BLOCK_SIZE) (p mod BLOCK_SIZE)"

definition same_flat :: "'m store_spec \<Rightarrow> u64 set \<Rightarrow> 'm bcache \<Rightarrow> 'm bcache \<Rightarrow> bool" where
  "same_flat S D s t \<longleftrightarrow> (\<forall>d\<in>D. fview S t d = fview S s d)"

lemma same_view_flat: "same_view S D s t \<Longrightarrow> same_flat S D s t"
  by (auto simp: same_view_def same_flat_def fview_def fun_eq_iff)

text \<open>The bytes that a transfer of \<open>sz\<close> bytes at \<open>p\<close> moves on a device of \<open>tot\<close> blocks.\<close>

definition moved :: "nat \<Rightarrow> nat \<Rightarrow> nat \<Rightarrow> nat" where
  "moved sz tot p = min sz (tot * BLOCK_SIZE - p)"

lemma moved_step:
  assumes "bn < tot" "off < BLOCK_SIZE" "n < sz"
  shows "moved (sz - n) tot (bn * BLOCK_SIZE + off) =
    chunk off sz n + moved (sz - (n + chunk off sz n)) tot (Suc bn * BLOCK_SIZE)"
proof (cases "sz - n < BLOCK_SIZE - off")
  case True
  moreover have "bn * BLOCK_SIZE + BLOCK_SIZE \<le> tot * BLOCK_SIZE" using assms(1) mult_le_mono1 [of "Suc bn" tot BLOCK_SIZE] by simp
  ultimately show ?thesis by (simp add: moved_def chunk_def)
next
  case False
  moreover have "bn * BLOCK_SIZE + BLOCK_SIZE \<le> tot * BLOCK_SIZE" using assms(1) mult_le_mono1 [of "Suc bn" tot BLOCK_SIZE] by simp
  ultimately show ?thesis using assms by (simp add: moved_def chunk_def)
qed

lemma chunk_bounds: "off < BLOCK_SIZE \<Longrightarrow> n < sz \<Longrightarrow> off + chunk off sz n \<le> BLOCK_SIZE \<and> n + chunk off sz n \<le> sz \<and>
    (n + chunk off sz n < sz \<longrightarrow> off + chunk off sz n = BLOCK_SIZE)"
  by (auto simp: chunk_def Let_def)

lemma block_split: "off + j < BLOCK_SIZE \<Longrightarrow> (bn * BLOCK_SIZE + off + j) div BLOCK_SIZE = bn \<and>
    (bn * BLOCK_SIZE + off + j) mod BLOCK_SIZE = off + j"
  by (simp add: add.assoc div_mult_self3)

lemma moved_0 [simp]: "moved 0 tot p = 0"
  by (simp add: moved_def)

lemma copy_into_0 [simp]: "copy_into dst i src j 0 = dst"
  by (auto simp: copy_into_def fun_eq_iff)

lemma copy_into_append:
  assumes "\<And>j. j < c \<Longrightarrow> a (off + j) = g (p + j)" "k = 0 \<or> q = p + c"
  shows "copy_into (copy_into dst n a off c) (n + c) g q k = copy_into dst n g p (c + k)"
proof
  fix x
  consider "x < n" | "n \<le> x" "x < n + c" | "n + c \<le> x" by linarith
  then show "copy_into (copy_into dst n a off c) (n + c) g q k x = copy_into dst n g p (c + k) x"
  proof cases
    case 2
    then show ?thesis using assms(1) [of "x - n"] by (simp add: copy_into_def)
  next
    case 3
    then have "k = 0 \<or> q + (x - (n + c)) = p + (x - n)" using assms(2) by auto
    then show ?thesis using 3 by (auto simp: copy_into_def)
  qed (simp add: copy_into_def)
qed

context block_store
begin

lemma read_step:
  assumes inv: "cache_inv S D s" and d: "d \<in> D" and bn: "bn < bd_total_blocks (bdevs s d)"
  shows "\<exists>b t. buffer_get T d bn s = (Some b, t) \<and> cache_inv S D (buffer_release b t) \<and>
    same_view S D s (buffer_release b t) \<and> same_devs S s (buffer_release b t) \<and>
    (\<forall>i<BLOCK_SIZE. bh_data (buffer_pool t b) i = bview S s d bn i)"
proof -
  obtain xs ch fs where ok: "cache_ok S D s {} {} xs ch fs" and idl: "idle s" using inv by (auto simp: cache_inv_def)
  have "bn < st_cap S (bstore s) (bd_private (bdevs s d))" using ok d bn by (force simp: cache_ok_def devs_ok_def)
  from get_ok [OF ok idl d this] obtain b t ys ch' fs' where
    t: "buffer_get T d bn s = (Some b, t)" "get_post S D s d bn b t {} ys ch' fs'" "same_view S D s t" by blast
  note r = release_ok [OF t(2)]
  have "cache_ok S D t {} {} ys ch' fs'" "b \<in> set ys" "bh_dev (buffer_pool t b) = d" "bh_block (buffer_pool t b) = bn"
    using t(2) by (auto simp: get_post_def)
  then have "bh_data (buffer_pool t b) = bview S t d bn" using bview_cached by metis
  moreover have "same_view S D s (buffer_release b t)" using t(3) r(2) by (simp add: same_view_def)
  ultimately show ?thesis using t(1,3) r(1,3) d by (auto simp: same_view_def)
qed

lemma read_loop_ok:
  fixes bn :: nat
  assumes "cache_inv S D s" "d \<in> D" "off < BLOCK_SIZE" "n \<le> sz"
  defines "k \<equiv> moved (sz - n) (bd_total_blocks (bdevs s d)) (bn * BLOCK_SIZE + off)"
  shows "\<exists>t. block_read_loop T d sz bn off n dst s =
      (int (n + k), copy_into dst n (fview S s d) (bn * BLOCK_SIZE + off) k, t) \<and>
    cache_inv S D t \<and> same_flat S D s t \<and> same_devs S s t"
  using assms(1,3,4) unfolding k_def
proof (induction "sz - n" arbitrary: s bn off n dst rule: less_induct)
  case less
  let ?tot = "bd_total_blocks (bdevs s d)" and ?p = "bn * BLOCK_SIZE + off" and ?c = "chunk off sz n"
  show ?case
  proof (cases "n < sz \<and> bn < ?tot")
    case False
    then have "moved (sz - n) ?tot ?p = 0"
      using less.prems(3) mult_le_mono1 [of ?tot bn BLOCK_SIZE] by (auto simp: moved_def not_less)
    then show ?thesis
      using False less.prems by (auto simp: block_read_loop.simps [of T d sz bn] same_flat_def same_devs_def)
  next
    case True
    then obtain b t where t: "buffer_get T d bn s = (Some b, t)" "cache_inv S D (buffer_release b t)"
      "same_view S D s (buffer_release b t)" "same_devs S s (buffer_release b t)"
      "\<And>i. i < BLOCK_SIZE \<Longrightarrow> bh_data (buffer_pool t b) i = bview S s d bn i"
      using read_step [OF less.prems(1) assms(2)] by blast
    let ?r = "buffer_release b t" and ?a = "bh_data (buffer_pool t b)"
    have c: "off + ?c \<le> BLOCK_SIZE" "n + ?c \<le> sz" "n + ?c < sz \<longrightarrow> off + ?c = BLOCK_SIZE" "0 < ?c"
      using chunk_bounds [OF less.prems(2), of n sz] True less.prems(2) by (auto simp: chunk_def Let_def)
    have tot: "bd_total_blocks (bdevs ?r d) = ?tot" and fv: "fview S ?r d = fview S s d"
      using t(4) assms(2) same_view_flat [OF t(3)] by (auto simp: same_devs_def same_flat_def)
    let ?k = "moved (sz - (n + ?c)) ?tot (Suc bn * BLOCK_SIZE)"
    have mv: "moved (sz - n) ?tot ?p = ?c + ?k" using moved_step [of bn ?tot off n sz] True less.prems(2) by simp
    have cp: "copy_into (copy_into dst n ?a off ?c) (n + ?c) (fview S s d) (Suc bn * BLOCK_SIZE) ?k =
        copy_into dst n (fview S s d) ?p (?c + ?k)"
    proof (rule copy_into_append)
      fix j assume j: "j < ?c"
      then show "?a (off + j) = fview S s d (?p + j)"
        using c(1) t(5) [of "off + j"] block_split [of off j bn] by (simp add: fview_def)
    next
      show "?k = 0 \<or> Suc bn * BLOCK_SIZE = ?p + ?c" using c by (cases "n + ?c < sz") auto
    qed
    have m: "sz - (n + ?c) < sz - n" using c True by auto
    have z: "(0::nat) < BLOCK_SIZE" by simp
    obtain w where w: "block_read_loop T d sz (Suc bn) 0 (n + ?c) (copy_into dst n ?a off ?c) ?r =
        (int (n + ?c + ?k), copy_into dst n (fview S s d) ?p (?c + ?k), w)"
      "cache_inv S D w" "same_flat S D ?r w" "same_devs S ?r w"
      using less.hyps [OF m t(2) z c(2), of "Suc bn" "copy_into dst n ?a off ?c"] unfolding tot fv add_0_right cp by blast
    have "block_read_loop T d sz bn off n dst s = (int (n + (?c + ?k)), copy_into dst n (fview S s d) ?p (?c + ?k), w)"
      using w(1) True t(1) by (subst block_read_loop.simps) (simp add: not_le add.assoc)
    moreover have "same_flat S D s w" using w(3) same_view_flat [OF t(3)] by (simp add: same_flat_def)
    moreover have "same_devs S s w" using w(4) t(4) by (simp add: same_devs_def)
    ultimately show ?thesis using w(2) unfolding mv by blast
  qed
qed

lemma write_step:
  fixes f :: "u8 array \<Rightarrow> u8 array"
  assumes inv: "cache_inv S D s" and d: "d \<in> D" and bn: "bn < bd_total_blocks (bdevs s d)"
    and full: "full \<Longrightarrow> (\<And>a a' i. i < BLOCK_SIZE \<Longrightarrow> f a i = f a' i)"
    and local: "\<And>a a' i. (\<And>i. i < BLOCK_SIZE \<Longrightarrow> a i = a' i) \<Longrightarrow> i < BLOCK_SIZE \<Longrightarrow> f a i = f a' i"
  shows "\<exists>b t u. (if full then buffer_get_new T d bn s else buffer_get T d bn s) = (Some b, t) \<and>
    u = buffer_release b (buffer_mark_dirty b (upd_bh b (\<lambda>x. x\<lparr>bh_data := f (bh_data x)\<rparr>) t)) \<and>
    cache_inv S D u \<and> same_devs S s u \<and>
    (\<forall>d'\<in>D. \<forall>n. \<forall>i<BLOCK_SIZE. bview S u d' n i = (if d' = d \<and> n = bn then f (bview S s d bn) i else bview S s d' n i))"
proof -
  obtain xs ch fs where ok: "cache_ok S D s {} {} xs ch fs" and idl: "idle s" using inv by (auto simp: cache_inv_def)
  have cap: "bn < st_cap S (bstore s) (bd_private (bdevs s d))" using ok d bn by (force simp: cache_ok_def devs_ok_def)
  obtain b t ys ch' fs' where t: "(if full then buffer_get_new T d bn s else buffer_get T d bn s) = (Some b, t)"
    "get_post S D s d bn b t {b} ys ch' fs'" "view_except S D d bn s t" "\<not> full \<Longrightarrow> same_view S D s t"
  proof (cases full)
    case True
    then show ?thesis using get_new_ok [OF ok idl d cap] that by force
  next
    case False
    then show ?thesis using get_ok [OF ok idl d cap] that get_post_weaken same_view_except by (metis (no_types, lifting))
  qed
  define u where "u = buffer_release b (buffer_mark_dirty b (upd_bh b (\<lambda>x. x\<lparr>bh_data := f (bh_data x)\<rparr>) t))"
  note o = overwrite_ok [OF t(2), of f, folded u_def]
  have "f (bview S t d bn) i = f (bview S s d bn) i" if "i < BLOCK_SIZE" for i
  proof (cases full)
    case True
    then show ?thesis using full that by blast
  next
    case False
    then show ?thesis using local [of "bview S t d bn" "bview S s d bn"] t(4) d that by (auto simp: same_view_def)
  qed
  then have "bview S u d' n i = (if d' = d \<and> n = bn then f (bview S s d bn) i else bview S s d' n i)"
    if "d' \<in> D" "i < BLOCK_SIZE" for d' n i
    using t(3) that unfolding o(3) view_except_def by auto
  then show ?thesis using t(1) o(1,2) u_def by blast
qed

end

text \<open>The flat array after one round: the chunk replaces its slice.\<close>

lemma flat_update:
  assumes u: "\<And>d' n i. d' \<in> D \<Longrightarrow> i < BLOCK_SIZE \<Longrightarrow> bview S u d' n i =
      (if d' = d \<and> n = bn then copy_into (bview S s d bn) off src m c i else bview S s d' n i)"
    and c: "off + c \<le> BLOCK_SIZE" and d': "d' \<in> D"
  shows "fview S u d' = (if d' = d then copy_into (fview S s d) (bn * BLOCK_SIZE + off) src m c else fview S s d')"
proof
  fix p
  define q where "q = p div BLOCK_SIZE"
  define r where "r = p mod BLOCK_SIZE"
  have r: "r < BLOCK_SIZE" and p: "p = q * BLOCK_SIZE + r" by (simp_all add: q_def r_def)
  note b = u [OF d' r, of q]
  have iff: "bn * BLOCK_SIZE + off \<le> p \<and> p < bn * BLOCK_SIZE + off + c \<longleftrightarrow> q = bn \<and> off \<le> r \<and> r < off + c"
  proof (cases "q = bn")
    case True
    then show ?thesis using p by (simp; linarith)
  next
    case False
    then have "Suc q \<le> bn \<or> Suc bn \<le> q" by linarith
    then have "q * BLOCK_SIZE + BLOCK_SIZE \<le> bn * BLOCK_SIZE \<or> bn * BLOCK_SIZE + BLOCK_SIZE \<le> q * BLOCK_SIZE"
      using mult_le_mono1 [of "Suc q" bn BLOCK_SIZE] mult_le_mono1 [of "Suc bn" q BLOCK_SIZE] by auto
    then show ?thesis using p False c r by linarith
  qed
  have sub: "q = bn \<Longrightarrow> off \<le> r \<Longrightarrow> p - (bn * BLOCK_SIZE + off) = r - off" using p by auto
  show "fview S u d' p = (if d' = d then copy_into (fview S s d) (bn * BLOCK_SIZE + off) src m c else fview S s d') p"
    using b sub unfolding fview_def q_def [symmetric] r_def [symmetric] by (auto simp: copy_into_def iff fview_def q_def [symmetric] r_def [symmetric])
qed

lemma copy_into_extend:
  "k = 0 \<or> q = p + c \<Longrightarrow> copy_into (copy_into g p src n c) q src (n + c) k = copy_into g p src n (c + k)"
proof
  fix x assume *: "k = 0 \<or> q = p + c"
  have e: "p + c \<le> x \<Longrightarrow> n + c + (x - (p + c)) = n + (x - p)" by linarith
  consider "k = 0" | "k \<noteq> 0" "q = p + c" "x < p + c" | "k \<noteq> 0" "q = p + c" "p + c \<le> x" using * by linarith
  then show "copy_into (copy_into g p src n c) q src (n + c) k x = copy_into g p src n (c + k) x"
    by cases (auto simp: copy_into_def e add.assoc)
qed

context block_store
begin

lemma write_round:
  assumes inv: "cache_inv S D s" and d: "d \<in> D" and bn: "bn < bd_total_blocks (bdevs s d)"
    and n: "n < sz" and off: "off < BLOCK_SIZE"
  defines "c \<equiv> chunk off sz n"
  shows "\<exists>b t u. (if off = 0 \<and> BLOCK_SIZE \<le> sz - n then buffer_get_new T d bn s else buffer_get T d bn s) = (Some b, t) \<and>
    u = buffer_release b (buffer_mark_dirty b (upd_bh b (\<lambda>x. x\<lparr>bh_data := copy_into (bh_data x) off src n c\<rparr>) t)) \<and>
    cache_inv S D u \<and> same_devs S s u \<and>
    (\<forall>d'\<in>D. fview S u d' = (if d' = d then copy_into (fview S s d) (bn * BLOCK_SIZE + off) src n c else fview S s d'))"
proof -
  have "off + c \<le> BLOCK_SIZE" using chunk_bounds [OF off n] by (simp add: c_def)
  note fu = flat_update [OF _ this]
  have full: "off = 0 \<and> BLOCK_SIZE \<le> sz - n \<Longrightarrow> (\<And>a a' i. i < BLOCK_SIZE \<Longrightarrow> copy_into a off src n c i = copy_into a' off src n c i)"
    by (simp add: copy_into_def c_def chunk_def)
  have local: "\<And>a a' i. (\<And>i. i < BLOCK_SIZE \<Longrightarrow> a i = a' i) \<Longrightarrow> i < BLOCK_SIZE \<Longrightarrow> copy_into a off src n c i = copy_into a' off src n c i"
    by (simp add: copy_into_def)
  obtain b t u where t: "(if off = 0 \<and> BLOCK_SIZE \<le> sz - n then buffer_get_new T d bn s else buffer_get T d bn s) = (Some b, t)"
    "u = buffer_release b (buffer_mark_dirty b (upd_bh b (\<lambda>x. x\<lparr>bh_data := copy_into (bh_data x) off src n c\<rparr>) t))"
    "cache_inv S D u" "same_devs S s u"
    and v: "\<And>d' m i. d' \<in> D \<Longrightarrow> i < BLOCK_SIZE \<Longrightarrow> bview S u d' m i =
      (if d' = d \<and> m = bn then copy_into (bview S s d bn) off src n c i else bview S s d' m i)"
    using write_step [OF inv d bn, of "off = 0 \<and> BLOCK_SIZE \<le> sz - n" "\<lambda>a. copy_into a off src n c", OF full local] by blast
  show ?thesis
    by (intro exI [of _ b] exI [of _ t] exI [of _ u] conjI ballI t) (rule fu [OF v])
qed

lemma write_loop_ok:
  fixes bn :: nat
  assumes "cache_inv S D s" "d \<in> D" "off < BLOCK_SIZE" "n \<le> sz"
  defines "k \<equiv> moved (sz - n) (bd_total_blocks (bdevs s d)) (bn * BLOCK_SIZE + off)"
  shows "\<exists>t. block_write_loop T d sz src bn off n s = (int (n + k), t) \<and> cache_inv S D t \<and> same_devs S s t \<and>
    (\<forall>d'\<in>D. fview S t d' = (if d' = d then copy_into (fview S s d) (bn * BLOCK_SIZE + off) src n k else fview S s d'))"
  using assms(1,3,4) unfolding k_def
proof (induction "sz - n" arbitrary: s bn off n rule: less_induct)
  case less
  let ?tot = "bd_total_blocks (bdevs s d)" and ?p = "bn * BLOCK_SIZE + off" and ?c = "chunk off sz n"
  show ?case
  proof (cases "n < sz \<and> bn < ?tot")
    case False
    then have "moved (sz - n) ?tot ?p = 0"
      using less.prems(3) mult_le_mono1 [of ?tot bn BLOCK_SIZE] by (auto simp: moved_def not_less)
    then show ?thesis
      using False less.prems by (auto simp: block_write_loop.simps [of T d sz src bn] same_devs_def)
  next
    case True
    then obtain b t u where t: "(if off = 0 \<and> BLOCK_SIZE \<le> sz - n then buffer_get_new T d bn s else buffer_get T d bn s) = (Some b, t)"
      "u = buffer_release b (buffer_mark_dirty b (upd_bh b (\<lambda>x. x\<lparr>bh_data := copy_into (bh_data x) off src n ?c\<rparr>) t))"
      and u: "cache_inv S D u" "same_devs S s u"
      "\<And>d'. d' \<in> D \<Longrightarrow> fview S u d' = (if d' = d then copy_into (fview S s d) ?p src n ?c else fview S s d')"
      using write_round [OF less.prems(1) assms(2) _ _ less.prems(2), of bn n sz src] by blast
    have c: "off + ?c \<le> BLOCK_SIZE" "n + ?c \<le> sz" "n + ?c < sz \<longrightarrow> off + ?c = BLOCK_SIZE" "0 < ?c"
      using chunk_bounds [OF less.prems(2), of n sz] True less.prems(2) by (auto simp: chunk_def Let_def)
    have tot: "bd_total_blocks (bdevs u d) = ?tot" using u(2) by (simp add: same_devs_def)
    let ?k = "moved (sz - (n + ?c)) ?tot (Suc bn * BLOCK_SIZE)"
    have mv: "moved (sz - n) ?tot ?p = ?c + ?k" using moved_step [of bn ?tot off n sz] True less.prems(2) by simp
    have "?k = 0 \<or> Suc bn * BLOCK_SIZE = ?p + ?c" using c by (cases "n + ?c < sz") auto
    note cp = copy_into_extend [OF this]
    have m: "sz - (n + ?c) < sz - n" using c True by auto
    have z: "(0::nat) < BLOCK_SIZE" by simp
    obtain w where w: "block_write_loop T d sz src (Suc bn) 0 (n + ?c) u = (int (n + ?c + ?k), w)"
      "cache_inv S D w" "same_devs S u w"
      "\<And>d'. d' \<in> D \<Longrightarrow> fview S w d' = (if d' = d then copy_into (fview S u d) (Suc bn * BLOCK_SIZE) src (n + ?c) ?k else fview S u d')"
      using less.hyps [OF m u(1) z c(2), of "Suc bn"] unfolding tot add_0_right by blast
    have "block_write_loop T d sz src bn off n s = (int (n + (?c + ?k)), w)"
      using w(1) True t by (subst block_write_loop.simps) (simp add: not_le add.assoc)
    moreover have "same_devs S s w" using w(3) u(2) by (simp add: same_devs_def)
    moreover have "fview S w d' = (if d' = d then copy_into (fview S s d) ?p src n (?c + ?k) else fview S s d')" if "d' \<in> D" for d'
      using w(4) [OF that] u(3) [OF that] u(3) [OF assms(2)] cp by simp
    ultimately show ?thesis using w(2) unfolding mv by blast
  qed
qed

end

section \<open>Runs of the block layer against the flat arrays\<close>

datatype bio =
    Bread u64 nat nat
  | Bwrite u64 nat "u8 array" nat
  | Bsync u64
  | Binvalidate u64

fun bio_dev :: "bio \<Rightarrow> u64" where
  "bio_dev (Bread d p sz) = d"
| "bio_dev (Bwrite d p src sz) = d"
| "bio_dev (Bsync d) = d"
| "bio_dev (Binvalidate d) = d"

text \<open>The result of a call: the returned number and, of a read, the bytes it delivered.\<close>

fun bio_step :: "'m drivers \<Rightarrow> bio \<Rightarrow> 'm bcache \<Rightarrow> (int \<times> u8 list) \<times> 'm bcache" where
  "bio_step T (Bread d p sz) s =
     (case block_read T d p (Some (\<lambda>_. 0)) sz s of
        (r, Some dst, t) \<Rightarrow> ((r, map dst [0..<nat r]), t)
      | (r, None, t) \<Rightarrow> ((r, []), t))"
| "bio_step T (Bwrite d p src sz) s = (let (r, t) = block_write T d p (Some src) sz s in ((r, []), t))"
| "bio_step T (Bsync d) s = (let (r, t) = buffer_sync_all T d s in ((r, []), t))"
| "bio_step T (Binvalidate d) s = ((0, []), buffer_invalidate T d s)"

fun flat_step :: "(u64 \<Rightarrow> nat) \<Rightarrow> bio \<Rightarrow> (u64 \<Rightarrow> u8 array) \<Rightarrow> (int \<times> u8 list) \<times> (u64 \<Rightarrow> u8 array)" where
  "flat_step tot (Bread d p sz) g =
     (if sz = 0 then ((- 1, []), g)
      else ((int (moved sz (tot d) p), map (\<lambda>i. g d (p + i)) [0..<moved sz (tot d) p]), g))"
| "flat_step tot (Bwrite d p src sz) g =
     (if sz = 0 then ((- 1, []), g)
      else ((int (moved sz (tot d) p), []), g(d := copy_into (g d) p src 0 (moved sz (tot d) p))))"
| "flat_step tot (Bsync d) g = ((0, []), g)"
| "flat_step tot (Binvalidate d) g = ((0, []), g)"

fun run :: "('op \<Rightarrow> 's \<Rightarrow> 'r \<times> 's) \<Rightarrow> 'op list \<Rightarrow> 's \<Rightarrow> 'r list \<times> 's" where
  "run step [] s = ([], s)"
| "run step (op # ops) s = (let (r, s) = step op s; (rs, s) = run step ops s in (r # rs, s))"

context block_store
begin

lemma bio_step_refines:
  assumes inv: "cache_inv S D s" and d: "bio_dev op \<in> D" and g: "\<And>d. d \<in> D \<Longrightarrow> g d = fview S s d"
    and tot: "\<And>d. d \<in> D \<Longrightarrow> tot d = bd_total_blocks (bdevs s d)"
  shows "\<exists>r t g'. bio_step T op s = (r, t) \<and> flat_step tot op g = (r, g') \<and> cache_inv S D t \<and> same_devs S s t \<and>
    (\<forall>d\<in>D. g' d = fview S t d)"
proof (cases op)
  case (Bread d p sz)
  have p: "p div BLOCK_SIZE * BLOCK_SIZE + p mod BLOCK_SIZE = p" "p mod BLOCK_SIZE < BLOCK_SIZE" by simp_all
  have dd: "d \<in> D" "d \<noteq> 0" using d Bread inv by (auto simp: cache_inv_def cache_ok_def devs_ok_def)
  show ?thesis
  proof (cases "sz = 0")
    case True
    then show ?thesis using inv g Bread by (simp add: block_read_def same_devs_def)
  next
    case False
    let ?k = "moved sz (tot d) p"
    obtain t where t: "block_read_loop T d sz (p div BLOCK_SIZE) (p mod BLOCK_SIZE) 0 (\<lambda>_. 0) s =
        (int ?k, copy_into (\<lambda>_. 0) 0 (fview S s d) p ?k, t)" "cache_inv S D t" "same_flat S D s t" "same_devs S s t"
      using read_loop_ok [OF inv dd(1) p(2) le0, of sz "p div BLOCK_SIZE" "\<lambda>_. 0"] tot [OF dd(1)] p(1) by auto
    have "map (copy_into (\<lambda>_. 0) 0 (fview S s d) p ?k) [0..<?k] = map (\<lambda>i. g d (p + i)) [0..<?k]"
      using g [OF dd(1)] by (simp add: copy_into_def)
    then show ?thesis
      using t False g dd(2) Bread by (simp add: block_read_def same_flat_def)
  qed
next
  case (Bwrite d p src sz)
  have p: "p div BLOCK_SIZE * BLOCK_SIZE + p mod BLOCK_SIZE = p" "p mod BLOCK_SIZE < BLOCK_SIZE" by simp_all
  have dd: "d \<in> D" "d \<noteq> 0" using d Bwrite inv by (auto simp: cache_inv_def cache_ok_def devs_ok_def)
  show ?thesis
  proof (cases "sz = 0")
    case True
    then show ?thesis using inv g Bwrite by (simp add: block_write_def same_devs_def)
  next
    case False
    let ?k = "moved sz (tot d) p"
    obtain t where t: "block_write_loop T d sz src (p div BLOCK_SIZE) (p mod BLOCK_SIZE) 0 s = (int ?k, t)"
      "cache_inv S D t" "same_devs S s t"
      "\<And>d'. d' \<in> D \<Longrightarrow> fview S t d' = (if d' = d then copy_into (fview S s d) p src 0 ?k else fview S s d')"
      using write_loop_ok [OF inv dd(1) p(2) le0, of sz src "p div BLOCK_SIZE"] tot [OF dd(1)] p(1) by auto
    then show ?thesis using False g dd Bwrite by (simp add: block_write_def)
  qed
next
  case (Bsync d)
  then show ?thesis using sync_all_ok [OF inv, of d] d g same_view_flat by (fastforce simp: same_flat_def)
next
  case (Binvalidate d)
  then show ?thesis using invalidate_ok [OF inv, of d] d g same_view_flat by (fastforce simp: same_flat_def)
qed

lemma bio_run_refines:
  assumes "cache_inv S D s" "\<forall>op\<in>set ops. bio_dev op \<in> D" "\<And>d. d \<in> D \<Longrightarrow> g d = fview S s d"
    "\<And>d. d \<in> D \<Longrightarrow> tot d = bd_total_blocks (bdevs s d)"
  shows "fst (run (bio_step T) ops s) = fst (run (flat_step tot) ops g) \<and> cache_inv S D (snd (run (bio_step T) ops s)) \<and>
    same_devs S s (snd (run (bio_step T) ops s)) \<and>
    (\<forall>d\<in>D. snd (run (flat_step tot) ops g) d = fview S (snd (run (bio_step T) ops s)) d)"
  using assms
proof (induction ops arbitrary: s g)
  case (Cons op ops)
  obtain r t g' where t: "bio_step T op s = (r, t)" "flat_step tot op g = (r, g')" "cache_inv S D t" "same_devs S s t"
    "\<And>d. d \<in> D \<Longrightarrow> g' d = fview S t d"
    using bio_step_refines [of D s op g tot] Cons.prems by auto
  have "tot d = bd_total_blocks (bdevs t d)" if "d \<in> D" for d using t(4) Cons.prems(4) that by (simp add: same_devs_def)
  from Cons.IH [OF t(3) _ t(5) this] Cons.prems(2) t(4) show ?case
    by (auto simp: t(1,2) case_prod_beta same_devs_def)
qed (simp add: same_devs_def)

end

end
