(* ===== verification/Ram_Block.thy ===== *)
theory Ram_Block
  imports Block_Io
begin

text \<open>
  The RAM block device of \<open>block_device.c\<close>: sparse blocks, each a frame
  allocated at its first write.  The device keeps the contract of a backing
  store as long as a free frame is left for every block not yet allocated, so
  the results about the block layer hold over it.
\<close>

section \<open>The device\<close>

record ramblock_data =
  rb_blocks :: "nat \<Rightarrow> u64"
  rb_num_blocks :: nat
  rb_array :: u64

text \<open>
  The frame allocator, the contents of the frames, and the private data by
  address.  The array of block pointers is indexed directly: the code takes
  the frames behind it to be contiguous.
\<close>

record ram_store =
  ram_pfa :: pfa
  ram_page :: "u64 \<Rightarrow> u8 array"
  ram_data :: "u64 \<Rightarrow> ramblock_data"

definition ramblock_read :: "bdev \<Rightarrow> nat \<Rightarrow> u8 array \<Rightarrow> ram_store \<Rightarrow> int \<times> u8 array \<times> ram_store" where
  "ramblock_read dv n buf m =
     (let data = ram_data m (bd_private dv) in
      if n \<ge> rb_num_blocks data then (- 1, buf, m)
      else if rb_blocks data n \<noteq> 0
      then (0, copy_into buf 0 (ram_page m (rb_blocks data n)) 0 BLOCK_SIZE, m)
      else (0, (\<lambda>k. if k < BLOCK_SIZE then 0 else buf k), m))"

definition set_block :: "u64 \<Rightarrow> nat \<Rightarrow> u64 \<Rightarrow> ram_store \<Rightarrow> ram_store" where
  "set_block p n a m =
     m\<lparr>ram_data := (ram_data m)(p := (ram_data m p)\<lparr>rb_blocks := (rb_blocks (ram_data m p))(n := a)\<rparr>)\<rparr>"

definition ramblock_write :: "bdev \<Rightarrow> nat \<Rightarrow> u8 array \<Rightarrow> ram_store \<Rightarrow> int \<times> ram_store" where
  "ramblock_write dv n buf m =
     (let p = bd_private dv in
      if n \<ge> rb_num_blocks (ram_data m p) then (- 1, m)
      else (let m = (if rb_blocks (ram_data m p) n = 0
                     then (let (fr, f) = pfa_alloc_frame (ram_pfa m) in set_block p n fr (m\<lparr>ram_pfa := f\<rparr>))
                     else m);
                a = rb_blocks (ram_data m p) n
            in if a = 0 then (- 1, m)
               else (0, m\<lparr>ram_page := (ram_page m)(a := copy_into (ram_page m a) 0 buf 0 BLOCK_SIZE)\<rparr>)))"

definition ramblock_sync :: "bdev \<Rightarrow> ram_store \<Rightarrow> int \<times> ram_store" where
  "ramblock_sync dv m = (0, m)"

definition ramblock_get_size :: "bdev \<Rightarrow> ram_store \<Rightarrow> nat" where
  "ramblock_get_size dv m = rb_num_blocks (ram_data m (bd_private dv))"

definition ramblock_ops :: "ram_store blkops" where
  "ramblock_ops = \<lparr>bo_read = Some ramblock_read, bo_write = Some ramblock_write,
     bo_sync = Some ramblock_sync, bo_get_size = Some ramblock_get_size\<rparr>"

text \<open>The drivers of a kernel with RAM devices only: operation table 0 is \<open>ramblock_ops\<close>.\<close>

definition ram_drivers :: "ram_store drivers" where
  "ram_drivers t = (if t = 0 then ramblock_ops
     else \<lparr>bo_read = None, bo_write = None, bo_sync = None, bo_get_size = None\<rparr>)"

definition take_frame :: "ram_store bcache \<Rightarrow> u64 \<times> ram_store bcache" where
  "take_frame s = (let (a, f) = pfa_alloc_frame (ram_pfa (bstore s)) in (a, s\<lparr>bstore := (bstore s)\<lparr>ram_pfa := f\<rparr>\<rparr>))"

definition give_frame :: "u64 \<Rightarrow> ram_store bcache \<Rightarrow> ram_store bcache" where
  "give_frame a s = s\<lparr>bstore := (bstore s)\<lparr>ram_pfa := pfa_free_frame a (ram_pfa (bstore s))\<rparr>\<rparr>"

text \<open>
  The additional pages of the pointer array; on failure the ones taken so far
  stay taken.  The size of the array is computed in 64 bits and wraps around.
\<close>

primrec take_frames :: "nat \<Rightarrow> ram_store bcache \<Rightarrow> bool \<times> ram_store bcache" where
  "take_frames 0 s = (True, s)"
| "take_frames (Suc k) s = (let (a, s) = take_frame s in if a = 0 then (False, s) else take_frames k s)"

definition ramblock_create :: "string \<Rightarrow> nat \<Rightarrow> ram_store bcache \<Rightarrow> u64 \<times> ram_store bcache" where
  "ramblock_create nm num s =
     (let (dev, s) = take_frame s in
      if dev = 0 then (0, s)
      else (let (dat, s) = take_frame s in
        if dat = 0 then (0, give_frame dev s)
        else (let (arr, s) = take_frame s in
          if arr = 0 then (0, give_frame dev (give_frame dat s))
          else (let (ok, s) = take_frames (((num * 8) mod 2 ^ 64 + 4095) mod 2 ^ 64 div 4096 - 1) s in
            if \<not> ok then (0, give_frame dev (give_frame dat (give_frame arr s)))
            else (dev, s\<lparr>bdevs := (bdevs s)(dev := \<lparr>bd_name = take 31 nm, bd_block_size = of_nat BLOCK_SIZE,
                             bd_total_blocks = num, bd_ops = Some 0, bd_private = dat,
                             bd_flags = 0, bd_ref_count = 0\<rparr>),
                         bstore := (bstore s)\<lparr>ram_data := (ram_data (bstore s))(dat :=
                             \<lparr>rb_blocks = (\<lambda>_. 0), rb_num_blocks = num, rb_array = arr\<rparr>)\<rparr>\<rparr>)))))"

definition ramblock_destroy :: "u64 \<Rightarrow> ram_store bcache \<Rightarrow> ram_store bcache" where
  "ramblock_destroy dev s =
     (if dev = 0 then s
      else (let p = bd_private (bdevs s dev); data = ram_data (bstore s) p;
                s = (if p = 0 then s
                     else give_frame p (give_frame (rb_array data)
                            (fold (\<lambda>i s. if rb_blocks data i \<noteq> 0 then give_frame (rb_blocks data i) s else s)
                              [0..<rb_num_blocks data] s)))
            in give_frame dev s))"

section \<open>The device keeps the contract of a store\<close>

definition ram_blocks :: "ram_store \<Rightarrow> (u64 \<times> nat) set" where
  "ram_blocks m = {(p, n). n < rb_num_blocks (ram_data m p)}"

abbreviation block_page :: "ram_store \<Rightarrow> u64 \<times> nat \<Rightarrow> u64" where
  "block_page m x \<equiv> rb_blocks (ram_data m (fst x)) (snd x)"

text \<open>
  Every allocated block has a frame of its own that the allocator does not
  hold, and there is a free frame for every other block.
\<close>

definition ram_inv :: "ram_store \<Rightarrow> bool" where
  "ram_inv m \<longleftrightarrow> pfa_inv (ram_pfa m) \<and>
     inj_on (block_page m) {x \<in> ram_blocks m. block_page m x \<noteq> 0} \<and>
     (\<forall>x\<in>ram_blocks m. block_page m x \<notin> pfa_avail (ram_pfa m)) \<and>
     finite {x \<in> ram_blocks m. block_page m x = 0} \<and>
     card {x \<in> ram_blocks m. block_page m x = 0} \<le> card (free_frames (ram_pfa m))"

definition ram_content :: "ram_store \<Rightarrow> u64 \<Rightarrow> nat \<Rightarrow> u8 array" where
  "ram_content m p n =
     (if n < rb_num_blocks (ram_data m p) \<and> rb_blocks (ram_data m p) n \<noteq> 0
      then ram_page m (rb_blocks (ram_data m p) n) else (\<lambda>_. 0))"

definition ram_spec :: "ram_store store_spec" where
  "ram_spec = \<lparr>st_own = (\<lambda>dv. bd_ops dv = Some 0), st_inv = ram_inv,
     st_cap = (\<lambda>m p. rb_num_blocks (ram_data m p)), st_content = ram_content\<rparr>"

lemma ramblock_read_ok:
  assumes "n < rb_num_blocks (ram_data m (bd_private dv))"
  shows "\<exists>buf'. ramblock_read dv n buf m = (0, buf', m) \<and> (\<forall>i<BLOCK_SIZE. buf' i = ram_content m (bd_private dv) n i)"
  using assms by (auto simp: ramblock_read_def Let_def ram_content_def copy_into_def)

lemma inj_on_new_value:
  assumes "inj_on f {x \<in> B. f x \<noteq> z}" "\<And>x. x \<in> B \<Longrightarrow> f x \<noteq> c"
  shows "inj_on (\<lambda>x. if x = y then c else f x) {x \<in> B. (if x = y then c else f x) \<noteq> z}"
  using assms by (auto simp: inj_on_def)

text \<open>Giving a block its frame: the provision goes down by one on both sides.\<close>

lemma set_block_ok:
  assumes inv: "ram_inv m" and n: "n < rb_num_blocks (ram_data m p)" and z: "rb_blocks (ram_data m p) n = 0"
  obtains fr f where "pfa_alloc_frame (ram_pfa m) = (fr, f)" "fr \<noteq> 0" "ram_inv (set_block p n fr (m\<lparr>ram_pfa := f\<rparr>))"
    "\<And>q k. (q, k) \<in> ram_blocks m \<Longrightarrow> rb_blocks (ram_data m q) k \<noteq> fr"
proof -
  define M where "M = {x \<in> ram_blocks m. block_page m x = 0}"
  let ?F = "free_frames (ram_pfa m)"
  have x: "(p, n) \<in> M" using n z by (simp add: M_def ram_blocks_def)
  have pi: "pfa_inv (ram_pfa m)" and fin: "finite M" and le: "card M \<le> card ?F"
    using inv unfolding M_def ram_inv_def by blast+
  have "0 < card M" using x fin card_gt_0_iff by blast
  then have ne: "?F \<noteq> {}" using le by auto
  obtain f where f: "pfa_alloc_frame (ram_pfa m) = (frame_addr (Min ?F), f)" "free_frames f = ?F - {Min ?F}" "pfa_inv f"
    by (rule pfa_alloc_frame_some [OF pi ne]) blast
  let ?fr = "frame_addr (Min ?F)"
  let ?m = "set_block p n ?fr (m\<lparr>ram_pfa := f\<rparr>)"
  have mem: "Min ?F \<in> ?F" using ne by simp
  have fr0: "?fr \<noteq> 0" using free_frames_below [OF pi mem] frame_addr_eq_0 [of "Min ?F"] by simp
  have av: "?fr \<in> pfa_avail (ram_pfa m)" "pfa_avail f = pfa_avail (ram_pfa m) - {?fr}"
    using mem f(2) frame_addr_image_remove [OF pi mem] by (auto simp: pfa_avail_def)
  have used: "block_page m x \<noteq> ?fr" if "x \<in> ram_blocks m" for x using inv av(1) that by (auto simp: ram_inv_def)
  have bl: "ram_blocks ?m = ram_blocks m" by (auto simp: ram_blocks_def set_block_def split: if_splits)
  have pg: "block_page ?m x = (if x = (p, n) then ?fr else block_page m x)" for x
    by (cases x) (auto simp: set_block_def)
  have M: "{x \<in> ram_blocks ?m. block_page ?m x = 0} = M - {(p, n)}" unfolding bl pg M_def using fr0 by auto
  have inj: "inj_on (block_page m) {x \<in> ram_blocks m. block_page m x \<noteq> 0}"
    and off: "\<And>x. x \<in> ram_blocks m \<Longrightarrow> block_page m x \<notin> pfa_avail (ram_pfa m)"
    using inv unfolding ram_inv_def by blast+
  have pm: "ram_pfa ?m = f" by (simp add: set_block_def)
  have "inj_on (block_page ?m) {x \<in> ram_blocks ?m. block_page ?m x \<noteq> 0}"
    unfolding bl pg by (rule inj_on_new_value [OF inj used])
  moreover have "\<forall>x\<in>ram_blocks ?m. block_page ?m x \<notin> pfa_avail (ram_pfa ?m)"
    unfolding bl pg pm av(2) using off by auto
  moreover have "card (M - {(p, n)}) \<le> card (?F - {Min ?F})"
    using le x mem fin by (simp add: card_Diff_singleton)
  ultimately have "ram_inv ?m"
    using f(2,3) fin unfolding ram_inv_def M pm by simp
  then show thesis using that [OF f(1) fr0] used by (metis fst_conv snd_conv)
qed

text \<open>Overwriting the page of one block leaves the other blocks alone.\<close>

lemma write_page_content:
  assumes inv: "ram_inv m" and n: "n < rb_num_blocks (ram_data m p)" and a: "rb_blocks (ram_data m p) n = a" "a \<noteq> 0"
    and i: "i < BLOCK_SIZE"
  shows "ram_content (m\<lparr>ram_page := (ram_page m)(a := copy_into (ram_page m a) 0 buf 0 BLOCK_SIZE)\<rparr>) q k i =
    (if q = p \<and> k = n then buf i else ram_content m q k i)"
proof (cases "q = p \<and> k = n")
  case True
  then show ?thesis using n a i by (simp add: ram_content_def copy_into_def)
next
  case False
  have "rb_blocks (ram_data m q) k \<noteq> a" if "k < rb_num_blocks (ram_data m q)"
  proof
    assume e: "rb_blocks (ram_data m q) k = a"
    have "inj_on (block_page m) {x \<in> ram_blocks m. block_page m x \<noteq> 0}" using inv unfolding ram_inv_def by blast
    then have "(q, k) = (p, n)" by (rule inj_onD) (use e a that n in \<open>simp_all add: ram_blocks_def\<close>)
    then show False using False by simp
  qed
  then show ?thesis using False by (auto simp: ram_content_def)
qed

lemma ram_inv_page [simp]: "ram_inv (m\<lparr>ram_page := g\<rparr>) = ram_inv m"
  by (simp add: ram_inv_def ram_blocks_def)

lemma ramblock_write_ok:
  assumes inv: "ram_inv m" and n: "n < rb_num_blocks (ram_data m (bd_private dv))"
  shows "\<exists>m'. ramblock_write dv n buf m = (0, m') \<and> ram_inv m' \<and>
    (\<lambda>p. rb_num_blocks (ram_data m' p)) = (\<lambda>p. rb_num_blocks (ram_data m p)) \<and>
    (\<forall>p k i. i < BLOCK_SIZE \<longrightarrow> ram_content m' p k i =
       (if p = bd_private dv \<and> k = n then buf i else ram_content m p k i))"
proof -
  let ?p = "bd_private dv"
  obtain u where u: "ram_inv u" "rb_blocks (ram_data u ?p) n \<noteq> 0" "\<And>q. rb_num_blocks (ram_data u q) = rb_num_blocks (ram_data m q)"
    "\<And>q k. (q, k) \<noteq> (?p, n) \<Longrightarrow> ram_content u q k = ram_content m q k"
    and uw: "u = (if rb_blocks (ram_data m ?p) n = 0
      then (let (fr, f) = pfa_alloc_frame (ram_pfa m) in set_block ?p n fr (m\<lparr>ram_pfa := f\<rparr>)) else m)"
  proof (cases "rb_blocks (ram_data m ?p) n = 0")
    case True
    obtain fr f where f: "pfa_alloc_frame (ram_pfa m) = (fr, f)" "fr \<noteq> 0" "ram_inv (set_block ?p n fr (m\<lparr>ram_pfa := f\<rparr>))"
      by (rule set_block_ok [OF inv n True]) (rule that)
    let ?u = "set_block ?p n fr (m\<lparr>ram_pfa := f\<rparr>)"
    have c: "ram_content ?u q k = ram_content m q k" if "(q, k) \<noteq> (?p, n)" for q k
      using that by (auto simp: set_block_def ram_content_def)
    have b: "rb_blocks (ram_data ?u ?p) n \<noteq> 0" "\<And>q. rb_num_blocks (ram_data ?u q) = rb_num_blocks (ram_data m q)"
      using f(2) by (simp_all add: set_block_def)
    show ?thesis by (rule that [OF f(3) b c]) (simp_all add: f(1) True)
  next
    case False
    show ?thesis by (rule that [OF inv False refl refl]) (simp add: False)
  qed
  let ?a = "rb_blocks (ram_data u ?p) n"
  let ?m = "u\<lparr>ram_page := (ram_page u)(?a := copy_into (ram_page u ?a) 0 buf 0 BLOCK_SIZE)\<rparr>"
  have "ramblock_write dv n buf m = (0, ?m)"
    unfolding ramblock_write_def Let_def uw [unfolded Let_def, symmetric] using n u(2) by simp
  moreover have "ram_content ?m q k i = (if q = ?p \<and> k = n then buf i else ram_content m q k i)" if "i < BLOCK_SIZE" for q k i
    using write_page_content [OF u(1) _ refl u(2) that, of buf q k] u(3,4) n by auto
  ultimately show ?thesis using u(1,3) by auto
qed

lemma ram_dev_fns:
  assumes "st_own ram_spec dv"
  shows "dev_rd ram_drivers dv = Some ramblock_read" "dev_wr ram_drivers dv = Some ramblock_write"
    "dev_sy ram_drivers dv = Some ramblock_sync"
  using assms by (simp_all add: ram_spec_def dev_rd_def dev_wr_def dev_sy_def ram_drivers_def ramblock_ops_def)

lemma ram_spec_sel [simp]:
  "st_inv ram_spec = ram_inv" "st_cap ram_spec m p = rb_num_blocks (ram_data m p)" "st_content ram_spec = ram_content"
  "st_own ram_spec dv \<longleftrightarrow> bd_ops dv = Some 0"
  by (simp_all add: ram_spec_def)

interpretation ram: block_store ram_drivers ram_spec
proof
  fix m dv n buf
  assume "st_inv ram_spec m" "st_own ram_spec dv" "n < st_cap ram_spec m (bd_private dv)"
  then show "\<exists>rd buf' m'. dev_rd ram_drivers dv = Some rd \<and> rd dv n buf m = (0, buf', m') \<and> st_inv ram_spec m' \<and>
       st_cap ram_spec m' = st_cap ram_spec m \<and> st_content ram_spec m' = st_content ram_spec m \<and>
       (\<forall>i<BLOCK_SIZE. buf' i = st_content ram_spec m (bd_private dv) n i)"
    using ram_dev_fns(1) [of dv] ramblock_read_ok [of n m dv buf] by auto
next
  fix m dv n buf
  assume "st_inv ram_spec m" "st_own ram_spec dv" "n < st_cap ram_spec m (bd_private dv)"
  then show "\<exists>wr m'. dev_wr ram_drivers dv = Some wr \<and> wr dv n buf m = (0, m') \<and> st_inv ram_spec m' \<and>
       st_cap ram_spec m' = st_cap ram_spec m \<and>
       (\<forall>p k i. i < BLOCK_SIZE \<longrightarrow> st_content ram_spec m' p k i =
          (if p = bd_private dv \<and> k = n then buf i else st_content ram_spec m p k i))"
    using ram_dev_fns(2) [of dv] ramblock_write_ok [of m n dv buf] by (auto simp: fun_eq_iff)
next
  fix m dv sy
  assume "st_inv ram_spec m" "st_own ram_spec dv" "dev_sy ram_drivers dv = Some sy"
  then show "st_inv ram_spec (snd (sy dv m)) \<and> st_cap ram_spec (snd (sy dv m)) = st_cap ram_spec m \<and>
     st_content ram_spec (snd (sy dv m)) = st_content ram_spec m"
    using ram_dev_fns(3) [of dv] by (auto simp: ramblock_sync_def)
qed

end
