(* ===== verification/Block_Props.thy ===== *)
theory Block_Props
  imports Ram_Block
begin

text \<open>
  The properties of the block layer over RAM devices, from the initialisation
  of the buffer cache on: it behaves as flat arrays of bytes, a sync makes the
  arrays durable, replacement is least-recently-used, and two errors of the
  code: a failed write-back loses the block, and a failed read followed by an
  invalidation puts one buffer on the free list twice.
\<close>

section \<open>Initialisation\<close>

lemma path_upt:
  assumes "\<And>j. i \<le> j \<Longrightarrow> j < i + k \<Longrightarrow> f j = (if Suc j < i + k then Some (Suc j) else None)" "0 < k"
  shows "path f (Some i) [i..<i + k]"
  using assms
proof (induction k arbitrary: i)
  case (Suc k)
  show ?case
  proof (cases "k = 0")
    case False
    have "path f (Some (Suc i)) [Suc i..<Suc i + k]"
      by (rule Suc.IH) (use Suc.prems False in auto)
    moreover have "f i = Some (Suc i)" using Suc.prems(1) [of i] False by auto
    moreover have "[i..<i + Suc k] = i # [Suc i..<Suc i + k]" by (subst upt_conv_Cons) simp_all
    ultimately show ?thesis by (simp only: path.simps)
  qed (use Suc.prems in simp)
qed simp

lemma init_buffers_ok:
  assumes "pfa_inv f" "k \<le> card (free_frames f)"
  shows "\<exists>f' t. init_buffers i k f s = (True, f', t) \<and> pfa_inv f' \<and> card (free_frames f') + k = card (free_frames f) \<and>
    pfa_avail f' \<subseteq> pfa_avail f \<and> lru_head t = lru_head s \<and> lru_tail t = lru_tail s \<and> bdevs t = bdevs s \<and> bstore t = bstore s \<and>
    (\<forall>j. i \<le> j \<and> j < i + k \<longrightarrow> bh_dev (buffer_pool t j) = 0 \<and> bh_flags (buffer_pool t j) = 0 \<and> bh_ref (buffer_pool t j) = 0 \<and>
       bh_hash_next (buffer_pool t j) = (if j < BUFFER_CACHE_SIZE - 1 then Some (j + 1) else None)) \<and>
    (\<forall>j. j < i \<longrightarrow> buffer_pool t j = buffer_pool s j)"
  using assms
proof (induction k arbitrary: i f s)
  case (Suc k)
  have ne: "free_frames f \<noteq> {}" using Suc.prems(2) by auto
  let ?m = "Min (free_frames f)"
  have mem: "?m \<in> free_frames f" using ne by simp
  obtain g where g: "pfa_alloc_frame f = (frame_addr ?m, g)" "free_frames g = free_frames f - {?m}" "pfa_inv g"
    by (rule pfa_alloc_frame_some [OF Suc.prems(1) ne]) (rule that)
  have nz: "frame_addr ?m \<noteq> 0" using free_frames_below [OF Suc.prems(1) mem] frame_addr_eq_0 [of ?m] by simp
  have c: "card (free_frames g) + 1 = card (free_frames f)"
    using mem g(2) card_Suc_Diff1 [OF finite_free_frames mem] by simp
  have av: "pfa_avail g \<subseteq> pfa_avail f" using g(2) by (auto simp: pfa_avail_def)
  define u where "u = upd_bh i (\<lambda>b. b\<lparr>bh_dev := 0, bh_block := 0, bh_flags := 0, bh_ref := 0,
      bh_hash_next := (if i < BUFFER_CACHE_SIZE - 1 then Some (i + 1) else None),
      bh_lru_prev := None, bh_lru_next := None\<rparr>) s"
  have st: "init_buffers i (Suc k) f s = init_buffers (Suc i) k g u"
    using g(1) nz by (simp add: u_def)
  from Suc.IH [OF g(3), of "Suc i" u] Suc.prems(2) c obtain f' t where
    t: "init_buffers (Suc i) k g u = (True, f', t)" "pfa_inv f'" "card (free_frames f') + k = card (free_frames g)"
      "pfa_avail f' \<subseteq> pfa_avail g" "lru_head t = lru_head u" "lru_tail t = lru_tail u" "bdevs t = bdevs u" "bstore t = bstore u"
    and tj: "\<And>j. Suc i \<le> j \<Longrightarrow> j < Suc i + k \<Longrightarrow> bh_dev (buffer_pool t j) = 0 \<and> bh_flags (buffer_pool t j) = 0 \<and>
        bh_ref (buffer_pool t j) = 0 \<and> bh_hash_next (buffer_pool t j) = (if j < BUFFER_CACHE_SIZE - 1 then Some (j + 1) else None)"
    and tl: "\<And>j. j < Suc i \<Longrightarrow> buffer_pool t j = buffer_pool u j"
    by auto
  have "bh_dev (buffer_pool t j) = 0 \<and> bh_flags (buffer_pool t j) = 0 \<and> bh_ref (buffer_pool t j) = 0 \<and>
      bh_hash_next (buffer_pool t j) = (if j < BUFFER_CACHE_SIZE - 1 then Some (j + 1) else None)" if "i \<le> j" "j < i + Suc k" for j
    using tj [of j] tl [of j] that by (cases "j = i") (auto simp: u_def)
  moreover have "buffer_pool t j = buffer_pool s j" if "j < i" for j using tl [of j] that by (simp add: u_def)
  moreover have "pfa_avail f' \<subseteq> pfa_avail f" using t(4) av by blast
  moreover have "card (free_frames f') + Suc k = card (free_frames f)" using t(3) c by simp
  ultimately show ?case using st t(1,2,5-8) by (simp add: u_def)
qed auto

lemma buffer_cache_init_ok:
  assumes f: "pfa_inv f" "BUFFER_CACHE_SIZE \<le> card (free_frames f)" and l: "lru_head s = None" "lru_tail s = None"
  obtains f' t where "buffer_cache_init f s = (f', t)" "pfa_inv f'"
    "card (free_frames f') + BUFFER_CACHE_SIZE = card (free_frames f)" "pfa_avail f' \<subseteq> pfa_avail f"
    "bdevs t = bdevs s" "bstore t = bstore s" "idle t" "lists_ok t {} [] (\<lambda>_. []) [0..<BUFFER_CACHE_SIZE]"
    "\<And>d n. buffer_find d n t = None"
proof -
  obtain f' u where u: "init_buffers 0 BUFFER_CACHE_SIZE f s = (True, f', u)" "pfa_inv f'"
    "card (free_frames f') + BUFFER_CACHE_SIZE = card (free_frames f)" "pfa_avail f' \<subseteq> pfa_avail f"
    "lru_head u = lru_head s" "lru_tail u = lru_tail s" "bdevs u = bdevs s" "bstore u = bstore s"
    and uj: "\<And>j. j < BUFFER_CACHE_SIZE \<Longrightarrow> bh_dev (buffer_pool u j) = 0 \<and> bh_flags (buffer_pool u j) = 0 \<and>
      bh_ref (buffer_pool u j) = 0 \<and> bh_hash_next (buffer_pool u j) = (if j < BUFFER_CACHE_SIZE - 1 then Some (j + 1) else None)"
    using init_buffers_ok [OF f, of 0 s] by auto
  let ?t = "u\<lparr>free_buffers := Some 0,
      buffer_hash := (\<lambda>h. if h < BUFFER_HASH_SIZE then None else buffer_hash u h), cache_stats := zero_stats\<rparr>"
  have t: "buffer_cache_init f s = (f', ?t)" using u(1) by (simp add: buffer_cache_init_def)
  have "path (\<lambda>b. bh_hash_next (buffer_pool ?t b)) (Some 0) [0..<0 + BUFFER_CACHE_SIZE]"
    by (rule path_upt) (auto simp: uj)
  then have "free_ok ?t [0..<BUFFER_CACHE_SIZE]"
    using uj unfolding free_ok_def by (simp only: add_0 set_upt distinct_upt) simp
  moreover have "lru_ok ?t []" using u(5,6) l by (simp add: lru_ok_def)
  moreover have "hash_ok ?t (\<lambda>_. [])" by (simp add: hash_ok_def)
  moreover have "{} \<union> set [0..<BUFFER_CACHE_SIZE] \<union> set [] = {..<BUFFER_CACHE_SIZE}"
    by (simp only: set_upt atLeast0LessThan list.set) simp
  ultimately have "lists_ok ?t {} [] (\<lambda>_. []) [0..<BUFFER_CACHE_SIZE]"
    unfolding lists_ok_def chained_def by (simp only: list.set) simp
  moreover have "idle ?t" using uj by (simp add: idle_def evictable_iff)
  moreover have "buffer_find d n ?t = None" for d n by (simp add: buffer_find_def)
  ultimately show thesis using that [OF t] u(2-4,7,8) by simp
qed

text \<open>\<open>buffer_cache_init\<close> with the frames of the kernel's one allocator.\<close>

definition cache_boot :: "ram_store bcache \<Rightarrow> ram_store bcache" where
  "cache_boot s = (let (f, t) = buffer_cache_init (ram_pfa (bstore s)) s in t\<lparr>bstore := (bstore t)\<lparr>ram_pfa := f\<rparr>\<rparr>)"

text \<open>
  Before it: the static list heads are NULL, the devices \<open>D\<close> are RAM devices
  with private data of their own, and there are frames for the 64 buffers and
  for every block of the devices.
\<close>

definition boot_ok :: "u64 set \<Rightarrow> ram_store bcache \<Rightarrow> bool" where
  "boot_ok D s \<longleftrightarrow> lru_head s = None \<and> lru_tail s = None \<and> devs_ok ram_spec D s \<and>
     card {x \<in> ram_blocks (bstore s). block_page (bstore s) x = 0} + BUFFER_CACHE_SIZE \<le> card (free_frames (ram_pfa (bstore s)))"

definition store_bytes :: "ram_store bcache \<Rightarrow> u64 \<Rightarrow> u8 array" where
  "store_bytes s d p = ram_content (bstore s) (bd_private (bdevs s d)) (p div BLOCK_SIZE) (p mod BLOCK_SIZE)"

text \<open>The cached blocks, most recent first, as the LRU list has them.\<close>

definition lru_keys :: "'m bcache \<Rightarrow> (u64 \<times> nat) list" where
  "lru_keys s = keys s (walk BUFFER_CACHE_SIZE (\<lambda>b. bh_lru_next (buffer_pool s b)) (lru_head s))"

lemma lru_keys_eq: "cache_ok S D s E {} xs ch fs \<Longrightarrow> lru_keys s = keys s xs"
  using cache_ok_lengths [of S D s E xs ch fs]
    walk_path [of "\<lambda>b. bh_lru_next (buffer_pool s b)" "lru_head s" xs BUFFER_CACHE_SIZE]
  by (simp add: lru_keys_def cache_ok_def lists_ok_def lru_ok_def)

lemma cache_boot_ok:
  assumes "boot_ok D s"
  shows "cache_inv ram_spec D (cache_boot s)" "bdevs (cache_boot s) = bdevs s" "fview ram_spec (cache_boot s) d = store_bytes s d"
    "lru_keys (cache_boot s) = []"
proof -
  let ?m = "bstore s"
  let ?M = "{x \<in> ram_blocks ?m. block_page ?m x = 0}"
  have b: "lru_head s = None" "lru_tail s = None" "devs_ok ram_spec D s" "ram_inv ?m"
    and c: "card ?M + BUFFER_CACHE_SIZE \<le> card (free_frames (ram_pfa ?m))"
    using assms by (simp_all add: boot_ok_def devs_ok_def)
  have pi: "pfa_inv (ram_pfa ?m)" using b(4) unfolding ram_inv_def by blast
  have "BUFFER_CACHE_SIZE \<le> card (free_frames (ram_pfa ?m))" using c by linarith
  then obtain f t where t: "buffer_cache_init (ram_pfa ?m) s = (f, t)" "pfa_inv f"
    "card (free_frames f) + BUFFER_CACHE_SIZE = card (free_frames (ram_pfa ?m))" "pfa_avail f \<subseteq> pfa_avail (ram_pfa ?m)"
    "bdevs t = bdevs s" "bstore t = ?m" "idle t" "lists_ok t {} [] (\<lambda>_. []) [0..<BUFFER_CACHE_SIZE]"
    "\<And>d n. buffer_find d n t = None"
    using buffer_cache_init_ok [OF pi _ b(1,2)] by metis
  let ?u = "t\<lparr>bstore := ?m\<lparr>ram_pfa := f\<rparr>\<rparr>"
  have u: "cache_boot s = ?u" using t(1,6) by (simp add: cache_boot_def)
  have "ram_inv (?m\<lparr>ram_pfa := f\<rparr>)"
    using b(4) t(2-4) c unfolding ram_inv_def ram_blocks_def by auto
  then have "devs_ok ram_spec D ?u" using b(3) t(5) by (simp add: devs_ok_def)
  moreover have "lists_ok ?u {} [] (\<lambda>_. []) [0..<BUFFER_CACHE_SIZE]"
    using t(8) unfolding lists_ok_def lru_ok_def hash_ok_def free_ok_def by simp
  ultimately have ok: "cache_ok ram_spec D ?u {} {} [] (\<lambda>_. []) [0..<BUFFER_CACHE_SIZE]"
    unfolding cache_ok_def blocks_ok_def by (simp only: list.set) simp
  show "lru_keys (cache_boot s) = []" using lru_keys_eq [OF ok] by (simp add: u keys_def)
  note ok
  moreover have "idle ?u" using t(7) by (simp add: idle_def)
  ultimately show "cache_inv ram_spec D (cache_boot s)" unfolding u cache_inv_def by blast
  show "bdevs (cache_boot s) = bdevs s" using t(5) by (simp add: u)
  have "buffer_find d' n ?u = None" for d' n using t(9) [of d' n] by (simp add: buffer_find_def)
  then show "fview ram_spec (cache_boot s) d = store_bytes s d"
    using t(5) by (simp add: u fview_def bview_def store_bytes_def fun_eq_iff ram_content_def)
qed

section \<open>The block layer over RAM devices\<close>

abbreviation bio_run :: "bio list \<Rightarrow> ram_store bcache \<Rightarrow> (int \<times> u8 list) list \<times> ram_store bcache" where
  "bio_run ops s \<equiv> run (bio_step ram_drivers) ops s"

abbreviation flat_run :: "ram_store bcache \<Rightarrow> bio list \<Rightarrow> (int \<times> u8 list) list \<times> (u64 \<Rightarrow> u8 array)" where
  "flat_run s ops \<equiv> run (flat_step (\<lambda>d. bd_total_blocks (bdevs s d))) ops (store_bytes s)"

lemma boot_run:
  assumes "boot_ok D s" "\<forall>op\<in>set ops. bio_dev op \<in> D"
  shows "fst (bio_run ops (cache_boot s)) = fst (flat_run s ops)"
    "cache_inv ram_spec D (snd (bio_run ops (cache_boot s)))" "same_devs ram_spec (cache_boot s) (snd (bio_run ops (cache_boot s)))"
    "d \<in> D \<Longrightarrow> fview ram_spec (snd (bio_run ops (cache_boot s))) d = snd (flat_run s ops) d"
  using ram.bio_run_refines [OF cache_boot_ok(1) [OF assms(1)] assms(2), of "store_bytes s" "\<lambda>d. bd_total_blocks (bdevs s d)"]
    cache_boot_ok(2) [OF assms(1)] cache_boot_ok(3) [OF assms(1)] by auto

text \<open>
  A sample: one RAM device of two blocks at address 16, nothing cached, and 71
  free frames.
\<close>

definition sample_frames :: pfa where
  "sample_frames = \<lparr>g_bitmap = (\<lambda>i. if i = 0 then 254 else 255), g_bitmap_bits = 72, g_max_phys = 0,
     g_total_pages = 72, g_free_pages = 71, g_reserved_pages = 0\<rparr>"

definition sample_cache :: "ram_store bcache" where
  "sample_cache = \<lparr>buffer_pool = (\<lambda>_. \<lparr>bh_dev = 0, bh_block = 0, bh_data = (\<lambda>_. 0), bh_flags = 0, bh_ref = 0,
       bh_hash_next = None, bh_lru_prev = None, bh_lru_next = None\<rparr>),
     buffer_hash = (\<lambda>_. None), lru_head = None, lru_tail = None, free_buffers = None, cache_stats = zero_stats,
     bdevs = (\<lambda>_. \<lparr>bd_name = ''ram0'', bd_block_size = 4096, bd_total_blocks = 2, bd_ops = Some 0,
       bd_private = 32, bd_flags = 0, bd_ref_count = 1\<rparr>),
     registered_devices = (\<lambda>_. 0), num_devices = 0, block_initialized = False,
     bstore = \<lparr>ram_pfa = sample_frames, ram_page = (\<lambda>_ _. 0),
       ram_data = (\<lambda>p. \<lparr>rb_blocks = (\<lambda>_. 0), rb_num_blocks = (if p = 32 then 2 else 0), rb_array = 0\<rparr>)\<rparr>\<rparr>"

lemma frame_bit_sample: "frame_bit sample_frames i \<longleftrightarrow> i \<noteq> 0"
proof -
  have b: "bit (255 :: u8) n" "bit (254 :: u8) n \<longleftrightarrow> n \<noteq> 0" if "n < 8" for n
  proof -
    from that have "n \<in> {0, 1, 2, 3, 4, 5, 6, 7}" by auto
    then show "bit (255 :: u8) n" "bit (254 :: u8) n \<longleftrightarrow> n \<noteq> 0" by (auto simp: bit_numeral_rec)
  qed
  show ?thesis
  proof (cases "i < 8")
    case True
    then show ?thesis using b(2) [of i] by (simp add: frame_bit_iff sample_frames_def)
  next
    case False
    then have "i div 8 \<noteq> 0" by simp
    then show ?thesis using b(1) [of "i mod 8"] False by (auto simp: frame_bit_iff sample_frames_def)
  qed
qed

lemma free_frames_sample_frames: "free_frames sample_frames = {1..<72}"
proof -
  have "free_frames sample_frames = {i. i < 72 \<and> i \<noteq> 0}"
    by (simp only: free_frames_def frame_bit_sample) (simp add: sample_frames_def)
  also have "\<dots> = {1..<72}" by auto
  finally show ?thesis .
qed

lemma boot_ok_sample: "boot_ok {16} sample_cache"
proof -
  have M: "{x \<in> ram_blocks (bstore sample_cache). block_page (bstore sample_cache) x = 0} = {(32, 0), (32, 1)}"
    by (auto simp: ram_blocks_def sample_cache_def split: if_splits)
  have "pfa_inv sample_frames"
    using free_frames_sample_frames in_free_frames [of 0 sample_frames]
    by (simp add: pfa_inv_def) (simp add: sample_frames_def)
  moreover have "0 \<notin> pfa_avail sample_frames"
    using frame_addr_eq_0 by (force simp: pfa_avail_def free_frames_sample_frames)
  ultimately have "ram_inv (bstore sample_cache)"
    unfolding ram_inv_def M by (simp add: sample_cache_def free_frames_sample_frames)
  then show ?thesis
    unfolding boot_ok_def M by (simp add: devs_ok_def) (simp add: sample_cache_def free_frames_sample_frames)
qed

text \<open>C1: From the initialisation of the buffer cache on, with frames free for its 64 buffers
  and for every block the devices have not stored yet, any sequence of block reads and
  writes, syncs and invalidations on RAM devices returns what the same calls return on flat
  arrays of bytes, whatever the cache evicts and writes back in between.\<close>

theorem block_layer_refines_flat_arrays:
  assumes "boot_ok D s" "\<forall>op\<in>set ops. bio_dev op \<in> D"
  shows "fst (run (bio_step ram_drivers) ops (cache_boot s)) =
    fst (run (flat_step (\<lambda>d. bd_total_blocks (bdevs s d))) ops (store_bytes s))"
  using boot_run [OF assms] by simp

theorem block_layer_refines_flat_arrays_witness:
  "fst (run (bio_step ram_drivers) [Bwrite 16 4095 (\<lambda>_. 7) 2, Binvalidate 16, Bread 16 4094 5] (cache_boot sample_cache)) =
   [(2, []), (0, []), (5, [0, 7, 7, 0, 0])]"
proof -
  have "fst (run (bio_step ram_drivers) [Bwrite 16 4095 (\<lambda>_. 7) 2, Binvalidate 16, Bread 16 4094 5] (cache_boot sample_cache)) =
    fst (run (flat_step (\<lambda>d. bd_total_blocks (bdevs sample_cache d))) [Bwrite 16 4095 (\<lambda>_. 7) 2, Binvalidate 16, Bread 16 4094 5]
      (store_bytes sample_cache))"
    by (rule block_layer_refines_flat_arrays [OF boot_ok_sample]) simp
  also have "\<dots> = [(2, []), (0, []), (5, [0, 7, 7, 0, 0])]"
    by (simp add: sample_cache_def moved_def copy_into_def store_bytes_def ram_content_def upt_rec)
  finally show ?thesis .
qed

text \<open>C13: After \<open>buffer_sync_all\<close> has returned 0 the RAM device itself, not only the cache,
  holds every byte written to it.\<close>

theorem sync_makes_durable:
  assumes "boot_ok D s" "\<forall>op\<in>set ops. bio_dev op \<in> D" "d \<in> D"
  shows "\<exists>t. buffer_sync_all ram_drivers d (snd (run (bio_step ram_drivers) ops (cache_boot s))) = (0, t) \<and>
    store_bytes t d = snd (run (flat_step (\<lambda>d. bd_total_blocks (bdevs s d))) ops (store_bytes s)) d"
proof -
  let ?u = "snd (bio_run ops (cache_boot s))"
  note b = boot_run [OF assms(1,2)]
  obtain t where t: "buffer_sync_all ram_drivers d ?u = (0, t)" "same_devs ram_spec ?u t"
    "\<And>n i. i < BLOCK_SIZE \<Longrightarrow> stored ram_spec t d n i = bview ram_spec ?u d n i"
    using ram.sync_all_ok [OF b(2) assms(3)] by auto
  have "store_bytes t d p = fview ram_spec ?u d p" for p
    using t(3) [of "p mod BLOCK_SIZE" "p div BLOCK_SIZE"] by (simp add: store_bytes_def fview_def)
  then show ?thesis using t(1) b(4) [OF assms(3)] by auto
qed

theorem sync_makes_durable_witness:
  "\<exists>t. buffer_sync_all ram_drivers 16 (snd (run (bio_step ram_drivers) [Bwrite 16 4095 (\<lambda>_. 7) 2] (cache_boot sample_cache))) = (0, t) \<and>
     store_bytes t 16 4095 = 7 \<and> store_bytes t 16 4096 = 7 \<and> store_bytes t 16 4097 = 0"
proof -
  have "\<exists>t. buffer_sync_all ram_drivers 16 (snd (run (bio_step ram_drivers) [Bwrite 16 4095 (\<lambda>_. 7) 2] (cache_boot sample_cache))) = (0, t) \<and>
    store_bytes t 16 = snd (run (flat_step (\<lambda>d. bd_total_blocks (bdevs sample_cache d))) [Bwrite 16 4095 (\<lambda>_. 7) 2] (store_bytes sample_cache)) 16"
    by (rule sync_makes_durable [OF boot_ok_sample]) simp_all
  moreover have "snd (run (flat_step (\<lambda>d. bd_total_blocks (bdevs sample_cache d))) [Bwrite 16 4095 (\<lambda>_. 7) 2] (store_bytes sample_cache)) 16 p =
      (if p = 4095 \<or> p = 4096 then 7 else 0)" for p
    by (auto simp: sample_cache_def moved_def copy_into_def store_bytes_def ram_content_def)
  ultimately show ?thesis by auto
qed

text \<open>C23: Replacement is least-recently-used: getting a block makes it the most recent of
  the at most 64 cached blocks, and when the block was not cached and the cache is full, the
  least recent block leaves it.\<close>

theorem buffer_get_is_lru:
  assumes "boot_ok D s" "\<forall>op\<in>set ops. bio_dev op \<in> D" "d \<in> D" "n < bd_total_blocks (bdevs s d)"
  defines "u \<equiv> snd (run (bio_step ram_drivers) ops (cache_boot s))"
  shows "\<exists>b t. buffer_get ram_drivers d n u = (Some b, t) \<and> lru_keys t = lru_step (d, n) (lru_keys u) \<and>
    length (lru_keys u) \<le> BUFFER_CACHE_SIZE"
proof -
  note b = boot_run [OF assms(1,2), folded u_def]
  obtain xs ch fs where ok: "cache_ok ram_spec D u {} {} xs ch fs" and i: "idle u"
    using b(2) by (auto simp: cache_inv_def)
  have "bdevs u = bdevs s" using b(3) cache_boot_ok(2) [OF assms(1)] by (simp add: same_devs_def)
  then have "n < st_cap ram_spec (bstore u) (bd_private (bdevs u d))"
    using ok assms(3,4) by (force simp: cache_ok_def devs_ok_def)
  from ram.get_ok [OF ok i assms(3) this] obtain b t ys ch' fs' where
    t: "buffer_get ram_drivers d n u = (Some b, t)" "get_post ram_spec D u d n b t {} ys ch' fs'"
       "keys t ys = lru_step (d, n) (keys u xs)" by blast
  have "lru_keys t = keys t ys" using t(2) lru_keys_eq [of ram_spec D t "{}" ys ch' fs'] by (simp add: get_post_def)
  then show ?thesis using t(1,3) lru_keys_eq [OF ok] cache_ok_lengths [OF ok] by simp
qed

theorem buffer_get_is_lru_witness:
  "\<exists>b t. buffer_get ram_drivers 16 1 (cache_boot sample_cache) = (Some b, t) \<and> lru_keys t = [(16, 1)]"
proof -
  note cache_boot_ok(4) [OF boot_ok_sample]
  then show ?thesis
    using buffer_get_is_lru [OF boot_ok_sample, of "[]" 16 1] by (auto simp: sample_cache_def lru_step_def)
qed

section \<open>Two errors of the cache\<close>

text \<open>C35: When no frame is left, evicting a dirty buffer of a block that the RAM device has
  not stored yet loses the block: the write-back fails, the buffer is reused all the same, no
  buffer holds the block any more, and the device reads as zeros there.\<close>

theorem failed_writeback_loses_block:
  assumes "free_buffers s = None" "lru_tail s = Some b" "evictable (buffer_pool s b)" "dirty s b"
    "bh_dev (buffer_pool s b) = d" "bh_block (buffer_pool s b) = n" "d \<noteq> 0"
    "\<forall>x. x \<noteq> b \<longrightarrow> (bh_dev (buffer_pool s x), bh_block (buffer_pool s x)) \<noteq> (d, n)"
    "bd_ops (bdevs s d) = Some 0" "pfa_inv (ram_pfa (bstore s))" "free_frames (ram_pfa (bstore s)) = {}"
    "rb_blocks (ram_data (bstore s) (bd_private (bdevs s d))) n = 0"
  shows "\<exists>t. buffer_alloc ram_drivers s = (Some b, t) \<and>
    (\<forall>x. (bh_dev (buffer_pool t x), bh_block (buffer_pool t x)) \<noteq> (d, n)) \<and>
    ram_content (bstore t) (bd_private (bdevs t d)) n = (\<lambda>_. 0)"
proof -
  let ?p = "bd_private (bdevs s d)"
  define u where "u = snd (buffer_sync_internal ram_drivers b s)"
  have "\<exists>m. ramblock_write (bdevs s d) n (bh_data (buffer_pool s b)) (bstore s) = (- 1, m) \<and> rb_blocks (ram_data m ?p) n = 0"
    using assms(12) pfa_alloc_frame_none [OF assms(10,11)] by (simp add: ramblock_write_def set_block_def Let_def)
  then obtain m where m: "ramblock_write (bdevs s d) n (bh_data (buffer_pool s b)) (bstore s) = (- 1, m)" "rb_blocks (ram_data m ?p) n = 0"
    by blast
  have "dev_wr ram_drivers (bdevs s d) = Some ramblock_write" using ram_dev_fns(2) assms(9) by simp
  then have u: "u = s\<lparr>bstore := m\<rparr>" using m assms(4-7) by (simp add: u_def buffer_sync_internal_def)
  let ?r = "lru_remove b (buffer_hash_remove b u)"
  define t where "t = upd_stats (\<lambda>c. c\<lparr>cs_cached := cs_cached c - 1\<rparr>)
    (upd_bh b (\<lambda>b. b\<lparr>bh_dev := 0, bh_block := 0, bh_flags := 0\<rparr>) ?r)"
  have "chase BUFFER_CACHE_SIZE (\<lambda>b. evictable (buffer_pool s b)) (\<lambda>b. bh_lru_prev (buffer_pool s b)) (lru_tail s) = Some b"
    using assms(2,3) by (simp add: chase_hit)
  then have "buffer_alloc ram_drivers s = (Some b, t)"
    using assms(1,4) by (simp add: buffer_alloc_def t_def u_def Let_def)
  moreover have "(bh_dev (buffer_pool t x), bh_block (buffer_pool t x)) \<noteq> (d, n)" for x
    using assms(7,8) by (auto simp: t_def bh_frame u)
  moreover have "ram_content (bstore t) (bd_private (bdevs t d)) n = (\<lambda>_. 0)"
    using m(2) by (simp add: t_def bh_frame u ram_content_def)
  ultimately show ?thesis by blast
qed

text \<open>One cached dirty block of the sample device and no frame.\<close>

definition sample_full :: "ram_store bcache" where
  "sample_full = sample_cache\<lparr>buffer_pool := (buffer_pool sample_cache)(3 := (buffer_pool sample_cache 3)
       \<lparr>bh_dev := 16, bh_block := 1, bh_flags := BUF_VALID OR BUF_DIRTY, bh_data := (\<lambda>_. 7)\<rparr>),
     lru_head := Some 3, lru_tail := Some 3,
     bstore := (bstore sample_cache)\<lparr>ram_pfa := sample_frames\<lparr>g_bitmap := (\<lambda>_. 0), g_free_pages := 0\<rparr>\<rparr>\<rparr>"

theorem failed_writeback_loses_block_witness:
  "\<exists>t. buffer_alloc ram_drivers sample_full = (Some 3, t) \<and>
    (\<forall>x. (bh_dev (buffer_pool t x), bh_block (buffer_pool t x)) \<noteq> (16, 1)) \<and>
    ram_content (bstore t) (bd_private (bdevs t 16)) 1 = (\<lambda>_. 0)"
proof (rule failed_writeback_loses_block)
  have ff: "free_frames (ram_pfa (bstore sample_full)) = {}"
    by (simp add: free_frames_def frame_bit_iff sample_full_def)
  then show "free_frames (ram_pfa (bstore sample_full)) = {}" .
  show "pfa_inv (ram_pfa (bstore sample_full))"
    unfolding pfa_inv_def ff by (simp add: frame_bit_iff sample_full_def) (simp add: sample_frames_def)
qed (auto simp: sample_full_def sample_cache_def evictable_iff)

text \<open>When the device fails to read a block, \<open>buffer_get\<close> puts the buffer back on the
  free list with its device still set; invalidating the device then puts it there again, and
  the next two allocations hand out the same buffer.\<close>

theorem failed_read_corrupts_free_list:
  assumes "d \<noteq> 0" "dev_rd T (bdevs s d) = Some rd" "\<And>buf m. fst (rd (bdevs s d) n buf m) \<noteq> 0"
    "buffer_hash s (buffer_hash_func d n) = None" "free_buffers s = Some b" "b < BUFFER_CACHE_SIZE"
    "bh_lru_prev (buffer_pool s b) = None" "bh_lru_next (buffer_pool s b) = None" "lru_head s \<noteq> Some b"
    "\<forall>x<BUFFER_CACHE_SIZE. x \<noteq> b \<longrightarrow> bh_dev (buffer_pool s x) \<noteq> d"
  defines "t \<equiv> buffer_invalidate T d (snd (buffer_get T d n s))"
  shows "fst (buffer_get T d n s) = None \<and> fst (buffer_alloc T t) = Some b \<and>
    fst (buffer_alloc T (snd (buffer_alloc T t))) = Some b"
proof -
  define u where "u = snd (buffer_get T d n s)"
  obtain r dat m where rd: "rd (bdevs s d) n (bh_data (buffer_pool s b)) (bstore s) = (r, dat, m)" by (metis prod_cases3)
  have r: "r \<noteq> 0" using assms(3) [of "bh_data (buffer_pool s b)" "bstore s"] rd by simp
  have g: "buffer_get T d n s = (None, u)"
    and u: "bh_dev (buffer_pool u b) = d" "bh_block (buffer_pool u b) = n" "bh_flags (buffer_pool u b) = BUF_BUSY"
      "free_buffers u = Some b" "bh_lru_prev (buffer_pool u b) = None" "bh_lru_next (buffer_pool u b) = None"
      "lru_head u = lru_head s" "buffer_hash u = buffer_hash s" "\<And>x. x \<noteq> b \<Longrightarrow> buffer_pool u x = buffer_pool s x"
    using assms(1,2,4,5,7,8) rd r
    by (auto simp: u_def buffer_get_def buffer_find_def buffer_alloc_def setup_buffer_def Let_def)
  have skip: "fold (invalidate_one T d) is v = v" if "\<forall>x\<in>set is. bh_dev (buffer_pool v x) \<noteq> d" for "is" v
    using that by (induction "is") (auto simp: invalidate_one_def)
  let ?v = "invalidate_one T d b u"
  have hr: "buffer_hash_remove b u = u"
    using u(1,2,8) assms(4) by (simp add: buffer_hash_remove_def numeral_eq_Suc)
  have v: "free_buffers ?v = Some b" "bh_hash_next (buffer_pool ?v b) = Some b" "bh_dev (buffer_pool ?v b) = 0"
    "\<And>x. x \<noteq> b \<Longrightarrow> buffer_pool ?v x = buffer_pool s x"
    using u hr assms(9) by (simp_all add: invalidate_one_def Let_def)
  obtain k where k: "b + k = BUFFER_CACHE_SIZE" "0 < k" using less_imp_add_positive [OF assms(6)] by blast
  have "[0..<b + k] = [0..<b] @ b # [Suc b..<b + k]"
    using upt_add_eq_append [of 0 b k] upt_conv_Cons [of b "b + k"] k(2) by simp
  then have split: "[0..<BUFFER_CACHE_SIZE] = [0..<b] @ b # [Suc b..<BUFFER_CACHE_SIZE]" unfolding k(1) .
  have "t = fold (invalidate_one T d) [Suc b..<BUFFER_CACHE_SIZE] (invalidate_one T d b (fold (invalidate_one T d) [0..<b] u))"
    unfolding t_def u_def [symmetric] buffer_invalidate_def split by simp
  also have "fold (invalidate_one T d) [0..<b] u = u" by (rule skip) (use u(9) assms(6,10) in auto)
  also have "fold (invalidate_one T d) [Suc b..<BUFFER_CACHE_SIZE] ?v = ?v" by (rule skip) (use v(4) assms(10) in auto)
  finally show ?thesis using g v(1,2) by (simp add: buffer_alloc_def)
qed

theorem failed_read_corrupts_free_list_witness:
  "let s = sample_cache\<lparr>free_buffers := Some 5\<rparr>;
       T = (\<lambda>_. ramblock_ops\<lparr>bo_read := Some (\<lambda>dv n buf m. (- 1, buf, m))\<rparr>);
       t = buffer_invalidate T 16 (snd (buffer_get T 16 1 s))
   in fst (buffer_get T 16 1 s) = None \<and> fst (buffer_alloc T t) = Some 5 \<and>
      fst (buffer_alloc T (snd (buffer_alloc T t))) = Some 5"
  unfolding Let_def
  by (rule failed_read_corrupts_free_list [where rd = "\<lambda>dv n buf m. (- 1, buf, m)"])
     (auto simp: sample_cache_def dev_rd_def)

end
