(* ===== verification/Vfs.thy ===== *)
theory Vfs
  imports Ram_Block "HOL-Library.Monad_Syntax"
begin

text \<open>
  The virtual file system and the RAM file system of \<open>vfs.c\<close>: vnodes, inodes,
  directory entries and page cache entries live in frames of the allocator and
  are stores indexed by address, with \<open>0\<close> for NULL; file data go through the
  block layer of \<open>Block_Cache\<close> over the RAM device.  A directory is a linked
  list, and the loops that follow it are partial functions: \<open>None\<close> stands for
  a loop that never ends.  The operation tables of the vnodes are the
  parameter \<open>V\<close> of the dispatching functions; \<open>ramfs_ops\<close> is the table of the
  RAM file system.  Names are strings without the final NUL.  The operations
  hold the locks of what they touch, so they are atomic steps here.
\<close>

section \<open>Data\<close>

datatype vtype = VNON | VREG | VDIR | VCHR | VBLK

abbreviation VFS_NAME_MAX :: nat where "VFS_NAME_MAX \<equiv> 255"
abbreviation MAX_PATH :: nat where "MAX_PATH \<equiv> 1024"
abbreviation VFS_R_OK :: u32 where "VFS_R_OK \<equiv> 4"
abbreviation VFS_W_OK :: u32 where "VFS_W_OK \<equiv> 2"
abbreviation VFS_X_OK :: u32 where "VFS_X_OK \<equiv> 1"

record dir_entry =
  de_name :: string
  de_vnode :: u64
  de_next :: u64

record page_cache_entry =
  pc_offset :: u64
  pc_addr :: u64
  pc_dirty :: bool
  pc_next :: u64

record inode =
  i_no :: u32
  i_size :: u32
  i_mode :: u16
  i_uid :: u32
  i_gid :: u32
  i_refcount :: u32
  i_private :: u64
  cache_list :: u64
  i_bdev :: u64
  i_start_block :: nat
  i_blocks :: nat

record vnode =
  v_type :: vtype
  v_op :: "nat option"
  v_data :: u64
  v_mount_data :: u64
  v_parent :: u64
  v_children :: u64
  v_nchildren :: int

text \<open>The mount table and the registered file systems of \<open>mount.c\<close>; a file system names its table of operations.\<close>

record filesystem =
  fs_name :: string
  fs_type :: int
  fs_ops :: "nat option"

record mount_entry =
  me_path :: string
  me_root :: u64
  me_device :: u64
  me_fs :: "filesystem option"
  me_flags :: int
  me_in_use :: bool

text \<open>
  The state: the block layer (whose store holds the frame allocator and the
  contents of the frames), the typed contents of the frames, the globals of
  \<open>vfs.c\<close> and \<open>mount.c\<close>, and the credentials of the current process, if there
  is one.
\<close>

record vfs =
  blk :: "ram_store bcache"
  vnodes :: "u64 \<Rightarrow> vnode"
  inodes :: "u64 \<Rightarrow> inode"
  dirents :: "u64 \<Rightarrow> dir_entry"
  pages :: "u64 \<Rightarrow> page_cache_entry"
  root_vnode :: u64
  vfs_default_device :: u64
  next_free_block :: nat
  cur_cred :: "(u32 \<times> u32) option"
  registered_fs :: "filesystem list"
  mounts :: "mount_entry array"
  mount_count :: int
  mount_root :: u64
  root_block_device :: u64

definition upd_vnode :: "u64 \<Rightarrow> (vnode \<Rightarrow> vnode) \<Rightarrow> vfs \<Rightarrow> vfs" where
  "upd_vnode v f s = s\<lparr>vnodes := (vnodes s)(v := f (vnodes s v))\<rparr>"

definition upd_inode :: "u64 \<Rightarrow> (inode \<Rightarrow> inode) \<Rightarrow> vfs \<Rightarrow> vfs" where
  "upd_inode i f s = s\<lparr>inodes := (inodes s)(i := f (inodes s i))\<rparr>"

definition upd_dirent :: "u64 \<Rightarrow> (dir_entry \<Rightarrow> dir_entry) \<Rightarrow> vfs \<Rightarrow> vfs" where
  "upd_dirent e f s = s\<lparr>dirents := (dirents s)(e := f (dirents s e))\<rparr>"

definition vfs_take :: "vfs \<Rightarrow> u64 \<times> vfs" where
  "vfs_take s = (let (a, b) = take_frame (blk s) in (a, s\<lparr>blk := b\<rparr>))"

definition vfs_give :: "u64 \<Rightarrow> vfs \<Rightarrow> vfs" where
  "vfs_give a s = s\<lparr>blk := give_frame a (blk s)\<rparr>"

text \<open>The conversion of a \<open>ssize_t\<close> or \<open>size_t\<close> to the \<open>int\<close> the operations return.\<close>

definition as_int :: "int \<Rightarrow> int" where
  "as_int n = sint (word_of_int n :: 32 word)"

section \<open>Blocks, vnodes and permissions\<close>

definition vfs_alloc_blocks :: "u64 \<Rightarrow> nat \<Rightarrow> vfs \<Rightarrow> int \<times> vfs" where
  "vfs_alloc_blocks ip num s =
     (if ip = 0 \<or> i_bdev (inodes s ip) = 0 then (- 1, s)
      else if next_free_block s + num > bd_total_blocks (bdevs (blk s) (i_bdev (inodes s ip))) then (- 1, s)
      else (0, (upd_inode ip (\<lambda>i. i\<lparr>i_start_block := next_free_block s, i_blocks := num\<rparr>) s)
                 \<lparr>next_free_block := next_free_block s + num\<rparr>))"

definition vfs_set_backing_device :: "u64 \<Rightarrow> vfs \<Rightarrow> vfs" where
  "vfs_set_backing_device dev s = s\<lparr>vfs_default_device := dev\<rparr>"

definition vfs_get_backing_device :: "vfs \<Rightarrow> u64" where
  "vfs_get_backing_device s = vfs_default_device s"

definition new_vnode :: "vtype \<Rightarrow> u64 \<Rightarrow> vnode" where
  "new_vnode ty ip = \<lparr>v_type = ty, v_op = Some 0, v_data = ip, v_mount_data = 0, v_parent = 0,
     v_children = 0, v_nchildren = 0\<rparr>"

definition new_inode :: "vtype \<Rightarrow> u64 \<Rightarrow> (u32 \<times> u32) option \<Rightarrow> inode" where
  "new_inode ty dev cred = \<lparr>i_no = 0, i_size = 0,
     i_mode = (if ty = VDIR then 0x4000 OR 0x1ED else 0x8000 OR 0x1A4),
     i_uid = (case cred of Some (u, g) \<Rightarrow> u | None \<Rightarrow> 0),
     i_gid = (case cred of Some (u, g) \<Rightarrow> g | None \<Rightarrow> 0),
     i_refcount = 1, i_private = 0, cache_list = 0, i_bdev = dev, i_start_block = 0, i_blocks = 0\<rparr>"

definition vfs_create_vnode_on_device :: "vtype \<Rightarrow> u64 \<Rightarrow> vfs \<Rightarrow> u64 \<times> vfs" where
  "vfs_create_vnode_on_device ty dev s =
     (let (vp, s) = vfs_take s in
      if vp = 0 then (0, s)
      else (let (ip, s) = vfs_take s in
        if ip = 0 then (0, vfs_give vp s)
        else (vp, upd_inode ip (\<lambda>_. new_inode ty dev (cur_cred s)) (upd_vnode vp (\<lambda>_. new_vnode ty ip) s))))"

definition vfs_create_vnode :: "vtype \<Rightarrow> vfs \<Rightarrow> u64 \<times> vfs" where
  "vfs_create_vnode ty s = vfs_create_vnode_on_device ty (vfs_default_device s) s"

definition vfs_init :: "vfs \<Rightarrow> vfs" where
  "vfs_init s =
     (let s = s\<lparr>next_free_block := 1\<rparr>; (r, s) = vfs_create_vnode VDIR s in s\<lparr>root_vnode := r\<rparr>)"

text \<open>The loop of \<open>vfs_free_vnode\<close> over the page cache of the inode.\<close>

partial_function (option) free_pages :: "u64 \<Rightarrow> vfs \<Rightarrow> vfs option" where
  "free_pages e s =
     (if e = 0 then Some s
      else (let nxt = pc_next (pages s e);
                s = (if pc_addr (pages s e) \<noteq> 0 then vfs_give (pc_addr (pages s e)) s else s)
            in free_pages nxt (vfs_give e s)))"

definition vfs_free_vnode :: "u64 \<Rightarrow> vfs \<Rightarrow> vfs option" where
  "vfs_free_vnode vp s =
     (if vp = 0 then Some s
      else (let ip = v_data (vnodes s vp) in
        if ip = 0 then Some (vfs_give vp s)
        else do { s \<leftarrow> free_pages (cache_list (inodes s ip)) s; Some (vfs_give vp (vfs_give ip s)) }))"

definition vfs_get_root :: "vfs \<Rightarrow> u64" where
  "vfs_get_root s = root_vnode s"

definition vfs_check_perm_as :: "u64 \<Rightarrow> u32 \<Rightarrow> u32 \<Rightarrow> u32 \<Rightarrow> vfs \<Rightarrow> int" where
  "vfs_check_perm_as vp how uid gid s =
     (if vp = 0 \<or> v_data (vnodes s vp) = 0 then - 1
      else (let ip = inodes s (v_data (vnodes s vp)) in
        if uid = 0 then 0
        else (let perm_bits = (if uid = i_uid ip then drop_bit 6 (i_mode ip) AND 7
                               else if gid = i_gid ip then drop_bit 3 (i_mode ip) AND 7
                               else i_mode ip AND 7)
              in if how AND VFS_R_OK \<noteq> 0 \<and> perm_bits AND 4 = 0 then - 1
                 else if how AND VFS_W_OK \<noteq> 0 \<and> perm_bits AND 2 = 0 then - 1
                 else if how AND VFS_X_OK \<noteq> 0 \<and> perm_bits AND 1 = 0 then - 1
                 else 0)))"

definition vfs_check_perm :: "u64 \<Rightarrow> u32 \<Rightarrow> vfs \<Rightarrow> int" where
  "vfs_check_perm vp how s =
     (case cur_cred s of None \<Rightarrow> vfs_check_perm_as vp how 0 0 s
                       | Some (uid, gid) \<Rightarrow> vfs_check_perm_as vp how uid gid s)"

definition vfs_chmod :: "u64 \<Rightarrow> u16 \<Rightarrow> vfs \<Rightarrow> int \<times> vfs" where
  "vfs_chmod vp mode s =
     (if vp = 0 \<or> v_data (vnodes s vp) = 0 then (- 1, s)
      else (0, upd_inode (v_data (vnodes s vp)) (\<lambda>i. i\<lparr>i_mode := (i_mode i AND 0xF000) OR (mode AND 0x0FFF)\<rparr>) s))"

section \<open>Directories\<close>

text \<open>The comparison loop over two names.\<close>

fun name_match :: "string \<Rightarrow> string \<Rightarrow> bool" where
  "name_match (a # as) (b # bs) = (if a \<noteq> b then False else name_match as bs)"
| "name_match as bs = (as = [] \<and> bs = [])"

partial_function (option) lookup_loop :: "string \<Rightarrow> vfs \<Rightarrow> u64 \<Rightarrow> u64 option" where
  "lookup_loop nm s de =
     (if de = 0 then Some 0
      else if name_match (de_name (dirents s de)) nm then Some (de_vnode (dirents s de))
      else lookup_loop nm s (de_next (dirents s de)))"

definition vfs_lookup_ramfs :: "u64 \<Rightarrow> string \<Rightarrow> vfs \<Rightarrow> u64 option" where
  "vfs_lookup_ramfs dir nm s =
     (if dir = 0 \<or> v_type (vnodes s dir) \<noteq> VDIR then Some 0
      else lookup_loop nm s (v_children (vnodes s dir)))"

definition vfs_add_dirent :: "u64 \<Rightarrow> string \<Rightarrow> u64 \<Rightarrow> vfs \<Rightarrow> (int \<times> vfs) option" where
  "vfs_add_dirent dir nm child s =
     (if dir = 0 \<or> child = 0 \<or> v_type (vnodes s dir) \<noteq> VDIR then Some (- 1, s)
      else do {
        v \<leftarrow> vfs_lookup_ramfs dir nm s;
        if v \<noteq> 0 then Some (- 1, s)
        else (let (de, s) = vfs_take s in
          if de = 0 then Some (- 1, s)
          else (let s = upd_dirent de (\<lambda>_. \<lparr>de_name = take 63 nm, de_vnode = child,
                                          de_next = v_children (vnodes s dir)\<rparr>) s;
                    s = upd_vnode dir (\<lambda>v. v\<lparr>v_children := de, v_nchildren := v_nchildren v + 1\<rparr>) s
                in Some (0, upd_vnode child (\<lambda>v. v\<lparr>v_parent := dir\<rparr>) s)))
      })"

text \<open>The common body of \<open>vfs_mkdir_ramfs\<close> and \<open>vfs_create_file\<close>, which differ in the type of the vnode.\<close>

definition ramfs_make :: "vtype \<Rightarrow> u64 \<Rightarrow> string \<Rightarrow> vfs \<Rightarrow> (u64 \<times> vfs) option" where
  "ramfs_make ty parent nm s =
     (if parent = 0 \<or> v_type (vnodes s parent) \<noteq> VDIR then Some (0, s)
      else do {
        v \<leftarrow> vfs_lookup_ramfs parent nm s;
        if v \<noteq> 0 then Some (0, s)
        else (let (f, s) = vfs_create_vnode ty s in
          if f = 0 then Some (0, s)
          else do {
            (r, s) \<leftarrow> vfs_add_dirent parent nm f s;
            if r \<noteq> 0 then do { s \<leftarrow> vfs_free_vnode f s; Some (0, s) }
            else Some (f, s)
          })
      })"

definition vfs_mkdir_ramfs :: "u64 \<Rightarrow> string \<Rightarrow> vfs \<Rightarrow> (u64 \<times> vfs) option" where
  "vfs_mkdir_ramfs = ramfs_make VDIR"

definition vfs_create_file :: "u64 \<Rightarrow> string \<Rightarrow> vfs \<Rightarrow> (u64 \<times> vfs) option" where
  "vfs_create_file = ramfs_make VREG"

text \<open>A pointer to a link of a directory list: the head of a directory, or the link of an entry.\<close>

datatype link = Children u64 | Next u64

fun load_link :: "vfs \<Rightarrow> link \<Rightarrow> u64" where
  "load_link s (Children d) = v_children (vnodes s d)"
| "load_link s (Next e) = de_next (dirents s e)"

fun store_link :: "link \<Rightarrow> u64 \<Rightarrow> vfs \<Rightarrow> vfs" where
  "store_link (Children d) p s = upd_vnode d (\<lambda>v. v\<lparr>v_children := p\<rparr>) s"
| "store_link (Next e) p s = upd_dirent e (\<lambda>d. d\<lparr>de_next := p\<rparr>) s"

partial_function (option) find_link :: "string \<Rightarrow> vfs \<Rightarrow> link \<Rightarrow> link option" where
  "find_link nm s pp =
     (let de = load_link s pp in
      if de = 0 then Some pp
      else if name_match (de_name (dirents s de)) nm then Some pp
      else find_link nm s (Next de))"

definition vfs_unlink :: "u64 \<Rightarrow> string \<Rightarrow> vfs \<Rightarrow> (int \<times> vfs) option" where
  "vfs_unlink parent nm s =
     (if parent = 0 \<or> v_type (vnodes s parent) \<noteq> VDIR then Some (- 1, s)
      else do {
        pp \<leftarrow> find_link nm s (Children parent);
        let de = load_link s pp;
        if de = 0 then Some (- 1, s)
        else (let target = de_vnode (dirents s de) in
          if v_type (vnodes s target) = VDIR \<and> v_nchildren (vnodes s target) > 0 then Some (- 1, s)
          else (let s = store_link pp (de_next (dirents s de)) s;
                    s = upd_vnode parent (\<lambda>v. v\<lparr>v_nchildren := v_nchildren v - 1\<rparr>) s;
                    s = vfs_give de s;
                    ip = v_data (vnodes s target)
                in if ip = 0 then Some (0, s)
                   else (let s = upd_inode ip (\<lambda>i. i\<lparr>i_refcount := i_refcount i - 1\<rparr>) s in
                     if i_refcount (inodes s ip) = 0 then do { s \<leftarrow> vfs_free_vnode target s; Some (0, s) }
                     else Some (0, s))))
      })"

text \<open>
  \<open>vfs_rename\<close> copies up to 254 characters into the 64 bytes of the entry's
  name; a longer name than 63 overwrites the entry's pointers, which the model
  does not follow: \<open>None\<close> there stands for a write past the name.
\<close>

definition rename_displace :: "u64 \<Rightarrow> link \<Rightarrow> vfs \<Rightarrow> vfs" where
  "rename_displace new_parent pp s =
     (let de = load_link s pp; existing = de_vnode (dirents s de);
          s = store_link pp (de_next (dirents s de)) s;
          s = upd_vnode new_parent (\<lambda>v. v\<lparr>v_nchildren := v_nchildren v - 1\<rparr>) s;
          s = vfs_give de s;
          dip = v_data (vnodes s existing)
      in if dip = 0 then s else upd_inode dip (\<lambda>i. i\<lparr>i_refcount := i_refcount i - 1\<rparr>) s)"

definition rename_move :: "link \<Rightarrow> u64 \<Rightarrow> u64 \<Rightarrow> u64 \<Rightarrow> string \<Rightarrow> vfs \<Rightarrow> vfs" where
  "rename_move src_pp src_de old_parent new_parent new_name s =
     (let target = de_vnode (dirents s src_de);
          s = store_link src_pp (de_next (dirents s src_de)) s;
          s = upd_vnode old_parent (\<lambda>v. v\<lparr>v_nchildren := v_nchildren v - 1\<rparr>) s;
          s = upd_dirent src_de (\<lambda>d. d\<lparr>de_name := new_name\<rparr>) s;
          s = upd_dirent src_de (\<lambda>d. d\<lparr>de_next := v_children (vnodes s new_parent)\<rparr>) s;
          s = upd_vnode new_parent (\<lambda>v. v\<lparr>v_children := src_de, v_nchildren := v_nchildren v + 1\<rparr>) s
      in upd_vnode target (\<lambda>v. v\<lparr>v_parent := new_parent\<rparr>) s)"

definition vfs_rename :: "u64 \<Rightarrow> string \<Rightarrow> u64 \<Rightarrow> string \<Rightarrow> vfs \<Rightarrow> (int \<times> vfs) option" where
  "vfs_rename old_parent old_name new_parent new_name s =
     (if old_parent = 0 \<or> new_parent = 0 then Some (- 1, s)
      else if v_type (vnodes s old_parent) \<noteq> VDIR \<or> v_type (vnodes s new_parent) \<noteq> VDIR then Some (- 1, s)
      else do {
        src_pp \<leftarrow> find_link old_name s (Children old_parent);
        let src_de = load_link s src_pp;
        if src_de = 0 then Some (- 1, s)
        else do {
          dst_pp \<leftarrow> find_link new_name s (Children new_parent);
          let de = load_link s dst_pp;
          let existing = vnodes s (de_vnode (dirents s de));
          if de \<noteq> 0 \<and> v_type existing = VDIR \<and> v_nchildren existing > 0 then Some (- 1, s)
          else (let s = (if de \<noteq> 0 then rename_displace new_parent dst_pp s else s) in
            if length new_name > 63 then None
            else Some (0, rename_move src_pp src_de old_parent new_parent new_name s))
        }
      })"

section \<open>Files\<close>

definition ramfs_open :: "u64 \<Rightarrow> vfs \<Rightarrow> int \<times> vfs" where
  "ramfs_open vp s = (0, s)"

definition ramfs_read :: "u64 \<Rightarrow> u8 array option \<Rightarrow> nat \<Rightarrow> vfs \<Rightarrow> int \<times> u8 array option \<times> vfs" where
  "ramfs_read vp buf nbyte s =
     (case buf of
        None \<Rightarrow> (- 1, None, s)
      | Some dst \<Rightarrow>
          if vp = 0 \<or> v_data (vnodes s vp) = 0 then (- 1, buf, s)
          else (let ip = inodes s (v_data (vnodes s vp)); to_read = min nbyte (unat (i_size ip)) in
            if i_size ip = 0 then (0, buf, s)
            else if i_bdev ip \<noteq> 0 \<and> i_blocks ip > 0
            then (let (bytes, buf, b) = block_read ram_drivers (i_bdev ip) (i_start_block ip * BLOCK_SIZE) buf to_read (blk s);
                      s = s\<lparr>blk := b\<rparr>
                  in if bytes < 0 then (- 1, buf, s) else (as_int bytes, buf, s))
            else if cache_list ip = 0 \<or> pc_addr (pages s (cache_list ip)) = 0 then (0, buf, s)
            else (as_int (int to_read),
                  Some (copy_into dst 0 (ram_page (bstore (blk s)) (pc_addr (pages s (cache_list ip)))) 0 to_read), s)))"

text \<open>The page cache entry of a file without device: taken from the allocator at the first write.\<close>

definition ramfs_page :: "u64 \<Rightarrow> vfs \<Rightarrow> bool \<times> vfs" where
  "ramfs_page ip s =
     (if cache_list (inodes s ip) \<noteq> 0 then (True, s)
      else (let (e, s) = vfs_take s in
        if e = 0 then (False, s)
        else (let (a, s) = vfs_take s in
          if a = 0 then (False, vfs_give e s)
          else (True, upd_inode ip (\<lambda>i. i\<lparr>cache_list := e\<rparr>)
                  (s\<lparr>pages := (pages s)(e := \<lparr>pc_offset = 0, pc_addr = a, pc_dirty = False, pc_next = 0\<rparr>)\<rparr>)))))"

definition ramfs_write :: "u64 \<Rightarrow> u8 array option \<Rightarrow> nat \<Rightarrow> vfs \<Rightarrow> int \<times> vfs" where
  "ramfs_write vp buf nbyte s =
     (case buf of
        None \<Rightarrow> (- 1, s)
      | Some src \<Rightarrow>
          if vp = 0 \<or> nbyte = 0 \<or> v_data (vnodes s vp) = 0 then (- 1, s)
          else (let ip = v_data (vnodes s vp); bdev = i_bdev (inodes s ip) in
            if bdev \<noteq> 0
            then (let needed = (nbyte + BLOCK_SIZE - 1) mod 2 ^ 64 div BLOCK_SIZE;
                      (r, s) = (if i_blocks (inodes s ip) = 0
                                then vfs_alloc_blocks ip (if needed = 0 then 1 else needed) s else (0, s))
                  in if r \<noteq> 0 then (- 1, s)
                     else (let (bytes, b) = block_write ram_drivers bdev (i_start_block (inodes s ip) * BLOCK_SIZE) buf nbyte (blk s);
                               s = s\<lparr>blk := b\<rparr>
                           in if bytes < 0 then (- 1, s)
                              else (as_int bytes, upd_inode ip (\<lambda>i. i\<lparr>i_size := of_nat nbyte\<rparr>) s)))
            else (let (ok, s) = ramfs_page ip s in
              if \<not> ok then (- 1, s)
              else (let e = cache_list (inodes s ip); to_write = min nbyte 4096; a = pc_addr (pages s e);
                        m = bstore (blk s);
                        s = s\<lparr>blk := (blk s)\<lparr>bstore := m\<lparr>ram_page := (ram_page m)(a := copy_into (ram_page m a) 0 src 0 to_write)\<rparr>\<rparr>,
                              pages := (pages s)(e := (pages s e)\<lparr>pc_dirty := True\<rparr>)\<rparr>
                    in (as_int (int to_write), upd_inode ip (\<lambda>i. i\<lparr>i_size := of_nat to_write\<rparr>) s)))))"

section \<open>Operation tables and the dispatching functions\<close>

record vfs_dirent =
  d_name :: string
  d_type :: u32
  d_size :: u32
  d_cluster :: u32

record vnode_ops =
  vop_open :: "(u64 \<Rightarrow> vfs \<Rightarrow> int \<times> vfs) option"
  vop_close :: "(u64 \<Rightarrow> vfs \<Rightarrow> int \<times> vfs) option"
  vop_read :: "(u64 \<Rightarrow> u8 array option \<Rightarrow> nat \<Rightarrow> vfs \<Rightarrow> int \<times> u8 array option \<times> vfs) option"
  vop_write :: "(u64 \<Rightarrow> u8 array option \<Rightarrow> nat \<Rightarrow> vfs \<Rightarrow> int \<times> vfs) option"
  vop_read_at :: "(u64 \<Rightarrow> u8 array option \<Rightarrow> nat \<Rightarrow> nat \<Rightarrow> vfs \<Rightarrow> int \<times> u8 array option \<times> vfs) option"
  vop_write_at :: "(u64 \<Rightarrow> u8 array option \<Rightarrow> nat \<Rightarrow> nat \<Rightarrow> vfs \<Rightarrow> int \<times> vfs) option"
  vop_lookup :: "(u64 \<Rightarrow> string \<Rightarrow> vfs \<Rightarrow> (int \<times> u64 \<times> vfs) option) option"
  vop_readdir :: "(u64 \<Rightarrow> nat \<Rightarrow> vfs \<Rightarrow> int \<times> vfs_dirent option \<times> nat \<times> vfs) option"
  vop_create :: "(u64 \<Rightarrow> string \<Rightarrow> vfs \<Rightarrow> (int \<times> u64 \<times> vfs) option) option"
  vop_mkdir :: "(u64 \<Rightarrow> string \<Rightarrow> vfs \<Rightarrow> (int \<times> u64 \<times> vfs) option) option"
  vop_remove :: "(u64 \<Rightarrow> string \<Rightarrow> vfs \<Rightarrow> (int \<times> vfs) option) option"
  vop_getsize :: "(u64 \<Rightarrow> vfs \<Rightarrow> int) option"

definition ramfs_vop_lookup :: "u64 \<Rightarrow> string \<Rightarrow> vfs \<Rightarrow> (int \<times> u64 \<times> vfs) option" where
  "ramfs_vop_lookup dir nm s = do { vp \<leftarrow> vfs_lookup_ramfs dir nm s; Some (if vp = 0 then (- 1, 0, s) else (0, vp, s)) }"

definition ramfs_vop_mkdir :: "u64 \<Rightarrow> string \<Rightarrow> vfs \<Rightarrow> (int \<times> u64 \<times> vfs) option" where
  "ramfs_vop_mkdir dir nm s = do { (vp, s) \<leftarrow> vfs_mkdir_ramfs dir nm s; Some (if vp = 0 then (- 1, 0, s) else (0, vp, s)) }"

definition ramfs_vop_create :: "u64 \<Rightarrow> string \<Rightarrow> vfs \<Rightarrow> (int \<times> u64 \<times> vfs) option" where
  "ramfs_vop_create dir nm s = do { (vp, s) \<leftarrow> vfs_create_file dir nm s; Some (if vp = 0 then (- 1, 0, s) else (0, vp, s)) }"

definition ramfs_vop_remove :: "u64 \<Rightarrow> string \<Rightarrow> vfs \<Rightarrow> (int \<times> vfs) option" where
  "ramfs_vop_remove dir nm s = vfs_unlink dir nm s"

definition ramfs_ops :: vnode_ops where
  "ramfs_ops = \<lparr>vop_open = Some ramfs_open, vop_close = None, vop_read = Some ramfs_read, vop_write = Some ramfs_write,
     vop_read_at = None, vop_write_at = None, vop_lookup = Some ramfs_vop_lookup, vop_readdir = None, vop_create = Some ramfs_vop_create,
     vop_mkdir = Some ramfs_vop_mkdir, vop_remove = Some ramfs_vop_remove, vop_getsize = None\<rparr>"

text \<open>The function \<open>f\<close> of the table of \<open>vp\<close>, if the vnode has a table and the table the function.\<close>

definition vop :: "(nat \<Rightarrow> vnode_ops) \<Rightarrow> (vnode_ops \<Rightarrow> 'f option) \<Rightarrow> u64 \<Rightarrow> vfs \<Rightarrow> 'f option" where
  "vop V f vp s = (if vp = 0 then None else Option.bind (v_op (vnodes s vp)) (\<lambda>t. f (V t)))"

text \<open>The tables of a kernel with RAM file systems only.\<close>

definition ram_vops :: "nat \<Rightarrow> vnode_ops" where
  "ram_vops t = (if t = 0 then ramfs_ops
     else \<lparr>vop_open = None, vop_close = None, vop_read = None, vop_write = None, vop_read_at = None,
           vop_write_at = None, vop_lookup = None, vop_readdir = None, vop_create = None, vop_mkdir = None, vop_remove = None,
           vop_getsize = None\<rparr>)"

definition vfs_open :: "(nat \<Rightarrow> vnode_ops) \<Rightarrow> u64 \<Rightarrow> vfs \<Rightarrow> int \<times> vfs" where
  "vfs_open V vp s = (case vop V vop_open vp s of None \<Rightarrow> (- 1, s) | Some f \<Rightarrow> f vp s)"

definition vfs_read :: "(nat \<Rightarrow> vnode_ops) \<Rightarrow> u64 \<Rightarrow> u8 array option \<Rightarrow> nat \<Rightarrow> vfs \<Rightarrow> int \<times> u8 array option \<times> vfs" where
  "vfs_read V vp buf nbyte s =
     (case vop V vop_read vp s of
        None \<Rightarrow> (- 1, buf, s)
      | Some f \<Rightarrow> if vfs_check_perm vp VFS_R_OK s \<noteq> 0 then (- 1, buf, s) else f vp buf nbyte s)"

definition vfs_write :: "(nat \<Rightarrow> vnode_ops) \<Rightarrow> u64 \<Rightarrow> u8 array option \<Rightarrow> nat \<Rightarrow> vfs \<Rightarrow> int \<times> vfs" where
  "vfs_write V vp buf nbyte s =
     (case vop V vop_write vp s of
        None \<Rightarrow> (- 1, s)
      | Some f \<Rightarrow> if vfs_check_perm vp VFS_W_OK s \<noteq> 0 then (- 1, s) else f vp buf nbyte s)"

definition vfs_read_at ::
  "(nat \<Rightarrow> vnode_ops) \<Rightarrow> u64 \<Rightarrow> u8 array option \<Rightarrow> nat \<Rightarrow> nat \<Rightarrow> vfs \<Rightarrow> int \<times> u8 array option \<times> vfs" where
  "vfs_read_at V vp buf nbyte off s =
     (case vop V vop_read_at vp s of None \<Rightarrow> (- 1, buf, s) | Some f \<Rightarrow> f vp buf nbyte off s)"

definition vfs_write_at :: "(nat \<Rightarrow> vnode_ops) \<Rightarrow> u64 \<Rightarrow> u8 array option \<Rightarrow> nat \<Rightarrow> nat \<Rightarrow> vfs \<Rightarrow> int \<times> vfs" where
  "vfs_write_at V vp buf nbyte off s =
     (case vop V vop_write_at vp s of None \<Rightarrow> (- 1, s) | Some f \<Rightarrow> f vp buf nbyte off s)"

definition vfs_getsize :: "(nat \<Rightarrow> vnode_ops) \<Rightarrow> u64 \<Rightarrow> vfs \<Rightarrow> int" where
  "vfs_getsize V vp s = (case vop V vop_getsize vp s of None \<Rightarrow> - 1 | Some f \<Rightarrow> f vp s)"

definition vfs_close :: "(nat \<Rightarrow> vnode_ops) \<Rightarrow> u64 \<Rightarrow> vfs \<Rightarrow> (int \<times> vfs) option" where
  "vfs_close V vp s =
     (if vp = 0 then Some (- 1, s)
      else (let s = (case vop V vop_close vp s of None \<Rightarrow> s | Some f \<Rightarrow> snd (f vp s));
                ip = v_data (vnodes s vp)
            in if ip = 0 then Some (0, s)
               else (let i = inodes s ip;
                         s = (if i_bdev i \<noteq> 0 \<and> i_blocks i > 0
                              then s\<lparr>blk := snd (buffer_sync_all ram_drivers (i_bdev i) (blk s))\<rparr> else s);
                         s = upd_inode ip (\<lambda>i. i\<lparr>i_refcount := i_refcount i - 1\<rparr>) s
                     in if i_refcount (inodes s ip) = 0 then do { s \<leftarrow> vfs_free_vnode vp s; Some (0, s) }
                        else Some (0, s))))"

definition vfs_lookup :: "(nat \<Rightarrow> vnode_ops) \<Rightarrow> u64 \<Rightarrow> string \<Rightarrow> vfs \<Rightarrow> (int \<times> u64 \<times> vfs) option" where
  "vfs_lookup V dir nm s =
     (if dir = 0 \<or> v_type (vnodes s dir) \<noteq> VDIR then Some (- 1, 0, s)
      else case vop V vop_lookup dir s of None \<Rightarrow> Some (- 1, 0, s) | Some f \<Rightarrow> f dir nm s)"

text \<open>The entry read, if any, and the new position come with the result.\<close>

definition vfs_readdir :: "(nat \<Rightarrow> vnode_ops) \<Rightarrow> u64 \<Rightarrow> nat \<Rightarrow> vfs \<Rightarrow> int \<times> vfs_dirent option \<times> nat \<times> vfs" where
  "vfs_readdir V dir off s =
     (if dir = 0 \<or> v_type (vnodes s dir) \<noteq> VDIR then (- 1, None, off, s)
      else case vop V vop_readdir dir s of None \<Rightarrow> (- 1, None, off, s) | Some f \<Rightarrow> f dir off s)"

definition vfs_create :: "(nat \<Rightarrow> vnode_ops) \<Rightarrow> u64 \<Rightarrow> string \<Rightarrow> vfs \<Rightarrow> (int \<times> u64 \<times> vfs) option" where
  "vfs_create V dir nm s =
     (if dir = 0 \<or> v_type (vnodes s dir) \<noteq> VDIR then Some (- 1, 0, s)
      else case vop V vop_create dir s of None \<Rightarrow> Some (- 1, 0, s) | Some f \<Rightarrow> f dir nm s)"

definition vfs_mkdir :: "(nat \<Rightarrow> vnode_ops) \<Rightarrow> u64 \<Rightarrow> string \<Rightarrow> vfs \<Rightarrow> (int \<times> u64 \<times> vfs) option" where
  "vfs_mkdir V dir nm s =
     (if dir = 0 \<or> v_type (vnodes s dir) \<noteq> VDIR then Some (- 1, 0, s)
      else case vop V vop_mkdir dir s of None \<Rightarrow> Some (- 1, 0, s) | Some f \<Rightarrow> f dir nm s)"

definition vfs_remove :: "(nat \<Rightarrow> vnode_ops) \<Rightarrow> u64 \<Rightarrow> string \<Rightarrow> vfs \<Rightarrow> (int \<times> vfs) option" where
  "vfs_remove V dir nm s =
     (if dir = 0 \<or> v_type (vnodes s dir) \<noteq> VDIR then Some (- 1, s)
      else case vop V vop_remove dir s of None \<Rightarrow> Some (- 1, s) | Some f \<Rightarrow> f dir nm s)"

section \<open>Resolution of paths within the root RAM file system\<close>

text \<open>
  The loop of \<open>vfs_resolve_path_ramfs\<close>; a component is cut after 254
  characters and the rest is then read as the next component.
\<close>

definition comp_len :: "string \<Rightarrow> nat" where
  "comp_len p = min (VFS_NAME_MAX - 1) (length (takeWhile (\<lambda>c. c \<noteq> CHR ''/'') p))"

function resolve_loop :: "string \<Rightarrow> u64 \<Rightarrow> vfs \<Rightarrow> u64 option" where
  "resolve_loop p cur s =
     (let p = dropWhile (\<lambda>c. c = CHR ''/'') p in
      if p = [] then Some cur
      else (let comp = take (comp_len p) p; p = drop (comp_len p) p in
        if comp = ''.'' then resolve_loop p cur s
        else if comp = ''..'' then resolve_loop p (if v_parent (vnodes s cur) \<noteq> 0 then v_parent (vnodes s cur) else cur) s
        else do {
          child \<leftarrow> vfs_lookup_ramfs cur comp s;
          if child = 0 then Some 0 else resolve_loop p child s
        }))"
  by pat_completeness auto

lemma comp_len_pos:
  assumes "p = dropWhile (\<lambda>c. c = CHR ''/'') q" "p \<noteq> []"
  shows "0 < comp_len p"
proof -
  have "hd p \<noteq> CHR ''/''" using hd_dropWhile [of "\<lambda>c. c = CHR ''/''" q] assms by simp
  then show ?thesis using assms(2) unfolding comp_len_def by (cases p) simp_all
qed

lemma comp_shorter:
  assumes "p = dropWhile (\<lambda>c. c = CHR ''/'') q" "p \<noteq> []"
  shows "length (drop (comp_len p) p) < length q"
proof -
  have "length p \<le> length q" using assms(1) length_dropWhile_le [of _ q] by simp
  moreover have "0 < comp_len p" "0 < length p" using comp_len_pos [OF assms] assms(2) by simp_all
  ultimately show ?thesis unfolding length_drop by linarith
qed

termination resolve_loop
  by (relation "measure (\<lambda>(p, _). length p)") (use comp_shorter in simp_all)

declare resolve_loop.simps [simp del]

definition vfs_resolve_path_ramfs :: "string \<Rightarrow> vfs \<Rightarrow> u64 option" where
  "vfs_resolve_path_ramfs pth s =
     (if pth = [] \<or> vfs_get_root s = 0 then Some 0
      else if pth = ''/'' then Some (vfs_get_root s)
      else resolve_loop (if hd pth = CHR ''/'' then tl pth else pth) (vfs_get_root s) s)"

end
