(* ===== verification/Mount.thy ===== *)
theory Mount
  imports Vfs
begin

text \<open>
  The mount table of \<open>mount.c\<close>, the resolution of paths through it (the part of
  \<open>vfs.c\<close> that calls \<open>mount_lookup\<close>), the start-up of the file systems, and the
  file system calls of \<open>syscall.c\<close> that change metadata.  The operations of the
  registered file systems are the parameter \<open>F\<close>; \<open>ramfs_fs_ops\<close> is the table of
  the RAM file system.  As in \<open>Vfs\<close>, \<open>None\<close> is a call that does not return.
\<close>

section \<open>File systems\<close>

abbreviation MAX_MOUNTS :: nat where "MAX_MOUNTS \<equiv> 16"
abbreviation FS_TYPE_RAMFS :: int where "FS_TYPE_RAMFS \<equiv> 1"
abbreviation MNT_NOEXEC :: int where "MNT_NOEXEC \<equiv> 4"

record filesystem_ops =
  fo_mount :: "u64 \<Rightarrow> int \<Rightarrow> vfs \<Rightarrow> u64 \<times> vfs"
  fo_unmount :: "(u64 \<Rightarrow> vfs \<Rightarrow> (int \<times> vfs) option) option"
  fo_sync :: "(u64 \<Rightarrow> vfs \<Rightarrow> int \<times> vfs) option"

definition ramfs_mount :: "u64 \<Rightarrow> int \<Rightarrow> vfs \<Rightarrow> u64 \<times> vfs" where
  "ramfs_mount dev flags s = vfs_create_vnode VDIR s"

definition ramfs_unmount :: "u64 \<Rightarrow> vfs \<Rightarrow> (int \<times> vfs) option" where
  "ramfs_unmount root s = do { s \<leftarrow> (if root \<noteq> 0 then vfs_free_vnode root s else Some s); Some (0, s) }"

definition ramfs_sync :: "u64 \<Rightarrow> vfs \<Rightarrow> int \<times> vfs" where
  "ramfs_sync root s = (0, s)"

definition ramfs_fs_ops :: filesystem_ops where
  "ramfs_fs_ops = \<lparr>fo_mount = ramfs_mount, fo_unmount = Some ramfs_unmount, fo_sync = Some ramfs_sync\<rparr>"

definition ramfs_fs :: filesystem where
  "ramfs_fs = \<lparr>fs_name = ''ramfs'', fs_type = FS_TYPE_RAMFS, fs_ops = Some 0\<rparr>"

definition fs_find :: "string \<Rightarrow> vfs \<Rightarrow> filesystem option" where
  "fs_find nm s = find (\<lambda>fs. fs_name fs = nm) (registered_fs s)"

definition fs_register :: "filesystem \<Rightarrow> vfs \<Rightarrow> int \<times> vfs" where
  "fs_register fs s =
     (if fs_ops fs = None then (- 1, s)
      else if fs_find (fs_name fs) s \<noteq> None then (- 1, s)
      else (0, s\<lparr>registered_fs := fs # registered_fs s\<rparr>))"

section \<open>The mount table\<close>

definition free_mount :: mount_entry where
  "free_mount = \<lparr>me_path = [], me_root = 0, me_device = 0, me_fs = None, me_flags = 0, me_in_use = False\<rparr>"

definition mount_init :: "vfs \<Rightarrow> vfs" where
  "mount_init s = snd (fs_register ramfs_fs
     (s\<lparr>mounts := (\<lambda>i. if i < MAX_MOUNTS then free_mount else mounts s i), mount_count := 0, mount_root := 0\<rparr>))"

definition unmount_with :: "filesystem_ops \<Rightarrow> u64 \<Rightarrow> vfs \<Rightarrow> vfs option" where
  "unmount_with ops root s =
     (case fo_unmount ops of None \<Rightarrow> Some s | Some f \<Rightarrow> do { (r, s) \<leftarrow> f root s; Some s })"

definition mount_at :: "string \<Rightarrow> vfs \<Rightarrow> nat option" where
  "mount_at pth s = first_slot (\<lambda>i. me_in_use (mounts s i) \<and> me_path (mounts s i) = pth) MAX_MOUNTS"

text \<open>A registered file system has operations; the call through a NULL table would fault.\<close>

definition do_mount :: "(nat \<Rightarrow> filesystem_ops) \<Rightarrow> string \<Rightarrow> string \<Rightarrow> u64 \<Rightarrow> int \<Rightarrow> vfs \<Rightarrow> (int \<times> vfs) option" where
  "do_mount F pth nm dev flags s =
     (case fs_find nm s of
        None \<Rightarrow> Some (- 1, s)
      | Some fs \<Rightarrow> do {
          ops \<leftarrow> map_option F (fs_ops fs);
          let (root, s) = fo_mount ops dev flags s;
          if root = 0 then Some (- 1, s)
          else (case first_slot (\<lambda>i. \<not> me_in_use (mounts s i)) MAX_MOUNTS of
                  None \<Rightarrow> do { s \<leftarrow> unmount_with ops root s; Some (- 1, s) }
                | Some slot \<Rightarrow>
                    if mount_at pth s \<noteq> None then do { s \<leftarrow> unmount_with ops root s; Some (- 1, s) }
                    else (let s = s\<lparr>mounts := (mounts s)(slot := \<lparr>me_path = take (MAX_PATH - 1) pth, me_root = root,
                                       me_device = dev, me_fs = Some fs, me_flags = flags, me_in_use = True\<rparr>),
                                    mount_count := mount_count s + 1\<rparr>
                          in Some (0, if pth = ''/'' then s\<lparr>mount_root := root\<rparr> else s)))
        })"

definition do_unmount :: "(nat \<Rightarrow> filesystem_ops) \<Rightarrow> string \<Rightarrow> vfs \<Rightarrow> (int \<times> vfs) option" where
  "do_unmount F pth s =
     (case mount_at pth s of
        None \<Rightarrow> Some (- 1, s)
      | Some i \<Rightarrow>
          if pth = ''/'' then Some (- 1, s)
          else (let e = mounts s i;
                    s = s\<lparr>mounts := (mounts s)(i := e\<lparr>me_in_use := False, me_root := 0\<rparr>), mount_count := mount_count s - 1\<rparr>
                in case Option.bind (me_fs e) fs_ops of
                     None \<Rightarrow> Some (0, s)
                   | Some t \<Rightarrow> do { s \<leftarrow> unmount_with (F t) (me_root e) s; Some (0, s) }))"

text \<open>The comparison of the first characters of the path with the mount point.\<close>

fun starts_with :: "string \<Rightarrow> string \<Rightarrow> bool" where
  "starts_with [] p = True"
| "starts_with (m # mp) [] = False"
| "starts_with (m # mp) (c # p) = (if c \<noteq> m then False else starts_with mp p)"

text \<open>One round of the loop of \<open>mount_lookup\<close>, with the best entry so far and the length of its path.\<close>

definition lookup_round :: "string \<Rightarrow> vfs \<Rightarrow> nat \<Rightarrow> nat option \<times> nat \<Rightarrow> nat option \<times> nat" where
  "lookup_round pth s i best =
     (let mp = me_path (mounts s i); n = length mp in
      if \<not> me_in_use (mounts s i) then best
      else if \<not> starts_with mp pth then best
      else if n = 1 \<and> mp ! 0 = CHR ''/''
      then (if fst best = None \<or> n > snd best then (Some i, n) else best)
      else if n = length pth \<or> (n < length pth \<and> pth ! n = CHR ''/'')
      then (if n > snd best then (Some i, n) else best)
      else best)"

definition mount_lookup :: "string \<Rightarrow> vfs \<Rightarrow> nat option" where
  "mount_lookup pth s = fst (fold (lookup_round pth s) [0..<MAX_MOUNTS] (None, 0))"

definition get_root_vnode :: "vfs \<Rightarrow> u64" where
  "get_root_vnode s = mount_root s"

section \<open>Resolution of paths\<close>

abbreviation ENOTDIR :: int where "ENOTDIR \<equiv> - 2"

function walk_loop :: "(nat \<Rightarrow> vnode_ops) \<Rightarrow> string \<Rightarrow> u64 \<Rightarrow> vfs \<Rightarrow> (int \<times> u64 \<times> vfs) option" where
  "walk_loop V p cur s =
     (let p = dropWhile (\<lambda>c. c = CHR ''/'') p in
      if p = [] then Some (0, cur, s)
      else (let comp = takeWhile (\<lambda>c. c \<noteq> CHR ''/'') p; more = drop (Suc (length comp)) p in
        if v_type (vnodes s cur) \<noteq> VDIR then Some (ENOTDIR, 0, s)
        else do {
          (ret, child, s) \<leftarrow> vfs_lookup V cur comp s;
          if ret \<noteq> 0 then Some (ret, 0, s) else walk_loop V more child s
        }))"
  by pat_completeness auto

lemma walk_shorter:
  assumes "p = dropWhile (\<lambda>c. c = CHR ''/'') q" "p \<noteq> []"
  shows "length p - Suc n < length q"
proof -
  have "length p \<le> length q" using assms(1) length_dropWhile_le [of _ q] by simp
  moreover have "0 < length p" using assms(2) by simp
  ultimately show ?thesis by linarith
qed

termination walk_loop
  by (relation "measure (\<lambda>(_, p, _). length p)") (use walk_shorter in simp_all)

declare walk_loop.simps [simp del]

definition vfs_walk_path :: "(nat \<Rightarrow> vnode_ops) \<Rightarrow> u64 \<Rightarrow> string \<Rightarrow> vfs \<Rightarrow> (int \<times> u64 \<times> vfs) option" where
  "vfs_walk_path V start relpath s =
     (if start = 0 then Some (- 1, 0, s)
      else if relpath = [] then Some (0, start, s)
      else if length relpath \<ge> MAX_PATH then Some (- 1, 0, s)
      else walk_loop V relpath start s)"

definition vfs_resolve_path :: "(nat \<Rightarrow> vnode_ops) \<Rightarrow> string \<Rightarrow> vfs \<Rightarrow> (int \<times> u64 \<times> vfs) option" where
  "vfs_resolve_path V pth s =
     (if pth = [] \<or> hd pth \<noteq> CHR ''/'' then Some (- 1, 0, s)
      else case mount_lookup pth s of
             None \<Rightarrow> Some (- 1, 0, s)
           | Some i \<Rightarrow>
               if me_root (mounts s i) = 0 then Some (- 1, 0, s)
               else vfs_walk_path V (me_root (mounts s i))
                      (dropWhile (\<lambda>c. c = CHR ''/'') (drop (length (me_path (mounts s i))) pth)) s)"

text \<open>The length without trailing slashes, and the place of the last slash before it.\<close>

fun trim_len :: "string \<Rightarrow> nat \<Rightarrow> nat" where
  "trim_len p (Suc n) = (if n > 0 \<and> p ! n = CHR ''/'' then trim_len p n else Suc n)"
| "trim_len p 0 = 0"

definition last_slash :: "string \<Rightarrow> nat \<Rightarrow> nat" where
  "last_slash p n = fold (\<lambda>i sep. if p ! i = CHR ''/'' then i else sep) [0..<n] 0"

text \<open>The name found, if one is written, comes with the result.\<close>

definition vfs_resolve_parent ::
  "(nat \<Rightarrow> vnode_ops) \<Rightarrow> string \<Rightarrow> nat \<Rightarrow> vfs \<Rightarrow> (int \<times> u64 \<times> string option \<times> vfs) option" where
  "vfs_resolve_parent V pth name_max s =
     (if name_max = 0 \<or> pth = [] \<or> hd pth \<noteq> CHR ''/'' then Some (- 1, 0, None, s)
      else (let n = trim_len pth (length pth); sep = last_slash pth n; k = n - sep - 1 in
        if k = 0 \<or> k \<ge> name_max then Some (- 1, 0, None, s)
        else (let nm = take k (drop (sep + 1) pth) in
          if sep \<noteq> 0 \<and> sep \<ge> MAX_PATH then Some (- 1, 0, Some nm, s)
          else do {
            (r, v, s) \<leftarrow> vfs_resolve_path V (if sep = 0 then ''/'' else take sep pth) s;
            Some (r, v, Some nm, s)
          })))"

section \<open>Start-up of the file systems\<close>

definition vfs_block_init :: "vfs \<Rightarrow> vfs" where
  "vfs_block_init s =
     (let (f, b) = block_device_init (ram_pfa (bstore (blk s))) (blk s)
      in s\<lparr>blk := b\<lparr>bstore := (bstore b)\<lparr>ram_pfa := f\<rparr>\<rparr>\<rparr>)"

definition fs_init_root :: "(nat \<Rightarrow> filesystem_ops) \<Rightarrow> vfs \<Rightarrow> (int \<times> vfs) option" where
  "fs_init_root F s =
     (let s = mount_init s;
          s = vfs_block_init s;
          (dev, b) = ramblock_create ''rootfs'' 256 (blk s);
          s = s\<lparr>blk := b, root_block_device := dev\<rparr>
      in if dev = 0 then Some (- 1, s)
         else (let s = s\<lparr>blk := snd (block_device_register dev (blk s))\<rparr>;
                   s = vfs_set_backing_device dev s;
                   s = vfs_init s
               in do { (r, s) \<leftarrow> do_mount F ''/'' ''ramfs'' dev 0 s; Some (if r \<noteq> 0 then - 1 else 0, s) }))"

definition fs_mount_system_dirs :: "(nat \<Rightarrow> filesystem_ops) \<Rightarrow> vfs \<Rightarrow> (int \<times> vfs) option" where
  "fs_mount_system_dirs F s = do {
     (_, s) \<leftarrow> do_mount F ''/tmp'' ''ramfs'' 0 0 s;
     (_, s) \<leftarrow> do_mount F ''/dev'' ''ramfs'' 0 MNT_NOEXEC s;
     Some (0, s)
   }"

definition create_text_file :: "(nat \<Rightarrow> vnode_ops) \<Rightarrow> u64 \<Rightarrow> string \<Rightarrow> u8 list \<Rightarrow> vfs \<Rightarrow> (u64 \<times> vfs) option" where
  "create_text_file V parent nm content s = do {
     (f, s) \<leftarrow> vfs_create_file parent nm s;
     if f = 0 then Some (0, s)
     else Some (f, snd (vfs_write V f (Some (\<lambda>i. if i < length content then content ! i else 0)) (length content) s))
   }"

text \<open>The bytes of a text, given by its lines; \<open>@\<close> stands for a backslash and \<open>%\<close> for a single quote.\<close>

definition text_lines :: "string list \<Rightarrow> u8 list" where
  "text_lines ls = concat (map (\<lambda>l. map (\<lambda>c. if c = CHR ''@'' then 0x5C else if c = CHR ''%'' then 0x27 else of_char c) l @ [0x0A]) ls)"

definition populate_etc :: "(nat \<Rightarrow> vnode_ops) \<Rightarrow> u64 \<Rightarrow> vfs \<Rightarrow> vfs option" where
  "populate_etc V etc s = do {
     (_, s) \<leftarrow> create_text_file V etc ''passwd'' (text_lines [''admin:x:0:0:System Administrator:/home/admin:/bin/shell'',
         ''guest:x:65534:65534:Guest Account:/tmp:/bin/shell'']) s;
     (_, s) \<leftarrow> create_text_file V etc ''shadow'' (text_lines [''admin:03ac674216f3e15c761ee1a5e255f067953623c8b388b4459e13f978d7c846f4'',
         ''guest:*'']) s;
     (_, s) \<leftarrow> create_text_file V etc ''group'' (text_lines [''root:x:0:admin'',
         ''users:x:100:'',
         ''nogroup:x:65534:guest'']) s;
     (_, s) \<leftarrow> create_text_file V etc ''hostname'' (text_lines [''tomahawk'']) s;
     (_, s) \<leftarrow> create_text_file V etc ''motd'' (text_lines ['''',
         '' ___________                 .__                   __   '',
         '' @__    ___/___   _____ ___  |  |__ ___  __  _  __|  | __'',
         ''   |    | /  _ @ /     @@  @ |  |  @@  @ @ @/ @/ /|  |/ /'',
         ''   |    |(  (_) )  Y Y  @@  @|   Y  @@  @ @     / |    < '',
         ''   |____| @____/|__|_|  / @__@___|  / @__@ @/@_/  |__|_ @'',
         ''                      @/          @/                   @/'',
         ''                                      TomahawkOS Shell v1.0'',
         '''',
         ''Welcome to TomahawkOS! Type %help% for available commands.'',
         '''']) s;
     (_, s) \<leftarrow> create_text_file V etc ''fstab'' (text_lines [''# device  mountpoint  fstype  flags'',
         ''rootfs    /           ramfs   defaults'',
         ''none      /tmp        ramfs   noexec'',
         ''none      /dev        ramfs   noexec'']) s;
     Some s
   }"

text \<open>The directories below a parent, created one after the other; the vnodes come in the same order.\<close>

fun make_dirs :: "u64 \<Rightarrow> string list \<Rightarrow> vfs \<Rightarrow> (u64 list \<times> vfs) option" where
  "make_dirs d [] s = Some ([], s)"
| "make_dirs d (nm # nms) s = do {
     (v, s) \<leftarrow> vfs_mkdir_ramfs d nm s;
     (vs, s) \<leftarrow> make_dirs d nms s;
     Some (v # vs, s)
   }"

definition populate_home :: "(nat \<Rightarrow> vnode_ops) \<Rightarrow> u64 \<Rightarrow> vfs \<Rightarrow> vfs option" where
  "populate_home V home s = do {
     (admin_home, s) \<leftarrow> vfs_mkdir_ramfs home ''admin'' s;
     if admin_home \<noteq> 0 then do {
       (_, s) \<leftarrow> create_text_file V admin_home ''welcome.txt'' (text_lines [''Welcome to TomahawkOS, admin!'',
           ''This is your home directory.'']) s;
       Some s
     } else Some s
   }"

definition fs_populate_root :: "(nat \<Rightarrow> vnode_ops) \<Rightarrow> vfs \<Rightarrow> (int \<times> vfs) option" where
  "fs_populate_root V s =
     (let root = vfs_get_root s in
      if root = 0 then Some (- 1, s)
      else do {
        (ds, s) \<leftarrow> make_dirs root [''bin'', ''sbin'', ''dev'', ''etc'', ''home'', ''tmp'', ''usr'', ''var'', ''proc''] s;
        let bin = ds ! 0; let etc = ds ! 3; let home = ds ! 4; let usr = ds ! 6; let var = ds ! 7;
        s \<leftarrow> (if etc \<noteq> 0 then populate_etc V etc s else Some s);
        s \<leftarrow> (if home \<noteq> 0 then populate_home V home s else Some s);
        (_, s) \<leftarrow> (if usr \<noteq> 0 then make_dirs usr [''bin'', ''lib'', ''include''] s else Some ([], s));
        (_, s) \<leftarrow> (if var \<noteq> 0 then make_dirs var [''log'', ''run''] s else Some ([], s));
        (_, s) \<leftarrow> (if bin \<noteq> 0 then create_text_file V bin ''hello'' (text_lines [''#!/bin/shell'',
            ''echo Hello from TomahawkOS!'']) s else Some (0, s));
        Some (0, s)
      })"

section \<open>System calls\<close>

text \<open>A string argument: NULL, a pointer that \<open>validate_user_string\<close> refuses, or a string.\<close>

datatype user_string = UNull | UFault | UStr string

abbreviation ENOENT :: int where "ENOENT \<equiv> 2"
abbreviation EFAULT :: int where "EFAULT \<equiv> 14"
abbreviation EINVAL :: int where "EINVAL \<equiv> 22"

definition sys_unlink :: "(nat \<Rightarrow> vnode_ops) \<Rightarrow> user_string \<Rightarrow> user_string \<Rightarrow> vfs \<Rightarrow> (int \<times> vfs) option" where
  "sys_unlink V a1 a2 s =
     (case (a1, a2) of
        (UStr dir, UStr nm) \<Rightarrow> do {
          (r, parent, s) \<leftarrow> vfs_resolve_path V dir s;
          if r \<noteq> 0 \<or> parent = 0 then Some (- ENOENT, s) else vfs_unlink parent nm s
        }
      | (UNull, _) \<Rightarrow> Some (- EINVAL, s)
      | (_, UNull) \<Rightarrow> Some (- EINVAL, s)
      | _ \<Rightarrow> Some (- EFAULT, s))"

text \<open>The parent directory (cut to 255 characters) and the base name that \<open>SYS_RENAME\<close> takes from a path.\<close>

definition split_path :: "string \<Rightarrow> string \<times> string" where
  "split_path p =
     (let sep = last_slash p (length p) in
      if sep = 0 then (''/'', drop 1 p) else (take (min sep 255) p, drop (sep + 1) p))"

definition sys_rename :: "(nat \<Rightarrow> vnode_ops) \<Rightarrow> user_string \<Rightarrow> user_string \<Rightarrow> vfs \<Rightarrow> (int \<times> vfs) option" where
  "sys_rename V a1 a2 s =
     (case (a1, a2) of
        (UStr old, UStr new) \<Rightarrow> do {
          (r, old_parent, s) \<leftarrow> vfs_resolve_path V (fst (split_path old)) s;
          if r \<noteq> 0 \<or> old_parent = 0 then Some (- ENOENT, s)
          else do {
            (r, new_parent, s) \<leftarrow> vfs_resolve_path V (fst (split_path new)) s;
            if r \<noteq> 0 \<or> new_parent = 0 then Some (- ENOENT, s)
            else vfs_rename old_parent (snd (split_path old)) new_parent (snd (split_path new)) s
          }
        }
      | (UNull, _) \<Rightarrow> Some (- EINVAL, s)
      | (_, UNull) \<Rightarrow> Some (- EINVAL, s)
      | _ \<Rightarrow> Some (- EFAULT, s))"

definition sys_chmod :: "(nat \<Rightarrow> vnode_ops) \<Rightarrow> user_string \<Rightarrow> u16 \<Rightarrow> vfs \<Rightarrow> (int \<times> vfs) option" where
  "sys_chmod V a1 mode s =
     (case a1 of
        UStr pth \<Rightarrow> do {
          (r, vp, s) \<leftarrow> vfs_resolve_path V pth s;
          Some (if r \<noteq> 0 \<or> vp = 0 then (- ENOENT, s) else vfs_chmod vp mode s)
        }
      | UNull \<Rightarrow> Some (- EINVAL, s)
      | UFault \<Rightarrow> Some (- EFAULT, s))"

end
