(* ===== verification/Vfs_Tree.thy ===== *)
theory Vfs_Tree
  imports Mount
begin

text \<open>
  The directories of the RAM file system as finite maps.  The invariant ties
  every live vnode to the list of its directory entries: the linked list has
  exactly these entries, the counts agree, names in a directory differ, every
  entry leads to a live vnode whose parent is the directory, and the frames of
  all vnodes, inodes and entries are different and not free.
\<close>

section \<open>Frames\<close>

abbreviation fr :: "vfs \<Rightarrow> pfa" where "fr s \<equiv> ram_pfa (bstore (blk s))"

definition set_fr :: "pfa \<Rightarrow> vfs \<Rightarrow> vfs" where
  "set_fr f s = s\<lparr>blk := (blk s)\<lparr>bstore := (bstore (blk s))\<lparr>ram_pfa := f\<rparr>\<rparr>\<rparr>"

lemma set_fr_sel [simp]:
  "fr (set_fr f s) = f" "vnodes (set_fr f s) = vnodes s" "inodes (set_fr f s) = inodes s"
  "dirents (set_fr f s) = dirents s" "pages (set_fr f s) = pages s" "root_vnode (set_fr f s) = root_vnode s"
  "vfs_default_device (set_fr f s) = vfs_default_device s" "cur_cred (set_fr f s) = cur_cred s"
  "next_free_block (set_fr f s) = next_free_block s" "mounts (set_fr f s) = mounts s"
  "registered_fs (set_fr f s) = registered_fs s" "mount_root (set_fr f s) = mount_root s"
  "mount_count (set_fr f s) = mount_count s"
  by (simp_all add: set_fr_def)

lemma set_fr_set_fr [simp]: "set_fr f (set_fr g s) = set_fr f s"
  by (simp add: set_fr_def)

lemma vfs_give_eq: "vfs_give a s = set_fr (pfa_free_frame a (fr s)) s"
  by (simp add: vfs_give_def give_frame_def set_fr_def)

lemma upd_sel [simp]:
  "vnodes (upd_vnode v g s) = (vnodes s)(v := g (vnodes s v))" "inodes (upd_vnode v g s) = inodes s"
  "dirents (upd_vnode v g s) = dirents s" "blk (upd_vnode v g s) = blk s" "pages (upd_vnode v g s) = pages s"
  "vnodes (upd_inode i h s) = vnodes s" "inodes (upd_inode i h s) = (inodes s)(i := h (inodes s i))"
  "dirents (upd_inode i h s) = dirents s" "blk (upd_inode i h s) = blk s" "pages (upd_inode i h s) = pages s"
  "vnodes (upd_dirent e k s) = vnodes s" "inodes (upd_dirent e k s) = inodes s"
  "dirents (upd_dirent e k s) = (dirents s)(e := k (dirents s e))" "blk (upd_dirent e k s) = blk s"
  "pages (upd_dirent e k s) = pages s"
  by (simp_all add: upd_vnode_def upd_inode_def upd_dirent_def)

lemma upd_globals [simp]:
  "cur_cred (upd_vnode v g s) = cur_cred s" "cur_cred (upd_inode i h s) = cur_cred s" "cur_cred (upd_dirent e k s) = cur_cred s"
  "mounts (upd_vnode v g s) = mounts s" "mounts (upd_inode i h s) = mounts s" "mounts (upd_dirent e k s) = mounts s"
  "root_vnode (upd_vnode v g s) = root_vnode s" "root_vnode (upd_inode i h s) = root_vnode s"
  "root_vnode (upd_dirent e k s) = root_vnode s"
  "mount_root (upd_vnode v g s) = mount_root s" "mount_root (upd_inode i h s) = mount_root s"
  "mount_root (upd_dirent e k s) = mount_root s"
  "next_free_block (upd_vnode v g s) = next_free_block s" "next_free_block (upd_inode i h s) = next_free_block s"
  by (simp_all add: upd_vnode_def upd_inode_def upd_dirent_def)

lemma vfs_take_cases:
  assumes "pfa_inv (fr s)"
  obtains (none) "vfs_take s = (0, s)" "pfa_avail (fr s) = {}"
  | (some) a f where "vfs_take s = (a, set_fr f s)" "a \<noteq> 0" "a \<in> pfa_avail (fr s)"
      "pfa_avail f = pfa_avail (fr s) - {a}" "pfa_univ f = pfa_univ (fr s)" "pfa_inv f"
proof (cases "pfa_take (fr s)")
  case None
  have e: "pfa_avail (fr s) = {}" by (rule pfa_pool.alloc_none [OF assms None])
  then have "free_frames (fr s) = {}" by (simp add: pfa_avail_def)
  then have "vfs_take s = (0, s)"
    using pfa_alloc_frame_none [OF assms] by (simp add: vfs_take_def take_frame_def)
  then show thesis using e by (rule none)
next
  case (Some q)
  obtain a f where q: "q = (a, f)" by force
  have al: "pfa_alloc_frame (fr s) = (a, f)" "a \<noteq> 0"
    using Some q by (auto simp: pfa_take_def split: prod.splits if_splits)
  show thesis
    using pfa_pool.alloc_some [OF assms Some [unfolded q]] al by (intro some [of a f]) (simp_all add: vfs_take_def take_frame_def set_fr_def)
qed

section \<open>The invariant\<close>

definition ptr :: "u64 \<Rightarrow> u64 option" where
  "ptr p = (if p = 0 then None else Some p)"

abbreviation dnext :: "vfs \<Rightarrow> u64 \<Rightarrow> u64 option" where
  "dnext s e \<equiv> ptr (de_next (dirents s e))"

abbreviation ename :: "vfs \<Rightarrow> u64 \<Rightarrow> string" where "ename s e \<equiv> de_name (dirents s e)"
abbreviation evnode :: "vfs \<Rightarrow> u64 \<Rightarrow> u64" where "evnode s e \<equiv> de_vnode (dirents s e)"

type_synonym live = "u64 \<rightharpoonup> u64 list"

definition cells :: "vfs \<Rightarrow> u64 \<Rightarrow> u64 list \<Rightarrow> u64 list" where
  "cells s v es = v # v_data (vnodes s v) # es"

definition node_ok :: "live \<Rightarrow> vfs \<Rightarrow> u64 \<Rightarrow> u64 list \<Rightarrow> bool" where
  "node_ok L s v es \<longleftrightarrow> distinct (cells s v es) \<and> 0 \<notin> set (cells s v es) \<and>
     (if v_type (vnodes s v) = VDIR
      then path (dnext s) (ptr (v_children (vnodes s v))) es \<and> v_nchildren (vnodes s v) = int (length es)
      else es = []) \<and>
     distinct (map (ename s) es) \<and> distinct (map (evnode s) es) \<and>
     (\<forall>e\<in>set es. evnode s e \<in> dom L \<and> v_parent (vnodes s (evnode s e)) = v) \<and>
     i_refcount (inodes s (v_data (vnodes s v))) = 1 \<and> cache_list (inodes s (v_data (vnodes s v))) = 0 \<and>
     v_op (vnodes s v) = Some 0"

definition tree_ok :: "live \<Rightarrow> vfs \<Rightarrow> bool" where
  "tree_ok L s \<longleftrightarrow> pfa_inv (fr s) \<and>
     (\<forall>v es. L v = Some es \<longrightarrow> node_ok L s v es \<and> set (cells s v es) \<subseteq> pfa_univ (fr s) - pfa_avail (fr s)) \<and>
     (\<forall>v es w ds. L v = Some es \<longrightarrow> L w = Some ds \<longrightarrow> v \<noteq> w \<longrightarrow> set (cells s v es) \<inter> set (cells s w ds) = {})"

lemma tree_ok_node: "tree_ok L s \<Longrightarrow> L v = Some es \<Longrightarrow> node_ok L s v es"
  by (simp add: tree_ok_def)

lemma tree_ok_cells: "tree_ok L s \<Longrightarrow> L v = Some es \<Longrightarrow> set (cells s v es) \<subseteq> pfa_univ (fr s) - pfa_avail (fr s)"
  by (simp add: tree_ok_def)

lemma tree_ok_apart:
  "tree_ok L s \<Longrightarrow> L v = Some es \<Longrightarrow> L w = Some ds \<Longrightarrow> v \<noteq> w \<Longrightarrow> set (cells s v es) \<inter> set (cells s w ds) = {}"
  unfolding tree_ok_def by blast

lemma tree_ok_pfa: "tree_ok L s \<Longrightarrow> pfa_inv (fr s)"
  by (simp add: tree_ok_def)

lemma node_ok_cong:
  assumes "node_ok L s v es" "vnodes t v = (vnodes s v)\<lparr>v_parent := p\<rparr>"
    "inodes t (v_data (vnodes s v)) = inodes s (v_data (vnodes s v))" "\<And>e. e \<in> set es \<Longrightarrow> dirents t e = dirents s e"
    "\<And>e. e \<in> set es \<Longrightarrow> evnode s e \<in> dom K \<and> v_parent (vnodes t (evnode s e)) = v"
  shows "node_ok K t v es"
proof -
  have "path (dnext t) q es = path (dnext s) q es" for q by (rule path_cong) (simp add: assms(4))
  moreover have "map (ename t) es = map (ename s) es" "map (evnode t) es = map (evnode s) es"
    using assms(4) by simp_all
  ultimately show ?thesis using assms unfolding node_ok_def cells_def by (simp del: map_eq_conv)
qed

lemma cells_cong: "v_data (vnodes t v) = v_data (vnodes s v) \<Longrightarrow> cells t v es = cells s v es"
  by (simp add: cells_def)

text \<open>Frames may come and go as long as none of the live ones becomes free.\<close>

lemma tree_ok_set_fr:
  assumes "tree_ok L s" "pfa_inv f" "pfa_univ f = pfa_univ (fr s)" "pfa_avail f \<subseteq> pfa_avail (fr s)"
  shows "tree_ok L (set_fr f s)"
proof -
  have n: "node_ok L (set_fr f s) v es" if "node_ok L s v es" for v es
    using that by (simp add: node_ok_def cells_def)
  have c: "cells (set_fr f s) v es = cells s v es" for v es by (simp add: cells_def)
  show ?thesis using assms n unfolding tree_ok_def c by (simp, blast)
qed

section \<open>The loops\<close>

lemma name_match_iff [simp]: "name_match a b \<longleftrightarrow> a = b"
  by (induction a b rule: name_match.induct) auto

lemma lookup_loop_path:
  "path (dnext s) (ptr p) es \<Longrightarrow>
   lookup_loop nm s p = Some (case find (\<lambda>e. ename s e = nm) es of None \<Rightarrow> 0 | Some e \<Rightarrow> evnode s e)"
proof (induction es arbitrary: p)
  case Nil
  then show ?case by (subst lookup_loop.simps) (simp add: ptr_def split: if_splits)
next
  case (Cons e es)
  then have "p = e" "p \<noteq> 0" "path (dnext s) (dnext s e) es" by (auto simp: ptr_def split: if_splits)
  with Cons.IH show ?case by (subst lookup_loop.simps) simp
qed

text \<open>The link at which the loop of \<open>vfs_unlink\<close> and \<open>vfs_rename\<close> stops.\<close>

lemma find_link_path:
  assumes "path (dnext s) (ptr (load_link s pp)) es"
  shows "\<exists>qq. find_link nm s pp = Some qq \<and>
     (case find (\<lambda>e. ename s e = nm) es of
        None \<Rightarrow> load_link s qq = 0
      | Some e \<Rightarrow> load_link s qq = e \<and> (\<exists>ys zs. es = ys @ e # zs \<and> qq = (if ys = [] then pp else Next (last ys))))"
  using assms
proof (induction es arbitrary: pp)
  case Nil
  then show ?case by (subst find_link.simps) (auto simp: ptr_def split: if_splits)
next
  case (Cons e es)
  then have e: "load_link s pp = e" "e \<noteq> 0" and p: "path (dnext s) (ptr (load_link s (Next e))) es"
    by (auto simp: ptr_def split: if_splits)
  show ?case
  proof (cases "ename s e = nm")
    case True
    then show ?thesis using e by (subst find_link.simps) (auto simp: Let_def)
  next
    case False
    then have "find_link nm s pp = find_link nm s (Next e)" using e by (subst find_link.simps) (simp add: Let_def)
    moreover obtain qq where q: "find_link nm s (Next e) = Some qq" and
      c: "case find (\<lambda>e. ename s e = nm) es of None \<Rightarrow> load_link s qq = 0
        | Some x \<Rightarrow> load_link s qq = x \<and> (\<exists>ys zs. es = ys @ x # zs \<and> qq = (if ys = [] then Next e else Next (last ys)))"
      using Cons.IH [OF p] by blast
    ultimately show ?thesis
    proof (cases "find (\<lambda>e. ename s e = nm) es")
      case (Some x)
      then obtain ys zs where "es = ys @ x # zs" "qq = (if ys = [] then Next e else Next (last ys))" "load_link s qq = x"
        using c by auto
      then have y: "e # es = (e # ys) @ x # zs" "qq = (if e # ys = [] then pp else Next (last (e # ys)))" "load_link s qq = x"
        by simp_all
      have f: "find (\<lambda>e. ename s e = nm) (e # es) = Some x" using Some False by simp
      have "\<exists>ys zs. e # es = ys @ x # zs \<and> qq = (if ys = [] then pp else Next (last ys))"
        by (rule exI [of _ "e # ys"], rule exI [of _ zs], rule conjI [OF y(1,2)])
      then show ?thesis
        by (intro exI [of _ qq] conjI) (simp only: q \<open>find_link nm s pp = _\<close>, simp only: f option.case y(3) simp_thms)
    qed (use False q c in simp)
  qed
qed

end
