(* ===== verification/Vfs_Dirs.thy ===== *)
theory Vfs_Dirs
  imports Vfs_Tree
begin

text \<open>
  The four changes the directory operations are made of, each with the proof
  that it keeps the invariant: linking an entry into a directory, unlinking
  one, a new vnode, and the release of a vnode no entry refers to.
\<close>

definition unref :: "live \<Rightarrow> vfs \<Rightarrow> u64 \<Rightarrow> bool" where
  "unref L s w \<longleftrightarrow> (\<forall>v es. L v = Some es \<longrightarrow> w \<notin> evnode s ` set es)"

text \<open>A frame that is taken and belongs to no live vnode.\<close>

definition loose :: "live \<Rightarrow> vfs \<Rightarrow> u64 \<Rightarrow> bool" where
  "loose L s a \<longleftrightarrow> a \<noteq> 0 \<and> a \<in> pfa_univ (fr s) - pfa_avail (fr s) \<and> (\<forall>v es. L v = Some es \<longrightarrow> a \<notin> set (cells s v es))"

lemma loose_vnode: "loose L s a \<Longrightarrow> L v = Some es \<Longrightarrow> a \<noteq> v \<and> a \<noteq> v_data (vnodes s v) \<and> a \<notin> set es"
  unfolding loose_def cells_def by fastforce

lemma tree_okI:
  assumes "pfa_inv (fr t)" "\<And>v es. K v = Some es \<Longrightarrow> node_ok K t v es"
    "\<And>v es. K v = Some es \<Longrightarrow> set (cells t v es) \<subseteq> pfa_univ (fr t) - pfa_avail (fr t)"
    "\<And>v es w ds. K v = Some es \<Longrightarrow> K w = Some ds \<Longrightarrow> v \<noteq> w \<Longrightarrow> set (cells t v es) \<inter> set (cells t w ds) = {}"
  shows "tree_ok K t"
  using assms unfolding tree_ok_def by blast

lemma node_ok_parts:
  assumes "node_ok L s v es"
  shows "distinct (cells s v es)" "0 \<notin> set (cells s v es)"
    "v_type (vnodes s v) = VDIR \<Longrightarrow> path (dnext s) (ptr (v_children (vnodes s v))) es"
    "v_type (vnodes s v) = VDIR \<Longrightarrow> v_nchildren (vnodes s v) = int (length es)"
    "v_type (vnodes s v) \<noteq> VDIR \<Longrightarrow> es = []"
    "distinct (map (ename s) es)" "distinct (map (evnode s) es)"
    "\<And>e. e \<in> set es \<Longrightarrow> evnode s e \<in> dom L" "\<And>e. e \<in> set es \<Longrightarrow> v_parent (vnodes s (evnode s e)) = v"
    "i_refcount (inodes s (v_data (vnodes s v))) = 1" "cache_list (inodes s (v_data (vnodes s v))) = 0"
    "v_op (vnodes s v) = Some 0"
  using assms by (simp_all add: node_ok_def split: if_splits)

lemma ptr_nonzero: "p \<noteq> 0 \<Longrightarrow> ptr p = Some p"
  by (simp add: ptr_def)

section \<open>Linking an entry\<close>

definition attach :: "u64 \<Rightarrow> u64 \<Rightarrow> string \<Rightarrow> u64 \<Rightarrow> vfs \<Rightarrow> vfs" where
  "attach d e nm w s =
     upd_vnode w (\<lambda>v. v\<lparr>v_parent := d\<rparr>)
       (upd_vnode d (\<lambda>v. v\<lparr>v_children := e, v_nchildren := v_nchildren v + 1\<rparr>)
         (upd_dirent e (\<lambda>_. \<lparr>de_name = nm, de_vnode = w, de_next = v_children (vnodes s d)\<rparr>) s))"

lemma attach_sel [simp]:
  "inodes (attach d e nm w s) = inodes s" "blk (attach d e nm w s) = blk s"
  "dirents (attach d e nm w s) = (dirents s)(e := \<lparr>de_name = nm, de_vnode = w, de_next = v_children (vnodes s d)\<rparr>)"
  "v_data (vnodes (attach d e nm w s) v) = v_data (vnodes s v)" "v_type (vnodes (attach d e nm w s) v) = v_type (vnodes s v)"
  "v_op (vnodes (attach d e nm w s) v) = v_op (vnodes s v)" "v_children (vnodes (attach d e nm w s) d) = e"
  "v_nchildren (vnodes (attach d e nm w s) d) = v_nchildren (vnodes s d) + 1"
  "v_parent (vnodes (attach d e nm w s) v) = (if v = w then d else v_parent (vnodes s v))"
  "v \<noteq> d \<Longrightarrow> vnodes (attach d e nm w s) v = (vnodes s v)\<lparr>v_parent := (if v = w then d else v_parent (vnodes s v))\<rparr>"
  by (simp_all add: attach_def)

lemma attach_node:
  assumes ok: "tree_ok L s" "L d = Some es" "v_type (vnodes s d) = VDIR" and e: "loose L s e"
    and w: "w \<in> dom L" "unref L s w" and nm: "nm \<notin> set (map (ename s) es)"
  shows "node_ok (L(d \<mapsto> e # es)) (attach d e nm w s) d (e # es)"
proof -
  let ?t = "attach d e nm w s"
  note n = node_ok_parts [OF tree_ok_node [OF ok(1,2)]]
  have ed: "e \<noteq> d" "e \<noteq> v_data (vnodes s d)" "e \<notin> set es" "e \<noteq> 0"
    using loose_vnode [OF e ok(2)] e by (simp_all add: loose_def)
  have "path (dnext ?t) q es = path (dnext s) q es" for q by (rule path_cong) (use ed in auto)
  then have p: "path (dnext ?t) (ptr (v_children (vnodes ?t d))) (e # es)"
    using n(3) [OF ok(3)] ptr_nonzero [OF ed(4)] by simp
  have m: "map (ename ?t) es = map (ename s) es" "map (evnode ?t) es = map (evnode s) es" using ed(3) by auto
  have w': "w \<notin> evnode s ` set es" using w(2) ok(2) by (simp add: unref_def)
  have "evnode ?t x \<in> dom (L(d \<mapsto> e # es)) \<and> v_parent (vnodes ?t (evnode ?t x)) = d" if "x \<in> set (e # es)" for x
  proof (cases "x = e")
    case False
    then have "x \<in> set es" using that by simp
    then show ?thesis using n(8,9) [of x] False w' by (auto simp del: attach_sel(10))
  qed (use w(1) in \<open>simp add: domIff\<close>)
  then show ?thesis
    using n ed m p ok(3) nm w' unfolding node_ok_def cells_def by (simp del: attach_sel(10) map_eq_conv)
qed

lemma attach_ok:
  assumes ok: "tree_ok L s" "L d = Some es" "v_type (vnodes s d) = VDIR" and e: "loose L s e"
    and w: "w \<in> dom L" "unref L s w" and nm: "nm \<notin> set (map (ename s) es)"
  shows "tree_ok (L(d \<mapsto> e # es)) (attach d e nm w s)"
proof (rule tree_okI)
  let ?t = "attach d e nm w s" and ?K = "L(d \<mapsto> e # es)"
  show "pfa_inv (fr ?t)" using tree_ok_pfa [OF ok(1)] by simp
  have c: "\<exists>us. L v = Some us \<and> set (cells ?t v vs) = set (cells s v us) \<union> (if v = d then {e} else {})"
    if "?K v = Some vs" for v vs
    using that ok(2) by (cases "v = d") (auto simp: cells_def simp del: attach_sel(10))
  show "set (cells ?t v vs) \<subseteq> pfa_univ (fr ?t) - pfa_avail (fr ?t)" if K: "?K v = Some vs" for v vs
  proof -
    obtain us where "L v = Some us" "set (cells ?t v vs) = set (cells s v us) \<union> (if v = d then {e} else {})"
      using c [OF K] by blast
    then show ?thesis using tree_ok_cells [OF ok(1)] e by (auto simp: loose_def)
  qed
  show "set (cells ?t v vs) \<inter> set (cells ?t u us) = {}" if K: "?K v = Some vs" "?K u = Some us" "v \<noteq> u" for v vs u us
  proof -
    obtain vs' us' where l: "L v = Some vs'" "set (cells ?t v vs) = set (cells s v vs') \<union> (if v = d then {e} else {})"
      "L u = Some us'" "set (cells ?t u us) = set (cells s u us') \<union> (if u = d then {e} else {})"
      using c [OF K(1)] c [OF K(2)] by blast
    then show ?thesis using tree_ok_apart [OF ok(1) l(1,3) K(3)] e K(3) unfolding loose_def by auto
  qed
  show "node_ok ?K ?t v vs" if K: "?K v = Some vs" for v vs
  proof (cases "v = d")
    case True
    then show ?thesis using attach_node [OF assms] K by simp
  next
    case False
    then have L: "L v = Some vs" using K by simp
    note n = tree_ok_node [OF ok(1) L]
    have x: "x \<noteq> e \<and> evnode s x \<noteq> w" if "x \<in> set vs" for x
      using that loose_vnode [OF e L] w(2) L unfolding unref_def by blast
    show ?thesis
      by (rule node_ok_cong [OF n attach_sel(10) [OF False]])
        (use x node_ok_parts(8,9) [OF n] in \<open>auto simp del: attach_sel(10)\<close>)
  qed
qed

section \<open>Unlinking an entry\<close>

definition detach :: "u64 \<Rightarrow> link \<Rightarrow> u64 \<Rightarrow> vfs \<Rightarrow> vfs" where
  "detach d qq e s = upd_vnode d (\<lambda>v. v\<lparr>v_nchildren := v_nchildren v - 1\<rparr>) (store_link qq (de_next (dirents s e)) s)"

lemma detach_sel:
  assumes "qq = (if ys = [] then Children d else Next (last ys))"
  shows "inodes (detach d qq e s) = inodes s" "blk (detach d qq e s) = blk s"
    "ename (detach d qq e s) x = ename s x" "evnode (detach d qq e s) x = evnode s x"
    "dnext (detach d qq e s) = (if ys = [] then dnext s else (dnext s)(last ys := dnext s e))"
    "v_data (vnodes (detach d qq e s) v) = v_data (vnodes s v)" "v_type (vnodes (detach d qq e s) v) = v_type (vnodes s v)"
    "v_op (vnodes (detach d qq e s) v) = v_op (vnodes s v)" "v_parent (vnodes (detach d qq e s) v) = v_parent (vnodes s v)"
    "v_children (vnodes (detach d qq e s) d) = (if ys = [] then de_next (dirents s e) else v_children (vnodes s d))"
    "v_nchildren (vnodes (detach d qq e s) d) = v_nchildren (vnodes s d) - 1"
    "v \<noteq> d \<Longrightarrow> vnodes (detach d qq e s) v = vnodes s v"
    "ys = [] \<or> x \<noteq> last ys \<Longrightarrow> dirents (detach d qq e s) x = dirents s x"
  using assms by (auto simp: detach_def)

lemma detach_node:
  assumes ok: "tree_ok L s" "L d = Some (ys @ e # zs)" "v_type (vnodes s d) = VDIR"
    and q: "qq = (if ys = [] then Children d else Next (last ys))"
  shows "node_ok (L(d \<mapsto> ys @ zs)) (detach d qq e s) d (ys @ zs)"
proof -
  let ?t = "detach d qq e s"
  note n = node_ok_parts [OF tree_ok_node [OF ok(1,2)]]
  note ds = detach_sel [OF q]
  have "distinct (ys @ e # zs)" using n(1) by (simp add: cells_def)
  from path_remove [OF n(3) [OF ok(3)] this]
  have p: "path (dnext ?t) (ptr (v_children (vnodes ?t d))) (ys @ zs)" unfolding ds by (simp split: if_splits)
  have "distinct (map (ename ?t) (ys @ zs))" "distinct (map (evnode ?t) (ys @ zs))" using n(6,7) unfolding ds by auto
  moreover have "distinct (cells ?t d (ys @ zs))" "0 \<notin> set (cells ?t d (ys @ zs))"
    using n(1,2) unfolding cells_def ds by auto
  moreover have "evnode ?t x \<in> dom (L(d \<mapsto> ys @ zs)) \<and> v_parent (vnodes ?t (evnode ?t x)) = d" if "x \<in> set (ys @ zs)" for x
    using n(8,9) [of x] that unfolding ds by auto
  ultimately show ?thesis using p n(4) [OF ok(3)] n(10-12) ok(3) unfolding node_ok_def ds by simp
qed

lemma detach_ok:
  assumes ok: "tree_ok L s" "L d = Some (ys @ e # zs)" "v_type (vnodes s d) = VDIR"
    and q: "qq = (if ys = [] then Children d else Next (last ys))"
  shows "tree_ok (L(d \<mapsto> ys @ zs)) (detach d qq e s)"
proof (rule tree_okI)
  let ?t = "detach d qq e s" and ?K = "L(d \<mapsto> ys @ zs)"
  note ds = detach_sel [OF q]
  show "pfa_inv (fr ?t)" using tree_ok_pfa [OF ok(1)] ds(2) by simp
  have c: "\<exists>us. L v = Some us \<and> set (cells ?t v vs) \<subseteq> set (cells s v us)" if "?K v = Some vs" for v vs
    using that ok(2) by (cases "v = d") (auto simp: cells_def ds)
  show "set (cells ?t v vs) \<subseteq> pfa_univ (fr ?t) - pfa_avail (fr ?t)" if K: "?K v = Some vs" for v vs
  proof -
    obtain us where "L v = Some us" "set (cells ?t v vs) \<subseteq> set (cells s v us)" using c [OF K] by blast
    then show ?thesis using tree_ok_cells [OF ok(1)] ds(2) by fastforce
  qed
  show "set (cells ?t v vs) \<inter> set (cells ?t u us) = {}" if K: "?K v = Some vs" "?K u = Some us" "v \<noteq> u" for v vs u us
  proof -
    obtain vs' us' where "L v = Some vs'" "set (cells ?t v vs) \<subseteq> set (cells s v vs')"
      "L u = Some us'" "set (cells ?t u us) \<subseteq> set (cells s u us')"
      using c [OF K(1)] c [OF K(2)] by blast
    then show ?thesis using tree_ok_apart [OF ok(1) _ _ K(3)] by blast
  qed
  show "node_ok ?K ?t v vs" if K: "?K v = Some vs" for v vs
  proof (cases "v = d")
    case True
    then show ?thesis using detach_node [OF assms] K by simp
  next
    case False
    then have L: "L v = Some vs" using K by simp
    note n = tree_ok_node [OF ok(1) L]
    have x: "ys = [] \<or> x \<noteq> last ys" if "x \<in> set vs" for x
    proof -
      have "set ys \<inter> set vs = {}" using tree_ok_apart [OF ok(1,2) L] False unfolding cells_def by auto
      then show ?thesis using that last_in_set [of ys] by blast
    qed
    show ?thesis
      by (rule node_ok_cong [OF n, where p = "v_parent (vnodes s v)"])
        (use x node_ok_parts(8,9) [OF n] ds False in \<open>auto\<close>)
  qed
qed

lemma detach_frees:
  assumes ok: "tree_ok L s" "L d = Some (ys @ e # zs)" "v_type (vnodes s d) = VDIR"
    and q: "qq = (if ys = [] then Children d else Next (last ys))"
  shows "loose (L(d \<mapsto> ys @ zs)) (detach d qq e s) e" "unref (L(d \<mapsto> ys @ zs)) (detach d qq e s) (evnode s e)"
    "evnode s e \<in> dom L"
proof -
  let ?t = "detach d qq e s" and ?K = "L(d \<mapsto> ys @ zs)"
  note n = node_ok_parts [OF tree_ok_node [OF ok(1,2)]] and ds = detach_sel [OF q]
  show "evnode s e \<in> dom L" using n(8) by simp
  have "e \<notin> set (cells ?t v vs)" if K: "?K v = Some vs" for v vs
  proof (cases "v = d")
    case True
    then show ?thesis using n(1) K unfolding cells_def ds by auto
  next
    case False
    then show ?thesis using tree_ok_apart [OF ok(1,2), of v vs] K unfolding cells_def ds by auto
  qed
  moreover have "e \<noteq> 0" "e \<in> pfa_univ (fr s) - pfa_avail (fr s)"
    using n(2) tree_ok_cells [OF ok(1,2)] by (auto simp: cells_def)
  ultimately show "loose ?K ?t e" unfolding loose_def ds by blast
  have "evnode s e \<notin> evnode s ` set vs" if K: "?K v = Some vs" for v vs
  proof (cases "v = d")
    case True
    then show ?thesis using n(7) K by auto
  next
    case False
    then have L: "L v = Some vs" using K by simp
    show ?thesis using node_ok_parts(9) [OF tree_ok_node [OF ok(1) L]] n(9) [of e] False by auto
  qed
  then show "unref ?K ?t (evnode s e)" unfolding unref_def ds by simp
qed

section \<open>A new vnode, and the release of one\<close>

lemma new_node_ok:
  assumes ok: "tree_ok L s" and v: "loose L s vp" and i: "loose L s ip" and vi: "vp \<noteq> ip"
  shows "tree_ok (L(vp \<mapsto> [])) (upd_inode ip (\<lambda>_. new_inode ty dev c) (upd_vnode vp (\<lambda>_. new_vnode ty ip) s))" (is "tree_ok ?K ?t")
proof (rule tree_okI)
  show "pfa_inv (fr ?t)" using tree_ok_pfa [OF ok] by simp
  have c: "if v = vp then set (cells ?t v vs) = {vp, ip} else L v = Some vs \<and> cells ?t v vs = cells s v vs"
    if "?K v = Some vs" for v vs using that by (auto simp: cells_def new_vnode_def)
  have "set (cells ?t v vs) \<subseteq> pfa_univ (fr s) - pfa_avail (fr s)" if "?K v = Some vs" for v vs
    using c [OF that] tree_ok_cells [OF ok, of v vs] v i unfolding loose_def by (auto split: if_splits)
  then show "set (cells ?t v vs) \<subseteq> pfa_univ (fr ?t) - pfa_avail (fr ?t)" if "?K v = Some vs" for v vs using that by simp
  show "set (cells ?t v vs) \<inter> set (cells ?t u us) = {}" if "?K v = Some vs" "?K u = Some us" "v \<noteq> u" for v vs u us
    using c [OF that(1)] c [OF that(2)] tree_ok_apart [OF ok, of v vs u us] that(3) v i unfolding loose_def
    by (auto split: if_splits)
  show "node_ok ?K ?t v vs" if K: "?K v = Some vs" for v vs
  proof (cases "v = vp")
    case True
    then show ?thesis using K v i vi
      by (auto simp: node_ok_def cells_def new_vnode_def new_inode_def ptr_def loose_def)
  next
    case False
    then have L: "L v = Some vs" using K by simp
    note n = tree_ok_node [OF ok L]
    have "evnode s x \<noteq> vp" if x: "x \<in> set vs" for x
      using node_ok_parts(8) [OF n x] loose_vnode [OF v] by auto
    then show ?thesis
      by (intro node_ok_cong [OF n, where p = "v_parent (vnodes s v)"])
        (use False loose_vnode [OF i L] node_ok_parts(8,9) [OF n] in auto)
  qed
qed

lemma drop_node_ok:
  assumes ok: "tree_ok L s" "L w = Some ds" "unref L s w"
    and f: "pfa_inv f" "pfa_univ f = pfa_univ (fr s)" "pfa_avail f \<subseteq> pfa_avail (fr s) \<union> set (cells s w ds)"
  shows "tree_ok (L(w := None)) (set_fr f (upd_inode (v_data (vnodes s w)) h s))" (is "tree_ok ?K ?t")
proof (rule tree_okI)
  have L: "L v = Some vs \<and> v \<noteq> w \<and> cells ?t v vs = cells s v vs \<and> set (cells s v vs) \<inter> set (cells s w ds) = {}"
    if "?K v = Some vs" for v vs
    using that tree_ok_apart [OF ok(1) _ ok(2), of v vs] by (auto simp: cells_def split: if_splits)
  show "pfa_inv (fr ?t)" using f(1) by simp
  show "set (cells ?t v vs) \<subseteq> pfa_univ (fr ?t) - pfa_avail (fr ?t)" if "?K v = Some vs" for v vs
    using L [OF that] tree_ok_cells [OF ok(1), of v vs] f(2,3) by auto
  show "set (cells ?t v vs) \<inter> set (cells ?t u us) = {}" if "?K v = Some vs" "?K u = Some us" "v \<noteq> u" for v vs u us
    using L [OF that(1)] L [OF that(2)] tree_ok_apart [OF ok(1), of v vs u us] that(3) by auto
  show "node_ok ?K ?t v vs" if K: "?K v = Some vs" for v vs
  proof -
    note n = tree_ok_node [OF ok(1) conjunct1 [OF L [OF K]]]
    have "evnode s x \<noteq> w" if "x \<in> set vs" for x using ok(3) L [OF K] that unfolding unref_def by blast
    moreover have "v_data (vnodes s v) \<noteq> v_data (vnodes s w)" using L [OF K] by (auto simp: cells_def)
    ultimately show ?thesis
      by (intro node_ok_cong [OF n, where p = "v_parent (vnodes s v)"]) (use node_ok_parts(8,9) [OF n] in auto)
  qed
qed

end
