(* ===== verification/Vfs_Refine.thy ===== *)
theory Vfs_Refine
  imports Vfs_Dirs
begin

text \<open>
  The directory operations refine operations on finite maps.  The abstract
  tree gives every live vnode its node: a file, or a directory with its map
  from names to vnodes.
\<close>

section \<open>The abstract tree\<close>

datatype node = File | Dir "string \<rightharpoonup> u64"

type_synonym tree = "u64 \<rightharpoonup> node"

definition entries :: "vfs \<Rightarrow> u64 list \<Rightarrow> string \<rightharpoonup> u64" where
  "entries s es = map_of (map (\<lambda>e. (ename s e, evnode s e)) es)"

definition tree_of :: "live \<Rightarrow> vfs \<Rightarrow> tree" where
  "tree_of L s v = map_option (\<lambda>es. if v_type (vnodes s v) = VDIR then Dir (entries s es) else File) (L v)"

datatype dir_op = Look u64 string | Creat u64 string | Mkdir u64 string | Rm u64 string | Mv u64 string u64 string

datatype dir_res = Node u64 | Code int

fun dir_step :: "dir_op \<Rightarrow> vfs \<Rightarrow> (dir_res \<times> vfs) option" where
  "dir_step (Look d nm) s = map_option (\<lambda>v. (Node v, s)) (vfs_lookup_ramfs d nm s)"
| "dir_step (Creat d nm) s = map_option (\<lambda>(v, s). (Node v, s)) (vfs_create_file d nm s)"
| "dir_step (Mkdir d nm) s = map_option (\<lambda>(v, s). (Node v, s)) (vfs_mkdir_ramfs d nm s)"
| "dir_step (Rm d nm) s = map_option (\<lambda>(r, s). (Code r, s)) (vfs_unlink d nm s)"
| "dir_step (Mv d nm d' nm') s = map_option (\<lambda>(r, s). (Code r, s)) (vfs_rename d nm d' nm' s)"

text \<open>
  A step of the abstract tree when \<open>n\<close> frames are free.  A directory entry, a
  vnode and an inode take one frame each, so with three frames a creation
  succeeds unless the name is taken.
\<close>

fun blank :: "dir_op \<Rightarrow> node" where
  "blank (Mkdir d nm) = Dir Map.empty"
| "blank _ = File"

inductive tree_step :: "nat \<Rightarrow> tree \<Rightarrow> dir_op \<Rightarrow> dir_res \<Rightarrow> tree \<Rightarrow> bool" for n and A where
  look: "A d = Some (Dir m) \<Longrightarrow> tree_step n A (Look d nm) (Node (case m nm of None \<Rightarrow> 0 | Some v \<Rightarrow> v)) A"
| look_file: "A d = Some File \<Longrightarrow> tree_step n A (Look d nm) (Node 0) A"
| make: "op \<in> {Creat d nm, Mkdir d nm} \<Longrightarrow> A d = Some (Dir m) \<Longrightarrow> m nm = None \<Longrightarrow> A v = None \<Longrightarrow> v \<noteq> 0 \<Longrightarrow>
    tree_step n A op (Node v) (A(d \<mapsto> Dir (m(nm \<mapsto> v)), v \<mapsto> blank op))"
| make_exists: "op \<in> {Creat d nm, Mkdir d nm} \<Longrightarrow> A d = Some (Dir m) \<Longrightarrow> m nm \<noteq> None \<Longrightarrow> tree_step n A op (Node 0) A"
| make_no_frame: "op \<in> {Creat d nm, Mkdir d nm} \<Longrightarrow> n < 3 \<Longrightarrow> tree_step n A op (Node 0) A"
| make_file: "op \<in> {Creat d nm, Mkdir d nm} \<Longrightarrow> A d = Some File \<Longrightarrow> tree_step n A op (Node 0) A"
| rm: "A d = Some (Dir m) \<Longrightarrow> m nm = Some w \<Longrightarrow> A w \<in> {Some File, Some (Dir Map.empty)} \<Longrightarrow>
    tree_step n A (Rm d nm) (Code 0) (A(d \<mapsto> Dir (m(nm := None)), w := None))"
| rm_missing: "A d = Some (Dir m) \<Longrightarrow> m nm = None \<Longrightarrow> tree_step n A (Rm d nm) (Code (- 1)) A"
| rm_nonempty: "A d = Some (Dir m) \<Longrightarrow> m nm = Some w \<Longrightarrow> A w = Some (Dir k) \<Longrightarrow> k \<noteq> Map.empty \<Longrightarrow>
    tree_step n A (Rm d nm) (Code (- 1)) A"
| rm_file: "A d = Some File \<Longrightarrow> tree_step n A (Rm d nm) (Code (- 1)) A"
| mv: "A d = Some (Dir m) \<Longrightarrow> m nm = Some w \<Longrightarrow> (A(d \<mapsto> Dir (m(nm := None)))) d' = Some (Dir k) \<Longrightarrow> k nm' = None \<Longrightarrow>
    tree_step n A (Mv d nm d' nm') (Code 0) (A(d \<mapsto> Dir (m(nm := None)), d' \<mapsto> Dir (k(nm' \<mapsto> w))))"
| mv_over: "A d = Some (Dir m) \<Longrightarrow> m nm = Some w \<Longrightarrow> A d' = Some (Dir j) \<Longrightarrow> j nm' = Some u \<Longrightarrow>
    A u \<in> {Some File, Some (Dir Map.empty)} \<Longrightarrow> B = A(d' \<mapsto> Dir (j(nm' := None)), u := None) \<Longrightarrow>
    B d = Some (Dir m') \<Longrightarrow> (B(d \<mapsto> Dir (m'(nm := None)))) d' = Some (Dir k) \<Longrightarrow>
    tree_step n A (Mv d nm d' nm') (Code 0) (B(d \<mapsto> Dir (m'(nm := None)), d' \<mapsto> Dir (k(nm' \<mapsto> w))))"
| mv_nonempty: "A d = Some (Dir m) \<Longrightarrow> m nm = Some w \<Longrightarrow> A d' = Some (Dir j) \<Longrightarrow> j nm' = Some u \<Longrightarrow>
    A u = Some (Dir k) \<Longrightarrow> k \<noteq> Map.empty \<Longrightarrow> tree_step n A (Mv d nm d' nm') (Code (- 1)) A"
| mv_missing: "A d = Some (Dir m) \<Longrightarrow> m nm = None \<Longrightarrow> tree_step n A (Mv d nm d' nm') (Code (- 1)) A"
| mv_file: "A d = Some File \<or> A d' = Some File \<Longrightarrow> tree_step n A (Mv d nm d' nm') (Code (- 1)) A"

text \<open>
  The arguments are live and new names fit the 64 bytes of an entry.  A renaming
  within one directory clobbers the list when the entry it displaces is the
  renamed one itself or the one before it, whose link the code still uses.
\<close>

fun allowed :: "tree \<Rightarrow> dir_op \<Rightarrow> bool" where
  "allowed A (Look d nm) = (d \<in> dom A)"
| "allowed A (Creat d nm) = (d \<in> dom A \<and> length nm \<le> 63)"
| "allowed A (Mkdir d nm) = (d \<in> dom A \<and> length nm \<le> 63)"
| "allowed A (Rm d nm) = (d \<in> dom A)"
| "allowed A (Mv d nm d' nm') = (d \<in> dom A \<and> d' \<in> dom A \<and> length nm' \<le> 63)"

fun clobbers :: "live \<Rightarrow> vfs \<Rightarrow> dir_op \<Rightarrow> bool" where
  "clobbers L s (Mv d nm d' nm') = (d = d' \<and> (nm = nm' \<or>
     (case L d of None \<Rightarrow> False
      | Some es \<Rightarrow> (nm', nm) \<in> set (zip (map (ename s) es) (map (ename s) (tl es))))))"
| "clobbers L s _ = False"

section \<open>The abstract tree after each change\<close>

lemma entries_find: "entries s es nm = map_option (evnode s) (find (\<lambda>e. ename s e = nm) es)"
  by (induction es) (simp_all add: entries_def)

lemma entries_None: "entries s es nm = None \<longleftrightarrow> nm \<notin> set (map (ename s) es)"
  by (induction es) (auto simp: entries_def)

lemma entries_cong:
  "(\<And>e. e \<in> set es \<Longrightarrow> ename t e = ename s e \<and> evnode t e = evnode s e) \<Longrightarrow> entries t es = entries s es"
  unfolding entries_def by (rule arg_cong [of _ _ map_of]) auto

lemma entries_upd [simp]:
  "entries (upd_inode i h s) = entries s" "entries (upd_vnode v g s) = entries s" "entries (set_fr f s) = entries s"
  "entries s [] = Map.empty"
  by (simp_all add: entries_def fun_eq_iff)

lemma entries_remove:
  "distinct (map (ename s) (ys @ e # zs)) \<Longrightarrow> entries s (ys @ zs) = (entries s (ys @ e # zs))(ename s e := None)"
proof (induction ys)
  case Nil
  then have "entries s zs (ename s e) = None" by (simp add: entries_None)
  then show ?case by (auto simp: entries_def fun_eq_iff)
qed (auto simp: entries_def fun_eq_iff)

lemma tree_of_attach:
  assumes "L d = Some es" "v_type (vnodes s d) = VDIR" "loose L s e"
  shows "tree_of (L(d \<mapsto> e # es)) (attach d e nm w s) = (tree_of L s)(d \<mapsto> Dir ((entries s es)(nm \<mapsto> w)))"
proof
  fix v
  let ?t = "attach d e nm w s"
  have "entries ?t vs = entries s vs" if "L v = Some vs" for v vs
    by (rule entries_cong) (use loose_vnode [OF assms(3) that] in auto)
  moreover from this [OF assms(1)] have "entries ?t (e # es) = (entries s es)(nm \<mapsto> w)" by (simp add: entries_def)
  ultimately show "tree_of (L(d \<mapsto> e # es)) ?t v = ((tree_of L s)(d \<mapsto> Dir ((entries s es)(nm \<mapsto> w)))) v"
    using assms(2) by (cases "L v") (auto simp: tree_of_def simp del: attach_sel(10))
qed

lemma tree_of_detach:
  assumes ok: "tree_ok L s" "L d = Some (ys @ e # zs)" "v_type (vnodes s d) = VDIR"
    and q: "qq = (if ys = [] then Children d else Next (last ys))"
  shows "tree_of (L(d \<mapsto> ys @ zs)) (detach d qq e s) = (tree_of L s)(d \<mapsto> Dir ((entries s (ys @ e # zs))(ename s e := None)))"
proof
  fix v
  have "entries (detach d qq e s) vs = entries s vs" for vs by (rule entries_cong) (simp add: detach_sel [OF q])
  then show "tree_of (L(d \<mapsto> ys @ zs)) (detach d qq e s) v = ((tree_of L s)(d \<mapsto> Dir ((entries s (ys @ e # zs))(ename s e := None)))) v"
    using ok(3) entries_remove [OF node_ok_parts(6) [OF tree_ok_node [OF ok(1,2)]]]
    by (cases "L v") (auto simp: tree_of_def detach_sel(7) [OF q])
qed

lemma tree_of_new:
  "tree_of (L(vp \<mapsto> [])) (upd_inode ip h (upd_vnode vp (\<lambda>_. new_vnode ty ip) s)) =
     (tree_of L s)(vp \<mapsto> (if ty = VDIR then Dir Map.empty else File))"
  by (rule ext) (auto simp: tree_of_def new_vnode_def cong: if_cong)

lemma tree_of_drop: "tree_of (L(w := None)) (set_fr f (upd_inode i h s)) = (tree_of L s)(w := None)"
  by (rule ext) (simp add: tree_of_def cong: if_cong)

lemma tree_of_set_fr [simp]: "tree_of L (set_fr f s) = tree_of L s"
  by (rule ext) (simp add: tree_of_def cong: if_cong)

section \<open>Lookup\<close>

lemma tree_of_Dir:
  assumes "tree_of L s d = Some (Dir m)"
  obtains es where "L d = Some es" "v_type (vnodes s d) = VDIR" "m = entries s es"
  using assms by (auto simp: tree_of_def split: if_splits)

lemma tree_of_File: "tree_of L s d = Some File \<Longrightarrow> v_type (vnodes s d) \<noteq> VDIR"
  by (auto simp: tree_of_def split: if_splits)

lemma live_nonzero: "tree_ok L s \<Longrightarrow> v \<in> dom L \<Longrightarrow> v \<noteq> 0"
  using node_ok_parts(2) [OF tree_ok_node, of L s v] by (auto simp: cells_def)

lemma entry_live: "tree_ok L s \<Longrightarrow> L d = Some es \<Longrightarrow> entries s es nm = Some w \<Longrightarrow> w \<in> dom L"
  using node_ok_parts(8) [OF tree_ok_node, of L s d es] find_SomeD [of _ es] by (auto simp: entries_find)

lemma lookup_ok:
  assumes "tree_ok L s" "L d = Some es" "v_type (vnodes s d) = VDIR"
  shows "vfs_lookup_ramfs d nm s = Some (case entries s es nm of None \<Rightarrow> 0 | Some w \<Rightarrow> w)"
  using live_nonzero [OF assms(1), of d] assms(2,3)
    lookup_loop_path [OF node_ok_parts(3) [OF tree_ok_node [OF assms(1,2)] assms(3)], of nm]
  by (cases "find (\<lambda>e. ename s e = nm) es") (simp_all add: vfs_lookup_ramfs_def entries_find domI)

section \<open>Creation\<close>

lemma set_fr_same [simp]: "set_fr (fr s) s = s"
  by (simp add: set_fr_def)

lemma set_fr_upd_inode: "upd_inode i h (set_fr f s) = set_fr f (upd_inode i h s)"
  by (simp add: set_fr_def upd_inode_def)

lemma finite_avail [simp]: "finite (pfa_avail f)"
  by (simp add: pfa_avail_def)

lemma create_vnode_cases:
  assumes inv: "pfa_inv (fr s)"
  obtains (none) f where "vfs_create_vnode ty s = (0, set_fr f s)" "pfa_inv f" "pfa_univ f = pfa_univ (fr s)"
      "pfa_avail f = pfa_avail (fr s)" "card (pfa_avail (fr s)) < 2"
  | (some) vp ip f c where "vfs_create_vnode ty s =
        (vp, upd_inode ip (\<lambda>_. new_inode ty (vfs_default_device s) c) (upd_vnode vp (\<lambda>_. new_vnode ty ip) (set_fr f s)))"
      "vp \<noteq> 0" "ip \<noteq> 0" "vp \<noteq> ip" "vp \<in> pfa_avail (fr s)" "ip \<in> pfa_avail (fr s)"
      "pfa_avail f = pfa_avail (fr s) - {vp, ip}" "pfa_univ f = pfa_univ (fr s)" "pfa_inv f"
  using inv
proof (cases rule: vfs_take_cases)
  case none
  then show thesis using inv
    by (intro that(1) [of "fr s"]) (simp_all add: vfs_create_vnode_def vfs_create_vnode_on_device_def)
next
  case (some vp f)
  have "pfa_inv (fr (set_fr f s))" using some(6) by simp
  then show thesis
  proof (cases rule: vfs_take_cases)
    case none
    have a: "pfa_avail (fr s) = {vp}" using none(2) some(3,4) by auto
    have "vp \<in> pfa_univ f" "vp \<notin> pfa_avail f" using pfa_pool.avail_univ [OF inv] some(3-5) by auto
    from pfa_pool.free_avail [OF some(6) this] show thesis
      using none some(1,2,4,5) a
      by (intro that(1) [of "pfa_free_frame vp f"])
        (simp_all add: vfs_create_vnode_def vfs_create_vnode_on_device_def vfs_give_eq)
  next
    case (some ip g)
    then show thesis using \<open>vfs_take s = _\<close> \<open>vp \<noteq> 0\<close> \<open>vp \<in> _\<close> \<open>pfa_avail f = _\<close> \<open>pfa_univ f = _\<close>
      by (intro that(2) [of vp ip "cur_cred s" g])
        (auto simp: vfs_create_vnode_def vfs_create_vnode_on_device_def)
  qed
qed

lemma fresh_loose: "tree_ok L s \<Longrightarrow> a \<in> pfa_avail (fr s) \<Longrightarrow> L v = Some es \<Longrightarrow> a \<notin> set (cells s v es)"
  using tree_ok_cells [of L s v es] by blast

lemma new_vnode_ok:
  assumes ok: "tree_ok L s" and a: "vp \<noteq> 0" "ip \<noteq> 0" "vp \<noteq> ip" "vp \<in> pfa_avail (fr s)" "ip \<in> pfa_avail (fr s)"
      "pfa_avail f = pfa_avail (fr s) - {vp, ip}" "pfa_univ f = pfa_univ (fr s)" "pfa_inv f"
    and t_def: "t = upd_inode ip (\<lambda>_. new_inode ty dev c) (upd_vnode vp (\<lambda>_. new_vnode ty ip) (set_fr f s))"
  shows "tree_ok (L(vp \<mapsto> [])) t" "unref (L(vp \<mapsto> [])) t vp" "L vp = None"
    "tree_of (L(vp \<mapsto> [])) t = (tree_of L s)(vp \<mapsto> (if ty = VDIR then Dir Map.empty else File))" "fr t = f"
    "L v = Some es \<Longrightarrow> vnodes t v = vnodes s v" "dirents t = dirents s"
proof -
  have sf: "tree_ok L (set_fr f s)" by (rule tree_ok_set_fr [OF ok a(8,7)]) (use a(6) in blast)
  have c: "cells (set_fr f s) v es = cells s v es" for v es by (simp add: cells_def)
  have lo: "loose L (set_fr f s) vp" "loose L (set_fr f s) ip"
    using a pfa_pool.avail_univ [OF tree_ok_pfa [OF ok]] fresh_loose [OF ok] unfolding loose_def c by auto
  show "tree_ok (L(vp \<mapsto> [])) t" unfolding t_def by (rule new_node_ok [OF sf lo a(3)])
  show n: "L vp = None" using fresh_loose [OF ok a(4), of vp] by (cases "L vp") (auto simp: cells_def)
  show "unref (L(vp \<mapsto> [])) t vp"
    using node_ok_parts(8) [OF tree_ok_node [OF ok]] n unfolding unref_def t_def by (auto split: if_splits)
  show "tree_of (L(vp \<mapsto> [])) t = (tree_of L s)(vp \<mapsto> (if ty = VDIR then Dir Map.empty else File))"
    unfolding t_def tree_of_new by simp
  show "fr t = f" "dirents t = dirents s" by (simp_all add: t_def)
  show "vnodes t v = vnodes s v" if "L v = Some es" using that n by (auto simp: t_def)
qed

abbreviation free_both :: "u64 \<Rightarrow> u64 \<Rightarrow> pfa \<Rightarrow> pfa" where
  "free_both w i f \<equiv> pfa_free_frame w (pfa_free_frame i f)"

lemma free_vnode_eq:
  assumes "v_data (vnodes s w) = i" "w \<noteq> 0" "i \<noteq> 0" "cache_list (inodes s i) = 0"
  shows "vfs_free_vnode w s = Some (set_fr (free_both w i (fr s)) s)"
proof -
  have "free_pages 0 s = Some s" by (subst free_pages.simps) simp
  then show ?thesis using assms by (simp add: vfs_free_vnode_def vfs_give_eq)
qed

lemma free_vnode_ok:
  assumes ok: "tree_ok L s" "L w = Some ds" "unref L s w" and i: "i = v_data (vnodes s w)"
  shows "tree_ok (L(w := None)) (set_fr (free_both w i (fr s)) (upd_inode i h s))"
    "vfs_free_vnode w s = Some (set_fr (free_both w i (fr s)) s)"
proof -
  note n = node_ok_parts [OF tree_ok_node [OF ok(1,2)]]
  have c: "w \<noteq> i" "w \<noteq> 0" "i \<noteq> 0" "{w, i} \<subseteq> pfa_univ (fr s) - pfa_avail (fr s)"
    using n(1,2) tree_ok_cells [OF ok(1,2)] i by (auto simp: cells_def)
  show "vfs_free_vnode w s = Some (set_fr (free_both w i (fr s)) s)"
    by (rule free_vnode_eq) (use c n(11) i in simp_all)
  have 1: "pfa_avail (pfa_free_frame i (fr s)) = insert i (pfa_avail (fr s)) \<and>
      pfa_univ (pfa_free_frame i (fr s)) = pfa_univ (fr s) \<and> pfa_inv (pfa_free_frame i (fr s))"
    by (rule pfa_pool.free_avail [OF tree_ok_pfa [OF ok(1)]]) (use c in auto)
  have 2: "pfa_avail (free_both w i (fr s)) = insert w (pfa_avail (pfa_free_frame i (fr s))) \<and>
      pfa_univ (free_both w i (fr s)) = pfa_univ (pfa_free_frame i (fr s)) \<and> pfa_inv (free_both w i (fr s))"
    by (rule pfa_pool.free_avail) (use 1 c in auto)
  show "tree_ok (L(w := None)) (set_fr (free_both w i (fr s)) (upd_inode i h s))"
    unfolding i by (rule drop_node_ok [OF ok]) (use 1 2 i in \<open>auto simp: cells_def\<close>)
qed

text \<open>Linking the new vnode, or giving it back when there is no frame for the entry.\<close>

lemma add_dirent_cases:
  assumes ok: "tree_ok L s" "L d = Some es" "v_type (vnodes s d) = VDIR"
    and w: "w \<in> dom L" "unref L s w" and nm: "entries s es nm = None" "length nm \<le> 63"
  obtains (none) "vfs_add_dirent d nm w s = Some (- 1, s)" "pfa_avail (fr s) = {}"
  | (some) e t where "vfs_add_dirent d nm w s = Some (0, t)" "tree_ok (L(d \<mapsto> e # es)) t"
      "tree_of (L(d \<mapsto> e # es)) t = (tree_of L s)(d \<mapsto> Dir ((entries s es)(nm \<mapsto> w)))"
  using tree_ok_pfa [OF ok(1)]
proof (cases rule: vfs_take_cases)
  case none
  then show thesis using live_nonzero [OF ok(1)] w(1) ok nm lookup_ok [OF ok, of nm]
    by (intro that(1)) (simp_all add: vfs_add_dirent_def domI)
next
  case (some e f)
  let ?s = "set_fr f s"
  have sf: "tree_ok L ?s" by (rule tree_ok_set_fr [OF ok(1) some(6,5)]) (use some(4) in blast)
  have lo: "loose L ?s e"
    using some pfa_pool.avail_univ [OF tree_ok_pfa [OF ok(1)]] fresh_loose [OF ok(1) some(3)]
    unfolding loose_def by (auto simp: cells_def)
  have "vfs_add_dirent d nm w s = Some (0, attach d e nm w ?s)"
    using some(1,2) live_nonzero [OF ok(1)] w(1) ok nm lookup_ok [OF ok, of nm]
    by (simp add: vfs_add_dirent_def attach_def domI)
  moreover have "tree_ok (L(d \<mapsto> e # es)) (attach d e nm w ?s)"
    by (rule attach_ok [OF sf]) (use ok lo w nm entries_None [of s es nm] in \<open>auto simp: unref_def\<close>)
  moreover have "tree_of (L(d \<mapsto> e # es)) (attach d e nm w ?s) = (tree_of L s)(d \<mapsto> Dir ((entries s es)(nm \<mapsto> w)))"
    using tree_of_attach [OF ok(2) _ lo, of nm w] ok(3) by simp
  ultimately show thesis by (rule that(2))
qed

lemma make_ok:
  assumes ok: "tree_ok L s" "L d = Some es" "v_type (vnodes s d) = VDIR" and nm: "entries s es nm = None" "length nm \<le> 63"
  obtains (none) t where "ramfs_make ty d nm s = Some (0, t)" "tree_ok L t" "tree_of L t = tree_of L s" "card (pfa_avail (fr s)) < 3"
  | (some) v K t where "ramfs_make ty d nm s = Some (v, t)" "tree_ok K t" "v \<noteq> 0" "L v = None"
      "tree_of K t = (tree_of L s)(d \<mapsto> Dir ((entries s es)(nm \<mapsto> v)), v \<mapsto> (if ty = VDIR then Dir Map.empty else File))"
  using tree_ok_pfa [OF ok(1)]
proof (cases rule: create_vnode_cases [where ty = ty])
  case (none f)
  have "ramfs_make ty d nm s = Some (0, set_fr f s)"
    using none(1) live_nonzero [OF ok(1)] ok nm lookup_ok [OF ok, of nm] by (simp add: ramfs_make_def domI)
  moreover have "tree_ok L (set_fr f s)" by (rule tree_ok_set_fr [OF ok(1) none(2,3)]) (use none(4) in simp)
  ultimately show thesis using none(5) by (intro that(1) [of "set_fr f s"]) simp_all
next
  case (some vp ip f c)
  define t where "t = upd_inode ip (\<lambda>_. new_inode ty (vfs_default_device s) c) (upd_vnode vp (\<lambda>_. new_vnode ty ip) (set_fr f s))"
  note n = new_vnode_ok [OF ok(1) some(2-9) t_def]
  let ?L = "L(vp \<mapsto> [])"
  have dv: "d \<noteq> vp" and L: "?L d = Some es" using n(3) ok(2) by auto
  have ty: "v_type (vnodes t d) = VDIR" using n(6) [OF ok(2)] ok(3) by simp
  have en: "entries t es = entries s es" by (rule entries_cong) (simp add: n(7))
  have m: "ramfs_make ty d nm s = do { (r, u) \<leftarrow> vfs_add_dirent d nm vp t;
      if r \<noteq> 0 then do { u \<leftarrow> vfs_free_vnode vp u; Some (0, u) } else Some (vp, u) }"
    using some(1,2) live_nonzero [OF ok(1)] ok nm lookup_ok [OF ok, of nm] unfolding t_def
    by (simp add: ramfs_make_def domI)
  have "vp \<in> dom ?L" "entries t es nm = None" using nm(1) en by simp_all
  from n(1) L ty this(1) n(2) this(2) nm(2) show thesis
  proof (cases rule: add_dirent_cases)
    case none
    let ?g = "free_both vp (v_data (vnodes t vp)) (fr t)"
    have "?L vp = Some []" by simp
    note g = free_vnode_ok(2) [OF n(1) this n(2) refl] free_vnode_ok(1) [OF n(1) this n(2) refl, where h = "\<lambda>x. x"]
    have l: "?L(vp := None) = L" using n(3) by auto
    have u: "upd_inode i (\<lambda>x. x) t = t" for i by (simp add: upd_inode_def)
    have "tree_of L (set_fr ?g t) = tree_of L s" using arg_cong [OF n(4), of "\<lambda>T. T(vp := None)"] n(3) l
      tree_of_drop [of ?L vp ?g 0 "\<lambda>x. x" t] by (simp add: u) (auto simp: tree_of_def)
    moreover have "card (pfa_avail (fr s)) < 3"
    proof -
      have "pfa_avail (fr s) - {vp, ip} = {}" using none(2) n(5) some(7) by simp
      then have "card (pfa_avail (fr s)) \<le> card {vp, ip}" by (intro card_mono) auto
      moreover have "card {vp, ip} = 2" using some(4) by (rule card_2_iff [THEN iffD2, OF exI, OF exI, OF conjI [OF refl]])
      ultimately show ?thesis by linarith
    qed
    ultimately show thesis using m none(1) g l u by (intro that(1) [of "set_fr ?g t"]) simp_all
  next
    case (some e u)
    have "tree_of (?L(d \<mapsto> e # es)) u = (tree_of L s)(d \<mapsto> Dir ((entries s es)(nm \<mapsto> vp)), vp \<mapsto> (if ty = VDIR then Dir Map.empty else File))"
      using some(3) n(4) en dv by (simp add: fun_upd_twist)
    then show thesis using m some(1,2) \<open>vp \<noteq> 0\<close> n(3) by (intro that(2) [of vp u "?L(d \<mapsto> e # es)"]) simp_all
  qed
qed

section \<open>Removal and renaming\<close>

text \<open>The loop over the links of a live directory, and the entry at which it stops.\<close>

lemma find_link_ok:
  assumes ok: "tree_ok L s" "L d = Some es" "v_type (vnodes s d) = VDIR"
  obtains (missing) qq where "find_link nm s (Children d) = Some qq" "load_link s qq = 0" "entries s es nm = None"
  | (found) qq e ys zs where "find_link nm s (Children d) = Some qq" "load_link s qq = e" "es = ys @ e # zs"
      "qq = (if ys = [] then Children d else Next (last ys))" "ename s e = nm" "entries s es nm = Some (evnode s e)" "e \<noteq> 0"
proof -
  have p: "path (dnext s) (ptr (load_link s (Children d))) es"
    using node_ok_parts(3) [OF tree_ok_node [OF ok(1,2)] ok(3)] by simp
  obtain qq where q: "find_link nm s (Children d) = Some qq" and
    c: "case find (\<lambda>e. ename s e = nm) es of None \<Rightarrow> load_link s qq = 0
      | Some e \<Rightarrow> load_link s qq = e \<and> (\<exists>ys zs. es = ys @ e # zs \<and> qq = (if ys = [] then Children d else Next (last ys)))"
    using find_link_path [OF p, of nm] by blast
  show thesis
  proof (cases "find (\<lambda>e. ename s e = nm) es")
    case None
    then show thesis using q c by (intro missing) (simp_all add: entries_find)
  next
    case (Some e)
    then obtain ys zs where y: "es = ys @ e # zs" "qq = (if ys = [] then Children d else Next (last ys))" "load_link s qq = e"
      using c by auto
    have "e \<noteq> 0" using node_ok_parts(2) [OF tree_ok_node [OF ok(1,2)]] y(1) by (auto simp: cells_def)
    then show thesis using found [OF q y(3,1,2)] Some find_SomeD [OF Some] by (simp add: entries_find)
  qed
qed

lemma give_loose_ok:
  assumes "tree_ok L s" "loose L s e"
  shows "tree_ok L (vfs_give e s)"
proof -
  have a: "pfa_avail (pfa_free_frame e (fr s)) = insert e (pfa_avail (fr s)) \<and>
      pfa_univ (pfa_free_frame e (fr s)) = pfa_univ (fr s) \<and> pfa_inv (pfa_free_frame e (fr s))"
    by (rule pfa_pool.free_avail [OF tree_ok_pfa [OF assms(1)]]) (use assms(2) in \<open>auto simp: loose_def\<close>)
  have n: "node_ok L (set_fr f s) v es = node_ok L s v es" for f v es by (simp add: node_ok_def cells_def)
  have c: "cells (set_fr f s) v es = cells s v es" for f v es by (simp add: cells_def)
  have x: "set (cells s v es) \<subseteq> pfa_univ (fr s) - insert e (pfa_avail (fr s))" if "L v = Some es" for v es
    using tree_ok_cells [OF assms(1) that] assms(2) that unfolding loose_def by blast
  show ?thesis
    by (rule tree_okI) (use a x assms(1) tree_ok_node [OF assms(1)] tree_ok_apart [OF assms(1)] in \<open>simp_all add: n c vfs_give_eq\<close>)
qed

lemma empty_dir_iff:
  assumes "tree_ok L s" "L w = Some ds"
  shows "(v_type (vnodes s w) = VDIR \<and> v_nchildren (vnodes s w) > 0) \<longleftrightarrow> ds \<noteq> []"
    "tree_of L s w \<in> {Some File, Some (Dir Map.empty)} \<longleftrightarrow> ds = []"
proof -
  note n = node_ok_parts [OF tree_ok_node [OF assms]]
  show "(v_type (vnodes s w) = VDIR \<and> v_nchildren (vnodes s w) > 0) \<longleftrightarrow> ds \<noteq> []"
    using n(4,5) by (cases "v_type (vnodes s w) = VDIR") auto
  show "tree_of L s w \<in> {Some File, Some (Dir Map.empty)} \<longleftrightarrow> ds = []"
    using n(5) assms(2) by (cases ds) (auto simp: tree_of_def entries_def split: if_splits)
qed

lemma unlink_ok:
  assumes ok: "tree_ok L s" "L d = Some es" "v_type (vnodes s d) = VDIR"
    and w: "entries s es nm = Some w" "L w = Some []"
  obtains K t where "vfs_unlink d nm s = Some (0, t)" "tree_ok K t"
    "tree_of K t = (tree_of L s)(d \<mapsto> Dir ((entries s es)(nm := None)), w := None)"
  using ok
proof (cases rule: find_link_ok [where nm = nm])
  case (missing qq)
  then show thesis using w(1) by simp
next
  case (found qq e ys zs)
  let ?s = "detach d qq e s" and ?L = "L(d \<mapsto> ys @ zs)"
  have ld: "L d = Some (ys @ e # zs)" and we: "w = evnode s e" using ok(2) found(3,6) w(1) by simp_all
  note dt = detach_ok [OF ok(1) ld ok(3) found(4)] detach_frees [OF ok(1) ld ok(3) found(4)]
    tree_of_detach [OF ok(1) ld ok(3) found(4)] detach_sel [OF found(4)]
  have wd: "w \<noteq> d" using w(2) ld by auto
  let ?u = "vfs_give e ?s" and ?i = "v_data (vnodes s w)" and ?h = "\<lambda>i. i\<lparr>i_refcount := i_refcount i - 1\<rparr>"
  have gu: "tree_ok ?L ?u" by (rule give_loose_ok [OF dt(1,2)])
  have lw: "?L w = Some []" using w(2) wd by simp
  have un: "unref ?L ?u w" using dt(3) we by (simp add: unref_def vfs_give_eq)
  have vu: "v_data (vnodes ?u w) = ?i" using dt(11) by (simp add: vfs_give_eq)
  let ?f = "free_both w ?i (fr ?u)"
  note f = free_vnode_ok(1) [OF gu lw un vu [symmetric], where h = ?h]
  have i0: "?i \<noteq> 0" "i_refcount (inodes s ?i) = 1" "cache_list (inodes s ?i) = 0"
    using node_ok_parts(2,10,11) [OF tree_ok_node [OF ok(1) w(2)]] by (auto simp: cells_def)
  have iu: "inodes ?u = inodes s" using dt(6) by (simp add: vfs_give_eq)
  have f': "vfs_free_vnode w (upd_inode ?i ?h ?u) = Some (set_fr ?f (upd_inode ?i ?h ?u))"
    using free_vnode_eq [of "upd_inode ?i ?h ?u" w ?i] live_nonzero [OF ok(1)] w(2) i0 iu vu by (simp add: domI)
  have nd: "\<not> (v_type (vnodes s w) = VDIR \<and> v_nchildren (vnodes s w) > 0)" using empty_dir_iff(1) [OF ok(1) w(2)] by simp
  have "vfs_unlink d nm s = Some (0, set_fr ?f (upd_inode ?i ?h ?u))"
  proof -
    have r: "i_refcount (inodes (upd_inode ?i ?h ?u) ?i) = 0" using i0(2) iu by simp
    have d0: "d \<noteq> 0" using live_nonzero [OF ok(1)] ok(2) by (simp add: domI)
    show ?thesis
      unfolding vfs_unlink_def found(1) Let_def
      using d0 ok(3) found(2,7) nd we i0(1) f' r vu by (simp add: detach_def del: upd_sel)
  qed
  moreover have "tree_of (?L(w := None)) (set_fr ?f (upd_inode ?i ?h ?u)) =
      (tree_of L s)(d \<mapsto> Dir ((entries s es)(nm := None)), w := None)"
    unfolding tree_of_drop unfolding vfs_give_eq tree_of_set_fr dt(5) using found(3,5) by simp
  ultimately show thesis using f by (intro that [of "set_fr ?f (upd_inode ?i ?h ?u)" "?L(w := None)"])
qed

lemma rename_move_eq:
  "rename_move qq e d d' nm s = attach d' e nm (evnode s e) (detach d qq e s)" if "evnode (detach d qq e s) e = evnode s e"
proof -
  have eq: "(x\<lparr>de_name := a, de_next := b\<rparr> :: dir_entry) = \<lparr>de_name = a, de_vnode = de_vnode x, de_next = b\<rparr>" for x a b
    by (cases x) simp
  show ?thesis
    using that unfolding rename_move_def attach_def Let_def detach_def [symmetric]
    by (simp add: upd_dirent_def upd_vnode_def eq)
qed

lemma rename_move_ok:
  assumes ok: "tree_ok L s" "L d = Some (ys @ e # zs)" "v_type (vnodes s d) = VDIR"
    and q: "qq = (if ys = [] then Children d else Next (last ys))"
    and d': "L d' = Some es'" "v_type (vnodes s d') = VDIR"
    and nm': "nm' \<notin> ename s ` set (if d' = d then ys @ zs else es')"
  obtains K k where "tree_ok K (rename_move qq e d d' nm' s)" "k nm' = None"
    "((tree_of L s)(d \<mapsto> Dir ((entries s (ys @ e # zs))(ename s e := None)))) d' = Some (Dir k)"
    "tree_of K (rename_move qq e d d' nm' s) =
      (tree_of L s)(d \<mapsto> Dir ((entries s (ys @ e # zs))(ename s e := None)), d' \<mapsto> Dir (k(nm' \<mapsto> evnode s e)))"
proof -
  let ?s = "detach d qq e s" and ?L = "L(d \<mapsto> ys @ zs)" and ?w = "evnode s e"
  note dt = detach_ok [OF ok q] detach_frees [OF ok q] tree_of_detach [OF ok q] detach_sel [OF q]
  define us where "us = (if d' = d then ys @ zs else es')"
  have us: "?L d' = Some us" using d'(1) by (auto simp: us_def)
  have nm: "nm' \<notin> ename s ` set us" using nm' by (simp add: us_def)
  have en: "entries ?s us = entries s us" by (rule entries_cong) (simp add: dt)
  have mv: "rename_move qq e d d' nm' s = attach d' e nm' ?w ?s" by (rule rename_move_eq) (rule dt(9))
  have "tree_ok (?L(d' \<mapsto> e # us)) (attach d' e nm' ?w ?s)"
  proof (rule attach_ok [OF dt(1) us _ dt(2)])
    show "v_type (vnodes ?s d') = VDIR" using dt(12) d'(2) by simp
    show "?w \<in> dom ?L" "unref ?L ?s ?w" using dt(3,4) by auto
    show "nm' \<notin> set (map (ename ?s) us)" using nm dt(8) by auto
  qed
  moreover have "((tree_of L s)(d \<mapsto> Dir ((entries s (ys @ e # zs))(ename s e := None)))) d' = Some (Dir (entries s us))"
    using fun_cong [OF dt(5), of d'] us en dt(12) d'(2) by (simp add: tree_of_def)
  moreover have "tree_of (?L(d' \<mapsto> e # us)) (attach d' e nm' ?w ?s) =
      (tree_of L s)(d \<mapsto> Dir ((entries s (ys @ e # zs))(ename s e := None)), d' \<mapsto> Dir ((entries s us)(nm' \<mapsto> ?w)))"
    using tree_of_attach [OF us _ dt(2), of nm' ?w] dt(5,12) d'(2) en by simp
  moreover have "entries s us nm' = None" using nm by (simp add: entries_None)
  ultimately show thesis unfolding mv [symmetric] by (intro that [of "?L(d' \<mapsto> e # us)" "entries s us"])
qed

lemma rename_ok:
  assumes ok: "tree_ok L s" "L d = Some es" "v_type (vnodes s d) = VDIR" "L d' = Some es'" "v_type (vnodes s d') = VDIR"
    and w: "entries s es nm = Some w" and nm': "entries s es' nm' = None" "length nm' \<le> 63"
  obtains K t k where "vfs_rename d nm d' nm' s = Some (0, t)" "tree_ok K t" "k nm' = None"
    "((tree_of L s)(d \<mapsto> Dir ((entries s es)(nm := None)))) d' = Some (Dir k)"
    "tree_of K t = (tree_of L s)(d \<mapsto> Dir ((entries s es)(nm := None)), d' \<mapsto> Dir (k(nm' \<mapsto> w)))"
  using ok(1-3)
proof (cases rule: find_link_ok [where nm = nm])
  case (missing qq)
  then show thesis using w by simp
next
  case (found qq e ys zs)
  have ld: "L d = Some (ys @ e # zs)" and we: "w = evnode s e" using ok(2) found(3,6) w by simp_all
  obtain qd where qd: "find_link nm' s (Children d') = Some qd" "load_link s qd = 0"
    using ok(1,4,5) by (cases rule: find_link_ok [where nm = nm']) (use nm'(1) in auto)
  have "nm' \<notin> ename s ` set (if d' = d then ys @ zs else es')" using nm'(1) ok(4) ld by (auto simp: entries_None)
  then obtain K k where "tree_ok K (rename_move qq e d d' nm' s)" "k nm' = None"
    "((tree_of L s)(d \<mapsto> Dir ((entries s (ys @ e # zs))(ename s e := None)))) d' = Some (Dir k)"
    "tree_of K (rename_move qq e d d' nm' s) =
      (tree_of L s)(d \<mapsto> Dir ((entries s (ys @ e # zs))(ename s e := None)), d' \<mapsto> Dir (k(nm' \<mapsto> evnode s e)))"
    by (rule rename_move_ok [OF ok(1) ld ok(3) found(4) ok(4,5)]) (rule that)
  moreover have "vfs_rename d nm d' nm' s = Some (0, rename_move qq e d d' nm' s)"
    using found(1,2,7) qd live_nonzero [OF ok(1)] ok nm'(2) by (simp add: vfs_rename_def domI)
  ultimately show thesis using found(3,5) we by (intro that [of "rename_move qq e d d' nm' s" K k]) simp_all
qed

text \<open>
  Displacing the entry of the target name: the entry's frame goes back to the
  allocator, the vnode and its inode, with a count of zero, stay taken for good.
\<close>

lemma rename_displace_sel:
  assumes "load_link s pp = e" "pp = (if ys = [] then Children d else Next (last ys))"
  shows "ename (rename_displace d pp s) x = ename s x" "evnode (rename_displace d pp s) x = evnode s x"
    "v_type (vnodes (rename_displace d pp s) v) = v_type (vnodes s v)"
  using assms by (auto simp: rename_displace_def Let_def vfs_give_eq)

lemma displace_ok:
  assumes ok: "tree_ok L s" "L d = Some (ys @ e # zs)" "v_type (vnodes s d) = VDIR"
    and q: "qq = (if ys = [] then Children d else Next (last ys))" "load_link s qq = e" and w: "L (evnode s e) = Some []"
  shows "tree_ok (L(d \<mapsto> ys @ zs, evnode s e := None)) (rename_displace d qq s)"
    "tree_of (L(d \<mapsto> ys @ zs, evnode s e := None)) (rename_displace d qq s) =
      (tree_of L s)(d \<mapsto> Dir ((entries s (ys @ e # zs))(ename s e := None)), evnode s e := None)"
proof -
  let ?s = "detach d qq e s" and ?L = "L(d \<mapsto> ys @ zs)" and ?w = "evnode s e"
  note dt = detach_ok [OF ok q(1)] detach_frees [OF ok q(1)] tree_of_detach [OF ok q(1)] detach_sel [OF q(1)]
  let ?u = "vfs_give e ?s" and ?i = "v_data (vnodes s ?w)" and ?h = "\<lambda>i. i\<lparr>i_refcount := i_refcount i - 1\<rparr>"
  have wd: "?w \<noteq> d" using w ok(2) by auto
  have gu: "tree_ok ?L ?u" by (rule give_loose_ok [OF dt(1,2)])
  have lw: "?L ?w = Some []" using w wd by simp
  have un: "unref ?L ?u ?w" using dt(3) by (simp add: unref_def vfs_give_eq)
  have vu: "v_data (vnodes ?u ?w) = ?i" using dt(11) by (simp add: vfs_give_eq)
  have i0: "?i \<noteq> 0" using node_ok_parts(2) [OF tree_ok_node [OF ok(1) w]] by (auto simp: cells_def)
  have same: "set_fr (fr ?u) (upd_inode ?i ?h ?u) = upd_inode ?i ?h ?u" by (simp add: set_fr_def upd_inode_def)
  have r: "rename_displace d qq s = upd_inode ?i ?h ?u"
    using q(2) vu i0 unfolding rename_displace_def Let_def detach_def by simp
  have "tree_ok (?L(?w := None)) (set_fr (fr ?u) (upd_inode (v_data (vnodes ?u ?w)) ?h ?u))"
    by (rule drop_node_ok [OF gu lw un tree_ok_pfa [OF gu]]) auto
  then show "tree_ok (L(d \<mapsto> ys @ zs, ?w := None)) (rename_displace d qq s)" unfolding r vu same .
  have "tree_of (?L(?w := None)) (set_fr (fr ?u) (upd_inode ?i ?h ?u)) =
      (tree_of L s)(d \<mapsto> Dir ((entries s (ys @ e # zs))(ename s e := None)), ?w := None)"
    unfolding tree_of_drop unfolding vfs_give_eq tree_of_set_fr dt(5) by simp
  then show "tree_of (L(d \<mapsto> ys @ zs, ?w := None)) (rename_displace d qq s) =
      (tree_of L s)(d \<mapsto> Dir ((entries s (ys @ e # zs))(ename s e := None)), ?w := None)" unfolding r same .
qed

lemma two_in_list:
  "ys @ x # zs = ys' @ y # zs' \<Longrightarrow> x \<noteq> y \<Longrightarrow>
     (\<exists>b. ys = ys' @ y # b \<and> zs' = b @ x # zs) \<or> (\<exists>a. zs = a @ y # zs' \<and> ys' = ys @ x # a)"
  by (auto simp: append_eq_append_conv2 Cons_eq_append_conv append_eq_Cons_conv)

lemma neighbours_in_zip: "(f a, f b) \<in> set (zip (map f (as @ a # b # cs)) (map f (tl (as @ a # b # cs))))"
proof (induction as)
  case (Cons x as)
  then show ?case by (cases as) simp_all
qed simp

text \<open>The link to the renamed entry stays the same link when another entry is displaced.\<close>

lemma displace_keeps_link:
  assumes "L d = Some (ys @ e # zs)" "L d' = Some (ys' @ e' # zs')" "ename s e = nm" "ename s e' = nm'"
    "L u = Some []" "\<not> clobbers L s (Mv d nm d' nm')"
  obtains as bs where "(L(d' \<mapsto> ys' @ zs', u := None)) d = Some (as @ e # bs)"
    "(if as = [] then Children d else Next (last as)) = (if ys = [] then Children d else Next (last ys))"
    "d' = d \<Longrightarrow> as @ e # bs = ys' @ zs'"
proof (cases "d' = d")
  case False
  moreover have "u \<noteq> d" using assms(1,5) by auto
  ultimately show thesis using assms(1) by (intro that [of ys zs]) auto
next
  case True
  have ud: "u \<noteq> d" using assms(1,5) by auto
  have "e \<noteq> e'" using assms(3,4,6) True by auto
  then have "(\<exists>b. ys = ys' @ e' # b \<and> zs' = b @ e # zs) \<or> (\<exists>a. zs = a @ e' # zs' \<and> ys' = ys @ e # a)"
    using two_in_list [of ys e zs ys' e' zs'] assms(1,2) True by simp
  then show thesis
  proof (elim disjE exE conjE)
    fix b assume b: "ys = ys' @ e' # b" "zs' = b @ e # zs"
    have "b \<noteq> []" using neighbours_in_zip [of "ename s" e' e ys' zs] assms(1,3,4,6) b True by auto
    then show thesis using b True ud by (intro that [of "ys' @ b" zs]) auto
  next
    fix a assume "zs = a @ e' # zs'" "ys' = ys @ e # a"
    then show thesis using True ud by (intro that [of ys "a @ zs'"]) auto
  qed
qed

lemma rename_over_ok:
  assumes ok: "tree_ok L s" "L d = Some es" "v_type (vnodes s d) = VDIR" "L d' = Some es'" "v_type (vnodes s d') = VDIR"
    and w: "entries s es nm = Some w" and u: "entries s es' nm' = Some u" "L u = Some []" "length nm' \<le> 63"
    and c: "\<not> clobbers L s (Mv d nm d' nm')"
    and B: "B = (tree_of L s)(d' \<mapsto> Dir ((entries s es')(nm' := None)), u := None)"
  obtains K t m' k where "vfs_rename d nm d' nm' s = Some (0, t)" "tree_ok K t" "B d = Some (Dir m')"
    "(B(d \<mapsto> Dir (m'(nm := None)))) d' = Some (Dir k)"
    "tree_of K t = B(d \<mapsto> Dir (m'(nm := None)), d' \<mapsto> Dir (k(nm' \<mapsto> w)))"
  using ok(1-3)
proof (cases rule: find_link_ok [where nm = nm])
  case (missing qq)
  then show thesis using w by simp
next
  case f: (found qq e ys zs)
  obtain qd e' ys' zs' where g: "find_link nm' s (Children d') = Some qd" "load_link s qd = e'" "es' = ys' @ e' # zs'"
    "qd = (if ys' = [] then Children d' else Next (last ys'))" "ename s e' = nm'" "u = evnode s e'" "e' \<noteq> 0"
    using ok(1,4,5) by (cases rule: find_link_ok [where nm = nm']) (use u(1) in auto)
  have ld: "L d = Some (ys @ e # zs)" "L d' = Some (ys' @ e' # zs')" and we: "w = evnode s e"
    using ok(2,4) f(3,6) g(3) w by simp_all
  let ?s = "rename_displace d' qd s" and ?L = "L(d' \<mapsto> ys' @ zs', u := None)"
  note sel = rename_displace_sel [OF g(2,4)]
  have lu: "L (evnode s e') = Some []" using u(2) g(6) by simp
  have dok: "tree_ok ?L ?s" "tree_of ?L ?s = B"
    using displace_ok [OF ok(1) ld(2) ok(5) g(4,2) lu] g(3,5,6) B by simp_all
  obtain as bs where ab: "?L d = Some (as @ e # bs)"
    "(if as = [] then Children d else Next (last as)) = (if ys = [] then Children d else Next (last ys))"
    "d' = d \<Longrightarrow> as @ e # bs = ys' @ zs'"
    by (rule displace_keeps_link [OF ld f(5) g(5) u(2) c]) (rule that)
  have ud: "u \<noteq> d'" using u(2) ld(2) by auto
  have "nm' \<notin> ename s ` set (ys' @ zs')"
    using node_ok_parts(6) [OF tree_ok_node [OF ok(1) ld(2)]] g(5) by auto
  moreover have "set (if d' = d then as @ bs else ys' @ zs') \<subseteq> set (ys' @ zs')"
    using arg_cong [OF ab(3), of set] by (cases "d' = d") (simp_all, blast)
  ultimately have nn: "nm' \<notin> ename ?s ` set (if d' = d then as @ bs else ys' @ zs')" unfolding sel(1) by blast
  have qq: "qq = (if as = [] then Children d else Next (last as))" using f(4) ab(2) by simp
  have ty: "v_type (vnodes ?s d) = VDIR" "v_type (vnodes ?s d') = VDIR" using ok(3,5) sel(3) by simp_all
  have ld': "?L d' = Some (ys' @ zs')" using ud by simp
  obtain K k where K: "tree_ok K (rename_move qq e d d' nm' ?s)" "k nm' = None"
    "(B(d \<mapsto> Dir ((entries ?s (as @ e # bs))(ename ?s e := None)))) d' = Some (Dir k)"
    "tree_of K (rename_move qq e d d' nm' ?s) =
      B(d \<mapsto> Dir ((entries ?s (as @ e # bs))(ename ?s e := None)), d' \<mapsto> Dir (k(nm' \<mapsto> evnode ?s e)))"
    by (rule rename_move_ok [OF dok(1) ab(1) ty(1) qq ld' ty(2) nn, unfolded dok(2)]) (rule that)
  have "B d = Some (Dir (entries ?s (as @ e # bs)))"
    unfolding dok(2) [symmetric] using ab(1) ty(1) by (simp add: tree_of_def)
  moreover have "vfs_rename d nm d' nm' s = Some (0, rename_move qq e d d' nm' ?s)"
    using f(1,2,7) g(1,2,6,7) empty_dir_iff(1) [OF ok(1) u(2)] live_nonzero [OF ok(1)] ok u(3)
    by (auto simp: vfs_rename_def domI)
  ultimately show thesis
    using K f(5) we sel(1,2) by (intro that [of "rename_move qq e d d' nm' ?s" K "entries ?s (as @ e # bs)" k]) simp_all
qed

section \<open>One step\<close>

lemma tree_of_live: "d \<in> dom (tree_of L s) \<Longrightarrow> tree_of L s d = Some File \<or> (\<exists>m. tree_of L s d = Some (Dir m))"
  by (cases "the (tree_of L s d)") auto

lemma make_step:
  assumes ok: "tree_ok L s" and d: "d \<in> dom (tree_of L s)" and nm: "length nm \<le> 63"
    and op: "op = (if ty = VDIR then Mkdir d nm else Creat d nm)" "ty \<in> {VDIR, VREG}"
  shows "\<exists>v t K. ramfs_make ty d nm s = Some (v, t) \<and> tree_ok K t \<and>
    tree_step (card (pfa_avail (fr s))) (tree_of L s) op (Node v) (tree_of K t)"
  using tree_of_live [OF d]
proof (elim disjE exE)
  assume "tree_of L s d = Some File"
  moreover from this have "ramfs_make ty d nm s = Some (0, s)" using tree_of_File [of L s d] by (simp add: ramfs_make_def)
  ultimately show ?thesis using ok op make_file [of op d nm] by (intro exI conjI) auto
next
  fix m assume m: "tree_of L s d = Some (Dir m)"
  then obtain es where es: "L d = Some es" "v_type (vnodes s d) = VDIR" "m = entries s es" by (rule tree_of_Dir)
  note lk = lookup_ok [OF ok es(1,2), of nm]
  show ?thesis
  proof (cases "m nm")
    case (Some w)
    then have "w \<noteq> 0" using live_nonzero [OF ok entry_live [OF ok es(1)]] es(3) by simp
    then have "ramfs_make ty d nm s = Some (0, s)" using lk Some es live_nonzero [OF ok, of d] by (simp add: ramfs_make_def domI)
    then show ?thesis using ok op m Some make_exists [of op d nm _ m] by (intro exI conjI) auto
  next
    case None
    from ok es(1,2) None [unfolded es(3)] nm show ?thesis
    proof (cases rule: make_ok [where ty = ty])
      case (none t)
      then show ?thesis using op make_no_frame [of op d nm] by (intro exI conjI) auto
    next
      case (some v K t)
      have "tree_of L s v = None" using some(4) by (simp add: tree_of_def)
      from make [OF _ m None this some(3), of op] have
        "tree_step (card (pfa_avail (fr s))) (tree_of L s) op (Node v) ((tree_of L s)(d \<mapsto> Dir (m(nm \<mapsto> v)), v \<mapsto> blank op))"
        using op by auto
      moreover have "tree_of K t = (tree_of L s)(d \<mapsto> Dir (m(nm \<mapsto> v)), v \<mapsto> blank op)" using some(5) op es(3) by auto
      ultimately show ?thesis using some(1,2) by (intro exI conjI) auto
    qed
  qed
qed

end
