(* ===== verification/Vfs_Props.thy ===== *)
theory Vfs_Props
  imports Vfs_Refine Block_Props
begin

text \<open>
  The properties of the directory operations and of path resolution: the
  directories refine finite maps, resolving a path walks the tree from the
  longest mount point, and the error of \<open>vfs_rename\<close> that makes a directory
  list cyclic.
\<close>

section \<open>Directory operations are steps of the abstract tree\<close>

lemma look_step:
  assumes ok: "tree_ok L s" and d: "d \<in> dom (tree_of L s)"
  shows "\<exists>v. vfs_lookup_ramfs d nm s = Some v \<and> tree_step n (tree_of L s) (Look d nm) (Node v) (tree_of L s)"
  using tree_of_live [OF d]
proof (elim disjE exE)
  assume "tree_of L s d = Some File"
  then show ?thesis using tree_of_File [of L s d] look_file [of "tree_of L s" d n nm] by (simp add: vfs_lookup_ramfs_def)
next
  fix m assume m: "tree_of L s d = Some (Dir m)"
  then obtain es where "L d = Some es" "v_type (vnodes s d) = VDIR" "m = entries s es" by (rule tree_of_Dir)
  then show ?thesis using lookup_ok [OF ok, of d es nm] look [where A = "tree_of L s", OF m, of n nm] by simp
qed

lemma rm_step:
  assumes ok: "tree_ok L s" and d: "d \<in> dom (tree_of L s)"
  shows "\<exists>r t K. vfs_unlink d nm s = Some (r, t) \<and> tree_ok K t \<and> tree_step n (tree_of L s) (Rm d nm) (Code r) (tree_of K t)"
  using tree_of_live [OF d]
proof (elim disjE exE)
  assume f: "tree_of L s d = Some File"
  then have "vfs_unlink d nm s = Some (- 1, s)" using tree_of_File [of L s d] by (simp add: vfs_unlink_def)
  then show ?thesis using ok rm_file [where A = "tree_of L s", OF f, of n nm] by (intro exI conjI)
next
  fix m assume m: "tree_of L s d = Some (Dir m)"
  then obtain es where es: "L d = Some es" "v_type (vnodes s d) = VDIR" "m = entries s es" by (rule tree_of_Dir)
  have d0: "d \<noteq> 0" using live_nonzero [OF ok, of d] es(1) by (simp add: domI)
  show ?thesis
  proof (cases "m nm")
    case None
    from ok es(1,2) have "vfs_unlink d nm s = Some (- 1, s)"
      by (cases rule: find_link_ok [where nm = nm]) (use None es d0 in \<open>simp_all add: vfs_unlink_def\<close>)
    then show ?thesis using ok rm_missing [where A = "tree_of L s", OF m None, of n] by (intro exI conjI)
  next
    case (Some w)
    then obtain ds where ds: "L w = Some ds" using entry_live [OF ok es(1)] es(3) by auto
    show ?thesis
    proof (cases "ds = []")
      case True
      obtain K t where "vfs_unlink d nm s = Some (0, t)" "tree_ok K t"
        "tree_of K t = (tree_of L s)(d \<mapsto> Dir ((entries s es)(nm := None)), w := None)"
        by (rule unlink_ok [OF ok es(1,2), of nm w]) (use Some es ds True in auto)
      then show ?thesis using rm [where A = "tree_of L s", OF m Some, of n] empty_dir_iff(2) [OF ok ds] True es(3) by (intro exI conjI) auto
    next
      case False
      obtain k where k: "tree_of L s w = Some (Dir k)" "k \<noteq> Map.empty"
        using empty_dir_iff(2) [OF ok ds] False ds by (auto simp: tree_of_def split: if_splits)
      from ok es(1,2) have "vfs_unlink d nm s = Some (- 1, s)"
        by (cases rule: find_link_ok [where nm = nm])
          (use Some es d0 empty_dir_iff(1) [OF ok ds] False in \<open>simp_all add: vfs_unlink_def\<close>)
      then show ?thesis using ok rm_nonempty [where A = "tree_of L s", OF m Some k, of n] by (intro exI conjI)
    qed
  qed
qed

lemma mv_over_step:
  assumes ok: "tree_ok L s" and m: "tree_of L s d = Some (Dir m)" "m nm = Some w" "tree_of L s d' = Some (Dir m')" "m' nm' = Some u"
    and len: "length nm' \<le> 63" and cl: "\<not> clobbers L s (Mv d nm d' nm')"
  shows "\<exists>r t K. vfs_rename d nm d' nm' s = Some (r, t) \<and> tree_ok K t \<and>
    tree_step n (tree_of L s) (Mv d nm d' nm') (Code r) (tree_of K t)"
proof -
  obtain es where es: "L d = Some es" "v_type (vnodes s d) = VDIR" "m = entries s es" by (rule tree_of_Dir [OF m(1)])
  obtain es' where es': "L d' = Some es'" "v_type (vnodes s d') = VDIR" "m' = entries s es'" by (rule tree_of_Dir [OF m(3)])
  obtain ds where ds: "L u = Some ds" using entry_live [OF ok es'(1)] m(4) es'(3) by blast
  show ?thesis
  proof (cases "ds = []")
    case True
    define B where "B = (tree_of L s)(d' \<mapsto> Dir ((entries s es')(nm' := None)), u := None)"
    obtain K t m1 k where r: "vfs_rename d nm d' nm' s = Some (0, t)" "tree_ok K t" "B d = Some (Dir m1)"
      "(B(d \<mapsto> Dir (m1(nm := None)))) d' = Some (Dir k)"
      "tree_of K t = B(d \<mapsto> Dir (m1(nm := None)), d' \<mapsto> Dir (k(nm' \<mapsto> w)))"
      by (rule rename_over_ok [OF ok es(1,2) es'(1,2) _ _ _ len cl B_def, of w])
        (use m(2,4) es es' ds True in auto)
    have "tree_step n (tree_of L s) (Mv d nm d' nm') (Code 0) (tree_of K t)"
      unfolding r(5) using empty_dir_iff(2) [OF ok ds] True
      by (intro mv_over [where A = "tree_of L s", OF m _ _ r(3,4)]) (simp_all add: B_def es'(3))
    then show ?thesis using r(1,2) by (intro exI conjI)
  next
    case False
    obtain k where k: "tree_of L s u = Some (Dir k)" "k \<noteq> Map.empty"
      using empty_dir_iff(2) [OF ok ds] False ds by (auto simp: tree_of_def split: if_splits)
    obtain qq e where f: "find_link nm s (Children d) = Some qq" "load_link s qq = e" "e \<noteq> 0"
      using ok es(1,2) by (cases rule: find_link_ok [where nm = nm]) (use m(2) es(3) in auto)
    obtain qd e' where g: "find_link nm' s (Children d') = Some qd" "load_link s qd = e'" "e' \<noteq> 0" "evnode s e' = u"
      using ok es'(1,2) by (cases rule: find_link_ok [where nm = nm']) (use m(4) es'(3) in auto)
    have "vfs_rename d nm d' nm' s = Some (- 1, s)"
      using f g live_nonzero [OF ok] es(1,2) es'(1,2) empty_dir_iff(1) [OF ok ds] False by (simp add: vfs_rename_def domI)
    then show ?thesis using ok mv_nonempty [where A = "tree_of L s", OF m k, of n] by (intro exI conjI)
  qed
qed

lemma mv_step:
  assumes ok: "tree_ok L s" and al: "allowed (tree_of L s) (Mv d nm d' nm')" and cl: "\<not> clobbers L s (Mv d nm d' nm')"
  shows "\<exists>r t K. vfs_rename d nm d' nm' s = Some (r, t) \<and> tree_ok K t \<and>
    tree_step n (tree_of L s) (Mv d nm d' nm') (Code r) (tree_of K t)"
proof (cases "tree_of L s d = Some File \<or> tree_of L s d' = Some File")
  case True
  then have "vfs_rename d nm d' nm' s = Some (- 1, s)"
    using tree_of_File [of L s d] tree_of_File [of L s d'] by (auto simp: vfs_rename_def)
  then show ?thesis using ok mv_file [where A = "tree_of L s", OF True, of n nm nm'] by (intro exI conjI)
next
  case False
  have "d \<in> dom (tree_of L s)" "d' \<in> dom (tree_of L s)" and len: "length nm' \<le> 63" using al by auto
  then obtain m m' where m: "tree_of L s d = Some (Dir m)" "tree_of L s d' = Some (Dir m')"
    using False tree_of_live [of d L s] tree_of_live [of d' L s] by blast
  obtain es where es: "L d = Some es" "v_type (vnodes s d) = VDIR" "m = entries s es" by (rule tree_of_Dir [OF m(1)])
  obtain es' where es': "L d' = Some es'" "v_type (vnodes s d') = VDIR" "m' = entries s es'" by (rule tree_of_Dir [OF m(2)])
  have 0: "d \<noteq> 0" "d' \<noteq> 0" using live_nonzero [OF ok] es(1) es'(1) by (auto simp: domI)
  consider "m nm = None" | w where "m nm = Some w" "m' nm' = None" | w u where "m nm = Some w" "m' nm' = Some u" by fastforce
  then show ?thesis
  proof cases
    case 1
    from ok es(1,2) have "vfs_rename d nm d' nm' s = Some (- 1, s)"
      by (cases rule: find_link_ok [where nm = nm]) (use 1 es es' 0 in \<open>simp_all add: vfs_rename_def\<close>)
    then show ?thesis using ok mv_missing [where A = "tree_of L s", OF m(1) 1, of n] by (intro exI conjI)
  next
    case 2
    obtain K t k where "vfs_rename d nm d' nm' s = Some (0, t)" "tree_ok K t" "k nm' = None"
      "((tree_of L s)(d \<mapsto> Dir ((entries s es)(nm := None)))) d' = Some (Dir k)"
      "tree_of K t = (tree_of L s)(d \<mapsto> Dir ((entries s es)(nm := None)), d' \<mapsto> Dir (k(nm' \<mapsto> w)))"
      by (rule rename_ok [OF ok es(1,2) es'(1,2) _ _ len, of nm w]) (use 2 es es' in auto)
    then show ?thesis using mv [where A = "tree_of L s", OF m(1) 2(1), of d' k nm' n] es(3) by (intro exI conjI) auto
  next
    case 3
    then show ?thesis by (intro mv_over_step [OF ok m(1) _ m(2) _ len cl])
  qed
qed

text \<open>C2: the directory operations of the RAM file system, on live nodes and with new
  names of at most 63 characters, return and do what the operation on a tree of
  finite maps does: a lookup answers with the map of the directory, a creation
  binds a free name to a vnode that was not in use (and succeeds whenever three
  frames are free), a removal refuses non-empty directories and otherwise takes
  the name and the vnode out, a renaming moves the binding and takes out the
  file or empty directory it displaces; and the linked lists, counts and frames
  stay well-formed.  Excluded are renamings within one directory over the
  renamed entry itself or over the entry before it in the list.\<close>

theorem directories_refine_maps:
  assumes "tree_ok L s" "allowed (tree_of L s) op" "\<not> clobbers L s op"
  shows "\<exists>r t K. dir_step op s = Some (r, t) \<and> tree_ok K t \<and>
    tree_step (card (pfa_avail (fr s))) (tree_of L s) op r (tree_of K t)"
proof (cases op)
  case (Look d nm)
  then show ?thesis using look_step [OF assms(1), of d nm] assms by fastforce
next
  case (Creat d nm)
  then show ?thesis using make_step [OF assms(1), of d nm op VREG] assms by (fastforce simp: vfs_create_file_def)
next
  case (Mkdir d nm)
  then show ?thesis using make_step [OF assms(1), of d nm op VDIR] assms by (fastforce simp: vfs_mkdir_ramfs_def)
next
  case (Rm d nm)
  then show ?thesis using rm_step [OF assms(1), of d nm] assms by fastforce
next
  case (Mv d nm d' nm')
  then show ?thesis using mv_step [OF assms(1), of d nm d' nm'] assms by fastforce
qed

inductive_cases tree_step_CreatE: "tree_step n A (Creat d nm) r A'"
inductive_cases tree_step_MvE: "tree_step n A (Mv d nm d' nm') r A'"

lemma root_upd [simp]:
  "tree_ok L (s\<lparr>root_vnode := r\<rparr>) = tree_ok L s" "tree_of L (s\<lparr>root_vnode := r\<rparr>) = tree_of L s"
  "tree_ok L (s\<lparr>next_free_block := n\<rparr>) = tree_ok L s"
  by (simp_all add: tree_ok_def node_ok_def cells_def tree_of_def entries_def fun_eq_iff cong: if_cong)

text \<open>After \<open>vfs_init\<close> the tree is an empty root directory.\<close>

lemma vfs_init_ok:
  assumes "pfa_inv (fr s)" "2 \<le> card (pfa_avail (fr s))"
  obtains r where "root_vnode (vfs_init s) = r" "r \<noteq> 0" "tree_ok [r \<mapsto> []] (vfs_init s)"
    "tree_of [r \<mapsto> []] (vfs_init s) = [r \<mapsto> Dir Map.empty]" "card (pfa_avail (fr (vfs_init s))) + 2 = card (pfa_avail (fr s))"
proof -
  let ?s = "s\<lparr>next_free_block := 1\<rparr>"
  have ok: "tree_ok Map.empty ?s" using assms(1) by (simp add: tree_ok_def)
  from tree_ok_pfa [OF ok] show thesis
  proof (cases rule: create_vnode_cases [where ty = VDIR])
    case (none f)
    then show thesis using assms(2) by simp
  next
    case (some vp ip f c)
    define t where "t = upd_inode ip (\<lambda>_. new_inode VDIR (vfs_default_device ?s) c) (upd_vnode vp (\<lambda>_. new_vnode VDIR ip) (set_fr f ?s))"
    note n = new_vnode_ok [OF ok some(2-9) t_def]
    have v: "vfs_init s = t\<lparr>root_vnode := vp\<rparr>" unfolding vfs_init_def Let_def some(1) t_def by simp
    have c: "card (pfa_avail (fr s)) = card (pfa_avail f) + 2"
    proof -
      have "{vp, ip} \<subseteq> pfa_avail (fr s)" "card {vp, ip} = 2" using some(4-6) by simp_all
      then show ?thesis using some(7) card_Diff_subset [of "{vp, ip}" "pfa_avail (fr s)"] assms(2) by simp
    qed
    have "tree_of Map.empty ?s = Map.empty" by (simp add: tree_of_def fun_eq_iff)
    then show thesis using n(1,4,5) some(2) c by (intro that [of vp]) (simp_all add: v)
  qed
qed

definition sample_vfs :: vfs where
  "sample_vfs = \<lparr>blk = sample_cache, vnodes = (\<lambda>_. new_vnode VNON 0), inodes = (\<lambda>_. new_inode VNON 0 None),
     dirents = (\<lambda>_. \<lparr>de_name = [], de_vnode = 0, de_next = 0\<rparr>),
     pages = (\<lambda>_. \<lparr>pc_offset = 0, pc_addr = 0, pc_dirty = False, pc_next = 0\<rparr>), root_vnode = 0, vfs_default_device = 16,
     next_free_block = 1, cur_cred = None, registered_fs = [], mounts = (\<lambda>_. free_mount), mount_count = 0,
     mount_root = 0, root_block_device = 0\<rparr>"

lemma sample_vfs_frames: "pfa_inv (fr sample_vfs)" "card (pfa_avail (fr sample_vfs)) = 71"
proof -
  have inv: "pfa_inv sample_frames"
    using boot_ok_sample unfolding boot_ok_def devs_ok_def by (simp add: ram_inv_def) (simp add: sample_cache_def)
  then show "pfa_inv (fr sample_vfs)" by (simp add: sample_vfs_def sample_cache_def)
  have "inj_on frame_addr (free_frames sample_frames)"
    using free_frames_below [OF inv] frame_addr_inj by (auto simp: inj_on_def)
  then have "card (pfa_avail sample_frames) = 71" by (simp add: pfa_avail_def card_image free_frames_sample_frames)
  then show "card (pfa_avail (fr sample_vfs)) = 71" by (simp add: sample_vfs_def sample_cache_def)
qed

section \<open>Renaming over the preceding entry\<close>

lemma lookup_cycle:
  assumes C: "\<And>p. p \<in> C \<Longrightarrow> p \<noteq> 0 \<and> ename t p \<noteq> nm \<and> de_next (dirents t p) \<in> C" and p: "p \<in> C"
  shows "lookup_loop nm t p = None"
proof -
  have "nm' = nm \<longrightarrow> t' = t \<longrightarrow> q \<notin> C" if "lookup_loop nm' t' q = Some r" for nm' t' q r
  proof (rule lookup_loop.raw_induct [where P = "\<lambda>nm' t' q r. nm' = nm \<longrightarrow> t' = t \<longrightarrow> q \<notin> C", OF _ that])
    fix f nm' t' q r
    assume IH: "\<And>nm' t' q r. f nm' t' q = Some r \<Longrightarrow> nm' = nm \<longrightarrow> t' = t \<longrightarrow> q \<notin> C"
      and e: "(if q = 0 then Some 0 else if name_match (ename t' q) nm' then Some (evnode t' q) else f nm' t' (de_next (dirents t' q))) = Some r"
    show "nm' = nm \<longrightarrow> t' = t \<longrightarrow> q \<notin> C"
    proof (intro impI notI)
      assume *: "nm' = nm" "t' = t" "q \<in> C"
      then have "f nm t (de_next (dirents t q)) = Some r" using e C [of q] by simp
      then show False using IH C * by blast
    qed
  qed
  then show ?thesis using p by (cases "lookup_loop nm t p") auto
qed

lemma path_succ: "path f p (ys @ zs) \<Longrightarrow> distinct ys \<Longrightarrow> y \<in> set ys \<Longrightarrow> y \<noteq> last ys \<Longrightarrow> \<exists>z\<in>set ys. f y = Some z"
proof (induction ys arbitrary: p)
  case (Cons x ys)
  then show ?case
  proof (cases "y = x")
    case True
    then show ?thesis using Cons.prems by (cases ys) auto
  next
    case False
    then show ?thesis using Cons.IH [of "f x"] Cons.prems by (auto split: if_splits)
  qed
qed simp

lemma find_link_at:
  assumes ok: "tree_ok L s" "L d = Some (ys @ e # zs)" "v_type (vnodes s d) = VDIR"
  shows "find_link (ename s e) s (Children d) = Some (if ys = [] then Children d else Next (last ys)) \<and>
    load_link s (if ys = [] then Children d else Next (last ys)) = e"
  using ok
proof (cases rule: find_link_ok [where nm = "ename s e"])
  case (missing qq)
  then show ?thesis by (simp add: entries_None)
next
  case (found qq x us vs)
  note n = node_ok_parts [OF tree_ok_node [OF ok(1,2)]]
  have "x \<in> set (ys @ e # zs)" using found(3) by (metis in_set_conv_decomp)
  moreover have "ename s x \<notin> ename s ` (set ys \<union> set zs)" using n(6) found(5) by auto
  then have "x \<notin> set ys \<union> set zs" by (rule contrapos_nn) (rule imageI)
  ultimately have xe: "x = e" by auto
  have "e \<notin> set ys" "e \<notin> set zs" using n(1) by (simp_all add: cells_def)
  then have "ys = us" using append_Cons_eq_iff [of e ys zs us vs] found(3) xe by simp
  then show ?thesis using found(1,2,4) xe by (simp only:)
qed

text \<open>The links that remain when the entry before the renamed one is displaced.\<close>

lemma rename_cycle_links:
  assumes ok: "tree_ok L s" "L d = Some (ys @ a # b # zs)" "v_type (vnodes s d) = VDIR"
    and qa_def: "qa = (if ys = [] then Children d else Next (last ys))"
    and t_def: "t = rename_move (Next a) b d d nm (rename_displace d qa s)"
  shows "v_children (vnodes t d) = b" "v_type (vnodes t d) = VDIR" "ename t b = nm"
    "de_next (dirents t b) = (if ys = [] then b else hd ys)"
    "y \<in> set ys \<Longrightarrow> ename t y = ename s y \<and> de_next (dirents t y) = (if y = last ys then b else de_next (dirents s y))"
proof -
  note n = node_ok_parts [OF tree_ok_node [OF ok(1,2)]]
  have p: "path (dnext s) (ptr (v_children (vnodes s d))) (ys @ a # b # zs)" by (rule n(3) [OF ok(3)])
  have di: "distinct (ys @ a # b # zs)" and z: "0 \<notin> set (ys @ a # b # zs)" using n(1,2) by (simp_all add: cells_def)
  have "dnext s a = Some b" by (rule path_snoc_link [OF p])
  then have ab: "de_next (dirents s a) = b" by (simp add: ptr_def split: if_splits)
  have ll: "load_link s qa = a" using find_link_at [OF ok(1,2,3)] by (simp add: qa_def)
  have hd: "ys \<noteq> [] \<Longrightarrow> v_children (vnodes s d) = hd ys" using p by (cases ys) (auto simp: ptr_def split: if_splits)
  define u where "u = rename_displace d qa s"
  have u: "v_children (vnodes u d) = (if ys = [] then b else hd ys)" "v_type (vnodes u v) = v_type (vnodes s v)"
    "dirents u x = (if ys \<noteq> [] \<and> x = last ys then (dirents s x)\<lparr>de_next := b\<rparr> else dirents s x)" for v x
    using hd ab ll unfolding u_def rename_displace_def Let_def by (auto simp: qa_def vfs_give_eq)
  show "v_children (vnodes t d) = b" "v_type (vnodes t d) = VDIR" "ename t b = nm"
    using u ok(3) unfolding t_def u_def [symmetric] rename_move_def Let_def by auto
  show "de_next (dirents t b) = (if ys = [] then b else hd ys)"
    using u(1) unfolding t_def u_def [symmetric] rename_move_def Let_def by simp
  show "ename t y = ename s y \<and> de_next (dirents t y) = (if y = last ys then b else de_next (dirents s y))" if y: "y \<in> set ys"
  proof -
    have "y \<noteq> a" "y \<noteq> b" "ys \<noteq> []" using di y by auto
    then show ?thesis using u(3) [of y] unfolding t_def u_def [symmetric] rename_move_def Let_def by simp
  qed
qed

text \<open>C39: renaming an entry over the one that precedes it in the list of the same
  directory makes the list cyclic: the entry stays linked behind itself, so a
  later lookup of any name that is not on the cycle never returns.\<close>

theorem rename_over_predecessor_loops:
  assumes ok: "tree_ok L s" "L d = Some (ys @ a # b # zs)" "v_type (vnodes s d) = VDIR" "L (evnode s a) = Some []"
    and nm: "nm \<noteq> ename s a" "nm \<notin> ename s ` set ys" and len: "length (ename s a) \<le> 63"
  shows "\<exists>t. vfs_rename d (ename s b) d (ename s a) s = Some (0, t) \<and> vfs_lookup_ramfs d nm t = None"
proof -
  let ?q = "if ys = [] then Children d else Next (last ys)"
  define t where "t = rename_move (Next a) b d d (ename s a) (rename_displace d ?q s)"
  note n = node_ok_parts [OF tree_ok_node [OF ok(1,2)]]
  have z: "d \<noteq> 0" "a \<noteq> 0" "b \<noteq> 0" "0 \<notin> set ys" and di: "distinct ys" using n(1,2) by (simp_all add: cells_def)
  have fa: "find_link (ename s a) s (Children d) = Some ?q" "load_link s ?q = a" using find_link_at [OF ok(1,2,3)] by simp_all
  have "L d = Some ((ys @ [a]) @ b # zs)" using ok(2) by simp
  from find_link_at [OF ok(1) this ok(3)]
  have fb: "find_link (ename s b) s (Children d) = Some (Next a)" "load_link s (Next a) = b" by simp_all
  have "\<not> (v_type (vnodes s (evnode s a)) = VDIR \<and> v_nchildren (vnodes s (evnode s a)) > 0)"
    using empty_dir_iff(1) [OF ok(1,4)] by simp
  then have r: "vfs_rename d (ename s b) d (ename s a) s = Some (0, t)"
    unfolding vfs_rename_def fb(1) bind.bind_lunit Let_def fb(2) fa t_def using z ok(3) len by simp
  note l = rename_cycle_links [OF ok(1,2,3) refl t_def]
  have "lookup_loop nm t b = None"
  proof (rule lookup_cycle [where C = "insert b (set ys)"])
    fix p assume "p \<in> insert b (set ys)"
    then consider "p = b" | "p \<in> set ys" by auto
    then show "p \<noteq> 0 \<and> ename t p \<noteq> nm \<and> de_next (dirents t p) \<in> insert b (set ys)"
    proof cases
      case 1
      then show ?thesis using l(3,4) z nm(1) by auto
    next
      case 2
      have "\<exists>x\<in>set ys. dnext s p = Some x" if "p \<noteq> last ys"
        by (rule path_succ [OF n(3) [OF ok(3)] di 2 that])
      then show ?thesis using l(5) [OF 2] z(4) 2 nm(2) by (auto simp: ptr_def split: if_splits)
    qed
  qed simp
  then have "vfs_lookup_ramfs d nm t = None" using l(1,2) z(1) by (simp add: vfs_lookup_ramfs_def)
  with r show ?thesis by blast
qed

text \<open>A sample with no free frame: a root directory at 4096 with the files \<open>a\<close> and \<open>b\<close>, in this order.\<close>

definition full_frames :: pfa where
  "full_frames = sample_frames\<lparr>g_bitmap := (\<lambda>_. 0), g_free_pages := 0\<rparr>"

definition sample_dir :: vfs where
  "sample_dir = (set_fr full_frames sample_vfs)
     \<lparr>vnodes := (\<lambda>v. if v = 4096 then (new_vnode VDIR 8192)\<lparr>v_children := 28672, v_nchildren := 2\<rparr>
                    else if v = 12288 then (new_vnode VREG 16384)\<lparr>v_parent := 4096\<rparr>
                    else (new_vnode VREG 24576)\<lparr>v_parent := 4096\<rparr>),
      dirents := (\<lambda>e. if e = 28672 then \<lparr>de_name = ''a'', de_vnode = 12288, de_next = 32768\<rparr>
                     else \<lparr>de_name = ''b'', de_vnode = 20480, de_next = 0\<rparr>)\<rparr>"

definition sample_live :: live where
  "sample_live = [4096 \<mapsto> [28672, 32768], 12288 \<mapsto> [], 20480 \<mapsto> []]"

lemma full_frames_ok: "pfa_inv full_frames" "pfa_avail full_frames = {}" "\<lbrakk>0 < i; i < 72\<rbrakk> \<Longrightarrow> of_nat (i * 4096) \<in> pfa_univ full_frames"
proof -
  have "\<not> frame_bit full_frames i" for i by (simp add: frame_bit_iff full_frames_def)
  then have f: "free_frames full_frames = {}" "\<not> frame_bit full_frames 0" by (simp_all add: free_frames_def)
  then show "pfa_inv full_frames" "pfa_avail full_frames = {}"
    by (simp_all add: pfa_inv_def pfa_avail_def) (simp add: full_frames_def sample_frames_def)
  show "of_nat (i * 4096) \<in> pfa_univ full_frames" if "0 < i" "i < 72"
    using that unfolding pfa_univ_def frame_addr_def by (intro image_eqI [of _ _ i]) (simp_all add: full_frames_def sample_frames_def)
qed

lemma sample_dir_ok: "tree_ok sample_live sample_dir"
proof -
  have fr: "fr sample_dir = full_frames" by (simp add: sample_dir_def set_fr_def)
  have u: "{4096, 8192, 12288, 16384, 20480, 24576, 28672, 32768} \<subseteq> pfa_univ full_frames"
    using full_frames_ok(3) [of 1] full_frames_ok(3) [of 2] full_frames_ok(3) [of 3] full_frames_ok(3) [of 4]
      full_frames_ok(3) [of 5] full_frames_ok(3) [of 6] full_frames_ok(3) [of 7] full_frames_ok(3) [of 8] by simp
  have i: "inodes sample_dir v = new_inode VNON 0 None" for v by (simp add: sample_dir_def sample_vfs_def)
  have n: "node_ok sample_live sample_dir v es" if "sample_live v = Some es" for v es
    using that unfolding node_ok_def i
    by (auto simp: sample_live_def sample_dir_def cells_def ptr_def new_vnode_def new_inode_def split: if_splits)
  have c: "cells sample_dir v es = v # (if v = 4096 then 8192 else if v = 12288 then 16384 else 24576) # es" for v es
    by (simp add: cells_def sample_dir_def new_vnode_def)
  have "set (cells sample_dir v es) \<subseteq> pfa_univ full_frames" if "sample_live v = Some es" for v es
    using that u unfolding c by (auto simp: sample_live_def split: if_splits)
  moreover have "set (cells sample_dir v es) \<inter> set (cells sample_dir w ds) = {}"
    if "sample_live v = Some es" "sample_live w = Some ds" "v \<noteq> w" for v es w ds
    using that unfolding c by (auto simp: sample_live_def split: if_splits)
  ultimately show ?thesis using n full_frames_ok(1,2) by (intro tree_okI) (simp_all add: fr)
qed

lemma tree_of_sample_dir:
  "tree_of sample_live sample_dir = [4096 \<mapsto> Dir [''a'' \<mapsto> 12288, ''b'' \<mapsto> 20480], 12288 \<mapsto> File, 20480 \<mapsto> File]"
  by (rule ext) (simp add: tree_of_def sample_live_def sample_dir_def entries_def new_vnode_def fun_upd_twist)

text \<open>A file is created in the empty tree, and one file is renamed over another.\<close>

theorem directories_refine_maps_witness:
  "(\<exists>v t. dir_step (Creat (root_vnode (vfs_init sample_vfs)) ''a'') (vfs_init sample_vfs) = Some (Node v, t) \<and> v \<noteq> 0) \<and>
   (\<exists>t K. dir_step (Mv 4096 ''a'' 4096 ''b'') sample_dir = Some (Code 0, t) \<and>
      tree_of K t = [12288 \<mapsto> File, 4096 \<mapsto> Dir [''b'' \<mapsto> 12288]])"
proof
  have "2 \<le> card (pfa_avail (fr sample_vfs))" using sample_vfs_frames(2) by simp
  then obtain r where r: "root_vnode (vfs_init sample_vfs) = r" "tree_ok [r \<mapsto> []] (vfs_init sample_vfs)"
    "tree_of [r \<mapsto> []] (vfs_init sample_vfs) = [r \<mapsto> Dir Map.empty]" "card (pfa_avail (fr (vfs_init sample_vfs))) = 69"
    by (rule vfs_init_ok [OF sample_vfs_frames(1)]) (use sample_vfs_frames(2) that in simp)
  have "allowed (tree_of [r \<mapsto> []] (vfs_init sample_vfs)) (Creat r ''a'')" using r(3) by simp
  from directories_refine_maps [OF r(2) this] obtain x t K where
    "dir_step (Creat r ''a'') (vfs_init sample_vfs) = Some (x, t)"
    and st: "tree_step 69 [r \<mapsto> Dir Map.empty] (Creat r ''a'') x (tree_of K t)" using r(3,4) by auto
  moreover from st obtain v where "x = Node v" "v \<noteq> 0" by (rule tree_step_CreatE) auto
  ultimately show "\<exists>v t. dir_step (Creat (root_vnode (vfs_init sample_vfs)) ''a'') (vfs_init sample_vfs) = Some (Node v, t) \<and> v \<noteq> 0"
    using r(1) by auto
  let ?op = "Mv 4096 ''a'' 4096 ''b''"
  have "allowed (tree_of sample_live sample_dir) ?op" "\<not> clobbers sample_live sample_dir ?op"
    by (simp_all add: tree_of_sample_dir) (simp add: sample_live_def sample_dir_def)
  from directories_refine_maps [OF sample_dir_ok this] obtain x t K n where
    d: "dir_step ?op sample_dir = Some (x, t)" and st: "tree_step n (tree_of sample_live sample_dir) ?op x (tree_of K t)" by blast
  from st [unfolded tree_of_sample_dir] have "x = Code 0 \<and> tree_of K t = [12288 \<mapsto> File, 4096 \<mapsto> Dir [''b'' \<mapsto> 12288]]"
    by (rule tree_step_MvE) (simp_all, clarsimp+)
  with d show "\<exists>t K. dir_step ?op sample_dir = Some (Code 0, t) \<and> tree_of K t = [12288 \<mapsto> File, 4096 \<mapsto> Dir [''b'' \<mapsto> 12288]]" by blast
qed

theorem rename_over_predecessor_loops_witness:
  "\<exists>t. vfs_rename 4096 ''b'' 4096 ''a'' sample_dir = Some (0, t) \<and> vfs_lookup_ramfs 4096 ''c'' t = None"
proof -
  have "ename sample_dir 28672 = ''a''" "ename sample_dir 32768 = ''b''" "evnode sample_dir 28672 = 12288"
    "v_type (vnodes sample_dir 4096) = VDIR" by (simp_all add: sample_dir_def new_vnode_def)
  with rename_over_predecessor_loops [OF sample_dir_ok, of 4096 "[]" 28672 32768 "[]" "''c''"]
  show ?thesis by (simp add: sample_live_def)
qed

end
