(* ===== verification/Mount_Props.thy ===== *)
theory Mount_Props
  imports Vfs_Props
begin

text \<open>
  The properties of the mount table, of path resolution and of the permission
  bits: the lookup finds the longest mount point of a path, a path is resolved
  by walking the directory maps, and a mode set by \<open>vfs_chmod\<close> decides every
  later permission check.
\<close>

section \<open>The longest mount point\<close>

text \<open>The mount point is the path or a directory above it; the root is above every absolute path.\<close>

definition covers :: "string \<Rightarrow> mount_entry \<Rightarrow> bool" where
  "covers pth e \<longleftrightarrow> me_in_use e \<and> me_path e \<noteq> [] \<and>
     (\<exists>r. pth = me_path e @ r \<and> (me_path e = ''/'' \<or> r = [] \<or> hd r = CHR ''/''))"

lemma starts_with_iff: "starts_with mp p \<longleftrightarrow> (\<exists>r. p = mp @ r)"
  by (induction mp p rule: starts_with.induct) auto

lemma root_path_iff: "length mp = 1 \<and> mp ! 0 = c \<longleftrightarrow> mp = [c]"
  by (cases mp) auto

lemma lookup_round_eq:
  assumes "b = None \<longrightarrow> n = 0"
  shows "lookup_round pth s i (b, n) =
    (if covers pth (mounts s i) \<and> length (me_path (mounts s i)) > n then (Some i, length (me_path (mounts s i))) else (b, n))"
proof (cases "\<exists>r. pth = me_path (mounts s i) @ r")
  case True
  then obtain r where r: "pth = me_path (mounts s i) @ r" by blast
  have "(length (me_path (mounts s i)) = length pth \<or>
      length (me_path (mounts s i)) < length pth \<and> pth ! length (me_path (mounts s i)) = CHR ''/'') \<longleftrightarrow> r = [] \<or> hd r = CHR ''/''"
    using r by (cases r) auto
  then show ?thesis
    using True r assms unfolding lookup_round_def Let_def root_path_iff starts_with_iff covers_def by auto
qed (auto simp: lookup_round_def starts_with_iff covers_def Let_def)

definition best_upto :: "string \<Rightarrow> vfs \<Rightarrow> nat \<Rightarrow> nat option \<times> nat \<Rightarrow> bool" where
  "best_upto pth s k bn \<longleftrightarrow>
     (case fst bn of
        None \<Rightarrow> snd bn = 0 \<and> (\<forall>j<k. \<not> covers pth (mounts s j))
      | Some i \<Rightarrow> i < k \<and> covers pth (mounts s i) \<and> snd bn = length (me_path (mounts s i)) \<and>
          (\<forall>j<k. covers pth (mounts s j) \<longrightarrow> length (me_path (mounts s j)) \<le> snd bn))"

lemma best_upto_round:
  assumes "best_upto pth s k bn"
  shows "best_upto pth s (Suc k) (lookup_round pth s k bn)"
proof -
  obtain b n where bn: "bn = (b, n)" by force
  have "b = None \<longrightarrow> n = 0" using assms bn by (cases b) (simp_all add: best_upto_def)
  moreover have "covers pth (mounts s k) \<Longrightarrow> 0 < length (me_path (mounts s k))" by (simp add: covers_def)
  ultimately show ?thesis using assms
    by (auto simp: bn lookup_round_eq best_upto_def less_Suc_eq split: option.splits)
qed

lemma best_upto_fold: "best_upto pth s k (fold (lookup_round pth s) [0..<k] (None, 0))"
proof (induction k)
  case (Suc k)
  then show ?case using best_upto_round [of pth s k] by simp
qed (simp add: best_upto_def)

lemma mount_lookup_spec:
  "case mount_lookup pth s of
     None \<Rightarrow> \<forall>i<MAX_MOUNTS. \<not> covers pth (mounts s i)
   | Some i \<Rightarrow> i < MAX_MOUNTS \<and> covers pth (mounts s i) \<and>
       (\<forall>j<MAX_MOUNTS. covers pth (mounts s j) \<longrightarrow> length (me_path (mounts s j)) \<le> length (me_path (mounts s i)))"
  using best_upto_fold [of pth s MAX_MOUNTS] unfolding mount_lookup_def best_upto_def by (auto split: option.splits)

text \<open>C36: the lookup of a path in the mount table returns an entry in use whose
  mount point is the path or a directory above it, and no entry with a longer
  mount point has this property; it returns none only if no entry has it.\<close>

theorem mount_lookup_longest:
  "case mount_lookup pth s of
     None \<Rightarrow> \<forall>i<MAX_MOUNTS. \<not> covers pth (mounts s i)
   | Some i \<Rightarrow> i < MAX_MOUNTS \<and> covers pth (mounts s i) \<and>
       (\<forall>j<MAX_MOUNTS. covers pth (mounts s j) \<longrightarrow> length (me_path (mounts s j)) \<le> length (me_path (mounts s i)))"
  by (rule mount_lookup_spec)

definition sample_mounts :: vfs where
  "sample_mounts = sample_dir\<lparr>mounts := (\<lambda>i. if i = 3 then \<lparr>me_path = ''/'', me_root = 4096, me_device = 16, me_fs = None, me_flags = 0, me_in_use = True\<rparr>
     else if i = 7 then \<lparr>me_path = ''/tmp'', me_root = 0, me_device = 0, me_fs = None, me_flags = 0, me_in_use = True\<rparr> else free_mount)\<rparr>"

lemma sample_covers: "covers pth (mounts sample_mounts i) \<longleftrightarrow>
   i = 3 \<and> pth \<noteq> [] \<and> hd pth = CHR ''/'' \<or> i = 7 \<and> (\<exists>r. pth = ''/tmp'' @ r \<and> (r = [] \<or> hd r = CHR ''/''))"
  by (cases pth) (auto simp: covers_def sample_mounts_def free_mount_def)

theorem mount_lookup_longest_witness:
  "mount_lookup ''/tmp/x'' sample_mounts = Some 7 \<and> mount_lookup ''/tmpx'' sample_mounts = Some 3"
proof
  have p: "me_path (mounts sample_mounts 7) = ''/tmp''" "me_path (mounts sample_mounts 3) = ''/''" by (simp_all add: sample_mounts_def)
  have c: "covers ''/tmp/x'' (mounts sample_mounts 7)" "covers ''/tmpx'' (mounts sample_mounts 3)"
    "\<not> covers ''/tmpx'' (mounts sample_mounts 7)" by (simp_all add: sample_covers)
  show "mount_lookup ''/tmp/x'' sample_mounts = Some 7"
  proof (cases "mount_lookup ''/tmp/x'' sample_mounts")
    case None
    then show ?thesis using mount_lookup_longest [of "''/tmp/x''" sample_mounts] c(1) by (auto dest: spec [of _ 7])
  next
    case (Some i)
    then have "covers ''/tmp/x'' (mounts sample_mounts i)" "4 \<le> length (me_path (mounts sample_mounts i))"
      using mount_lookup_longest [of "''/tmp/x''" sample_mounts] c(1) p by (auto dest: spec [of _ 7])
    then show ?thesis using Some p by (auto simp: sample_covers)
  qed
  show "mount_lookup ''/tmpx'' sample_mounts = Some 3"
    using mount_lookup_longest [of "''/tmpx''" sample_mounts] c(2,3)
    by (cases "mount_lookup ''/tmpx'' sample_mounts") (auto simp: sample_covers dest: spec [of _ 3])
qed

section \<open>Resolution walks the directory maps\<close>

text \<open>The components of a path: what the slashes separate, without the empty pieces.\<close>

primrec pieces :: "string \<Rightarrow> string list" where
  "pieces [] = [[]]"
| "pieces (c # p) = (if c = CHR ''/'' then [] # pieces p else (c # hd (pieces p)) # tl (pieces p))"

definition components :: "string \<Rightarrow> string list" where
  "components p = filter (\<lambda>c. c \<noteq> []) (pieces p)"

fun walk_tree :: "tree \<Rightarrow> u64 \<Rightarrow> string list \<Rightarrow> int \<times> u64" where
  "walk_tree A v [] = (0, v)"
| "walk_tree A v (c # cs) =
     (case A v of Some (Dir m) \<Rightarrow> (case m c of None \<Rightarrow> (- 1, 0) | Some w \<Rightarrow> walk_tree A w cs) | _ \<Rightarrow> (ENOTDIR, 0))"

lemma components_Nil [simp]: "components [] = []"
  by (simp add: components_def)

lemma components_dropWhile: "components (dropWhile (\<lambda>c. c = CHR ''/'') p) = components p"
  by (induction p) (simp_all add: components_def)

lemma pieces_split:
  "pieces p = takeWhile (\<lambda>c. c \<noteq> CHR ''/'') p #
     (if length (takeWhile (\<lambda>c. c \<noteq> CHR ''/'') p) < length p then pieces (drop (Suc (length (takeWhile (\<lambda>c. c \<noteq> CHR ''/'') p))) p) else [])"
  by (induction p) auto

lemma components_step:
  assumes "p \<noteq> []" "hd p \<noteq> CHR ''/''"
  shows "components p = takeWhile (\<lambda>c. c \<noteq> CHR ''/'') p # components (drop (Suc (length (takeWhile (\<lambda>c. c \<noteq> CHR ''/'') p))) p)"
proof -
  have "takeWhile (\<lambda>c. c \<noteq> CHR ''/'') p \<noteq> []" using assms by (cases p) auto
  moreover have "drop (Suc (length (takeWhile (\<lambda>c. c \<noteq> CHR ''/'') p))) p = []" if "\<not> length (takeWhile (\<lambda>c. c \<noteq> CHR ''/'') p) < length p"
    using that by simp
  ultimately show ?thesis unfolding components_def using pieces_split [of p] by (auto simp: components_def)
qed

lemma lookup_ram:
  assumes ok: "tree_ok L s" and d: "tree_of L s d = Some (Dir m)"
  shows "vfs_lookup ram_vops d nm s = Some (case m nm of None \<Rightarrow> (- 1, 0, s) | Some w \<Rightarrow> (0, w, s))"
proof -
  obtain es where es: "L d = Some es" "v_type (vnodes s d) = VDIR" "m = entries s es" by (rule tree_of_Dir [OF d])
  have o: "v_op (vnodes s d) = Some 0" "d \<noteq> 0"
    using node_ok_parts(12) [OF tree_ok_node [OF ok es(1)]] live_nonzero [OF ok] es(1) by (auto simp: domI)
  have "w \<noteq> 0" if "m nm = Some w" for w using live_nonzero [OF ok entry_live [OF ok es(1)]] that es(3) by simp
  then show ?thesis using o es(2,3) lookup_ok [OF ok es(1,2), of nm]
    by (auto simp: vfs_lookup_def vop_def ram_vops_def ramfs_ops_def ramfs_vop_lookup_def split: option.splits)
qed

lemma walk_loop_tree:
  assumes ok: "tree_ok L s"
  shows "cur \<in> dom L \<Longrightarrow> walk_loop ram_vops p cur s =
    Some (fst (walk_tree (tree_of L s) cur (components p)), snd (walk_tree (tree_of L s) cur (components p)), s)"
proof (induction p arbitrary: cur rule: length_induct)
  case (1 p)
  let ?p = "dropWhile (\<lambda>c. c = CHR ''/'') p"
  let ?c = "takeWhile (\<lambda>c. c \<noteq> CHR ''/'') ?p"
  show ?case
  proof (cases "?p = []")
    case True
    have "components p = []" using components_dropWhile [of p] unfolding True by simp
    then show ?thesis by (subst walk_loop.simps) (simp only: True Let_def walk_tree.simps fst_conv snd_conv refl if_True)
  next
    case False
    have h: "hd ?p \<noteq> CHR ''/''" using hd_dropWhile [of "\<lambda>c. c = CHR ''/''" p] False by simp
    have cs: "components p = ?c # components (drop (Suc (length ?c)) ?p)"
      using components_step [OF False h] components_dropWhile [of p] by simp
    have sh: "length (drop (Suc (length ?c)) ?p) < length p" using walk_shorter [OF refl False] by simp
    have "cur \<in> dom (tree_of L s)" using 1(2) by (auto simp: tree_of_def)
    from tree_of_live [OF this] show ?thesis
    proof (elim disjE exE)
      assume "tree_of L s cur = Some File"
      then show ?thesis using False tree_of_File [of L s cur] cs by (subst walk_loop.simps) (simp add: Let_def)
    next
      fix m assume m: "tree_of L s cur = Some (Dir m)"
      obtain es where es: "L cur = Some es" "v_type (vnodes s cur) = VDIR" "m = entries s es" by (rule tree_of_Dir [OF m])
      have "\<And>w. m ?c = Some w \<Longrightarrow> w \<in> dom L" using entry_live [OF ok es(1)] es(3) by simp
      then show ?thesis using False es(2) m cs 1(1) [rule_format, OF sh] lookup_ram [OF ok m, of ?c]
        by (subst walk_loop.simps) (auto simp: Let_def split: option.splits)
    qed
  qed
qed

lemma resolve_path_tree:
  assumes ok: "tree_ok L s" and i: "mount_lookup pth s = Some i" "me_root (mounts s i) \<in> dom L"
    and p: "hd pth = CHR ''/''" "pth \<noteq> []" "length pth < MAX_PATH"
  shows "vfs_resolve_path ram_vops pth s =
    (let (r, v) = walk_tree (tree_of L s) (me_root (mounts s i)) (components (drop (length (me_path (mounts s i))) pth))
     in Some (r, v, s))"
proof -
  define q where "q = drop (length (me_path (mounts s i))) pth"
  define r where "r = dropWhile (\<lambda>c. c = CHR ''/'') q"
  have c: "components r = components q" unfolding r_def by (rule components_dropWhile)
  have "length r \<le> length q" unfolding r_def by (rule length_dropWhile_le)
  then have "length r < MAX_PATH" using p(3) by (simp add: q_def)
  then have "vfs_walk_path ram_vops (me_root (mounts s i)) r s =
      (let (x, v) = walk_tree (tree_of L s) (me_root (mounts s i)) (components r) in Some (x, v, s))"
    using live_nonzero [OF ok i(2)] walk_loop_tree [OF ok i(2), of r]
    by (cases "r = []") (simp_all add: vfs_walk_path_def case_prod_beta)
  then show ?thesis
    unfolding c q_def [symmetric] using p i(1) live_nonzero [OF ok i(2)] by (simp add: vfs_resolve_path_def q_def [symmetric] r_def [symmetric])
qed

text \<open>C14: resolving an absolute path of fewer than 1024 characters returns what walking
  the directory maps from the root of its mount point returns: the vnode that
  the components name one after the other, -1 for a missing name and -2 for a
  component below a file; slashes may be repeated and trailing.\<close>

theorem resolve_path_walks_tree:
  assumes ok: "tree_ok L s" and i: "mount_lookup pth s = Some i" "me_root (mounts s i) \<in> dom L"
    and p: "hd pth = CHR ''/''" "pth \<noteq> []" "length pth < MAX_PATH"
  shows "vfs_resolve_path ram_vops pth s =
    (let (r, v) = walk_tree (tree_of L s) (me_root (mounts s i)) (components (drop (length (me_path (mounts s i))) pth))
     in Some (r, v, s))"
  using assms by (rule resolve_path_tree)

theorem resolve_path_walks_tree_witness:
  "vfs_resolve_path ram_vops ''//b/'' sample_mounts = Some (0, 20480, sample_mounts) \<and>
   vfs_resolve_path ram_vops ''/a/x'' sample_mounts = Some (- 2, 0, sample_mounts)"
proof -
  have ok: "tree_ok sample_live sample_mounts"
    using sample_dir_ok by (simp add: tree_ok_def node_ok_def cells_def sample_mounts_def)
  have m: "mount_lookup ''//b/'' sample_mounts = Some 3" "mount_lookup ''/a/x'' sample_mounts = Some 3"
    by (simp_all add: mount_lookup_def lookup_round_def sample_mounts_def free_mount_def upt_rec)
  have r: "me_root (mounts sample_mounts 3) = 4096" "me_path (mounts sample_mounts 3) = ''/''" by (simp_all add: sample_mounts_def)
  have A: "tree_of sample_live sample_mounts = [4096 \<mapsto> Dir [''a'' \<mapsto> 12288, ''b'' \<mapsto> 20480], 12288 \<mapsto> File, 20480 \<mapsto> File]"
    by (rule ext) (simp add: tree_of_def sample_live_def sample_mounts_def sample_dir_def new_vnode_def entries_def fun_upd_twist)
  have "4096 \<in> dom sample_live" by (simp add: sample_live_def)
  then show ?thesis
    using resolve_path_walks_tree [OF ok m(1)] resolve_path_walks_tree [OF ok m(2)] by (simp add: r A components_def)
qed

section \<open>Permissions\<close>

text \<open>The position of the permission bits that apply: of the owner, of the group, or of the others.\<close>

definition triplet :: "inode \<Rightarrow> u32 \<Rightarrow> u32 \<Rightarrow> nat" where
  "triplet ip uid gid = (if uid = i_uid ip then 6 else if gid = i_gid ip then 3 else 0)"

lemma and_bit_tests:
  "(w :: u32) AND 4 \<noteq> 0 \<longleftrightarrow> bit w 2" "w AND 2 \<noteq> 0 \<longleftrightarrow> bit w 1" "w AND 1 \<noteq> 0 \<longleftrightarrow> bit w 0"
  "(m :: u16) AND 4 = 0 \<longleftrightarrow> \<not> bit m 2" "m AND 2 = 0 \<longleftrightarrow> \<not> bit m 1" "m AND 1 = 0 \<longleftrightarrow> \<not> bit m 0"
  using and_push_bit_1_neq_0 [of 2 w] and_push_bit_1_neq_0 [of 1 w] and_push_bit_1_neq_0 [of 0 w]
    and_push_bit_1_neq_0 [of 2 m] and_push_bit_1_neq_0 [of 1 m] and_push_bit_1_neq_0 [of 0 m] by auto

lemma mode_bits: "bit ((k AND 0xF000) OR (m AND 0x0FFF) :: u16) j \<longleftrightarrow> (if j < 12 then bit m j else bit k j)"
proof (cases "j < 16")
  case True
  then have "j \<in> {0..<16}" by simp
  then have j: "bit (0xF000 :: u16) j \<longleftrightarrow> 12 \<le> j" "bit (0x0FFF :: u16) j \<longleftrightarrow> j < 12"
    by (auto simp: bit_numeral_rec atLeastLessThan_nat_numeral)
  then show ?thesis by (auto simp: bit_or_iff bit_and_iff)
next
  case False
  then show ?thesis by (auto dest: bit_imp_le_length)
qed

lemma check_perm_bits:
  assumes "v \<noteq> 0" "v_data (vnodes s v) \<noteq> 0" "ip = inodes s (v_data (vnodes s v))"
  shows "vfs_check_perm_as v how uid gid s = 0 \<longleftrightarrow> uid = 0 \<or> (\<forall>b\<in>{0, 1, 2}. bit how b \<longrightarrow> bit (i_mode ip) (triplet ip uid gid + b))"
proof -
  define P where "P = drop_bit (triplet ip uid gid) (i_mode ip) AND 7"
  have "bit (7 :: u16) j" if "j < 3" for j using that by (auto simp: bit_numeral_rec less_Suc_eq numeral_3_eq_3)
  then have b: "bit P j \<longleftrightarrow> bit (i_mode ip) (triplet ip uid gid + j)" if "j < 3" for j
    using that by (simp add: P_def bit_and_iff bit_drop_bit_eq)
  have e: "(if uid = i_uid ip then drop_bit 6 (i_mode ip) AND 7
      else if gid = i_gid ip then drop_bit 3 (i_mode ip) AND 7 else i_mode ip AND 7) = P"
    by (simp add: P_def triplet_def)
  have "vfs_check_perm_as v how uid gid s =
      (if uid = 0 then 0 else if bit how 2 \<and> \<not> bit P 2 then - 1 else if bit how 1 \<and> \<not> bit P 1 then - 1
       else if bit how 0 \<and> \<not> bit P 0 then - 1 else 0)"
    unfolding vfs_check_perm_as_def Let_def assms(3) [symmetric] e and_bit_tests using assms(1,2) by simp
  then show ?thesis using b [of 0] b [of 1] b [of 2] by auto
qed

text \<open>C37: \<open>vfs_chmod\<close> keeps the file type and, whoever calls it, sets the permission
  bits; a later check for any user, group and kind of access succeeds exactly
  for root or if the bits of the class the user falls into (owner, else group,
  else others) grant each kind of access asked for.\<close>

theorem chmod_decides_access:
  assumes "v \<noteq> 0" "v_data (vnodes s v) \<noteq> 0"
  defines "ip \<equiv> inodes s (v_data (vnodes s v))"
  shows "\<exists>t. vfs_chmod v mode s = (0, t) \<and> (\<forall>j\<ge>12. bit (i_mode (inodes t (v_data (vnodes t v)))) j = bit (i_mode ip) j) \<and>
    (\<forall>how uid gid. vfs_check_perm_as v how uid gid t = 0 \<longleftrightarrow>
       uid = 0 \<or> (\<forall>b\<in>{0, 1, 2}. bit how b \<longrightarrow> bit mode (triplet ip uid gid + b)))"
proof -
  let ?i = "v_data (vnodes s v)"
  define t where "t = upd_inode ?i (\<lambda>i. i\<lparr>i_mode := (i_mode i AND 0xF000) OR (mode AND 0x0FFF)\<rparr>) s"
  have c: "vfs_chmod v mode s = (0, t)" using assms(1,2) by (simp add: vfs_chmod_def t_def)
  have v: "v_data (vnodes t v) = ?i" by (simp add: t_def)
  have m: "bit (i_mode (inodes t ?i)) j \<longleftrightarrow> (if j < 12 then bit mode j else bit (i_mode ip) j)" for j
    by (simp only: t_def ip_def) (simp add: mode_bits)
  have tr: "triplet (inodes t ?i) uid gid = triplet ip uid gid" "triplet ip uid gid \<le> 6" for uid gid
    by (simp_all add: t_def ip_def triplet_def)
  have "vfs_check_perm_as v how uid gid t = 0 \<longleftrightarrow>
      uid = 0 \<or> (\<forall>b\<in>{0, 1, 2}. bit how b \<longrightarrow> bit mode (triplet ip uid gid + b))" for how uid gid
    using check_perm_bits [of v t "inodes t ?i" how uid gid] assms(1,2) v m tr(2) [of uid gid] by (simp add: tr(1))
  then show ?thesis using c v m by auto
qed

theorem chmod_decides_access_witness:
  "\<exists>t. vfs_chmod 12288 0x1C0 sample_dir = (0, t) \<and> vfs_check_perm_as 12288 4 7 7 t \<noteq> 0 \<and> vfs_check_perm_as 12288 4 0 7 t = 0"
proof -
  have d: "v_data (vnodes sample_dir 12288) \<noteq> 0" "i_uid (inodes sample_dir i) = 0" "i_gid (inodes sample_dir i) = 0" for i
    by (simp_all add: sample_dir_def sample_vfs_def new_vnode_def new_inode_def)
  have "\<not> bit (0x1C0 :: u16) 2" "bit (4 :: u32) 2" by (simp_all add: bit_numeral_rec)
  moreover obtain t where "vfs_chmod 12288 0x1C0 sample_dir = (0, t)"
    "\<And>how uid gid. vfs_check_perm_as 12288 how uid gid t = 0 \<longleftrightarrow>
       uid = 0 \<or> (\<forall>b\<in>{0, 1, 2}. bit how b \<longrightarrow> bit (0x1C0 :: u16) (triplet (inodes sample_dir (v_data (vnodes sample_dir 12288))) uid gid + b))"
    using chmod_decides_access [of 12288 sample_dir "0x1C0"] d(1) by auto
  ultimately show ?thesis by (intro exI [of _ t]) (simp add: triplet_def d)
qed

end
