(* ===== verification/Vfs_Files.thy ===== *)
theory Vfs_Files
  imports Mount_Props
begin

text \<open>
  The contents of the files of the RAM file system, through the buffer cache:
  as long as no write is longer than the blocks a file got at its first write,
  files are independent lists of bytes; a longer write runs into the blocks of
  the next file.
\<close>

section \<open>Reading and writing within the device\<close>

lemma block_write_flat:
  assumes inv: "cache_inv ram_spec D b" and d: "d \<in> D" and n: "0 < n" "p + n \<le> bd_total_blocks (bdevs b d) * BLOCK_SIZE"
  obtains b' where "block_write ram_drivers d p (Some src) n b = (int n, b')" "cache_inv ram_spec D b'" "bdevs b' = bdevs b"
    "\<And>d'. d' \<in> D \<Longrightarrow> fview ram_spec b' d' = (if d' = d then copy_into (fview ram_spec b d) p src 0 n else fview ram_spec b d')"
proof -
  have m: "moved n (bd_total_blocks (bdevs b d)) p = n" using n(2) by (simp add: moved_def)
  obtain r t g' where r: "bio_step ram_drivers (Bwrite d p src n) b = (r, t)"
    "flat_step (\<lambda>d. bd_total_blocks (bdevs b d)) (Bwrite d p src n) (fview ram_spec b) = (r, g')"
    "cache_inv ram_spec D t" "same_devs ram_spec b t" "\<forall>d\<in>D. g' d = fview ram_spec t d"
    using ram.bio_step_refines [OF inv, of "Bwrite d p src n" "fview ram_spec b" "\<lambda>d. bd_total_blocks (bdevs b d)"] d by auto
  have "g' = (fview ram_spec b)(d := copy_into (fview ram_spec b d) p src 0 n)" "r = (int n, [])" using r(2) n(1) m by simp_all
  then show thesis using r by (intro that [of t]) (auto simp: same_devs_def case_prod_beta Let_def prod_eq_iff)
qed

lemma block_read_flat:
  assumes inv: "cache_inv ram_spec D b" and d: "d \<in> D" and n: "0 < n" "p + n \<le> bd_total_blocks (bdevs b d) * BLOCK_SIZE"
  obtains b' dst' where "block_read ram_drivers d p (Some (\<lambda>_. 0)) n b = (int n, Some dst', b')" "cache_inv ram_spec D b'"
    "bdevs b' = bdevs b" "\<And>d'. d' \<in> D \<Longrightarrow> fview ram_spec b' d' = fview ram_spec b d'"
    "map dst' [0..<n] = map (\<lambda>k. fview ram_spec b d (p + k)) [0..<n]"
proof -
  have m: "moved n (bd_total_blocks (bdevs b d)) p = n" using n(2) by (simp add: moved_def)
  obtain r t g' where r: "bio_step ram_drivers (Bread d p n) b = (r, t)"
    "flat_step (\<lambda>d. bd_total_blocks (bdevs b d)) (Bread d p n) (fview ram_spec b) = (r, g')"
    "cache_inv ram_spec D t" "same_devs ram_spec b t" "\<forall>d\<in>D. g' d = fview ram_spec t d"
    using ram.bio_step_refines [OF inv, of "Bread d p n" "fview ram_spec b" "\<lambda>d. bd_total_blocks (bdevs b d)"] d by auto
  have d0: "d \<noteq> 0" using d inv by (auto simp: cache_inv_def cache_ok_def devs_ok_def)
  have g: "g' = fview ram_spec b" "r = (int n, map (\<lambda>k. fview ram_spec b d (p + k)) [0..<n])" using r(2) n(1) m by auto
  obtain x dst' b' where e: "block_read ram_drivers d p (Some (\<lambda>_. 0)) n b = (x, Some dst', b')"
    using n(1) d0 by (simp add: block_read_def case_prod_beta)
  then have "x = int n \<and> b' = t \<and> map dst' [0..<n] = map (\<lambda>k. fview ram_spec b d (p + k)) [0..<n]"
    using r(1) g(2) by auto
  then show thesis using e r(3-5) g(1) by (intro that [of dst' t]) (auto simp: same_devs_def)
qed

section \<open>Files as lists of bytes\<close>

definition file_start :: "inode \<Rightarrow> nat" where "file_start ip = i_start_block ip * BLOCK_SIZE"
definition file_room :: "inode \<Rightarrow> nat" where "file_room ip = i_blocks ip * BLOCK_SIZE"

definition file_data :: "vfs \<Rightarrow> u64 \<Rightarrow> u8 list" where
  "file_data s i = map (\<lambda>k. fview ram_spec (blk s) (i_bdev (inodes s i)) (file_start (inodes s i) + k)) [0..<unat (i_size (inodes s i))]"

text \<open>
  The files \<open>I\<close> (inodes by address) have extents on the devices \<open>D\<close> that do not
  overlap and end before the next free block.
\<close>

definition inode_ok :: "u64 set \<Rightarrow> vfs \<Rightarrow> inode \<Rightarrow> bool" where
  "inode_ok D s ip \<longleftrightarrow> i_bdev ip \<in> D \<and> unat (i_size ip) \<le> file_room ip \<and> unat (i_size ip) < 2 ^ 31 \<and>
     (0 < i_blocks ip \<longrightarrow> i_start_block ip + i_blocks ip \<le> next_free_block s \<and>
        i_start_block ip + i_blocks ip \<le> bd_total_blocks (bdevs (blk s) (i_bdev ip)))"

definition apart :: "inode \<Rightarrow> inode \<Rightarrow> bool" where
  "apart ip jp \<longleftrightarrow> i_bdev ip \<noteq> i_bdev jp \<or> i_blocks ip = 0 \<or> i_blocks jp = 0 \<or>
     i_start_block ip + i_blocks ip \<le> i_start_block jp \<or> i_start_block jp + i_blocks jp \<le> i_start_block ip"

definition files_ok :: "u64 set \<Rightarrow> u64 set \<Rightarrow> vfs \<Rightarrow> bool" where
  "files_ok D I s \<longleftrightarrow> cache_inv ram_spec D (blk s) \<and> 0 \<notin> I \<and> cur_cred s = None \<and> (\<forall>i\<in>I. inode_ok D s (inodes s i)) \<and>
     (\<forall>i\<in>I. \<forall>j\<in>I. i \<noteq> j \<longrightarrow> apart (inodes s i) (inodes s j))"

datatype file_op = Fwrite u64 "u8 array" nat | Fread u64 nat

fun file_step :: "file_op \<Rightarrow> vfs \<Rightarrow> (int \<times> u8 list) \<times> vfs" where
  "file_step (Fwrite v src n) s = (let (r, t) = vfs_write ram_vops v (Some src) n s in ((r, []), t))"
| "file_step (Fread v n) s =
     (case vfs_read ram_vops v (Some (\<lambda>_. 0)) n s of
        (r, Some dst, t) \<Rightarrow> ((r, map dst [0..<nat r]), t)
      | (r, None, t) \<Rightarrow> ((r, []), t))"

fun file_spec :: "(u64 \<Rightarrow> u64) \<Rightarrow> file_op \<Rightarrow> (u64 \<Rightarrow> u8 list) \<Rightarrow> (int \<times> u8 list) \<times> (u64 \<Rightarrow> u8 list)" where
  "file_spec ino (Fwrite v src n) g = ((int n, []), g(ino v := map src [0..<n]))"
| "file_spec ino (Fread v n) g = ((int (length (take n (g (ino v)))), take n (g (ino v))), g)"

text \<open>
  The operation is on a file of \<open>I\<close> and moves between 1 and \<open>2^31 - 1\<close> bytes;
  a first write finds room on the device, a later one fits the blocks of the
  file.
\<close>

fun op_vnode :: "file_op \<Rightarrow> u64" where
  "op_vnode (Fwrite v src n) = v"
| "op_vnode (Fread v n) = v"

fun fits :: "file_op \<Rightarrow> vfs \<Rightarrow> bool" where
  "fits (Fwrite v src n) s =
     (let ip = inodes s (v_data (vnodes s v)) in 0 < n \<and> n < 2 ^ 31 \<and>
        (if i_blocks ip = 0 then next_free_block s + (n + BLOCK_SIZE - 1) div BLOCK_SIZE \<le> bd_total_blocks (bdevs (blk s) (i_bdev ip))
         else n \<le> file_room ip))"
| "fits (Fread v n) s = (0 < n)"

fun fits_all :: "file_op list \<Rightarrow> vfs \<Rightarrow> bool" where
  "fits_all [] s = True"
| "fits_all (op # ops) s = (fits op s \<and> fits_all ops (snd (file_step op s)))"

lemma as_int_small: "k < 2 ^ 31 \<Longrightarrow> as_int (int k) = int k"
  unfolding as_int_def sint_sbintrunc' by (rule signed_take_bit_int_eq_self) simp_all

lemma vfs_calls:
  assumes "v \<noteq> 0" "v_op (vnodes s v) = Some 0" "v_data (vnodes s v) \<noteq> 0" "cur_cred s = None"
  shows "vfs_write ram_vops v buf n s = ramfs_write v buf n s" "vfs_read ram_vops v buf n s = ramfs_read v buf n s"
  using assms by (simp_all add: vfs_write_def vfs_read_def vop_def ram_vops_def ramfs_ops_def vfs_check_perm_def vfs_check_perm_as_def)

section \<open>Writing\<close>

text \<open>The inode of a file after the blocks of a first write have been allocated.\<close>

definition placed :: "nat \<Rightarrow> vfs \<Rightarrow> inode \<Rightarrow> inode" where
  "placed n s ip = (if i_blocks ip = 0 then ip\<lparr>i_start_block := next_free_block s, i_blocks := (n + BLOCK_SIZE - 1) div BLOCK_SIZE\<rparr> else ip)"

lemma blocks_needed:
  assumes "0 < n" "n < 2 ^ 31"
  shows "(n + BLOCK_SIZE - 1) mod 2 ^ 64 div BLOCK_SIZE = (n + BLOCK_SIZE - 1) div BLOCK_SIZE" "0 < (n + BLOCK_SIZE - 1) div BLOCK_SIZE"
    "n \<le> (n + BLOCK_SIZE - 1) div BLOCK_SIZE * BLOCK_SIZE"
  using assms by (simp_all add: div_greater_zero_iff)

lemma ramfs_write_eq:
  assumes v: "v \<noteq> 0" and i: "i = v_data (vnodes s v)" "i \<noteq> 0" and d: "i_bdev (inodes s i) \<noteq> 0" and n: "0 < n" "n < 2 ^ 31"
    and room: "i_blocks (inodes s i) = 0 \<Longrightarrow>
      next_free_block s + (n + BLOCK_SIZE - 1) div BLOCK_SIZE \<le> bd_total_blocks (bdevs (blk s) (i_bdev (inodes s i)))"
    and w: "block_write ram_drivers (i_bdev (inodes s i)) (file_start (placed n s (inodes s i))) (Some src) n (blk s) = (int n, b)"
  shows "\<exists>t. ramfs_write v (Some src) n s = (int n, t) \<and> vnodes t = vnodes s \<and> cur_cred t = cur_cred s \<and> blk t = b \<and>
    inodes t = (inodes s)(i := (placed n s (inodes s i))\<lparr>i_size := of_nat n\<rparr>) \<and>
    next_free_block t = next_free_block s + (if i_blocks (inodes s i) = 0 then (n + BLOCK_SIZE - 1) div BLOCK_SIZE else 0)"
proof (cases "i_blocks (inodes s i) = 0")
  case True
  then show ?thesis
    using assms blocks_needed [OF n] as_int_small [OF n(2)]
    by (simp add: ramfs_write_def vfs_alloc_blocks_def placed_def file_start_def upd_inode_def Let_def)
next
  case False
  then show ?thesis
    using assms as_int_small [OF n(2)] by (simp add: ramfs_write_def placed_def file_start_def upd_inode_def Let_def)
qed

lemma unat_size: "n < 2 ^ 31 \<Longrightarrow> unat (of_nat n :: u32) = n"
  by (simp add: unat_of_nat take_bit_nat_eq_self)

lemma placed_ok:
  assumes ok: "files_ok D I s" and i: "i \<in> I" and n: "0 < n" "n < 2 ^ 31"
    and f: "if i_blocks (inodes s i) = 0
       then next_free_block s + (n + BLOCK_SIZE - 1) div BLOCK_SIZE \<le> bd_total_blocks (bdevs (blk s) (i_bdev (inodes s i)))
       else n \<le> file_room (inodes s i)"
  defines "pp \<equiv> placed n s (inodes s i)"
  shows "n \<le> file_room pp" "i_bdev pp = i_bdev (inodes s i)" "i_start_block pp + i_blocks pp \<le> bd_total_blocks (bdevs (blk s) (i_bdev pp))"
    "i_start_block pp + i_blocks pp \<le> next_free_block s + (if i_blocks (inodes s i) = 0 then (n + BLOCK_SIZE - 1) div BLOCK_SIZE else 0)"
    "\<And>j. j \<in> I \<Longrightarrow> j \<noteq> i \<Longrightarrow> apart pp (inodes s j)"
proof -
  have io: "inode_ok D s (inodes s j)" if "j \<in> I" for j using ok that by (simp add: files_ok_def)
  show "n \<le> file_room pp" "i_bdev pp = i_bdev (inodes s i)" "i_start_block pp + i_blocks pp \<le> bd_total_blocks (bdevs (blk s) (i_bdev pp))"
    "i_start_block pp + i_blocks pp \<le> next_free_block s + (if i_blocks (inodes s i) = 0 then (n + BLOCK_SIZE - 1) div BLOCK_SIZE else 0)"
    using f blocks_needed(3) [OF n] io [OF i] n(1) by (simp_all add: pp_def placed_def file_room_def inode_ok_def split: if_splits)
  show "apart pp (inodes s j)" if j: "j \<in> I" "j \<noteq> i" for j
  proof -
    have "apart (inodes s i) (inodes s j)" using ok i j(1) j(2) [symmetric] by (simp add: files_ok_def)
    then show ?thesis using io [OF j(1)] by (auto simp: pp_def placed_def apart_def inode_ok_def)
  qed
qed

lemma file_write_step:
  assumes ok: "files_ok D I s" and v: "v \<noteq> 0" "v_op (vnodes s v) = Some 0" and i: "i = v_data (vnodes s v)" "i \<in> I"
    and fit: "fits (Fwrite v src n) s"
  shows "\<exists>t. vfs_write ram_vops v (Some src) n s = (int n, t) \<and> files_ok D I t \<and> vnodes t = vnodes s \<and>
    (\<forall>j\<in>I. file_data t j = (if j = i then map src [0..<n] else file_data s j))"
proof -
  let ?pp = "placed n s (inodes s i)"
  have n: "0 < n" "n < 2 ^ 31" and f: "if i_blocks (inodes s i) = 0
       then next_free_block s + (n + BLOCK_SIZE - 1) div BLOCK_SIZE \<le> bd_total_blocks (bdevs (blk s) (i_bdev (inodes s i)))
       else n \<le> file_room (inodes s i)" using fit unfolding fits.simps Let_def i(1) [symmetric] by blast+
  note p = placed_ok [OF ok i(2) n f]
  have inv: "cache_inv ram_spec D (blk s)" and i0: "i \<noteq> 0" and cr: "cur_cred s = None" and io: "\<And>j. j \<in> I \<Longrightarrow> inode_ok D s (inodes s j)"
    using ok i(2) by (auto simp: files_ok_def)
  have d: "i_bdev (inodes s i) \<in> D" "i_bdev (inodes s i) \<noteq> 0"
    using io [OF i(2)] inv by (auto simp: inode_ok_def cache_inv_def cache_ok_def devs_ok_def)
  have fs: "file_start ?pp + n \<le> bd_total_blocks (bdevs (blk s) (i_bdev (inodes s i))) * BLOCK_SIZE"
    using p(1-3) unfolding file_start_def file_room_def by simp
  obtain b where b: "block_write ram_drivers (i_bdev (inodes s i)) (file_start ?pp) (Some src) n (blk s) = (int n, b)"
      "cache_inv ram_spec D b" "bdevs b = bdevs (blk s)"
    and fv: "\<And>d'. d' \<in> D \<Longrightarrow> fview ram_spec b d' = (if d' = i_bdev (inodes s i)
        then copy_into (fview ram_spec (blk s) (i_bdev (inodes s i))) (file_start ?pp) src 0 n else fview ram_spec (blk s) d')"
    by (rule block_write_flat [OF inv d(1) n(1) fs, of src]) (rule that)
  obtain t where t: "ramfs_write v (Some src) n s = (int n, t)" "vnodes t = vnodes s" "cur_cred t = cur_cred s" "blk t = b"
      "inodes t = (inodes s)(i := ?pp\<lparr>i_size := of_nat n\<rparr>)"
      "next_free_block t = next_free_block s + (if i_blocks (inodes s i) = 0 then (n + BLOCK_SIZE - 1) div BLOCK_SIZE else 0)"
    using ramfs_write_eq [OF v(1) i(1) i0 d(2) n _ b(1)] f by (auto split: if_splits)
  have "inode_ok D t (inodes t j)" if "j \<in> I" for j
    using io [OF that] p(1-4) d(1) n unat_size [OF n(2)] b(3) t(4-6) by (auto simp: inode_ok_def file_room_def)
  moreover have "apart (inodes t j) (inodes t k)" if "j \<in> I" "k \<in> I" "j \<noteq> k" for j k
    using that p(5) [of j] p(5) [of k] ok t(5) by (auto simp: files_ok_def apart_def)
  ultimately have "files_ok D I t" using ok b(2) t(3,4) by (simp add: files_ok_def)
  moreover have "file_data t i = map src [0..<n]"
    using fv [OF d(1)] t(4,5) p(2) unat_size [OF n(2)] by (simp add: file_data_def file_start_def copy_into_def)
  moreover have "file_data t j = file_data s j" if j: "j \<in> I" "j \<noteq> i" for j
  proof -
    let ?jp = "inodes s j"
    have "fview ram_spec b (i_bdev ?jp) (file_start ?jp + k) = fview ram_spec (blk s) (i_bdev ?jp) (file_start ?jp + k)"
      if k: "k < unat (i_size ?jp)" for k
    proof -
      have "k < file_room ?jp" "i_bdev ?jp \<in> D" using io [OF j(1)] k by (auto simp: inode_ok_def)
      then show ?thesis using fv [of "i_bdev ?jp"] p(1,2) p(5) [OF j] unfolding apart_def file_start_def file_room_def copy_into_def by auto
    qed
    then show ?thesis using t(4,5) j(2) by (simp add: file_data_def)
  qed
  ultimately show ?thesis using t(1,2) vfs_calls(1) [OF v _ cr] i0 i(1) by auto
qed

lemma file_read_step:
  assumes ok: "files_ok D I s" and v: "v \<noteq> 0" "v_op (vnodes s v) = Some 0" and i: "i = v_data (vnodes s v)" "i \<in> I" and n: "0 < n"
  shows "\<exists>t dst. vfs_read ram_vops v (Some (\<lambda>_. 0)) n s = (int (length (take n (file_data s i))), Some dst, t) \<and>
    map dst [0..<length (take n (file_data s i))] = take n (file_data s i) \<and> files_ok D I t \<and> vnodes t = vnodes s \<and>
    (\<forall>j\<in>I. file_data t j = file_data s j)"
proof -
  let ?ip = "inodes s i" let ?k = "min n (unat (i_size ?ip))"
  have inv: "cache_inv ram_spec D (blk s)" and i0: "i \<noteq> 0" and cr: "cur_cred s = None" and io: "\<And>j. j \<in> I \<Longrightarrow> inode_ok D s (inodes s j)"
    using ok i(2) by (auto simp: files_ok_def)
  have tk: "take n (file_data s i) = map (\<lambda>k. fview ram_spec (blk s) (i_bdev ?ip) (file_start ?ip + k)) [0..<?k]"
    by (simp add: file_data_def take_map min_def)
  have ca: "vfs_read ram_vops v (Some (\<lambda>_. 0)) n s = ramfs_read v (Some (\<lambda>_. 0)) n s" using vfs_calls(2) [OF v _ cr] i0 i(1) by simp
  show ?thesis
  proof (cases "i_size ?ip = 0")
    case True
    then show ?thesis using ok v(1) i i0 ca by (simp add: ramfs_read_def file_data_def)
  next
    case False
    then have k: "0 < ?k" using n by (simp add: unat_gt_0)
    have d: "i_bdev ?ip \<in> D" "i_bdev ?ip \<noteq> 0" "unat (i_size ?ip) \<le> file_room ?ip" "unat (i_size ?ip) < 2 ^ 31"
      using io [OF i(2)] inv by (auto simp: inode_ok_def cache_inv_def cache_ok_def devs_ok_def)
    then have bl: "0 < i_blocks ?ip" using k unfolding file_room_def by (cases "i_blocks ?ip") auto
    then have fs: "file_start ?ip + ?k \<le> bd_total_blocks (bdevs (blk s) (i_bdev ?ip)) * BLOCK_SIZE"
      using io [OF i(2)] unfolding inode_ok_def file_start_def file_room_def by auto
    obtain b dst where b: "block_read ram_drivers (i_bdev ?ip) (file_start ?ip) (Some (\<lambda>_. 0)) ?k (blk s) = (int ?k, Some dst, b)"
      "cache_inv ram_spec D b" "bdevs b = bdevs (blk s)" "\<And>d'. d' \<in> D \<Longrightarrow> fview ram_spec b d' = fview ram_spec (blk s) d'"
      "map dst [0..<?k] = map (\<lambda>k. fview ram_spec (blk s) (i_bdev ?ip) (file_start ?ip + k)) [0..<?k]"
      by (rule block_read_flat [OF inv d(1) k fs]) (rule that)
    have "as_int (int ?k) = int ?k" by (rule as_int_small) (use d(4) in simp)
    then have "ramfs_read v (Some (\<lambda>_. 0)) n s = (int ?k, Some dst, s\<lparr>blk := b\<rparr>)"
      using v(1) i(1) i0 False d(2) bl b(1) by (simp add: ramfs_read_def Let_def file_start_def)
    moreover have "files_ok D I (s\<lparr>blk := b\<rparr>)" using ok b(2,3) by (simp add: files_ok_def inode_ok_def)
    moreover have "file_data (s\<lparr>blk := b\<rparr>) j = file_data s j" if "j \<in> I" for j
      using b(4) io [OF that] by (simp add: file_data_def inode_ok_def)
    moreover have "length (take n (file_data s i)) = ?k" unfolding tk by simp
    ultimately show ?thesis unfolding ca using b(5) tk by (intro exI [of _ "s\<lparr>blk := b\<rparr>"] exI [of _ dst]) simp
  qed
qed

section \<open>Independent files\<close>

definition file_vnode :: "u64 set \<Rightarrow> vfs \<Rightarrow> u64 \<Rightarrow> bool" where
  "file_vnode I s v \<longleftrightarrow> v \<noteq> 0 \<and> v_op (vnodes s v) = Some 0 \<and> v_data (vnodes s v) \<in> I"

lemma file_step_refines:
  assumes ok: "files_ok D I s" and v: "file_vnode I s (op_vnode op)" and fit: "fits op s" and g: "\<And>j. j \<in> I \<Longrightarrow> g j = file_data s j"
  shows "\<exists>r t g'. file_step op s = (r, t) \<and> file_spec (\<lambda>v. v_data (vnodes s v)) op g = (r, g') \<and> files_ok D I t \<and>
    vnodes t = vnodes s \<and> (\<forall>j\<in>I. g' j = file_data t j)"
proof (cases op)
  case (Fwrite v src n)
  then have w: "v \<noteq> 0" "v_op (vnodes s v) = Some 0" "v_data (vnodes s v) \<in> I" using v by (simp_all add: file_vnode_def)
  show ?thesis using file_write_step [OF ok w(1,2) refl w(3), of src n] fit g Fwrite by (auto simp del: fits.simps)
next
  case (Fread v n)
  then have w: "v \<noteq> 0" "v_op (vnodes s v) = Some 0" "v_data (vnodes s v) \<in> I" using v by (simp_all add: file_vnode_def)
  obtain t dst where "vfs_read ram_vops v (Some (\<lambda>_. 0)) n s = (int (length (take n (file_data s (v_data (vnodes s v))))), Some dst, t)"
    "map dst [0..<length (take n (file_data s (v_data (vnodes s v))))] = take n (file_data s (v_data (vnodes s v)))"
    "files_ok D I t" "vnodes t = vnodes s" "\<forall>j\<in>I. file_data t j = file_data s j"
    using file_read_step [OF ok w(1,2) refl w(3), of n] fit Fread by auto
  then show ?thesis using g w(3) Fread by (auto simp del: length_take)
qed

lemma file_run_refines:
  assumes "files_ok D I s" "\<forall>op\<in>set ops. file_vnode I s (op_vnode op)" "fits_all ops s" "\<And>j. j \<in> I \<Longrightarrow> g j = file_data s j"
  shows "fst (run file_step ops s) = fst (run (file_spec (\<lambda>v. v_data (vnodes s v))) ops g)"
  using assms
proof (induction ops arbitrary: s g)
  case (Cons op ops)
  obtain r t g' where t: "file_step op s = (r, t)" "file_spec (\<lambda>v. v_data (vnodes s v)) op g = (r, g')" "files_ok D I t"
    "vnodes t = vnodes s" "\<forall>j\<in>I. g' j = file_data t j"
    using file_step_refines [OF Cons.prems(1), of op g] Cons.prems by auto
  have "fst (run file_step ops t) = fst (run (file_spec (\<lambda>v. v_data (vnodes t v))) ops g')"
    by (rule Cons.IH) (use t Cons.prems(2,3) in \<open>auto simp: file_vnode_def\<close>)
  then show ?case using t(1,2,4) by (simp add: case_prod_beta)
qed simp

text \<open>C6: as long as every write fits the blocks its file got at the first write, and
  with no credential set to check, any sequence of non-empty reads and writes
  (below \<open>2 ^ 31\<close> bytes) through \<open>vfs_read\<close> and \<open>vfs_write\<close> returns what it would return on independent lists of bytes: a read delivers what the last
  write to the same file stored, whatever was written to other files and
  whatever the buffer cache evicted in between.\<close>

theorem files_are_byte_lists:
  assumes "files_ok D I s" "\<forall>op\<in>set ops. file_vnode I s (op_vnode op)" "fits_all ops s"
  shows "fst (run file_step ops s) = fst (run (file_spec (\<lambda>v. v_data (vnodes s v))) ops (file_data s))"
  using assms by (rule file_run_refines) simp

text \<open>A sample: two files of one block each on the device of \<open>sample_cache\<close>.\<close>

definition sample_files :: vfs where
  "sample_files = sample_vfs\<lparr>blk := cache_boot sample_cache, next_free_block := 2,
     vnodes := (\<lambda>v. new_vnode VREG (if v = 12288 then 16384 else 24576)),
     inodes := (\<lambda>i. (new_inode VREG 16 None)\<lparr>i_start_block := (if i = 16384 then 0 else 1), i_blocks := 1, i_size := 3\<rparr>)\<rparr>"

lemma sample_files_ok: "files_ok {16} {16384, 24576} sample_files"
proof -
  have b: "cache_inv ram_spec {16} (cache_boot sample_cache)" "bd_total_blocks (bdevs (cache_boot sample_cache) 16) = 2"
    using cache_boot_ok(1,2) [OF boot_ok_sample] by (simp_all add: sample_cache_def)
  then show ?thesis
    by (simp add: files_ok_def sample_files_def sample_vfs_def inode_ok_def apart_def new_inode_def file_room_def)
qed

theorem files_are_byte_lists_witness:
  "fst (run file_step [Fwrite 12288 (\<lambda>_. 7) 2, Fread 12288 5] sample_files) = [(2, []), (2, [7, 7])]"
proof -
  have "fits_all [Fwrite 12288 (\<lambda>_. 7) 2, Fread 12288 5] sample_files"
    by (simp add: sample_files_def new_inode_def file_room_def)
  moreover have "file_vnode {16384, 24576} sample_files 12288" "v_data (vnodes sample_files 12288) = 16384"
    by (simp_all add: file_vnode_def sample_files_def new_vnode_def)
  ultimately show ?thesis
    using files_are_byte_lists [OF sample_files_ok, of "[Fwrite 12288 (\<lambda>_. 7) 2, Fread 12288 5]"] by (simp add: upt_rec)
qed

section \<open>A longer write runs into the next file\<close>

text \<open>C40: \<open>ramfs_write\<close> does not compare the length of a later write with the blocks
  of the file: the bytes past them are stored in the blocks of the file that
  was allocated next, which then reads as these bytes.\<close>

theorem long_write_overruns_next_file:
  assumes ok: "files_ok D I s" and v: "file_vnode I s v" and i: "ip = inodes s (v_data (vnodes s v))" "0 < i_blocks ip"
    and j: "j \<in> I" "i_bdev (inodes s j) = i_bdev ip" "i_start_block (inodes s j) = i_start_block ip + i_blocks ip"
    and n: "n \<le> file_room ip + file_room (inodes s j)" "n < 2 ^ 31" "file_room ip + k < n" "k < unat (i_size (inodes s j))"
  shows "\<exists>t. vfs_write ram_vops v (Some src) n s = (int n, t) \<and> file_data t j ! k = src (file_room ip + k)"
proof -
  let ?i = "v_data (vnodes s v)" let ?jp = "inodes s j"
  have w: "v \<noteq> 0" "v_op (vnodes s v) = Some 0" "?i \<in> I" using v by (simp_all add: file_vnode_def)
  have inv: "cache_inv ram_spec D (blk s)" and i0: "?i \<noteq> 0" and cr: "cur_cred s = None" and io: "\<And>j. j \<in> I \<Longrightarrow> inode_ok D s (inodes s j)"
    using ok w(3) by (auto simp: files_ok_def)
  have d: "i_bdev ip \<in> D" "i_bdev ip \<noteq> 0"
    using io [OF w(3)] inv i(1) by (auto simp: inode_ok_def cache_inv_def cache_ok_def devs_ok_def)
  have ij: "j \<noteq> ?i" using i j(3) by auto
  have jb: "0 < i_blocks ?jp" using io [OF j(1)] n(4) by (cases "i_blocks ?jp") (auto simp: inode_ok_def file_room_def)
  then have fs: "file_start ip + n \<le> bd_total_blocks (bdevs (blk s) (i_bdev ip)) * BLOCK_SIZE"
    using io [OF j(1)] j(2,3) n(1) unfolding inode_ok_def file_start_def file_room_def by auto
  have n0: "0 < n" using n(3) by simp
  obtain b where b: "block_write ram_drivers (i_bdev ip) (file_start ip) (Some src) n (blk s) = (int n, b)"
    "\<And>d'. d' \<in> D \<Longrightarrow> fview ram_spec b d' = (if d' = i_bdev ip
        then copy_into (fview ram_spec (blk s) (i_bdev ip)) (file_start ip) src 0 n else fview ram_spec (blk s) d')"
    by (rule block_write_flat [OF inv d(1) n0 fs, of src]) (rule that)
  have "placed n s ip = ip" using i(2) by (simp add: placed_def)
  then obtain t where t: "ramfs_write v (Some src) n s = (int n, t)" "blk t = b" "inodes t = (inodes s)(?i := ip\<lparr>i_size := of_nat n\<rparr>)"
    using ramfs_write_eq [OF w(1) refl i0 _ n0 n(2), of src b] d(2) i b(1) by auto
  have "file_start ?jp + k = file_start ip + (file_room ip + k)" using j(3) by (simp add: file_start_def file_room_def algebra_simps)
  then have "file_data t j ! k = src (file_room ip + k)"
    using n(3,4) ij j(2) b(2) [OF d(1)] t(2,3) by (simp add: file_data_def copy_into_def)
  then show ?thesis using t(1) vfs_calls(1) [OF w(1,2) i0 cr] by auto
qed

theorem long_write_overruns_next_file_witness:
  "\<exists>t. vfs_write ram_vops 12288 (Some (\<lambda>k. if k < 4096 then 1 else 5)) 4097 sample_files = (4097, t) \<and> file_data t 24576 ! 0 = 5"
proof -
  have "file_vnode {16384, 24576} sample_files 12288" "v_data (vnodes sample_files 12288) = 16384"
    by (simp_all add: file_vnode_def sample_files_def new_vnode_def)
  moreover have "inodes sample_files i = (new_inode VREG 16 None)\<lparr>i_start_block := (if i = 16384 then 0 else 1), i_blocks := 1, i_size := 3\<rparr>" for i
    by (simp add: sample_files_def)
  ultimately show ?thesis
    using long_write_overruns_next_file [OF sample_files_ok, of 12288 "inodes sample_files 16384" 24576 4097 0 "\<lambda>k. if k < 4096 then 1 else 5"]
    by (simp add: new_inode_def file_room_def)
qed

end
