(* ===== verification/Fs_Boot.thy ===== *)
theory Fs_Boot
  imports Vfs_Files
begin

text \<open>
  The start-up of the file systems (\<open>fs_init_root\<close>): with enough frames it
  succeeds, and it leaves two root directories, the one of \<open>vfs_init\<close> and the
  one mounted at \<open>/\<close>.
\<close>

definition ram_fsops :: "nat \<Rightarrow> filesystem_ops" where
  "ram_fsops t = ramfs_fs_ops"

text \<open>The state at the call: nothing registered, cached or mounted yet, and 74 free frames.\<close>

definition fs_start :: "vfs \<Rightarrow> bool" where
  "fs_start s \<longleftrightarrow> \<not> block_initialized (blk s) \<and> lru_head (blk s) = None \<and> lru_tail (blk s) = None \<and>
     registered_fs s = [] \<and> pfa_inv (fr s) \<and> 74 \<le> card (free_frames (fr s))"

lemma card_avail: "pfa_inv f \<Longrightarrow> card (pfa_avail f) = card (free_frames f)"
  using free_frames_below [of f] frame_addr_inj unfolding pfa_avail_def by (intro card_image) (auto simp: inj_on_def)

section \<open>The block layer and the root device\<close>

definition set_pfa :: "pfa \<Rightarrow> ram_store bcache \<Rightarrow> ram_store bcache" where
  "set_pfa f b = b\<lparr>bstore := (bstore b)\<lparr>ram_pfa := f\<rparr>\<rparr>"

lemma set_pfa_sel [simp]:
  "ram_pfa (bstore (set_pfa f b)) = f" "bdevs (set_pfa f b) = bdevs b" "ram_data (bstore (set_pfa f b)) = ram_data (bstore b)"
  "registered_devices (set_pfa f b) = registered_devices b" "num_devices (set_pfa f b) = num_devices b"
  by (simp_all add: set_pfa_def)

lemma take_frame_some:
  assumes "pfa_inv (ram_pfa (bstore b))" "0 < card (free_frames (ram_pfa (bstore b)))"
  obtains a f where "take_frame b = (a, set_pfa f b)" "a \<noteq> 0" "pfa_inv f" "card (free_frames f) + 1 = card (free_frames (ram_pfa (bstore b)))"
proof -
  let ?f = "ram_pfa (bstore b)"
  have ne: "free_frames ?f \<noteq> {}" using assms(2) by auto
  let ?m = "Min (free_frames ?f)"
  have mem: "?m \<in> free_frames ?f" using ne by simp
  obtain g where g: "pfa_alloc_frame ?f = (frame_addr ?m, g)" "free_frames g = free_frames ?f - {?m}" "pfa_inv g"
    by (rule pfa_alloc_frame_some [OF assms(1) ne]) (rule that)
  have nz: "frame_addr ?m \<noteq> 0" using free_frames_below [OF assms(1) mem] frame_addr_eq_0 [of ?m] by simp
  have "card (free_frames g) + 1 = card (free_frames ?f)"
    using mem g(2) card_Suc_Diff1 [OF finite_free_frames mem] by simp
  then show thesis using g(1,3) nz by (intro that [of "frame_addr ?m" g]) (simp_all add: take_frame_def set_pfa_def)
qed

lemma ramblock_create_ok:
  assumes inv: "pfa_inv (ram_pfa (bstore b))" and n: "3 \<le> card (free_frames (ram_pfa (bstore b)))"
  obtains dev b' where "ramblock_create nm 256 b = (dev, b')" "dev \<noteq> 0" "pfa_inv (ram_pfa (bstore b'))"
    "card (free_frames (ram_pfa (bstore b'))) + 3 = card (free_frames (ram_pfa (bstore b)))" "bd_ops (bdevs b' dev) = Some 0"
proof -
  obtain a f where a: "take_frame b = (a, set_pfa f b)" "a \<noteq> 0" "pfa_inv f" "card (free_frames f) + 1 = card (free_frames (ram_pfa (bstore b)))"
    by (rule take_frame_some [OF inv]) (use n in auto)
  obtain c g where c: "take_frame (set_pfa f b) = (c, set_pfa g (set_pfa f b))" "c \<noteq> 0" "pfa_inv g" "card (free_frames g) + 1 = card (free_frames f)"
    by (rule take_frame_some [of "set_pfa f b"]) (use n a in auto)
  obtain e h where e: "take_frame (set_pfa g (set_pfa f b)) = (e, set_pfa h (set_pfa g (set_pfa f b)))" "e \<noteq> 0" "pfa_inv h"
      "card (free_frames h) + 1 = card (free_frames g)"
    by (rule take_frame_some [of "set_pfa g (set_pfa f b)"]) (use n a c in auto)
  define b' where "b' = (set_pfa h b)\<lparr>bdevs := (bdevs b)(a := \<lparr>bd_name = take 31 nm, bd_block_size = of_nat BLOCK_SIZE,
      bd_total_blocks = 256, bd_ops = Some 0, bd_private = c, bd_flags = 0, bd_ref_count = 0\<rparr>),
    bstore := (bstore (set_pfa h b))\<lparr>ram_data := (ram_data (bstore b))(c := \<lparr>rb_blocks = (\<lambda>_. 0), rb_num_blocks = 256, rb_array = e\<rparr>)\<rparr>\<rparr>"
  have "ramblock_create nm 256 b = (a, b')" using a(1,2) c(1,2) e(1,2) by (simp add: ramblock_create_def b'_def) (simp add: set_pfa_def)
  moreover have "ram_pfa (bstore b') = h" "bd_ops (bdevs b' a) = Some 0" by (simp_all add: b'_def)
  ultimately show thesis using a c e by (intro that [of a b']) simp_all
qed

lemma vfs_block_init_ok:
  assumes "\<not> block_initialized (blk s)" "lru_head (blk s) = None" "lru_tail (blk s) = None" "pfa_inv (fr s)" "64 \<le> card (free_frames (fr s))"
  obtains b where "vfs_block_init s = s\<lparr>blk := b\<rparr>" "pfa_inv (ram_pfa (bstore b))" "card (free_frames (ram_pfa (bstore b))) + 64 = card (free_frames (fr s))"
proof -
  define b0 where "b0 = (blk s)\<lparr>registered_devices := (\<lambda>i. if i < MAX_BLOCK_DEVICES then 0 else registered_devices (blk s) i), num_devices := 0\<rparr>"
  have l: "lru_head b0 = None" "lru_tail b0 = None" using assms(2,3) by (simp_all add: b0_def)
  obtain f t where f: "buffer_cache_init (fr s) b0 = (f, t)" "pfa_inv f" "card (free_frames f) + BUFFER_CACHE_SIZE = card (free_frames (fr s))"
    by (rule buffer_cache_init_ok [OF assms(4,5) l]) (rule that)
  define b where "b = (t\<lparr>block_initialized := True\<rparr>)\<lparr>bstore := (bstore t)\<lparr>ram_pfa := f\<rparr>\<rparr>"
  have "vfs_block_init s = s\<lparr>blk := b\<rparr>"
    using assms(1) f(1) unfolding vfs_block_init_def block_device_init_def Let_def b0_def [symmetric] b_def by simp
  moreover have "ram_pfa (bstore b) = f" by (simp add: b_def)
  ultimately show thesis using f(2,3) by (intro that [of b]) simp_all
qed

section \<open>The two roots\<close>

lemma registered_keeps_frames: "bstore (snd (block_device_register dev b)) = bstore b"
  by (simp add: block_device_register_def upd_bdev_def)

lemma mount_init_sel:
  assumes "registered_fs s = []"
  shows "blk (mount_init s) = blk s" "registered_fs (mount_init s) = [ramfs_fs]" "i < MAX_MOUNTS \<Longrightarrow> mounts (mount_init s) i = free_mount"
  using assms by (simp_all add: mount_init_def fs_register_def fs_find_def ramfs_fs_def)

lemma first_slot_0: "P 0 \<Longrightarrow> 0 < n \<Longrightarrow> first_slot P n = Some 0"
  by (simp add: first_slot_eq_Some)

lemma mount_upd [simp]:
  "tree_ok L (s\<lparr>mounts := a, mount_count := b, mount_root := c\<rparr>) = tree_ok L s"
  "tree_of L (s\<lparr>mounts := a, mount_count := b, mount_root := c\<rparr>) = tree_of L s"
  by (simp_all add: tree_ok_def node_ok_def cells_def tree_of_def entries_def fun_eq_iff cong: if_cong)

text \<open>Mounting the first RAM file system: a second directory vnode, entered in slot 0.\<close>

lemma mount_root_ok:
  assumes ok: "tree_ok L s" "2 \<le> card (pfa_avail (fr s))" and m: "registered_fs s = [ramfs_fs]" "\<forall>i<MAX_MOUNTS. mounts s i = free_mount"
  obtains v t where "do_mount ram_fsops ''/'' ''ramfs'' dev 0 s = Some (0, t)" "L v = None" "tree_ok (L(v \<mapsto> [])) t"
    "tree_of (L(v \<mapsto> [])) t = (tree_of L s)(v \<mapsto> Dir Map.empty)" "root_vnode t = root_vnode s"
    "card (pfa_avail (fr t)) + 2 = card (pfa_avail (fr s))"
    "me_root (mounts t 0) = v" "me_path (mounts t 0) = ''/''" "me_in_use (mounts t 0)" "\<And>i. 0 < i \<Longrightarrow> i < MAX_MOUNTS \<Longrightarrow> mounts t i = free_mount"
  using tree_ok_pfa [OF ok(1)]
proof (cases rule: create_vnode_cases [where ty = VDIR])
  case (none f)
  then show thesis using ok(2) by simp
next
  case (some vp ip f c)
  define u where "u = upd_inode ip (\<lambda>_. new_inode VDIR (vfs_default_device s) c) (upd_vnode vp (\<lambda>_. new_vnode VDIR ip) (set_fr f s))"
  note n = new_vnode_ok [OF ok(1) some(2-9) u_def]
  have um: "mounts u = mounts s" "root_vnode u = root_vnode s" by (simp_all add: u_def)
  have fs: "first_slot (\<lambda>i. \<not> me_in_use (mounts u i)) MAX_MOUNTS = Some 0"
    by (rule first_slot_0) (simp_all add: um m(2) free_mount_def)
  have ma: "mount_at ''/'' u = None" unfolding mount_at_def first_slot_None_iff using um m(2) by (simp add: free_mount_def)
  define t where "t = u\<lparr>mounts := (mounts u)(0 := \<lparr>me_path = ''/'', me_root = vp, me_device = dev, me_fs = Some ramfs_fs, me_flags = 0,
      me_in_use = True\<rparr>), mount_count := mount_count u + 1, mount_root := vp\<rparr>"
  have cv: "ramfs_mount dev 0 s = (vp, u)" using some(1) by (simp add: ramfs_mount_def u_def)
  have "do_mount ram_fsops ''/'' ''ramfs'' dev 0 s = Some (0, t)"
    using cv some(2) fs ma m(1) by (simp add: do_mount_def fs_find_def ramfs_fs_def ram_fsops_def ramfs_fs_ops_def t_def)
  moreover have "tree_ok (L(vp \<mapsto> [])) t" using n(1) by (simp add: t_def)
  moreover have "tree_of (L(vp \<mapsto> [])) t = (tree_of L s)(vp \<mapsto> Dir Map.empty)"
    using n(4) by (simp add: t_def)
  moreover have "card (pfa_avail (fr t)) + 2 = card (pfa_avail (fr s))"
  proof -
    have "{vp, ip} \<subseteq> pfa_avail (fr s)" "card {vp, ip} = 2" using some(4-6) by simp_all
    then show ?thesis using some(7) n(5) card_Diff_subset [of "{vp, ip}" "pfa_avail (fr s)"] ok(2) by (simp add: t_def)
  qed
  ultimately show thesis using n(3) um m(2) by (intro that [of t vp]) (simp_all add: t_def)
qed

text \<open>After the start-up both roots are empty directories, and only the second is mounted.\<close>

lemma fs_init_root_ok:
  assumes "fs_start s"
  obtains r v t where "fs_init_root ram_fsops s = Some (0, t)" "r \<noteq> 0" "r \<noteq> v" "root_vnode t = r" "tree_ok [r \<mapsto> [], v \<mapsto> []] t"
    "tree_of [r \<mapsto> [], v \<mapsto> []] t = [r \<mapsto> Dir Map.empty, v \<mapsto> Dir Map.empty]" "3 \<le> card (pfa_avail (fr t))"
    "me_root (mounts t 0) = v" "me_path (mounts t 0) = ''/''" "me_in_use (mounts t 0)" "\<And>i. 0 < i \<Longrightarrow> i < MAX_MOUNTS \<Longrightarrow> mounts t i = free_mount"
proof -
  have s: "\<not> block_initialized (blk s)" "lru_head (blk s) = None" "lru_tail (blk s) = None" "registered_fs s = []" "pfa_inv (fr s)"
    "74 \<le> card (free_frames (fr s))" using assms by (simp_all add: fs_start_def)
  note m = mount_init_sel [OF s(4)]
  obtain b where b: "vfs_block_init (mount_init s) = (mount_init s)\<lparr>blk := b\<rparr>" "pfa_inv (ram_pfa (bstore b))"
      "card (free_frames (ram_pfa (bstore b))) + 64 = card (free_frames (fr s))"
    by (rule vfs_block_init_ok [of "mount_init s", unfolded m(1), OF s(1-3,5)]) (use s(6) in auto)
  obtain dev c where c: "ramblock_create ''rootfs'' 256 b = (dev, c)" "dev \<noteq> 0" "pfa_inv (ram_pfa (bstore c))"
      "card (free_frames (ram_pfa (bstore c))) + 3 = card (free_frames (ram_pfa (bstore b)))"
    by (rule ramblock_create_ok [OF b(2)]) (use s(6) b(3) in auto)
  define u where "u = (mount_init s)\<lparr>root_block_device := dev, blk := snd (block_device_register dev c), vfs_default_device := dev\<rparr>"
  have fu: "fr u = ram_pfa (bstore c)" by (simp add: u_def registered_keeps_frames)
  have cu: "card (pfa_avail (fr u)) = card (free_frames (fr s)) - 67" using card_avail [OF c(3)] c(4) b(3) fu by simp
  obtain r where r: "root_vnode (vfs_init u) = r" "r \<noteq> 0" "tree_ok [r \<mapsto> []] (vfs_init u)"
    "tree_of [r \<mapsto> []] (vfs_init u) = [r \<mapsto> Dir Map.empty]" "card (pfa_avail (fr (vfs_init u))) + 2 = card (pfa_avail (fr u))"
    by (rule vfs_init_ok [of u]) (use c(3) fu cu s(6) in auto)
  have keep: "registered_fs (vfs_init x) = registered_fs x \<and> mounts (vfs_init x) = mounts x" for x
    by (simp add: vfs_init_def vfs_create_vnode_def vfs_create_vnode_on_device_def vfs_take_def vfs_give_def upd_vnode_def upd_inode_def Let_def case_prod_beta)
  have um: "registered_fs (vfs_init u) = [ramfs_fs]" "\<forall>i<MAX_MOUNTS. mounts (vfs_init u) i = free_mount"
    using keep [of u] m(2,3) by (simp_all add: u_def)
  have two: "2 \<le> card (pfa_avail (fr (vfs_init u)))" using r(5) cu s(6) by linarith
  obtain v t where t: "do_mount ram_fsops ''/'' ''ramfs'' dev 0 (vfs_init u) = Some (0, t)" "v \<noteq> r" "tree_ok [r \<mapsto> [], v \<mapsto> []] t"
    "tree_of [r \<mapsto> [], v \<mapsto> []] t = (tree_of [r \<mapsto> []] (vfs_init u))(v \<mapsto> Dir Map.empty)" "root_vnode t = root_vnode (vfs_init u)"
    "card (pfa_avail (fr t)) + 2 = card (pfa_avail (fr (vfs_init u)))"
    "me_root (mounts t 0) = v" "me_path (mounts t 0) = ''/''" "me_in_use (mounts t 0)" "\<And>i. 0 < i \<Longrightarrow> i < MAX_MOUNTS \<Longrightarrow> mounts t i = free_mount"
    by (rule mount_root_ok [OF r(3) two um, of dev]) (rule that, (assumption | simp split: if_splits)+)
  have "fs_init_root ram_fsops s = Some (0, t)"
    using b(1) c(1,2) t(1) by (simp add: fs_init_root_def vfs_set_backing_device_def u_def)
  moreover have "3 \<le> card (pfa_avail (fr t))" using t(6) r(5) cu s(6) by linarith
  ultimately show thesis using t r(1,2,4) by (intro that [of t r v]) (auto split: if_splits)
qed

section \<open>Files of the boot tree are out of reach of path resolution\<close>

lemma make_keeps: "ramfs_make ty d nm s = Some (v, t) \<Longrightarrow> v \<noteq> 0 \<Longrightarrow> mounts t = mounts s \<and> root_vnode t = root_vnode s"
  by (auto simp: ramfs_make_def vfs_add_dirent_def vfs_create_vnode_def vfs_create_vnode_on_device_def vfs_take_def vfs_give_def
      upd_vnode_def upd_inode_def upd_dirent_def Let_def case_prod_beta bind_eq_Some_conv split: if_splits)

lemma one_component:
  assumes "nm \<noteq> []" "CHR ''/'' \<notin> set nm"
  shows "takeWhile (\<lambda>c. c \<noteq> CHR ''/'') nm = nm" "dropWhile (\<lambda>c. c = CHR ''/'') nm = nm" "components nm = [nm]"
proof -
  have t: "takeWhile (\<lambda>c. c \<noteq> CHR ''/'') nm = nm" using assms(2) by (auto simp: takeWhile_eq_all_conv)
  have h: "hd nm \<noteq> CHR ''/''" using assms by (cases nm) auto
  show "takeWhile (\<lambda>c. c \<noteq> CHR ''/'') nm = nm" by (rule t)
  show "dropWhile (\<lambda>c. c = CHR ''/'') nm = nm" using h by (cases nm) simp_all
  show "components nm = [nm]" using components_step [OF assms(1) h] unfolding t by simp
qed

lemma resolve_ramfs_name:
  assumes nm: "nm \<noteq> []" "CHR ''/'' \<notin> set nm" "nm \<noteq> ''.''" "nm \<noteq> ''..''" "length nm \<le> 63"
    and r: "vfs_get_root s \<noteq> 0" "vfs_lookup_ramfs (vfs_get_root s) nm s = Some f" "f \<noteq> 0"
  shows "vfs_resolve_path_ramfs (CHR ''/'' # nm) s = Some f"
proof -
  have c: "comp_len nm = length nm" unfolding comp_len_def one_component(1) [OF nm(1,2)] using nm(5) by simp
  have "resolve_loop nm (vfs_get_root s) s = Some f"
  proof (subst resolve_loop.simps)
    have "resolve_loop [] f s = Some f" by (subst resolve_loop.simps) simp
    then show "(let p = dropWhile (\<lambda>c. c = CHR ''/'') nm in
      if p = [] then Some (vfs_get_root s)
      else (let comp = take (comp_len p) p; p = drop (comp_len p) p in
        if comp = ''.'' then resolve_loop p (vfs_get_root s) s
        else if comp = ''..'' then resolve_loop p (if v_parent (vnodes s (vfs_get_root s)) \<noteq> 0 then v_parent (vnodes s (vfs_get_root s)) else vfs_get_root s) s
        else do {
          child \<leftarrow> vfs_lookup_ramfs (vfs_get_root s) comp s;
          if child = 0 then Some 0 else resolve_loop p child s
        })) = Some f"
      unfolding one_component(2) [OF nm(1,2)] Let_def c using nm r by simp
  qed
  then show ?thesis using nm(1) r(1) by (simp add: vfs_resolve_path_ramfs_def)
qed

text \<open>C38: with 74 free frames \<open>fs_init_root\<close> succeeds, but the root directory of
  \<open>vfs_init\<close>, which \<open>fs_populate_root\<close> and the shell fill, is not the one mounted
  at \<open>/\<close>: a file created in it is found by \<open>vfs_resolve_path_ramfs\<close> and not by
  \<open>vfs_resolve_path\<close>, which the system calls use.\<close>

theorem boot_tree_not_mounted:
  assumes s: "fs_start s" and nm: "nm \<noteq> []" "CHR ''/'' \<notin> set nm" "nm \<noteq> ''.''" "nm \<noteq> ''..''" "length nm \<le> 63"
  shows "\<exists>t f u. fs_init_root ram_fsops s = Some (0, t) \<and> vfs_create_file (vfs_get_root t) nm t = Some (f, u) \<and> f \<noteq> 0 \<and>
    vfs_resolve_path_ramfs (CHR ''/'' # nm) u = Some f \<and> vfs_resolve_path ram_vops (CHR ''/'' # nm) u = Some (- 1, 0, u)"
proof -
  obtain r v t where t: "fs_init_root ram_fsops s = Some (0, t)" "r \<noteq> 0" "r \<noteq> v" "root_vnode t = r" "tree_ok [r \<mapsto> [], v \<mapsto> []] t"
    "tree_of [r \<mapsto> [], v \<mapsto> []] t = [r \<mapsto> Dir Map.empty, v \<mapsto> Dir Map.empty]" "3 \<le> card (pfa_avail (fr t))"
    "me_root (mounts t 0) = v" "me_path (mounts t 0) = ''/''" "me_in_use (mounts t 0)" "\<And>i. 0 < i \<Longrightarrow> i < MAX_MOUNTS \<Longrightarrow> mounts t i = free_mount"
    by (rule fs_init_root_ok [OF s]) (rule that)
  have L: "[r \<mapsto> [], v \<mapsto> []] r = Some []" using t(3) by simp
  have ty: "v_type (vnodes t r) = VDIR" using fun_cong [OF t(6), of r] t(3) by (auto simp: tree_of_def split: if_splits)
  have e: "entries t [] nm = None" by simp
  from t(5) L ty e nm(5) show ?thesis
  proof (cases rule: make_ok [where ty = VREG])
    case (none u)
    then show ?thesis using t(7) by simp
  next
    case (some f K u)
    have A: "tree_of K u = [r \<mapsto> Dir [nm \<mapsto> f], v \<mapsto> Dir Map.empty, f \<mapsto> File]"
        using some(5) unfolding t(6) using t(3) by (simp add: fun_upd_twist)
    have fv: "f \<noteq> r" "f \<noteq> v" using some(4) by (auto split: if_splits)
    note k = make_keeps [OF some(1,3)]
    have c: "vfs_create_file (vfs_get_root t) nm t = Some (f, u)" using some(1) t(4) by (simp add: vfs_create_file_def vfs_get_root_def)
    have "tree_of K u r = Some (Dir [nm \<mapsto> f])" using A t(3) fv by simp
    then obtain es where "K r = Some es" "v_type (vnodes u r) = VDIR" "[nm \<mapsto> f] = entries u es" by (rule tree_of_Dir)
    then have "vfs_lookup_ramfs r nm u = Some f" using lookup_ok [OF some(2), of r es nm] by (metis fun_upd_same option.simps(5))
    then have 1: "vfs_resolve_path_ramfs (CHR ''/'' # nm) u = Some f"
      by (intro resolve_ramfs_name [OF nm]) (use t(2,4) k some(3) in \<open>simp_all add: vfs_get_root_def\<close>)
    have c0: "covers (CHR ''/'' # nm) (mounts u 0)" using t(9,10) k by (simp add: covers_def)
    have ci: "\<not> covers (CHR ''/'' # nm) (mounts u i)" if "0 < i" "i < MAX_MOUNTS" for i
      using t(11) [OF that] k by (simp add: covers_def free_mount_def)
    have m: "mount_lookup (CHR ''/'' # nm) u = Some 0"
    proof (cases "mount_lookup (CHR ''/'' # nm) u")
      case None
      then have "\<forall>i<MAX_MOUNTS. \<not> covers (CHR ''/'' # nm) (mounts u i)"
        using mount_lookup_spec [of "CHR ''/'' # nm" u] by simp
      then have "\<not> covers (CHR ''/'' # nm) (mounts u 0)" by simp
      then show ?thesis using c0 by simp
    next
      case (Some i)
      then have "i < MAX_MOUNTS" "covers (CHR ''/'' # nm) (mounts u i)"
        using mount_lookup_spec [of "CHR ''/'' # nm" u] by simp_all
      then show ?thesis using Some ci [of i] by (cases i) simp_all
    qed
    have "v \<in> dom K" using fun_cong [OF A, of v] fv by (auto simp: tree_of_def)
    then have "me_root (mounts u 0) \<in> dom K" using k t(8) by simp
    from resolve_path_tree [OF some(2) m this] have 2: "vfs_resolve_path ram_vops (CHR ''/'' # nm) u = Some (- 1, 0, u)"
      using nm(5) k t(8,9) one_component(3) [OF nm(1,2)] A fv by simp
    show ?thesis using t(1) c some(3) 1 2 by blast
  qed
qed

text \<open>A sample: 79 free frames, nothing else.\<close>

definition boot_frames :: pfa where
  "boot_frames = sample_frames\<lparr>g_bitmap_bits := 80, g_free_pages := 79\<rparr>"

lemma fs_start_sample: "fs_start (set_fr boot_frames sample_vfs)"
proof -
  have "frame_bit boot_frames i = frame_bit sample_frames i" for i by (simp add: frame_bit_iff boot_frames_def)
  then have fb: "frame_bit boot_frames i \<longleftrightarrow> i \<noteq> 0" for i by (simp add: frame_bit_sample)
  have "free_frames boot_frames = {i. i < 80 \<and> i \<noteq> 0}"
    by (simp only: free_frames_def fb) (simp add: boot_frames_def)
  also have "\<dots> = {1..<80}" by auto
  finally have ff: "free_frames boot_frames = {1..<80}" .
  then have "pfa_inv boot_frames" using fb [of 0] by (simp add: pfa_inv_def) (simp add: boot_frames_def)
  then show ?thesis using ff by (simp add: fs_start_def) (simp add: set_fr_def sample_vfs_def sample_cache_def)
qed

theorem boot_tree_not_mounted_witness:
  "\<exists>t f u. fs_init_root ram_fsops (set_fr boot_frames sample_vfs) = Some (0, t) \<and>
     vfs_create_file (vfs_get_root t) ''etc'' t = Some (f, u) \<and> f \<noteq> 0 \<and>
     vfs_resolve_path_ramfs ''/etc'' u = Some f \<and> vfs_resolve_path ram_vops ''/etc'' u = Some (- 1, 0, u)"
  using boot_tree_not_mounted [OF fs_start_sample, of "''etc''"] by simp

end
