(* ===== verification/Spec2Isabelle.thy ===== *)
theory Spec2Isabelle
  imports Kernel_Prelude Kernel_String Frame_Alloc Refcount Paging Address_Space Cow_Clone Memory_Map
    File_Table Pipe Pipe_Ends Signals Scheduler Ready_Queue Processes Process_Invariants Process_Steps
    Process_Props Net_Client Net_Frame Net_Sample Net_Props Net_Tables Net_Loopback Net_Parsers
    Block_Props Mount_Props Vfs_Files Fs_Boot
begin

text \<open>
  A verification library for the kernel of TomahawkOS, a small x86-64 operating
  system in C (\<open>src/OS/src/kernel/src\<close>; file names below are relative to it).
  The kernel hands out physical frames, maps them into address spaces with
  demand paging and copy-on-write, schedules threads of processes that
  communicate by pipes and signals, keeps files in a RAM file system behind a
  mount table and a buffer cache, and has a network stack with a loopback
  device.  The frame allocator is at the bottom: page tables, file-system nodes
  and the buffer cache take their memory from it.  Threads, descriptors,
  signals and address spaces meet in the kernel state of the scheduler.

  Conventions.  A C integer is a word of its width, or a number with the wrap
  written out; a struct is a record; a pointer into a static table is an index
  (\<open>None\<close> for NULL), a pointer into a frame is its address (0 for NULL); an array
  is a function on indices.  Every operation is a function from state to result
  and state.  A loop that may run for ever is a partial function whose value is
  then \<open>None\<close>, and that it returns is proved where a property says so.  Code
  under a lock is one step.  A device driver, or a file system other than the
  RAM file system, is a table of operations given as a parameter.

  \<^bold>\<open>Prelude.\<close>  \<open>Kernel_Prelude\<close>: word types, searches of tables and linked lists,
  ring arithmetic, and the interfaces \<open>bounded_fifo\<close> (a queue with a capacity)
  and \<open>resource_pool\<close> (resources handed out and returned), each interpreted on
  the components that provide them.

  \<^bold>\<open>Strings.\<close>  \<open>Kernel_String\<close> models \<open>string.c\<close>.  Numbers print to the decimal
  string that denotes them.

  \<^bold>\<open>Memory.\<close>  \<open>Frame_Alloc\<close> (\<open>frame_alloc.c\<close>): the bitmap; no frame is handed out
  twice without being freed.  \<open>Refcount\<close> (\<open>refcount.c\<close>): saturating counts.
  \<open>Paging\<close> (\<open>paging.c\<close>): the four-level tables, stored in frames; \<open>Address_Space\<close>
  relates a well-formed tree to the map of its pages, so that every operation
  is an update of that map; \<open>Cow_Clone\<close> has the properties of mapping, of
  copy-on-write faults and of cloning, and the missing reference of a second
  clone.  \<open>Memory_Map\<close> (\<open>mm.c\<close>, \<open>page_fault_handler.c\<close>, \<open>page_fault_handler_mm.c\<close>):
  areas and demand paging.

  \<^bold>\<open>Descriptors and pipes.\<close>  \<open>File_Table\<close> (\<open>fd.c\<close> and the descriptor calls of
  \<open>syscall.c\<close>): the open-file pool and the tables of all processes.  \<open>Pipe\<close>
  (\<open>pipe.c\<close>): a call that waits returns to the scheduler with its local
  variables, so interleavings are explicit sequences of calls.  \<open>Pipe_Ends\<close>: the
  step relation of all descriptor operations, with the counts of files and of
  pipe ends, and when a read reports end of file.

  \<^bold>\<open>Processes.\<close>  \<open>Signals\<close> (\<open>signal.c\<close>): masks and delivery.  \<open>Scheduler\<close>
  (\<open>scheduler.c\<close>, \<open>switch.asm\<close>): the linked ready queue, yields, ticks, exits and
  the context switch with the return address it leaves on the stack.
  \<open>Ready_Queue\<close>: the queue is a list and yielding is round robin.  \<open>Processes\<close>
  (\<open>proc.c\<close>, \<open>sys_proc.c\<close>): creation, fork, exit, wait and job control.
  \<open>Process_Invariants\<close> and \<open>Process_Steps\<close>: the invariant of the kernel state over
  the step relation of all these operations.  \<open>Process_Props\<close>: a well-formed
  queue and unique ids in every reachable state, exit and wait, handlers,
  permissions of \<open>kill\<close>, and the registers a timer tick mixes up.

  \<^bold>\<open>Network.\<close>  \<open>Net_Bytes\<close> (\<open>net.h\<close>, \<open>checksum.h\<close>), \<open>Netbuf\<close> (\<open>net.c\<close>), \<open>Net_Rings\<close>
  (\<open>net_rx.c\<close>, \<open>net_tx.c\<close>, the receive ring of \<open>socket.c\<close>), \<open>Net_State\<close> (the tables of
  \<open>net.c\<close>, \<open>arp.c\<close>, \<open>udp.c\<close>, \<open>socket.c\<close>, \<open>tcp.c\<close>), \<open>Net_Stack\<close> (the protocols, with the
  callbacks of \<open>dns.c\<close> and \<open>dhcp.c\<close>) and \<open>Net_Client\<close> (polling, the waiting loops, the
  clients).  The locales of \<open>Net_Frame\<close> lift a relation kept by the elementary
  changes through the whole stack; their interpretations give that no buffer
  leaks (\<open>Net_Props\<close>) and that the port tables stay well formed (\<open>Net_Tables\<close>).
  \<open>Net_Loopback\<close>: a datagram sent through all layers to the loopback device
  arrives.  \<open>Net_Parsers\<close>: the parsers end on every input.

  \<^bold>\<open>Files.\<close>  \<open>Block_Cache\<close> (\<open>block_device.c\<close>) and \<open>Ram_Block\<close> (its RAM device);
  \<open>Block_Lists\<close>, \<open>Block_Refine\<close>, \<open>Block_Ops\<close>, \<open>Block_Io\<close>: over any store that keeps the
  contract \<open>block_store\<close> the cached devices are flat arrays of bytes; \<open>Block_Props\<close>
  states this for the RAM device, which keeps the contract.  \<open>Vfs\<close> (\<open>vfs.c\<close>) and
  \<open>Mount\<close> (\<open>mount.c\<close> and the metadata calls of \<open>syscall.c\<close>); \<open>Vfs_Tree\<close>, \<open>Vfs_Dirs\<close>,
  \<open>Vfs_Refine\<close>: the nodes and linked entries in frames refine a tree of finite
  maps; \<open>Vfs_Props\<close>, \<open>Mount_Props\<close>, \<open>Vfs_Files\<close>, \<open>Fs_Boot\<close>: directories, mounts, paths
  and permissions, file contents, and the start-up.

  \<^bold>\<open>Errors of the code.\<close>  Where the code does not do what it means to, the theorem
  shows what it does: a second clone without a reference, a lost byte with two
  writers of a pipe, the stack pointer after a switch and the registers after a
  tick, a datagram delivered to the wrong socket, a block lost by a failed
  write-back, a directory list made cyclic by a renaming, a write that runs
  into the next file, a root directory that is not the mounted one.

  \<^bold>\<open>Bounds.\<close>  The search of the buffer cache follows at most as many links as
  there are buffers (64), which is enough because the lists are shown to be
  duplicate-free lists of buffers.  The depth of sends nested by the loopback
  device is a parameter; the properties hold for every depth, and delivery for
  every depth of at least one.  Waiting loops of the network clients run for
  the iteration counts of the code.

  \<^bold>\<open>Not modelled.\<close>  Device input and output (\<open>ata.c\<close>, \<open>e1000.c\<close>, \<open>vga.c\<close>, \<open>uart.c\<close>,
  \<open>timer.c\<close>, \<open>keyboard.c\<close>, \<open>hal_port_io.c\<close>), processor tables and entry code (\<open>gdt.c\<close>,
  \<open>idt.c\<close> and the assembly files except \<open>switch.asm\<close>), locks (\<open>spinlock.c\<close>), the
  terminal (\<open>tty.c\<close>), FAT32 (\<open>fat32.c\<close>), the program loader (\<open>elf_loader.c\<close>,
  \<open>elf_loader_mm.c\<close>) with most of \<open>exec_process\<close>, accounts and configuration
  (\<open>password_store.c\<close>, \<open>init_config.c\<close>), \<open>http.c\<close>, the order of start-up in \<open>kernel.c\<close>,
  demonstrations, shell and tests, the user library and the boot loader: they
  are hardware access, printing, or clients of what is modelled.  Within
  modelled files the translation cache, write protection of supervisor stores
  (taken to be off), the contents of thread stacks, and a new name of more than
  63 characters in a renaming, which overwrites the pointers of its entry, are
  left out.
\<close>

end
